(* ===== verification/Prelude.thy ===== *)
theory Prelude
  imports Main "HOL-Library.Word"
begin

text \<open>
  Shared vocabulary of the development: the C++ strings and bytes, the
  exception monad over an explicit state in which every stateful component is
  written, the decimal printing and reading of numbers (\<open>std::to_string\<close> and
  \<open>std::stoi\<close>), the character classes of \<open>cctype\<close> in the C locale, and the
  generic lemmas the component theories rely on.
\<close>

unbundle bit_operations_syntax

named_theorems exn_simps \<open>unfolding of the exception monad\<close>
named_theorems exn_dest \<open>inversion of a successful monadic run\<close>
named_theorems char_defs \<open>character classes\<close>

section \<open>Types\<close>

type_synonym byte = "8 word"

text \<open>
  A computation that may throw: it yields \<open>Inl\<close> the exception or \<open>Inr\<close> the
  returned value, and in both cases the state it leaves, because a C++ object
  keeps the changes made before an exception left one of its methods.
\<close>

type_synonym ('e, 's, 'a) exn = "'s \<Rightarrow> ('e + 'a) \<times> 's"

definition ret :: "'a \<Rightarrow> ('e, 's, 'a) exn" where
  "ret x = (\<lambda>s. (Inr x, s))"

definition throw :: "'e \<Rightarrow> ('e, 's, 'a) exn" where
  "throw e = (\<lambda>s. (Inl e, s))"

definition bnd :: "('e, 's, 'a) exn \<Rightarrow> ('a \<Rightarrow> ('e, 's, 'b) exn) \<Rightarrow> ('e, 's, 'b) exn" where
  "bnd m f = (\<lambda>s. case m s of (Inl e, s') \<Rightarrow> (Inl e, s') | (Inr x, s') \<Rightarrow> f x s')"

definition sq :: "('e, 's, 'a) exn \<Rightarrow> ('e, 's, 'b) exn \<Rightarrow> ('e, 's, 'b) exn" where
  "sq m k = bnd m (\<lambda>_. k)"

definition gets :: "('s \<Rightarrow> 'a) \<Rightarrow> ('e, 's, 'a) exn" where
  "gets f = (\<lambda>s. (Inr (f s), s))"

definition modify :: "('s \<Rightarrow> 's) \<Rightarrow> ('e, 's, unit) exn" where
  "modify f = (\<lambda>s. (Inr (), f s))"

text \<open>A computation on one half of a pair of objects.\<close>

definition on_fst :: "('e, 's, 'a) exn \<Rightarrow> ('e, 's \<times> 't, 'a) exn" where
  "on_fst m = (\<lambda>(s, t). case m s of (r, s') \<Rightarrow> (r, (s', t)))"

definition on_snd :: "('e, 't, 'a) exn \<Rightarrow> ('e, 's \<times> 't, 'a) exn" where
  "on_snd m = (\<lambda>(s, t). case m t of (r, t') \<Rightarrow> (r, (s, t')))"

lemma ret_run [simp, exn_simps]: "ret x s = (Inr x, s)"
  by (simp add: ret_def)

lemma throw_run [simp, exn_simps]: "throw e s = (Inl e, s)"
  by (simp add: throw_def)

lemma gets_run [simp, exn_simps]: "gets f s = (Inr (f s), s)"
  by (simp add: gets_def)

lemma modify_run [simp, exn_simps]: "modify f s = (Inr (), f s)"
  by (simp add: modify_def)

lemma bnd_run [exn_simps]:
  "bnd m f s = (case m s of (Inl e, s') \<Rightarrow> (Inl e, s') | (Inr x, s') \<Rightarrow> f x s')"
  by (simp add: bnd_def)

lemma sq_run [exn_simps]:
  "sq m k s = (case m s of (Inl e, s') \<Rightarrow> (Inl e, s') | (Inr x, s') \<Rightarrow> k s')"
  by (simp add: sq_def bnd_def)

lemma bnd_Inr_iff [exn_dest]:
  "bnd m f s = (Inr y, t) \<longleftrightarrow> (\<exists>x s'. m s = (Inr x, s') \<and> f x s' = (Inr y, t))"
  by (auto simp: bnd_def split: prod.splits sum.splits)

lemma sq_Inr_iff [exn_dest]:
  "sq m k s = (Inr y, t) \<longleftrightarrow> (\<exists>x s'. m s = (Inr x, s') \<and> k s' = (Inr y, t))"
  by (auto simp: sq_def exn_dest)

lemma bnd_Inl_iff:
  "bnd m f s = (Inl e, t) \<longleftrightarrow>
    m s = (Inl e, t) \<or> (\<exists>x s'. m s = (Inr x, s') \<and> f x s' = (Inl e, t))"
  by (auto simp: bnd_def split: prod.splits sum.splits)

lemma sq_Inl_iff:
  "sq m k s = (Inl e, t) \<longleftrightarrow>
    m s = (Inl e, t) \<or> (\<exists>x s'. m s = (Inr x, s') \<and> k s' = (Inl e, t))"
  by (auto simp: sq_def bnd_Inl_iff)

lemma bnd_ok [simp]: "m s = (Inr x, s') \<Longrightarrow> bnd m f s = f x s'"
  by (simp add: bnd_def)

lemma bnd_err [simp]: "m s = (Inl e, s') \<Longrightarrow> bnd m f s = (Inl e, s')"
  by (simp add: bnd_def)

lemma sq_ok [simp]: "m s = (Inr x, s') \<Longrightarrow> sq m k s = k s'"
  by (simp add: sq_def)

lemma sq_err [simp]: "m s = (Inl e, s') \<Longrightarrow> sq m k s = (Inl e, s')"
  by (simp add: sq_def)

lemma bnd_assoc: "bnd (bnd m f) g = bnd m (\<lambda>x. bnd (f x) g)"
  by (rule ext) (auto simp: bnd_def split: prod.splits sum.splits)

lemma bnd_ret [simp]: "bnd m ret = m" "bnd (ret x) f = f x"
  by (rule ext, auto simp: bnd_def split: prod.splits sum.splits)+

lemma on_fst_run [simp, exn_simps]:
  "on_fst m (s, t) = (case m s of (r, s') \<Rightarrow> (r, (s', t)))"
  by (simp add: on_fst_def)

lemma on_snd_run [simp, exn_simps]:
  "on_snd m (s, t) = (case m t of (r, t') \<Rightarrow> (r, (s, t')))"
  by (simp add: on_snd_def)

section \<open>Characters\<close>

text \<open>The classes of \<open>cctype\<close> in the C locale, on the code of the character.\<close>

definition isdigit :: "char \<Rightarrow> bool" where
  "isdigit c = (let n = of_char c :: nat in 48 \<le> n \<and> n \<le> 57)"

definition isupper :: "char \<Rightarrow> bool" where
  "isupper c = (let n = of_char c :: nat in 65 \<le> n \<and> n \<le> 90)"

definition islower :: "char \<Rightarrow> bool" where
  "islower c = (let n = of_char c :: nat in 97 \<le> n \<and> n \<le> 122)"

definition isalpha :: "char \<Rightarrow> bool" where
  "isalpha c = (isupper c \<or> islower c)"

definition isalnum :: "char \<Rightarrow> bool" where
  "isalnum c = (isalpha c \<or> isdigit c)"

definition isspace :: "char \<Rightarrow> bool" where
  "isspace c = (let n = of_char c :: nat in n = 32 \<or> (9 \<le> n \<and> n \<le> 13))"

definition toupper :: "char \<Rightarrow> char" where
  "toupper c = (if islower c then char_of ((of_char c :: nat) - 32) else c)"

definition tolower :: "char \<Rightarrow> char" where
  "tolower c = (if isupper c then char_of ((of_char c :: nat) + 32) else c)"

lemmas [char_defs] = isdigit_def isupper_def islower_def isalpha_def isalnum_def isspace_def
  toupper_def tolower_def

text \<open>The character 255, which the lexers use as the end of the input.\<close>

abbreviation EOI_CH :: char where
  "EOI_CH \<equiv> CHR 0xFF"

text \<open>Double quote and single quote, which have no printable literal here.\<close>

abbreviation DQ :: char where "DQ \<equiv> CHR 0x22"
abbreviation SQ :: char where "SQ \<equiv> CHR 0x27"
abbreviation NL :: char where "NL \<equiv> CHR 0x0A"
abbreviation BSL :: char where "BSL \<equiv> CHR 0x5C"
abbreviation TAB :: char where "TAB \<equiv> CHR 0x09"

lemma isspace_not_EOI [simp]: "\<not> isspace EOI_CH"
  by (simp add: isspace_def)

lemma isdigit_not_EOI [simp]: "\<not> isdigit EOI_CH"
  by (simp add: isdigit_def)

lemma isalnum_not_EOI [simp]: "\<not> isalnum EOI_CH"
  by (simp add: char_defs)

lemma isalpha_isalnum: "isalpha c \<Longrightarrow> isalnum c"
  by (simp add: isalnum_def)

section \<open>Decimal numbers\<close>

definition digit_char :: "nat \<Rightarrow> char" where
  "digit_char d = char_of (48 + d)"

definition char_digit :: "char \<Rightarrow> nat" where
  "char_digit c = of_char c - 48"

fun nat_str :: "nat \<Rightarrow> string" where
  "nat_str n = (if n < 10 then [digit_char n]
                else nat_str (n div 10) @ [digit_char (n mod 10)])"

declare nat_str.simps [simp del]

text \<open>\<open>std::to_string\<close> of an integer.\<close>

definition to_string :: "int \<Rightarrow> string" where
  "to_string i = (if i < 0 then CHR ''-'' # nat_str (nat (- i)) else nat_str (nat i))"

fun digits_val :: "string \<Rightarrow> nat \<Rightarrow> nat" where
  "digits_val [] acc = acc"
| "digits_val (c # cs) acc = digits_val cs (10 * acc + char_digit c)"

lemma char_digit_digit_char [simp]: "d < 10 \<Longrightarrow> char_digit (digit_char d) = d"
  by (simp add: char_digit_def digit_char_def)

lemma isdigit_digit_char [simp]: "d < 10 \<Longrightarrow> isdigit (digit_char d)"
  by (simp add: isdigit_def digit_char_def)

lemma digits_val_append [simp]:
  "digits_val (xs @ ys) acc = digits_val ys (digits_val xs acc)"
  by (induction xs arbitrary: acc) auto

lemma nat_str_digits: "\<forall>c \<in> set (nat_str n). isdigit c"
  by (induction n rule: nat_str.induct) (subst nat_str.simps, auto)

lemma nat_str_nonempty [simp]: "nat_str n \<noteq> []"
  by (subst nat_str.simps) simp

lemma digits_val_nat_str [simp]: "digits_val (nat_str n) 0 = n"
  by (induction n rule: nat_str.induct) (subst nat_str.simps, auto)

lemma nat_str_inj [simp]: "nat_str m = nat_str n \<longleftrightarrow> m = n"
  by (metis digits_val_nat_str)

lemma to_string_nat: "to_string (int n) = nat_str n"
  by (simp add: to_string_def)

text \<open>
  \<open>std::stoi\<close>: white space, an optional sign and digits, whatever follows them;
  \<open>None\<close> where it throws \<open>invalid_argument\<close> (no digits) or \<open>out_of_range\<close> (not an
  \<open>int32_t\<close>).
\<close>

definition stoi :: "string \<Rightarrow> int option" where
  "stoi t = (let u = dropWhile isspace t;
                 neg = (u \<noteq> [] \<and> hd u = CHR ''-'');
                 pos = (u \<noteq> [] \<and> hd u = CHR ''+'');
                 ds = takeWhile isdigit (if neg \<or> pos then tl u else u);
                 v = (if neg then - int (digits_val ds 0) else int (digits_val ds 0))
             in if ds = [] \<or> v < - (2 ^ 31) \<or> 2 ^ 31 \<le> v then None else Some v)"

lemma stoi_digits:
  assumes "ds \<noteq> []" "list_all isdigit ds"
  shows "stoi ds = (if digits_val ds 0 < 2 ^ 31 then Some (int (digits_val ds 0)) else None)"
proof -
  obtain d ds' where ds: "ds = d # ds'" using assms by (cases ds) auto
  have "\<not> isspace d" "d \<noteq> CHR ''-''" "d \<noteq> CHR ''+''"
    using assms ds by (auto simp: isdigit_def isspace_def Let_def)
  moreover have "takeWhile isdigit ds' = ds'" using assms ds by (simp add: list_all_iff)
  ultimately show ?thesis using assms by (simp add: stoi_def ds Let_def del: takeWhile_eq_all_conv)
qed

lemma stoi_nat_str: "n < 2 ^ 31 \<Longrightarrow> stoi (nat_str n) = Some (int n)"
  using stoi_digits [of "nat_str n"] nat_str_digits [of n] by (simp add: list_all_iff)

section \<open>Lists\<close>

lemma list_update_append_mid [simp]:
  "(xs @ y # ys)[length xs := z] = xs @ z # ys"
  by (induction xs) auto

end
