(* ===== verification/Eno.thy ===== *)
theory Eno
  imports Prelude
begin

text \<open>
  The error numbers and messages of \<open>src/eno\<close>: the constants of \<open>eno.h\<close>, the
  table \<open>ERROR_LIST\<close>, the map \<open>ERROR_MSG\<close> that \<open>init\<close> fills from it, and the
  three overloads of \<open>get_msg\<close>. The exceptions of the whole program are the
  values of the type \<open>error\<close>: the four shapes in which the code throws, and two
  outcomes that are not exceptions, the execution of undefined behaviour and
  the exhaustion of the fuel of a loop of the model.
\<close>

section \<open>Error numbers\<close>

abbreviation (input) ERRNO_LOGFILE_ERROR :: int where "ERRNO_LOGFILE_ERROR \<equiv> 1000"
abbreviation (input) ERRNO_ACCEPT_ERROR :: int where "ERRNO_ACCEPT_ERROR \<equiv> 1100"
abbreviation (input) ERRNO_ADDRINFO_ERROR :: int where "ERRNO_ADDRINFO_ERROR \<equiv> 1101"
abbreviation (input) ERRNO_SOCKET_ERROR :: int where "ERRNO_SOCKET_ERROR \<equiv> 1102"
abbreviation (input) ERRNO_CONNECT_ERROR :: int where "ERRNO_CONNECT_ERROR \<equiv> 1103"
abbreviation (input) ERRNO_RECV_ERROR :: int where "ERRNO_RECV_ERROR \<equiv> 1104"
abbreviation (input) ERRNO_BIND_ERROR :: int where "ERRNO_BIND_ERROR \<equiv> 1105"
abbreviation (input) ERRNO_LISTEN_ERROR :: int where "ERRNO_LISTEN_ERROR \<equiv> 1106"
abbreviation (input) ERRNO_SEND_ERROR :: int where "ERRNO_SEND_ERROR \<equiv> 1107"
abbreviation (input) ERRNO_GETIFADDRS_ERROR :: int where "ERRNO_GETIFADDRS_ERROR \<equiv> 1108"
abbreviation (input) ERRNO_INET_NTOP_ERROR :: int where "ERRNO_INET_NTOP_ERROR \<equiv> 1109"
abbreviation (input) ERRNO_CIDR_ERROR :: int where "ERRNO_CIDR_ERROR \<equiv> 1200"
abbreviation (input) ERRNO_SOCKOPT_ERROR :: int where "ERRNO_SOCKOPT_ERROR \<equiv> 1201"
abbreviation (input) ERRNO_SERVICE_ERROR :: int where "ERRNO_SERVICE_ERROR \<equiv> 1202"
abbreviation (input) ERRNO_CREATE_ERROR :: int where "ERRNO_CREATE_ERROR \<equiv> 1300"
abbreviation (input) ERRNO_OPEN_ERROR :: int where "ERRNO_OPEN_ERROR \<equiv> 1301"
abbreviation (input) ERRNO_BUF_BOUND_ERROR :: int where "ERRNO_BUF_BOUND_ERROR \<equiv> 1400"
abbreviation (input) ERRNO_BUF_INDEX_ERROR :: int where "ERRNO_BUF_INDEX_ERROR \<equiv> 1401"
abbreviation (input) ERRNO_BUF_SIZE_ERROR :: int where "ERRNO_BUF_SIZE_ERROR \<equiv> 1402"
abbreviation (input) ERRNO_BUF_REMAINING_ERROR :: int where "ERRNO_BUF_REMAINING_ERROR \<equiv> 1403"
abbreviation (input) ERRNO_LOAD_SCH_ERROR :: int where "ERRNO_LOAD_SCH_ERROR \<equiv> 1600"
abbreviation (input) ERRNO_SAVE_SCH_ERROR :: int where "ERRNO_SAVE_SCH_ERROR \<equiv> 1601"
abbreviation (input) ERRNO_COLUMN_ERROR :: int where "ERRNO_COLUMN_ERROR \<equiv> 1602"
abbreviation (input) ERRNO_INDEX_ERROR :: int where "ERRNO_INDEX_ERROR \<equiv> 1603"
abbreviation (input) ERRNO_FOREIGN_ERROR :: int where "ERRNO_FOREIGN_ERROR \<equiv> 1604"
abbreviation (input) ERRNO_VALUE_ERROR :: int where "ERRNO_VALUE_ERROR \<equiv> 1700"
abbreviation (input) ERRNO_SYSTEM_ERROR :: int where "ERRNO_SYSTEM_ERROR \<equiv> 1800"
abbreviation (input) ERRNO_TOKEN_ERROR :: int where "ERRNO_TOKEN_ERROR \<equiv> 1900"
abbreviation (input) ERRNO_BASE_ERROR :: int where "ERRNO_BASE_ERROR \<equiv> 2000"
abbreviation (input) ERRNO_OPCODE_ERROR :: int where "ERRNO_OPCODE_ERROR \<equiv> 2100"
abbreviation (input) ERRNO_DBMS_ERROR :: int where "ERRNO_DBMS_ERROR \<equiv> 2101"
abbreviation (input) ERRNO_MALFORMED_COLUMN_EXPR :: int where "ERRNO_MALFORMED_COLUMN_EXPR \<equiv> 2102"
abbreviation (input) ERRNO_MALFORMED_COLUMN_LIST :: int where "ERRNO_MALFORMED_COLUMN_LIST \<equiv> 2103"
abbreviation (input) ERRNO_MALFORMED_COMPARISON :: int where "ERRNO_MALFORMED_COMPARISON \<equiv> 2104"
abbreviation (input) ERRNO_MALFORMED_DATABASE_REF :: int where "ERRNO_MALFORMED_DATABASE_REF \<equiv> 2105"
abbreviation (input) ERRNO_MALFORMED_FOREIGN_KEY :: int where "ERRNO_MALFORMED_FOREIGN_KEY \<equiv> 2106"
abbreviation (input) ERRNO_MALFORMED_JOIN :: int where "ERRNO_MALFORMED_JOIN \<equiv> 2107"
abbreviation (input) ERRNO_MALFORMED_PRIMARY_KEY :: int where "ERRNO_MALFORMED_PRIMARY_KEY \<equiv> 2108"
abbreviation (input) ERRNO_MALFORMED_TABLE_REF :: int where "ERRNO_MALFORMED_TABLE_REF \<equiv> 2109"
abbreviation (input) ERRNO_MALFORMED_UNIQUE_KEY :: int where "ERRNO_MALFORMED_UNIQUE_KEY \<equiv> 2110"
abbreviation (input) ERRNO_MALFORMED_VALUE_LIST :: int where "ERRNO_MALFORMED_VALUE_LIST \<equiv> 2111"
abbreviation (input) ERRNO_MALFORMED_EXPR_LIST :: int where "ERRNO_MALFORMED_EXPR_LIST \<equiv> 2112"
abbreviation (input) ERRNO_MALFORMED_EXPR :: int where "ERRNO_MALFORMED_EXPR \<equiv> 2113"
abbreviation (input) ERRNO_MULTIPLE_PRIMARY_KEY :: int where "ERRNO_MULTIPLE_PRIMARY_KEY \<equiv> 2114"
abbreviation (input) ERRNO_CREAT_DATABASE_ERROR :: int where "ERRNO_CREAT_DATABASE_ERROR \<equiv> 2115"
abbreviation (input) ERRNO_CREAT_TABLE_ERROR :: int where "ERRNO_CREAT_TABLE_ERROR \<equiv> 2116"
abbreviation (input) ERRNO_CREAT_USER_ERROR :: int where "ERRNO_CREAT_USER_ERROR \<equiv> 2117"
abbreviation (input) ERRNO_NO_DATABASE_ERROR :: int where "ERRNO_NO_DATABASE_ERROR \<equiv> 2118"
abbreviation (input) ERRNO_UPDATE_ERROR :: int where "ERRNO_UPDATE_ERROR \<equiv> 2119"
abbreviation (input) ERRNO_ALTER_ERROR :: int where "ERRNO_ALTER_ERROR \<equiv> 2120"
abbreviation (input) ERRNO_ALTER_ADD_COLUMN :: int where "ERRNO_ALTER_ADD_COLUMN \<equiv> 2121"
abbreviation (input) ERRNO_MALFORMED_NAME :: int where "ERRNO_MALFORMED_NAME \<equiv> 2122"
abbreviation (input) ERRNO_ACCESS_DENIED :: int where "ERRNO_ACCESS_DENIED \<equiv> 2123"
abbreviation (input) ERRNO_BAD_PASSWORD :: int where "ERRNO_BAD_PASSWORD \<equiv> 2124"
abbreviation (input) ERRNO_DIVIDE_BY_ZERO :: int where "ERRNO_DIVIDE_BY_ZERO \<equiv> 2125"
abbreviation (input) ERRNO_MALFORMED_ADDITION :: int where "ERRNO_MALFORMED_ADDITION \<equiv> 2126"
abbreviation (input) ERRNO_MALFORMED_DIVISION :: int where "ERRNO_MALFORMED_DIVISION \<equiv> 2127"
abbreviation (input) ERRNO_MALFORMED_MULTIPLY :: int where "ERRNO_MALFORMED_MULTIPLY \<equiv> 2128"
abbreviation (input) ERRNO_MALFORMED_SUBTRACT :: int where "ERRNO_MALFORMED_SUBTRACT \<equiv> 2129"
abbreviation (input) ERRNO_MALFORMED_REFERENCE :: int where "ERRNO_MALFORMED_REFERENCE \<equiv> 2130"
abbreviation (input) ERRNO_DROP_PRIMARY_KEY :: int where "ERRNO_DROP_PRIMARY_KEY \<equiv> 2131"
abbreviation (input) ERRNO_INFILE_ERROR :: int where "ERRNO_INFILE_ERROR \<equiv> 2132"
abbreviation (input) ERRNO_DUPLICATE_KEY :: int where "ERRNO_DUPLICATE_KEY \<equiv> 2133"
abbreviation (input) ERRNO_OUTFILE_ERROR :: int where "ERRNO_OUTFILE_ERROR \<equiv> 2134"
abbreviation (input) ERRNO_CRYPTO_ERROR :: int where "ERRNO_CRYPTO_ERROR \<equiv> 2200"
abbreviation (input) ERRNO_CIPHER_ERROR :: int where "ERRNO_CIPHER_ERROR \<equiv> 2300"
abbreviation (input) ERRNO_SOURCE_ERROR :: int where "ERRNO_SOURCE_ERROR \<equiv> 2301"
abbreviation (input) ERRNO_HASH_FILE_ERROR :: int where "ERRNO_HASH_FILE_ERROR \<equiv> 2302"
abbreviation (input) ERRNO_HOME_VAR :: int where "ERRNO_HOME_VAR \<equiv> 2303"
abbreviation (input) ERRNO_READ_HISTORY :: int where "ERRNO_READ_HISTORY \<equiv> 2304"
abbreviation (input) ERRNO_WRITE_HISTORY :: int where "ERRNO_WRITE_HISTORY \<equiv> 2305"
abbreviation (input) ERRNO_SCHEMA_ERROR :: int where "ERRNO_SCHEMA_ERROR \<equiv> 2306"

section \<open>Message table\<close>

definition ERROR_LIST :: "(int \<times> string) list" where
  "ERROR_LIST = [
    (ERRNO_LOGFILE_ERROR, ''Log file error''),
    (ERRNO_ACCEPT_ERROR, ''Accept connection error''),
    (ERRNO_ADDRINFO_ERROR, ''Address info error''),
    (ERRNO_SOCKET_ERROR, ''Socket error''),
    (ERRNO_CONNECT_ERROR, ''Connect error''),
    (ERRNO_RECV_ERROR, ''Receive error''),
    (ERRNO_BIND_ERROR, ''Bind error''),
    (ERRNO_LISTEN_ERROR, ''Listen error''),
    (ERRNO_SEND_ERROR, ''Send error''),
    (ERRNO_GETIFADDRS_ERROR, ''Interface error''),
    (ERRNO_INET_NTOP_ERROR, ''Address error''),
    (ERRNO_CIDR_ERROR, ''CIDR error''),
    (ERRNO_SOCKOPT_ERROR, ''Socket Option error''),
    (ERRNO_SERVICE_ERROR, ''Get service error''),
    (ERRNO_CREATE_ERROR, ''Create file failed''),
    (ERRNO_OPEN_ERROR, ''Open file failed''),
    (ERRNO_BUF_BOUND_ERROR, ''Bad buffer-bound''),
    (ERRNO_BUF_INDEX_ERROR, ''Bad buffer-index''),
    (ERRNO_BUF_SIZE_ERROR, ''buffer-size mismatch''),
    (ERRNO_BUF_REMAINING_ERROR, ''buffer-remaining underflow''),
    (ERRNO_LOAD_SCH_ERROR, ''Load schema failed''),
    (ERRNO_SAVE_SCH_ERROR, ''Save schema failed''),
    (ERRNO_COLUMN_ERROR, ''Bad column name''),
    (ERRNO_INDEX_ERROR, ''Bad index name''),
    (ERRNO_FOREIGN_ERROR, ''Bad foreign name''),
    (ERRNO_VALUE_ERROR, ''Bad row value''),
    (ERRNO_TOKEN_ERROR, ''Unexpected token''),
    (ERRNO_BASE_ERROR, ''Bad base path''),
    (ERRNO_OPCODE_ERROR, ''Unexpected opcode''),
    (ERRNO_DBMS_ERROR, ''DBMS error''),
    (ERRNO_SCHEMA_ERROR, ''Schema error''),
    (ERRNO_SYSTEM_ERROR, ''System error''),
    (ERRNO_MALFORMED_COLUMN_EXPR, ''Malformed column expression''),
    (ERRNO_MALFORMED_COLUMN_LIST, ''Malformed column list''),
    (ERRNO_MALFORMED_COMPARISON, ''Malformed comparison''),
    (ERRNO_MALFORMED_DATABASE_REF, ''Malformed database reference''),
    (ERRNO_MALFORMED_FOREIGN_KEY, ''Malformed foreign key''),
    (ERRNO_MALFORMED_JOIN, ''Malformed join''),
    (ERRNO_MALFORMED_PRIMARY_KEY, ''Malformed primary key''),
    (ERRNO_MALFORMED_TABLE_REF, ''Malformed table reference''),
    (ERRNO_MALFORMED_UNIQUE_KEY, ''Malformed unique key''),
    (ERRNO_MALFORMED_VALUE_LIST, ''Malformed value list''),
    (ERRNO_MALFORMED_EXPR_LIST, ''Malformed expression list''),
    (ERRNO_MALFORMED_EXPR, ''Malformed expression''),
    (ERRNO_MULTIPLE_PRIMARY_KEY, ''Multiple primary key''),
    (ERRNO_CREAT_DATABASE_ERROR, ''Create database failed; database already exists''),
    (ERRNO_CREAT_TABLE_ERROR, ''Create table failed; table already exists''),
    (ERRNO_CREAT_USER_ERROR, ''Create user failed; user already exists''),
    (ERRNO_NO_DATABASE_ERROR, ''No database selected''),
    (ERRNO_UPDATE_ERROR, ''Update of auto-increment or primary-key field not allowed''),
    (ERRNO_ALTER_ERROR, ''Currently only empty tables can be altered''),
    (ERRNO_ALTER_ADD_COLUMN, ''Attempting to add column into primary-key''),
    (ERRNO_MALFORMED_NAME, ''Malformed username or hostname''),
    (ERRNO_ACCESS_DENIED, ''Access denied''),
    (ERRNO_BAD_PASSWORD, ''Bad password''),
    (ERRNO_DIVIDE_BY_ZERO, ''Divide by zero''),
    (ERRNO_MALFORMED_ADDITION, ''Malformed addition''),
    (ERRNO_MALFORMED_DIVISION, ''Malformed division''),
    (ERRNO_MALFORMED_MULTIPLY, ''Malformed multiplication''),
    (ERRNO_MALFORMED_SUBTRACT, ''Malformed subtraction''),
    (ERRNO_MALFORMED_REFERENCE, ''Malformed reference''),
    (ERRNO_DROP_PRIMARY_KEY, ''Attempt to drop primary key''),
    (ERRNO_INFILE_ERROR, ''Failed to open infile (see README for INFILE usage)''),
    (ERRNO_DUPLICATE_KEY, ''Duplicate key error''),
    (ERRNO_OUTFILE_ERROR, ''Failed to open outfile (see README for OUTFILE usage)''),
    (ERRNO_CRYPTO_ERROR, ''Crypto error''),
    (ERRNO_CIPHER_ERROR, ''Cipher error''),
    (ERRNO_SOURCE_ERROR, ''Source error''),
    (ERRNO_HASH_FILE_ERROR, ''Hash file error''),
    (ERRNO_HOME_VAR, ''HOME environment variable missing''),
    (ERRNO_READ_HISTORY, ''History file read error''),
    (ERRNO_READ_HISTORY, ''History file write error'')]"

text \<open>\<open>ERROR_MSG[p.first] = p.second\<close> for each pair of the list, in order.\<close>

definition init_msg :: "int \<rightharpoonup> string" where
  "init_msg = foldl (\<lambda>m (n, t). m(n \<mapsto> t)) Map.empty ERROR_LIST"

definition get_msg :: "(int \<rightharpoonup> string) \<Rightarrow> int \<Rightarrow> string" where
  "get_msg ERROR_MSG errno = (case ERROR_MSG errno of
      None \<Rightarrow> []
    | Some t \<Rightarrow> ''ERROR<'' @ to_string errno @ ''> '' @ t)"

definition get_msg_code :: "(int \<rightharpoonup> string) \<Rightarrow> int \<Rightarrow> int \<Rightarrow> string" where
  "get_msg_code ERROR_MSG errno code = (case ERROR_MSG errno of
      None \<Rightarrow> []
    | Some t \<Rightarrow> ''ERROR<'' @ to_string errno @ ''> '' @ t @ '' ('' @ to_string code @ '')'')"

definition get_msg_rem :: "(int \<rightharpoonup> string) \<Rightarrow> int \<Rightarrow> string \<Rightarrow> string" where
  "get_msg_rem ERROR_MSG errno rem = (case ERROR_MSG errno of
      None \<Rightarrow> []
    | Some t \<Rightarrow> ''ERROR<'' @ to_string errno @ ''> '' @ t @ '': '' @ rem)"

section \<open>Exceptions\<close>

datatype error =
    Runtime int              \<comment> \<open>\<open>runtime_error{get_msg(n)}\<close>\<close>
  | Runtime_code int int     \<comment> \<open>\<open>runtime_error{get_msg(n, code)}\<close>\<close>
  | Runtime_rem int string   \<comment> \<open>\<open>runtime_error{get_msg(n, rem)}\<close>\<close>
  | Logic_error string       \<comment> \<open>an exception of the standard library: \<open>stoi\<close>, \<open>at\<close>\<close>
  | Undefined string         \<comment> \<open>undefined behaviour, with the place where it happens\<close>
  | Fuel                     \<comment> \<open>the model of a loop ran out of fuel\<close>

fun what :: "error \<Rightarrow> string" where
  "what (Runtime n) = get_msg init_msg n"
| "what (Runtime_code n code) = get_msg_code init_msg n code"
| "what (Runtime_rem n rem) = get_msg_rem init_msg n rem"
| "what (Logic_error t) = t"
| "what (Undefined t) = []"
| "what Fuel = []"

text \<open>Whether \<open>catch (std::runtime_error&)\<close> catches the exception.\<close>

fun is_runtime_error :: "error \<Rightarrow> bool" where
  "is_runtime_error (Runtime _) = True"
| "is_runtime_error (Runtime_code _ _) = True"
| "is_runtime_error (Runtime_rem _ _) = True"
| "is_runtime_error (Logic_error _) = False"
| "is_runtime_error (Undefined _) = False"
| "is_runtime_error Fuel = False"

section \<open>The table gives every listed number its last message\<close>

lemma foldl_upd_map_of:
  "foldl (\<lambda>m (n, t). m(n \<mapsto> t)) m xs = m ++ map_of (rev xs)"
proof (induction xs arbitrary: m)
  case (Cons x xs)
  obtain n t where x: "x = (n, t)" by (cases x)
  show ?case
    unfolding x foldl_Cons prod.case Cons.IH
    by (simp add: map_add_assoc [symmetric] map_add_upd)
qed simp

lemma init_msg_map_of: "init_msg = map_of (rev ERROR_LIST)"
  by (simp add: init_msg_def foldl_upd_map_of)

lemma init_msg_dom: "dom init_msg = fst ` set ERROR_LIST"
  by (simp add: init_msg_map_of dom_map_of_conv_image_fst)

lemma takeWhile_number:
  "takeWhile isdigit (nat_str n @ CHR ''>'' # rest) = nat_str n"
  using nat_str_digits [of n] by (simp add: takeWhile_tail isdigit_def)

lemma ERROR_LIST_range: "list_all (\<lambda>p. 1000 \<le> fst p \<and> fst p < 2400) ERROR_LIST"
  by code_simp

lemma listed_range: "n \<in> fst ` set ERROR_LIST \<Longrightarrow> 1000 \<le> n \<and> n < 2400"
  using ERROR_LIST_range by (auto simp: list_all_iff)

lemma listed_Some: "n \<in> fst ` set ERROR_LIST \<Longrightarrow> \<exists>t. init_msg n = Some t"
  using init_msg_dom by auto

lemma listed_stoi:
  assumes "n \<in> fst ` set ERROR_LIST"
  shows "stoi (nat_str (nat n)) = Some n" "to_string n = nat_str (nat n)"
  using listed_range [OF assms] stoi_nat_str [of "nat n"] by (auto simp: to_string_def)

section \<open>Properties\<close>

text \<open>
  C29. Every listed error number can be recovered from the text of the
  exception that carries it: in all three renderings of \<open>get_msg\<close> the digits
  after \<open>ERROR<\<close> read back as the number, so that no two errors share a text.
\<close>

theorem what_identifies_error:
  assumes "n \<in> fst ` set ERROR_LIST"
  shows "stoi (takeWhile isdigit (drop 6 (what (Runtime n)))) = Some n
    \<and> stoi (takeWhile isdigit (drop 6 (what (Runtime_code n code)))) = Some n
    \<and> stoi (takeWhile isdigit (drop 6 (what (Runtime_rem n rem)))) = Some n"
  using listed_Some [OF assms] listed_stoi [OF assms]
  by (auto simp: get_msg_def get_msg_code_def get_msg_rem_def takeWhile_number
      simp del: takeWhile_append takeWhile_eq_all_conv)

theorem what_identifies_error_witness:
  "ERRNO_TOKEN_ERROR \<in> fst ` set ERROR_LIST
    \<and> stoi (takeWhile isdigit (drop 6 (what (Runtime_rem 1900 ''x'')))) = Some 1900"
proof -
  have "ERRNO_TOKEN_ERROR \<in> fst ` set ERROR_LIST" by code_simp
  with what_identifies_error [OF this, of 0 "''x''"] show ?thesis by simp
qed

text \<open>
  \<open>ERRNO_WRITE_HISTORY\<close> is the one number without a table entry: the
  entry meant for it repeats \<open>ERRNO_READ_HISTORY\<close>. A failed write is reported
  with an empty text, and a failed read as a failed write.
\<close>

theorem history_messages:
  "what (Runtime ERRNO_WRITE_HISTORY) = []
    \<and> what (Runtime ERRNO_READ_HISTORY) = ''ERROR<2304> History file write error''"
proof -
  have "init_msg 2305 = None" "init_msg 2304 = Some ''History file write error''"
    unfolding init_msg_map_of by code_simp+
  moreover have "to_string 2304 = ''2304''" by code_simp
  ultimately show ?thesis by (simp add: get_msg_def)
qed

end
