(* ===== verification/Bcalc.thy ===== *)
theory Bcalc
  imports Eno "HOL-Library.Signed_Division"
begin

text \<open>
  The node geometry of the b-tree: the layout constants of \<open>src/btree/const.h\<close>
  and the class \<open>bcalc\<close> (\<open>src/bcalc\<close>), which derives the order and the minimum
  degree of a tree from the size of its key.
\<close>

section \<open>Layout constants\<close>
abbreviation (input) BUFFER_SZ :: int where "BUFFER_SZ \<equiv> 32768"
abbreviation (input) NODE_HDR_SZ :: int where "NODE_HDR_SZ \<equiv> 24"
abbreviation (input) IS_LEAF_SZ :: int where "IS_LEAF_SZ \<equiv> 1"
abbreviation (input) NUM_KEY_SZ :: int where "NUM_KEY_SZ \<equiv> 2"
abbreviation (input) PREV_SIBLING_SZ :: int where "PREV_SIBLING_SZ \<equiv> 8"
abbreviation (input) NEXT_SIBLING_SZ :: int where "NEXT_SIBLING_SZ \<equiv> 8"
abbreviation (input) IS_LEAF_POS :: int where "IS_LEAF_POS \<equiv> 0"
abbreviation (input) NUM_KEY_POS :: int where "NUM_KEY_POS \<equiv> 2"
abbreviation (input) PREV_SIBLING_POS :: int where "PREV_SIBLING_POS \<equiv> 4"
abbreviation (input) NEXT_SIBLING_POS :: int where "NEXT_SIBLING_POS \<equiv> 12"
abbreviation (input) ELEMENT_VECTOR_POS :: int where "ELEMENT_VECTOR_POS \<equiv> NODE_HDR_SZ"
abbreviation (input) CHILD_OFFSET_SZ :: int where "CHILD_OFFSET_SZ \<equiv> 8"
abbreviation (input) BLOCK_OFFSET_SZ :: int where "BLOCK_OFFSET_SZ \<equiv> 8"
abbreviation (input) CHILD_OFFSET_POS :: int where "CHILD_OFFSET_POS \<equiv> 0"
abbreviation (input) BLOCK_OFFSET_POS :: int where "BLOCK_OFFSET_POS \<equiv> 0"
abbreviation (input) KEY_POS :: int where "KEY_POS \<equiv> 8"
abbreviation (input) DATA_HDR_SZ :: int where "DATA_HDR_SZ \<equiv> 24"
abbreviation (input) REM_SZ :: int where "REM_SZ \<equiv> 4"
abbreviation (input) ROW_HEAD_SZ :: int where "ROW_HEAD_SZ \<equiv> 2"
abbreviation (input) ROW_TAIL_SZ :: int where "ROW_TAIL_SZ \<equiv> 2"
abbreviation (input) REM_POS :: int where "REM_POS \<equiv> 0"
abbreviation (input) ROW_HEAD_POS :: int where "ROW_HEAD_POS \<equiv> 20"
abbreviation (input) ROW_TAIL_POS :: int where "ROW_TAIL_POS \<equiv> 22"
abbreviation (input) ROW_SIZE_SZ :: int where "ROW_SIZE_SZ \<equiv> 2"
abbreviation (input) ROW_PREV_SZ :: int where "ROW_PREV_SZ \<equiv> 2"
abbreviation (input) ROW_NEXT_SZ :: int where "ROW_NEXT_SZ \<equiv> 2"
abbreviation (input) COLUMN_SIZE_SZ :: int where "COLUMN_SIZE_SZ \<equiv> 1"
abbreviation (input) ROW_SIZE_POS :: int where "ROW_SIZE_POS \<equiv> 0"
abbreviation (input) ROW_PREV_POS :: int where "ROW_PREV_POS \<equiv> 2"
abbreviation (input) ROW_NEXT_POS :: int where "ROW_NEXT_POS \<equiv> 4"
abbreviation (input) COLUMN_SIZE_POS :: int where "COLUMN_SIZE_POS \<equiv> 6"
abbreviation (input) INVALID_SIBLING_REF :: int where "INVALID_SIBLING_REF \<equiv> - (2 ^ 63)"

section \<open>The calculator\<close>

record bcalc =
  m_key_size :: int

definition bcalc_new :: "int \<Rightarrow> bcalc" where
  "bcalc_new key_size = \<lparr> m_key_size = key_size \<rparr>"

definition bcalc_assign :: "bcalc \<Rightarrow> bcalc \<Rightarrow> bcalc" where
  "bcalc_assign this other = this \<lparr> m_key_size := m_key_size other \<rparr>"

text \<open>C++ integer division truncates towards zero, as \<open>sdiv\<close> does.\<close>

definition order :: "bcalc \<Rightarrow> int" where
  "order c = (let VECTOR_ELEMENT_SZ = CHILD_OFFSET_SZ + m_key_size c
              in (BUFFER_SZ - (NODE_HDR_SZ + CHILD_OFFSET_SZ)) sdiv VECTOR_ELEMENT_SZ)"

definition min_degree :: "bcalc \<Rightarrow> int" where
  "min_degree c = (let VECTOR_ELEMENT_SZ = CHILD_OFFSET_SZ + m_key_size c;
                       ord = (BUFFER_SZ - (NODE_HDR_SZ + CHILD_OFFSET_SZ)) sdiv VECTOR_ELEMENT_SZ
                   in ord sdiv 2)"

section \<open>The calculated order fills the node buffer\<close>

lemma sdiv_int_nonneg: "0 \<le> (a::int) \<Longrightarrow> 0 \<le> b \<Longrightarrow> a sdiv b = a div b"
  by (cases "a = 0"; cases "b = 0") (auto simp: signed_divide_int_def sgn_if)

lemma order_eq: "0 \<le> m_key_size c \<Longrightarrow> order c = 32736 div (8 + m_key_size c)"
  by (simp add: order_def sdiv_int_nonneg)

lemma order_nonneg: "0 \<le> m_key_size c \<Longrightarrow> 0 \<le> order c"
  by (simp add: order_eq pos_imp_zdiv_nonneg_iff)

lemma min_degree_eq: "0 \<le> m_key_size c \<Longrightarrow> min_degree c = order c div 2"
  using order_nonneg [of c] by (simp add: min_degree_def order_def sdiv_int_nonneg)

lemma order_bracket:
  assumes "0 \<le> m_key_size c"
  shows "order c * (8 + m_key_size c) \<le> 32736"
    and "32736 < (order c + 1) * (8 + m_key_size c)"
proof -
  have pos: "0 < 8 + m_key_size c" using assms by simp
  have "32736 = order c * (8 + m_key_size c) + 32736 mod (8 + m_key_size c)"
    unfolding order_eq [OF assms] by (rule div_mult_mod_eq [symmetric])
  moreover have "0 \<le> 32736 mod (8 + m_key_size c)" "32736 mod (8 + m_key_size c) < 8 + m_key_size c"
    using pos by simp_all
  ultimately show "order c * (8 + m_key_size c) \<le> 32736"
    and "32736 < (order c + 1) * (8 + m_key_size c)"
    by (simp_all add: algebra_simps)
qed

lemma order_ge_iff:
  assumes "0 \<le> m_key_size c"
  shows "n \<le> order c \<longleftrightarrow> n * (8 + m_key_size c) \<le> 32736"
proof -
  have pos: "0 < 8 + m_key_size c" using assms by simp
  show ?thesis
  proof
    assume "n \<le> order c"
    then have "n * (8 + m_key_size c) \<le> order c * (8 + m_key_size c)"
      using pos by (intro mult_right_mono) auto
    with order_bracket(1) [OF assms] show "n * (8 + m_key_size c) \<le> 32736" by linarith
  next
    assume "n * (8 + m_key_size c) \<le> 32736"
    with order_bracket(2) [OF assms] have "n * (8 + m_key_size c) < (order c + 1) * (8 + m_key_size c)"
      by linarith
    with pos show "n \<le> order c" by simp
  qed
qed

section \<open>Properties\<close>

text \<open>
  C28. For every key size, the \<open>order\<close> that \<open>bcalc\<close> computes is exactly the
  number of (child offset, key) elements that fit in a node buffer behind the
  node header and the extra child offset: that many elements fit in
  \<open>BUFFER_SZ\<close> bytes and one more does not. \<open>min_degree\<close> is half of it, so that
  a node of at most \<open>2 * min_degree - 1\<close> keys always fits, and the tree has a
  usable minimum degree of at least two exactly for keys of at most 8176 bytes.
\<close>

theorem order_fills_node:
  fixes c :: bcalc
  assumes "0 \<le> m_key_size c"
  shows "NODE_HDR_SZ + CHILD_OFFSET_SZ + order c * (CHILD_OFFSET_SZ + m_key_size c) \<le> BUFFER_SZ
    \<and> BUFFER_SZ < NODE_HDR_SZ + CHILD_OFFSET_SZ + (order c + 1) * (CHILD_OFFSET_SZ + m_key_size c)
    \<and> 2 * min_degree c \<le> order c \<and> order c \<le> 2 * min_degree c + 1
    \<and> (2 \<le> min_degree c \<longleftrightarrow> m_key_size c \<le> 8176)"
proof -
  have "2 \<le> min_degree c \<longleftrightarrow> 4 \<le> order c"
    by (simp add: min_degree_eq [OF assms]) linarith
  also have "\<dots> \<longleftrightarrow> m_key_size c \<le> 8176"
    using order_ge_iff [OF assms, of 4] by simp
  finally have usable: "2 \<le> min_degree c \<longleftrightarrow> m_key_size c \<le> 8176" .
  have "2 * min_degree c \<le> order c" "order c \<le> 2 * min_degree c + 1"
    unfolding min_degree_eq [OF assms] by linarith+
  then show ?thesis
    using order_bracket [OF assms] usable by simp
qed

theorem order_fills_node_witness:
  "order (bcalc_new 4) = 2728 \<and> min_degree (bcalc_new 4) = 1364
    \<and> NODE_HDR_SZ + CHILD_OFFSET_SZ + order (bcalc_new 4) * 12 \<le> BUFFER_SZ"
  using order_fills_node [of "bcalc_new 4"]
  by (simp add: bcalc_new_def order_eq min_degree_eq)

text \<open>
  The order is not always even, contrary to the comment of
  \<open>node::is_full\<close>: with keys of one byte it is 3637, and a node that holds the
  \<open>order - 1\<close> keys at which \<open>is_full\<close> starts to answer true has twice the
  minimum degree, one key more than the stated maximum of \<open>2t - 1\<close>.
\<close>

theorem order_may_be_odd:
  "order (bcalc_new 1) = 3637 \<and> min_degree (bcalc_new 1) = 1818
    \<and> order (bcalc_new 1) - 1 = 2 * min_degree (bcalc_new 1)"
  by (simp add: bcalc_new_def order_eq min_degree_eq)

end
