(* ===== verification/Lexer.thy ===== *)
theory Lexer
  imports Eno
begin

text \<open>
  What the two lexers of the program share. The SQL translator (\<open>src/tran\<close>)
  and the assembler (\<open>src/comp\<close>) each have a lexer class with the same state
  (input, mark, index, current character) and the same \<open>consume\<close>, \<open>peek\<close>,
  \<open>remaining\<close> and keyword lookup; both produce the \<open>token\<close> of \<open>src/token\<close>. The
  keyword lookup is a binary search in a sorted table: the locale
  \<open>symbol_table\<close> states what the search needs and proves it equal to a lookup
  in the table.
\<close>

section \<open>Tokens\<close>

record token =
  m_type :: int
  m_text :: string

definition token_new :: "int \<Rightarrow> string \<Rightarrow> token" where
  "token_new type text = \<lparr> m_type = type, m_text = text \<rparr>"

definition token_default :: token where
  "token_default = \<lparr> m_type = -1, m_text = [] \<rparr>"

definition token_assign :: "token \<Rightarrow> token \<Rightarrow> token" where
  "token_assign this tok = this \<lparr> m_type := m_type tok, m_text := m_text tok \<rparr>"

text \<open>The type of the end-of-input token, \<open>static_cast<char>(255)\<close> as an \<open>int32_t\<close>.\<close>

abbreviation (input) EOI :: int where "EOI \<equiv> -1"

lemma token_new_sel [simp]: "m_type (token_new ty tx) = ty" "m_text (token_new ty tx) = tx"
  by (simp_all add: token_new_def)

lemma token_new_eq [simp]: "token_new a s = token_new b t \<longleftrightarrow> a = b \<and> s = t"
  by (simp add: token_new_def)

section \<open>Keyword tables\<close>

text \<open>\<open>std::string::compare\<close>, on the codes of the characters.\<close>

fun str_compare :: "string \<Rightarrow> string \<Rightarrow> int" where
  "str_compare [] [] = 0"
| "str_compare [] (_ # _) = -1"
| "str_compare (_ # _) [] = 1"
| "str_compare (a # as) (b # bs) =
     (if (of_char a :: nat) < of_char b then -1
      else if (of_char a :: nat) > of_char b then 1
      else str_compare as bs)"

text \<open>The search loop of \<open>get_symbol_type\<close>.\<close>

function symbol_search :: "(string \<times> int) list \<Rightarrow> string \<Rightarrow> int \<Rightarrow> int \<Rightarrow> int" where
  "symbol_search tbl uc_text lo hi =
     (if lo \<le> hi then
        let mid = (lo + hi) div 2;
            cond = str_compare uc_text (fst (tbl ! nat mid))
        in if cond < 0 then symbol_search tbl uc_text lo (mid - 1)
           else if cond > 0 then symbol_search tbl uc_text (mid + 1) hi
           else snd (tbl ! nat mid)
      else -1)"
  by pat_completeness auto
termination
  by (relation "measure (\<lambda>(tbl, t, lo, hi). nat (hi - lo + 1))") auto

declare symbol_search.simps [simp del]

definition symbol_type :: "(string \<times> int) list \<Rightarrow> string \<Rightarrow> int" where
  "symbol_type tbl text = symbol_search tbl (map toupper text) 0 (int (length tbl) - 1)"

lemma str_compare_refl [simp]: "str_compare s s = 0"
  by (induction s) auto

lemma str_compare_zero: "str_compare s t = 0 \<Longrightarrow> s = t"
  by (induction s t rule: str_compare.induct)
     (auto split: if_splits simp: not_less_iff_gr_or_eq)

lemma str_compare_flip: "str_compare s t < 0 \<longleftrightarrow> 0 < str_compare t s"
  by (induction s t rule: str_compare.induct) auto

text \<open>The comparison is the lexicographic order of the character codes.\<close>

fun codes_less :: "nat list \<Rightarrow> nat list \<Rightarrow> bool" where
  "codes_less _ [] = False"
| "codes_less [] (_ # _) = True"
| "codes_less (a # as) (b # bs) = (a < b \<or> a = b \<and> codes_less as bs)"

lemma codes_less_trans: "codes_less xs ys \<Longrightarrow> codes_less ys zs \<Longrightarrow> codes_less xs zs"
proof (induction xs zs arbitrary: ys rule: codes_less.induct)
  case (1 xs)
  then show ?case by (cases ys) auto
next
  case (3 a as b bs)
  then show ?case by (cases ys) auto
qed simp

lemma str_compare_codes: "str_compare s t < 0 \<longleftrightarrow> codes_less (map of_char s) (map of_char t)"
  by (induction s t rule: str_compare.induct) auto

lemma transp_str_compare: "transp (\<lambda>p q. str_compare (fst p) (fst q) < 0)"
  by (auto simp: transp_def str_compare_codes intro: codes_less_trans)

text \<open>A table whose keys strictly increase.\<close>

locale symbol_table =
  fixes tbl :: "(string \<times> int) list"
  assumes strictly_sorted: "sorted_wrt (\<lambda>p q. str_compare (fst p) (fst q) < 0) tbl"
begin

lemma key_less:
  "i < j \<Longrightarrow> j < length tbl \<Longrightarrow> str_compare (fst (tbl ! i)) (fst (tbl ! j)) < 0"
  using strictly_sorted by (simp add: sorted_wrt_iff_nth_less)

lemma distinct_keys: "distinct (map fst tbl)"
  unfolding distinct_conv_nth
proof (intro allI impI)
  fix i j
  assume "i < length (map fst tbl)" "j < length (map fst tbl)" "i \<noteq> j"
  then show "map fst tbl ! i \<noteq> map fst tbl ! j"
    using key_less [of i j] key_less [of j i] by (cases "i < j") auto
qed

lemma search_found:
  "\<lbrakk> 0 \<le> lo; lo \<le> int i; int i \<le> hi; hi < int (length tbl) \<rbrakk>
    \<Longrightarrow> symbol_search tbl (fst (tbl ! i)) lo hi = snd (tbl ! i)"
proof (induction "nat (hi - lo + 1)" arbitrary: lo hi rule: less_induct)
  case less
  define mid where "mid = (lo + hi) div 2"
  let ?c = "str_compare (fst (tbl ! i)) (fst (tbl ! nat mid))"
  have mid: "lo \<le> mid" "mid \<le> hi" "lo \<le> hi" "0 \<le> mid"
    using less.prems by (auto simp: mid_def)
  consider "int i < mid" | "int i = mid" | "mid < int i" by linarith
  then show ?case
  proof cases
    case 1
    then have "?c < 0" using key_less [of i "nat mid"] mid less.prems by simp
    moreover have "symbol_search tbl (fst (tbl ! i)) lo (mid - 1) = snd (tbl ! i)"
      using less.hyps [of "mid - 1" lo] 1 mid less.prems by simp
    ultimately show ?thesis
      using mid by (subst symbol_search.simps) (simp add: mid_def [symmetric] Let_def)
  next
    case 2
    then have "nat mid = i" by simp
    then show ?thesis
      using mid by (subst symbol_search.simps) (simp add: mid_def [symmetric] Let_def)
  next
    case 3
    then have "0 < ?c"
      using key_less [of "nat mid" i] mid less.prems by (simp add: str_compare_flip [symmetric])
    moreover have "symbol_search tbl (fst (tbl ! i)) (mid + 1) hi = snd (tbl ! i)"
      using less.hyps [of hi "mid + 1"] 3 mid less.prems by simp
    ultimately show ?thesis
      using mid by (subst symbol_search.simps) (simp add: mid_def [symmetric] Let_def)
  qed
qed

lemma search_missing:
  "\<lbrakk> 0 \<le> lo; hi < int (length tbl); t \<notin> fst ` set tbl \<rbrakk> \<Longrightarrow> symbol_search tbl t lo hi = -1"
proof (induction "nat (hi - lo + 1)" arbitrary: lo hi rule: less_induct)
  case less
  show ?case
  proof (cases "lo \<le> hi")
    case True
    define mid where "mid = (lo + hi) div 2"
    have mid: "lo \<le> mid" "mid \<le> hi" "0 \<le> mid" using True less.prems by (auto simp: mid_def)
    then have "tbl ! nat mid \<in> set tbl" using less.prems by simp
    then have "str_compare t (fst (tbl ! nat mid)) \<noteq> 0"
      using less.prems str_compare_zero by fastforce
    moreover have "symbol_search tbl t lo (mid - 1) = -1" "symbol_search tbl t (mid + 1) hi = -1"
      using less.hyps [of "mid - 1" lo] less.hyps [of hi "mid + 1"] mid less.prems True by simp_all
    ultimately show ?thesis
      using True by (subst symbol_search.simps) (simp add: mid_def [symmetric] Let_def)
  next
    case False
    then show ?thesis by (subst symbol_search.simps) simp
  qed
qed

lemma symbol_type_map_of:
  "symbol_type tbl text = (case map_of tbl (map toupper text) of Some ty \<Rightarrow> ty | None \<Rightarrow> -1)"
proof (cases "map toupper text \<in> fst ` set tbl")
  case True
  then obtain i where i: "i < length tbl" "fst (tbl ! i) = map toupper text"
    by (auto simp: in_set_conv_nth)
  then have "map_of tbl (map toupper text) = Some (snd (tbl ! i))"
    using distinct_keys by (metis map_of_eq_Some_iff nth_mem prod.collapse)
  moreover have "symbol_type tbl text = snd (tbl ! i)"
    using search_found [of 0 i "int (length tbl) - 1"] i by (simp add: symbol_type_def)
  ultimately show ?thesis by simp
next
  case False
  then have "map_of tbl (map toupper text) = None" by (simp add: map_of_eq_None_iff)
  with False show ?thesis by (simp add: symbol_type_def search_missing)
qed

end

section \<open>Lexer state\<close>

text \<open>
  The fields both lexer classes have; the translator's lexer adds the list of
  all tokens it produced.
\<close>

record lexer =
  lx_input :: string
  lx_mark :: nat
  lx_index :: nat
  lx_ch :: char

text \<open>\<open>init\<close>: the current character is the first one, or the end marker.\<close>

definition lexer_new :: "string \<Rightarrow> lexer" where
  "lexer_new input = \<lparr> lx_input = input, lx_mark = 0, lx_index = 0,
     lx_ch = (if input \<noteq> [] then input ! 0 else EOI_CH) \<rparr>"

definition lexer_remaining :: "'a lexer_scheme \<Rightarrow> string" where
  "lexer_remaining l = drop (lx_mark l) (lx_input l)"

definition lexer_consume :: "'a lexer_scheme \<Rightarrow> 'a lexer_scheme" where
  "lexer_consume l =
     (if lx_index l + 1 < length (lx_input l)
      then l \<lparr> lx_index := lx_index l + 1, lx_ch := lx_input l ! (lx_index l + 1) \<rparr>
      else l \<lparr> lx_ch := EOI_CH \<rparr>)"

text \<open>The character behind the current one; \<open>std::string\<close> ends with a null character.\<close>

definition lexer_peek :: "'a lexer_scheme \<Rightarrow> char" where
  "lexer_peek l =
     (if lx_index l \<ge> length (lx_input l) then EOI_CH
      else if lx_index l + 1 < length (lx_input l) then lx_input l ! (lx_index l + 1)
      else CHR 0x00)"

text \<open>
  How much the lexer can still consume: zero exactly when \<open>consume\<close> has run
  off the end of the input.
\<close>

definition pot :: "'a lexer_scheme \<Rightarrow> nat" where
  "pot l = (if lx_ch l = EOI_CH \<and> length (lx_input l) \<le> lx_index l + 1 then 0
            else Suc (length (lx_input l) - lx_index l))"

lemma pot_consume: "pot (lexer_consume l) \<le> pot l"
  by (auto simp: pot_def lexer_consume_def)

lemma pot_consume_less: "lx_ch l \<noteq> EOI_CH \<Longrightarrow> pot (lexer_consume l) < pot l"
  by (auto simp: pot_def lexer_consume_def)

text \<open>
  The scanning loops \<open>while (P (m_ch)) { text += m_ch; consume(); }\<close>. Every
  condition the lexers use is false of the end marker, so that the test for it
  changes nothing.
\<close>

function scan_while :: "(char \<Rightarrow> bool) \<Rightarrow> string \<Rightarrow> 'a lexer_scheme \<Rightarrow> string \<times> 'a lexer_scheme" where
  "scan_while P tx l =
     (if lx_ch l \<noteq> EOI_CH \<and> P (lx_ch l)
      then scan_while P (tx @ [lx_ch l]) (lexer_consume l)
      else (tx, l))"
  by pat_completeness auto
termination
  by (relation "measure (\<lambda>(P, tx, l). pot l)") (auto simp: pot_consume_less)

declare scan_while.simps [simp del]

lemma scan_while_pot: "scan_while P tx l = (t, l') \<Longrightarrow> pot l' \<le> pot l"
proof (induction P tx l rule: scan_while.induct)
  case (1 P tx l)
  then show ?case
    using pot_consume [of l]
    by (subst (asm) (2) scan_while.simps) (force split: if_splits)
qed

lemma scan_while_pot_less:
  "lx_ch l \<noteq> EOI_CH \<Longrightarrow> P (lx_ch l) \<Longrightarrow> scan_while P tx l = (t, l') \<Longrightarrow> pot l' < pot l"
  using scan_while_pot [of P "tx @ [lx_ch l]" "lexer_consume l" t l'] pot_consume_less [of l]
  by (simp add: scan_while.simps [of P tx l])

lemma scan_while_all:
  "scan_while P tx l = (t, l') \<Longrightarrow> \<exists>xs. t = tx @ xs \<and> list_all P xs
     \<and> (lx_ch l \<noteq> EOI_CH \<and> P (lx_ch l) \<longrightarrow> xs \<noteq> [])"
proof (induction P tx l rule: scan_while.induct)
  case (1 P tx l)
  show ?case
  proof (cases "lx_ch l \<noteq> EOI_CH \<and> P (lx_ch l)")
    case True
    then have "scan_while P (tx @ [lx_ch l]) (lexer_consume l) = (t, l')"
      using "1.prems" by (simp add: scan_while.simps [of P tx l])
    from "1.IH" [OF True this] True show ?thesis by auto
  next
    case False
    with "1.prems" show ?thesis by (auto simp: scan_while.simps [of P tx l])
  qed
qed

subsection \<open>The text that is left\<close>

text \<open>
  The lexer stands at the text \<open>s\<close>: it is what is left from the current
  character on, with no end marker inside. \<open>consume\<close> drops its first character.
\<close>

definition at_text :: "'a lexer_scheme \<Rightarrow> string \<Rightarrow> bool" where
  "at_text l s \<longleftrightarrow> EOI_CH \<notin> set s \<and>
     (case s of
        [] \<Rightarrow> lx_ch l = EOI_CH \<and> length (lx_input l) \<le> lx_index l + 1
      | c # _ \<Rightarrow> lx_ch l = c \<and> lx_index l < length (lx_input l) \<and> drop (lx_index l) (lx_input l) = s)"

lemma at_text_new: "EOI_CH \<notin> set s \<Longrightarrow> at_text (lexer_new s) s"
  by (cases s) (auto simp: at_text_def lexer_new_def)

lemma at_text_ch: "at_text l (c # cs) \<Longrightarrow> lx_ch l = c \<and> c \<noteq> EOI_CH"
  by (auto simp: at_text_def)

lemma at_text_end: "at_text l [] \<Longrightarrow> lx_ch l = EOI_CH"
  by (simp add: at_text_def)

lemma at_text_consume: 
  assumes "at_text l (c # cs)"
  shows "at_text (lexer_consume l) cs"
proof -
  have d: "drop (lx_index l) (lx_input l) = c # cs" and eoi: "EOI_CH \<notin> set cs"
    using assms by (auto simp: at_text_def)
  then have tl: "drop (Suc (lx_index l)) (lx_input l) = cs"
    by (metis drop_Suc list.sel(3) tl_drop)
  have len: "length (lx_input l) - lx_index l = Suc (length cs)"
    using arg_cong [OF d, of length] by simp
  show ?thesis
  proof (cases cs)
    case Nil
    with len show ?thesis by (auto simp: at_text_def lexer_consume_def)
  next
    case (Cons x xs)
    then have "lx_input l ! Suc (lx_index l) = x"
      using tl by (metis nth_via_drop)
    with Cons len tl eoi show ?thesis by (auto simp: at_text_def lexer_consume_def)
  qed
qed

lemma at_text_peek: "at_text l (c # cs) \<Longrightarrow> lexer_peek l = (case cs of [] \<Rightarrow> CHR 0x00 | x # _ \<Rightarrow> x)"
proof -
  assume a: "at_text l (c # cs)"
  then have d: "drop (lx_index l) (lx_input l) = c # cs" by (simp add: at_text_def)
  then have tl: "drop (Suc (lx_index l)) (lx_input l) = cs"
    by (metis drop_Suc list.sel(3) tl_drop)
  show ?thesis
    using arg_cong [OF d, of length] nth_via_drop [of "Suc (lx_index l)" "lx_input l"] tl
    by (cases cs) (auto simp: lexer_peek_def)
qed

lemma scan_while_at_text:
  "at_text l (xs @ s) \<Longrightarrow> (\<forall>c \<in> set xs. P c) \<Longrightarrow> (s \<noteq> [] \<longrightarrow> \<not> P (hd s))
    \<Longrightarrow> \<exists>l'. scan_while P tx l = (tx @ xs, l') \<and> at_text l' s \<and> lx_mark l' = lx_mark l
        \<and> lexer.more l' = lexer.more l"
proof (induction xs arbitrary: l tx)
  case Nil
  then have "\<not> (lx_ch l \<noteq> EOI_CH \<and> P (lx_ch l))"
    using at_text_ch [of l] at_text_end [of l] by (cases s) auto
  with Nil show ?case by (auto simp: scan_while.simps [of P tx l])
next
  case (Cons x xs)
  then have "at_text (lexer_consume l) (xs @ s)" by (simp add: at_text_consume)
  from Cons.IH [OF this, of "tx @ [x]"] Cons.prems at_text_ch [of l x "xs @ s"] show ?case
    by (auto simp: scan_while.simps [of P tx l] lexer_consume_def split: if_splits)
qed

end
