(* ===== verification/TranLexer.thy ===== *)
theory TranLexer
  imports Lexer
begin

text \<open>
  The lexer of the SQL translator (\<open>src/tran\<close>, class \<open>lexer\<close>): token types,
  keyword table, and \<open>next_token\<close> with the scanners it calls. Beside the token
  it returns, the lexer records every token, white space and comments
  included, in \<open>m_token_list\<close>, from which the parser later builds the headers of
  a SELECT. The methods are methods of the exception monad over the lexer;
  the scanners that cannot throw are plain functions of it.
\<close>

section \<open>Token types and keywords\<close>

abbreviation (input) T_ADD :: int where "T_ADD \<equiv> 0"
abbreviation (input) T_AFTER :: int where "T_AFTER \<equiv> 1"
abbreviation (input) T_ALL :: int where "T_ALL \<equiv> 2"
abbreviation (input) T_ALTER :: int where "T_ALTER \<equiv> 3"
abbreviation (input) T_AND :: int where "T_AND \<equiv> 4"
abbreviation (input) T_AS :: int where "T_AS \<equiv> 5"
abbreviation (input) T_ASTERISK :: int where "T_ASTERISK \<equiv> 6"
abbreviation (input) T_ATSIGN :: int where "T_ATSIGN \<equiv> 7"
abbreviation (input) T_AUTO_INC :: int where "T_AUTO_INC \<equiv> 8"
abbreviation (input) T_BACKSLASH :: int where "T_BACKSLASH \<equiv> 9"
abbreviation (input) T_BY :: int where "T_BY \<equiv> 10"
abbreviation (input) T_CHAR :: int where "T_CHAR \<equiv> 11"
abbreviation (input) T_COLUMN :: int where "T_COLUMN \<equiv> 12"
abbreviation (input) T_COMMA :: int where "T_COMMA \<equiv> 13"
abbreviation (input) T_COMMENT :: int where "T_COMMENT \<equiv> 14"
abbreviation (input) T_CREATE :: int where "T_CREATE \<equiv> 15"
abbreviation (input) T_CROSS :: int where "T_CROSS \<equiv> 16"
abbreviation (input) T_DATA :: int where "T_DATA \<equiv> 17"
abbreviation (input) T_DATABASE :: int where "T_DATABASE \<equiv> 18"
abbreviation (input) T_DATABASES :: int where "T_DATABASES \<equiv> 19"
abbreviation (input) T_DATE :: int where "T_DATE \<equiv> 20"
abbreviation (input) T_DATETIME :: int where "T_DATETIME \<equiv> 21"
abbreviation (input) T_DELETE :: int where "T_DELETE \<equiv> 22"
abbreviation (input) T_DESCRIBE :: int where "T_DESCRIBE \<equiv> 23"
abbreviation (input) T_DOT :: int where "T_DOT \<equiv> 24"
abbreviation (input) T_DROP :: int where "T_DROP \<equiv> 25"
abbreviation (input) T_ENCLOSED :: int where "T_ENCLOSED \<equiv> 26"
abbreviation (input) T_ENUM :: int where "T_ENUM \<equiv> 27"
abbreviation (input) T_EQ :: int where "T_EQ \<equiv> 28"
abbreviation (input) T_FILE :: int where "T_FILE \<equiv> 29"
abbreviation (input) T_FIRST :: int where "T_FIRST \<equiv> 30"
abbreviation (input) T_FLOAT :: int where "T_FLOAT \<equiv> 31"
abbreviation (input) T_FOR :: int where "T_FOR \<equiv> 32"
abbreviation (input) T_FOREIGN :: int where "T_FOREIGN \<equiv> 33"
abbreviation (input) T_FROM :: int where "T_FROM \<equiv> 34"
abbreviation (input) T_GRANT :: int where "T_GRANT \<equiv> 35"
abbreviation (input) T_GE :: int where "T_GE \<equiv> 36"
abbreviation (input) T_GT :: int where "T_GT \<equiv> 37"
abbreviation (input) T_HASHTAG :: int where "T_HASHTAG \<equiv> 38"
abbreviation (input) T_IDENTIFIED :: int where "T_IDENTIFIED \<equiv> 39"
abbreviation (input) T_IGNORE :: int where "T_IGNORE \<equiv> 40"
abbreviation (input) T_INDEX :: int where "T_INDEX \<equiv> 41"
abbreviation (input) T_INFILE :: int where "T_INFILE \<equiv> 42"
abbreviation (input) T_INNER :: int where "T_INNER \<equiv> 43"
abbreviation (input) T_INSERT :: int where "T_INSERT \<equiv> 44"
abbreviation (input) T_INT :: int where "T_INT \<equiv> 45"
abbreviation (input) T_INTO :: int where "T_INTO \<equiv> 46"
abbreviation (input) T_JOIN :: int where "T_JOIN \<equiv> 47"
abbreviation (input) T_KEY :: int where "T_KEY \<equiv> 48"
abbreviation (input) T_LEFT :: int where "T_LEFT \<equiv> 49"
abbreviation (input) T_L_PAREN :: int where "T_L_PAREN \<equiv> 50"
abbreviation (input) T_LE :: int where "T_LE \<equiv> 51"
abbreviation (input) T_LIMIT :: int where "T_LIMIT \<equiv> 52"
abbreviation (input) T_LT :: int where "T_LT \<equiv> 53"
abbreviation (input) T_LOAD :: int where "T_LOAD \<equiv> 54"
abbreviation (input) T_MINUS :: int where "T_MINUS \<equiv> 55"
abbreviation (input) T_MOD :: int where "T_MOD \<equiv> 56"
abbreviation (input) T_NAME :: int where "T_NAME \<equiv> 57"
abbreviation (input) T_NE :: int where "T_NE \<equiv> 58"
abbreviation (input) T_NOT :: int where "T_NOT \<equiv> 59"
abbreviation (input) T_NULL_SYM :: int where "T_NULL_SYM \<equiv> 60"
abbreviation (input) T_ON :: int where "T_ON \<equiv> 61"
abbreviation (input) T_OR :: int where "T_OR \<equiv> 62"
abbreviation (input) T_ORDER :: int where "T_ORDER \<equiv> 63"
abbreviation (input) T_OUTER :: int where "T_OUTER \<equiv> 64"
abbreviation (input) T_OUTFILE :: int where "T_OUTFILE \<equiv> 65"
abbreviation (input) T_PASSWORD :: int where "T_PASSWORD \<equiv> 66"
abbreviation (input) T_PLUS :: int where "T_PLUS \<equiv> 67"
abbreviation (input) T_PRIMARY :: int where "T_PRIMARY \<equiv> 68"
abbreviation (input) T_REFERENCES :: int where "T_REFERENCES \<equiv> 69"
abbreviation (input) T_RELOAD :: int where "T_RELOAD \<equiv> 70"
abbreviation (input) T_RENAME :: int where "T_RENAME \<equiv> 71"
abbreviation (input) T_REPLACE :: int where "T_REPLACE \<equiv> 72"
abbreviation (input) T_REVOKE :: int where "T_REVOKE \<equiv> 73"
abbreviation (input) T_RIGHT :: int where "T_RIGHT \<equiv> 74"
abbreviation (input) T_R_PAREN :: int where "T_R_PAREN \<equiv> 75"
abbreviation (input) T_SELECT :: int where "T_SELECT \<equiv> 76"
abbreviation (input) T_SEMICOLON :: int where "T_SEMICOLON \<equiv> 77"
abbreviation (input) T_SET :: int where "T_SET \<equiv> 78"
abbreviation (input) T_SHOW :: int where "T_SHOW \<equiv> 79"
abbreviation (input) T_SHUTDOWN :: int where "T_SHUTDOWN \<equiv> 80"
abbreviation (input) T_TABLE :: int where "T_TABLE \<equiv> 81"
abbreviation (input) T_TABLES :: int where "T_TABLES \<equiv> 82"
abbreviation (input) T_TIMESTAMP :: int where "T_TIMESTAMP \<equiv> 83"
abbreviation (input) T_TO :: int where "T_TO \<equiv> 84"
abbreviation (input) T_UNIQUE :: int where "T_UNIQUE \<equiv> 85"
abbreviation (input) T_UNSIGNED :: int where "T_UNSIGNED \<equiv> 86"
abbreviation (input) T_UPDATE :: int where "T_UPDATE \<equiv> 87"
abbreviation (input) T_USE :: int where "T_USE \<equiv> 88"
abbreviation (input) T_USER :: int where "T_USER \<equiv> 89"
abbreviation (input) T_USING :: int where "T_USING \<equiv> 90"
abbreviation (input) T_VALUES :: int where "T_VALUES \<equiv> 91"
abbreviation (input) T_VARCHAR :: int where "T_VARCHAR \<equiv> 92"
abbreviation (input) T_WHERE :: int where "T_WHERE \<equiv> 93"
abbreviation (input) T_WHITESPACE :: int where "T_WHITESPACE \<equiv> 94"
abbreviation (input) T_ZEROFILL :: int where "T_ZEROFILL \<equiv> 95"

definition symbol :: "(string \<times> int) list" where
  "symbol = [
    (''ADD'', T_ADD),
    (''AFTER'', T_AFTER),
    (''ALL'', T_ALL),
    (''ALTER'', T_ALTER),
    (''AND'', T_AND),
    (''AS'', T_AS),
    (''AUTO_INCREMENT'', T_AUTO_INC),
    (''BY'', T_BY),
    (''CHAR'', T_CHAR),
    (''COLUMN'', T_COLUMN),
    (''CREATE'', T_CREATE),
    (''CROSS'', T_CROSS),
    (''DATA'', T_DATA),
    (''DATABASE'', T_DATABASE),
    (''DATABASES'', T_DATABASES),
    (''DATE'', T_DATE),
    (''DATETIME'', T_DATETIME),
    (''DELETE'', T_DELETE),
    (''DESCRIBE'', T_DESCRIBE),
    (''DROP'', T_DROP),
    (''ENUM'', T_ENUM),
    (''FILE'', T_FILE),
    (''FIRST'', T_FIRST),
    (''FLOAT'', T_FLOAT),
    (''FOR'', T_FOR),
    (''FOREIGN'', T_FOREIGN),
    (''FROM'', T_FROM),
    (''GRANT'', T_GRANT),
    (''IDENTIFIED'', T_IDENTIFIED),
    (''INDEX'', T_INDEX),
    (''INFILE'', T_INFILE),
    (''INNER'', T_INNER),
    (''INSERT'', T_INSERT),
    (''INT'', T_INT),
    (''INTO'', T_INTO),
    (''JOIN'', T_JOIN),
    (''KEY'', T_KEY),
    (''LEFT'', T_LEFT),
    (''LIMIT'', T_LIMIT),
    (''LOAD'', T_LOAD),
    (''MOD'', T_MOD),
    (''NOT'', T_NOT),
    (''NULL'', T_NULL_SYM),
    (''ON'', T_ON),
    (''OR'', T_OR),
    (''ORDER'', T_ORDER),
    (''OUTER'', T_OUTER),
    (''OUTFILE'', T_OUTFILE),
    (''PASSWORD'', T_PASSWORD),
    (''PRIMARY'', T_PRIMARY),
    (''REFERENCES'', T_REFERENCES),
    (''RELOAD'', T_RELOAD),
    (''RENAME'', T_RENAME),
    (''REPLACE'', T_REPLACE),
    (''REVOKE'', T_REVOKE),
    (''RIGHT'', T_RIGHT),
    (''SELECT'', T_SELECT),
    (''SET'', T_SET),
    (''SHOW'', T_SHOW),
    (''SHUTDOWN'', T_SHUTDOWN),
    (''TABLE'', T_TABLE),
    (''TABLES'', T_TABLES),
    (''TIMESTAMP'', T_TIMESTAMP),
    (''TO'', T_TO),
    (''UNIQUE'', T_UNIQUE),
    (''UNSIGNED'', T_UNSIGNED),
    (''UPDATE'', T_UPDATE),
    (''USE'', T_USE),
    (''USER'', T_USER),
    (''USING'', T_USING),
    (''VALUES'', T_VALUES),
    (''VARCHAR'', T_VARCHAR),
    (''WHERE'', T_WHERE)]"

interpretation tran_sym: symbol_table symbol
proof
  show "sorted_wrt (\<lambda>p q. str_compare (fst p) (fst q) < 0) symbol"
    unfolding successively_conv_sorted_wrt [OF transp_str_compare, symmetric]
    by code_simp
qed

section \<open>The lexer\<close>

record tran_lexer = lexer +
  lx_token_list :: "token list"

type_synonym 'a lexm = "(error, tran_lexer, 'a) exn"

definition tran_lexer_new :: "string \<Rightarrow> tran_lexer" where
  "tran_lexer_new input = lexer.extend (lexer_new input) \<lparr> lx_token_list = [] \<rparr>"

definition tran_lexer_assign :: "tran_lexer \<Rightarrow> tran_lexer \<Rightarrow> tran_lexer" where
  "tran_lexer_assign this other = this \<lparr> lx_input := lx_input other, lx_mark := lx_mark other,
     lx_index := lx_index other, lx_ch := lx_ch other, lx_token_list := lx_token_list other \<rparr>"

definition tran_remaining :: "tran_lexer \<Rightarrow> string" where
  "tran_remaining l = lexer_remaining l"

definition tran_consume :: "tran_lexer \<Rightarrow> tran_lexer" where
  "tran_consume l = lexer_consume l"

definition tran_peek :: "tran_lexer \<Rightarrow> char" where
  "tran_peek l = lexer_peek l"

text \<open>\<open>m_token_list.push_back\<close>.\<close>

definition record_token :: "token \<Rightarrow> tran_lexer \<Rightarrow> tran_lexer" where
  "record_token tok l = l \<lparr> lx_token_list := lx_token_list l @ [tok] \<rparr>"

definition token_error :: "'a lexm" where
  "token_error = (\<lambda>l. (Inl (Runtime_rem ERRNO_TOKEN_ERROR (tran_remaining l)), l))"

definition comment :: "tran_lexer \<Rightarrow> tran_lexer" where
  "comment l = (case scan_while (\<lambda>c. c \<noteq> NL) [lx_ch l] (tran_consume l) of
     (text, l') \<Rightarrow> record_token (token_new T_COMMENT text) (tran_consume l'))"

definition get_symbol_type :: "string \<Rightarrow> int" where
  "get_symbol_type text = symbol_type symbol text"

definition name :: "tran_lexer \<Rightarrow> token \<times> tran_lexer" where
  "name l = (case scan_while (\<lambda>c. isalnum c \<or> c = CHR ''_'') [] l of
     (text, l') \<Rightarrow> (let type = get_symbol_type text
                   in (token_new (if type < 0 then T_NAME else type) text, l')))"

definition number :: "tran_lexer \<Rightarrow> token \<times> tran_lexer" where
  "number l = (case scan_while isdigit [] l of
     (value, l1) \<Rightarrow>
       if lx_ch l1 = CHR ''.'' then
         (case scan_while isdigit (value @ [lx_ch l1]) (tran_consume l1) of
            (value', l2) \<Rightarrow> (token_new T_FLOAT value', l2))
       else (token_new T_INT value, l1))"

definition varchar :: "tran_lexer \<Rightarrow> token \<times> tran_lexer" where
  "varchar l = (case scan_while (\<lambda>c. c \<noteq> DQ \<and> c \<noteq> SQ) [DQ] (tran_consume l) of
     (text, l') \<Rightarrow> (token_new T_VARCHAR (text @ [DQ]), tran_consume l'))"

definition ws :: "tran_lexer \<Rightarrow> tran_lexer" where
  "ws l = (case scan_while isspace [] l of
     (text, l') \<Rightarrow> record_token (token_new T_WHITESPACE text) l')"

definition compound :: "token lexm" where
  "compound l = (let c = lx_ch l in
     if c = CHR ''&'' then
       let l1 = tran_consume l in
       if lx_ch l1 = CHR ''&'' then (Inr (token_new T_AND ''&&''), tran_consume l1)
       else token_error l1
     else if c = CHR ''.'' then
       (if isdigit (tran_peek l) then (case number l of (tok, l') \<Rightarrow> (Inr tok, l'))
        else (Inr (token_new T_DOT ''.''), tran_consume l))
     else if c = CHR ''<'' then
       let l1 = tran_consume l in
       if lx_ch l1 = CHR ''='' then (Inr (token_new T_LE ''<=''), tran_consume l1)
       else (Inr (token_new T_LT ''<''), l1)
     else if c = CHR ''>'' then
       let l1 = tran_consume l in
       if lx_ch l1 = CHR ''='' then (Inr (token_new T_GE ''>=''), tran_consume l1)
       else (Inr (token_new T_GT ''>''), l1)
     else if c = CHR ''!'' then
       let l1 = tran_consume l in
       if lx_ch l1 = CHR ''='' then (Inr (token_new T_NE ''!=''), tran_consume l1)
       else token_error l1
     else if c = CHR ''|'' then
       let l1 = tran_consume l in
       if lx_ch l1 = CHR ''|'' then (Inr (token_new T_OR ''||''), tran_consume l1)
       else token_error l1
     else token_error l)"

text \<open>The characters that are a token of their own.\<close>

definition single_char :: "char \<Rightarrow> (int \<times> string) option" where
  "single_char c = map_of [
     (CHR ''('', (T_L_PAREN, ''('')), (CHR '')'', (T_R_PAREN, '')'')),
     (CHR ''*'', (T_ASTERISK, ''*'')), (CHR ''+'', (T_PLUS, ''+'')),
     (CHR '','', (T_COMMA, '','')), (CHR ''-'', (T_MINUS, ''-'')),
     (CHR ''/'', (T_BACKSLASH, ''/'')), (CHR '';'', (T_SEMICOLON, '';'')),
     (CHR ''='', (T_EQ, ''='')), (CHR ''@'', (T_ATSIGN, ''@''))] c"

text \<open>\<open>m_token_list.push_back(t); return m_token_list.back();\<close>\<close>

definition push_token :: "token \<times> tran_lexer \<Rightarrow> (error + token) \<times> tran_lexer" where
  "push_token p = (case p of (tok, l) \<Rightarrow> (Inr tok, record_token tok l))"

lemma pot_record_token [simp]: "pot (record_token tok l) = pot l"
  by (simp add: record_token_def pot_def)

lemma pot_ws:
  assumes "isspace (lx_ch l)"
  shows "pot (ws l) < pot l"
proof -
  obtain tx l' where sc: "scan_while isspace [] l = (tx, l')" by fastforce
  have "lx_ch l \<noteq> EOI_CH" using assms isspace_not_EOI by metis
  from scan_while_pot_less [OF this assms sc] show ?thesis by (simp add: ws_def sc)
qed

lemma pot_comment: "lx_ch l \<noteq> EOI_CH \<Longrightarrow> pot (comment l) < pot l"
  unfolding comment_def tran_consume_def
  by (cases "scan_while (\<lambda>c. c \<noteq> NL) [lx_ch l] (lexer_consume l)")
     (use scan_while_pot [of "\<lambda>c. c \<noteq> NL" "[lx_ch l]" "lexer_consume l"] pot_consume pot_consume_less [of l]
      in \<open>auto intro: le_less_trans\<close>)

text \<open>The loop of \<open>next_token\<close>; it goes round after white space and comments.\<close>

function next_token_loop :: "tran_lexer \<Rightarrow> (error + token) \<times> tran_lexer" where
  "next_token_loop l =
     (let c = lx_ch l in
      if c = EOI_CH then (Inr (token_new EOI ''<EOI>''), l)
      else if c = CHR '' '' \<or> c = TAB \<or> c = NL then next_token_loop (ws l)
      else if c = DQ \<or> c = SQ then push_token (varchar l)
      else if c = CHR ''#'' then next_token_loop (comment l)
      else if c = CHR ''&'' \<or> c = CHR ''.'' \<or> c = CHR ''!'' \<or> c = CHR ''<'' \<or> c = CHR ''>''
              \<or> c = CHR ''|'' then
        (case compound l of (Inl e, l') \<Rightarrow> (Inl e, l') | (Inr tok, l') \<Rightarrow> push_token (tok, l'))
      else (case single_char c of
              Some (type, text) \<Rightarrow> push_token (token_new type text, tran_consume l)
            | None \<Rightarrow>
                if isalpha c then push_token (name l)
                else if isdigit c then push_token (number l)
                else token_error l))"
  by pat_completeness auto
termination
proof (relation "measure pot", goal_cases)
  case (2 l x)
  then have "isspace (lx_ch l)" by (auto simp: isspace_def)
  then show ?case by (simp add: pot_ws)
next
  case (3 l x)
  then show ?case by (simp add: pot_comment)
qed auto

declare next_token_loop.simps [simp del]

definition next_token :: "token lexm" where
  "next_token l = next_token_loop (l \<lparr> lx_mark := lx_index l \<rparr>)"

section \<open>Progress\<close>

lemma scan_pot: "pot (snd (scan_while P tx l)) \<le> pot l"
  using scan_while_pot [of P tx l] by (cases "scan_while P tx l") auto

lemma scan_pot_less: "lx_ch l \<noteq> EOI_CH \<Longrightarrow> P (lx_ch l) \<Longrightarrow> pot (snd (scan_while P tx l)) < pot l"
  using scan_while_pot_less [of l P tx] by (cases "scan_while P tx l") auto

lemma pot_tran_consume: "pot (tran_consume l) \<le> pot l"
  by (simp add: tran_consume_def pot_consume)

lemma pot_tran_consume_less: "lx_ch l \<noteq> EOI_CH \<Longrightarrow> pot (tran_consume l) < pot l"
  by (simp add: tran_consume_def pot_consume_less)

lemma pot_number: "pot (snd (number l)) \<le> pot l"
proof -
  obtain v l1 where sc: "scan_while isdigit [] l = (v, l1)" by fastforce
  have 1: "pot l1 \<le> pot l" using scan_while_pot [OF sc] .
  have 2: "pot (snd (scan_while isdigit tx (tran_consume l1))) \<le> pot l1" for tx
    using scan_pot pot_tran_consume le_trans by blast
  show ?thesis
    using 1 2 [of "v @ [lx_ch l1]"] by (auto simp: number_def sc split: prod.splits)
qed

lemma pot_number_digit:
  assumes "isdigit (lx_ch l)"
  shows "pot (snd (number l)) < pot l"
proof -
  obtain v l1 where sc: "scan_while isdigit [] l = (v, l1)" by fastforce
  have "lx_ch l \<noteq> EOI_CH" using assms isdigit_not_EOI by metis
  then have 1: "pot l1 < pot l" using scan_while_pot_less [OF _ assms sc] by simp
  have 2: "pot (snd (scan_while isdigit tx (tran_consume l1))) \<le> pot l1" for tx
    using scan_pot pot_tran_consume le_trans by blast
  show ?thesis
    using 1 2 [of "v @ [lx_ch l1]"] by (auto simp: number_def sc split: prod.splits)
qed

lemma pot_number_dot:
  assumes "lx_ch l = CHR ''.''"
  shows "pot (snd (number l)) < pot l"
proof -
  have "\<not> isdigit (lx_ch l)" using assms by (simp add: isdigit_def)
  then have sc: "scan_while isdigit [] l = ([], l)" by (simp add: scan_while.simps)
  have "pot (snd (scan_while isdigit tx (tran_consume l))) < pot l" for tx
    using scan_pot [of isdigit tx "tran_consume l"] pot_tran_consume_less [of l] assms by simp
  then show ?thesis
    using assms by (auto simp: number_def sc split: prod.splits) (metis snd_conv)
qed

lemma pot_name:
  assumes "isalpha (lx_ch l)"
  shows "pot (snd (name l)) < pot l"
proof -
  have "lx_ch l \<noteq> EOI_CH" using assms isalnum_not_EOI isalpha_isalnum by metis
  moreover obtain v l1 where sc: "scan_while (\<lambda>c. isalnum c \<or> c = CHR ''_'') [] l = (v, l1)" by fastforce
  ultimately show ?thesis
    using scan_while_pot_less [OF _ _ sc] isalpha_isalnum [OF assms] by (simp add: name_def sc Let_def)
qed

lemma pot_varchar: 
  assumes "lx_ch l \<noteq> EOI_CH"
  shows "pot (snd (varchar l)) < pot l"
proof -
  obtain v l1 where sc: "scan_while (\<lambda>c. c \<noteq> DQ \<and> c \<noteq> SQ) [DQ] (tran_consume l) = (v, l1)" by fastforce
  show ?thesis
    using scan_while_pot [OF sc] pot_tran_consume_less [OF assms] pot_tran_consume [of l1]
    by (simp add: varchar_def sc)
qed

lemma token_error_run: "token_error l = (Inl (Runtime_rem ERRNO_TOKEN_ERROR (tran_remaining l)), l)"
  by (simp add: token_error_def)

lemma pot_compound:
  assumes "lx_ch l \<noteq> EOI_CH" "compound l = (r, l')"
  shows "pot l' \<le> pot l \<and> (\<forall>tok. r = Inr tok \<longrightarrow> pot l' < pot l)"
proof -
  have c1: "pot (tran_consume l) < pot l" using pot_tran_consume_less assms by blast
  have c2: "pot (tran_consume (tran_consume l)) < pot l"
    using c1 pot_tran_consume le_less_trans by blast
  show ?thesis
    using assms(2) c1 c2 pot_number_dot [of l]
    by (auto simp: compound_def Let_def token_error_run split: if_splits prod.splits)
qed

lemma compound_error:
  "compound l = (Inl e, l') \<Longrightarrow> \<exists>rem. e = Runtime_rem ERRNO_TOKEN_ERROR rem"
  by (auto simp: compound_def Let_def token_error_run split: if_splits prod.splits)

text \<open>What one run of the lexer may do.\<close>

definition lex_step :: "tran_lexer \<Rightarrow> (error + token) \<times> tran_lexer \<Rightarrow> bool" where
  "lex_step l p = (case p of
     (Inl e, l') \<Rightarrow> (\<exists>rem. e = Runtime_rem ERRNO_TOKEN_ERROR rem) \<and> pot l' \<le> pot l
   | (Inr tok, l') \<Rightarrow> pot l' \<le> pot l \<and> (m_type tok \<noteq> EOI \<longrightarrow> pot l' < pot l))"

lemma lex_step_push: "pot (snd p) < pot l \<Longrightarrow> lex_step l (push_token p)"
  by (cases p) (simp add: lex_step_def push_token_def)

lemma lex_step_le: "pot l1 \<le> pot l \<Longrightarrow> lex_step l1 p \<Longrightarrow> lex_step l p"
  by (auto simp: lex_step_def split: prod.splits sum.splits)

lemma lex_step_compound:
  assumes "lx_ch l \<noteq> EOI_CH"
  shows "lex_step l (case compound l of (Inl e, l') \<Rightarrow> (Inl e, l') | (Inr tok, l') \<Rightarrow> push_token (tok, l'))"
proof -
  obtain r l' where c: "compound l = (r, l')" by fastforce
  show ?thesis
    using pot_compound [OF assms c] compound_error [of l] c
    by (cases r) (auto simp: lex_step_def push_token_def)
qed

lemma next_token_loop_step: "lex_step l (next_token_loop l)"
proof (induction l rule: next_token_loop.induct)
  case (1 l)
  let ?c = "lx_ch l"
  show ?case
  proof (cases "?c = EOI_CH")
    case True
    then show ?thesis
      by (subst next_token_loop.simps) (simp add: lex_step_def)
  next
    case neq: False
    consider (ws) "?c = CHR '' '' \<or> ?c = TAB \<or> ?c = NL" | (hash) "?c = CHR ''#''"
      | (other) "?c \<noteq> CHR '' ''" "?c \<noteq> TAB" "?c \<noteq> NL" "?c \<noteq> CHR ''#''" by blast
    then show ?thesis
    proof cases
      case ws
      then have "isspace ?c" by (auto simp: isspace_def)
      then have "pot (ws l) \<le> pot l" using pot_ws less_imp_le by blast
      from lex_step_le [OF this 1(1) [OF refl neq ws]] ws neq show ?thesis
        by (subst next_token_loop.simps) (auto simp: Let_def)
    next
      case hash
      then have "pot (comment l) \<le> pot l" using pot_comment [OF neq] by simp
      from lex_step_le [OF this] 1(2) [OF refl neq] hash neq show ?thesis
        by (subst next_token_loop.simps) (auto simp: Let_def)
    next
      case other
      have "lex_step l (token_error l)" by (simp add: lex_step_def token_error_run)
      then show ?thesis
        using other neq lex_step_compound [OF neq] pot_varchar [OF neq] pot_name [of l]
          pot_number_digit [of l] pot_tran_consume_less [OF neq]
        by (subst next_token_loop.simps)
           (auto simp: Let_def lex_step_push split: option.splits)
    qed
  qed
qed

lemma next_token_step: "lex_step l (next_token l)"
proof -
  have "pot (l \<lparr> lx_mark := lx_index l \<rparr>) = pot l" by (simp add: pot_def)
  then show ?thesis
    using lex_step_le [OF _ next_token_loop_step, of "l \<lparr> lx_mark := lx_index l \<rparr>" l]
    by (simp add: next_token_def)
qed

section \<open>Token types\<close>

lemma symbol_types: "list_all (\<lambda>p. 0 \<le> snd p \<and> snd p \<notin> {T_ENCLOSED, T_IGNORE, T_ZEROFILL}) symbol"
  by code_simp

lemma get_symbol_type_cases:
  "get_symbol_type t = -1 \<or> (0 \<le> get_symbol_type t \<and> get_symbol_type t \<notin> {T_ENCLOSED, T_IGNORE, T_ZEROFILL})"
proof (cases "map_of symbol (map toupper t)")
  case None
  then show ?thesis by (simp add: get_symbol_type_def tran_sym.symbol_type_map_of)
next
  case (Some ty)
  then have "(map toupper t, ty) \<in> set symbol" by (rule map_of_SomeD)
  then show ?thesis
    using symbol_types Some
    by (fastforce simp: get_symbol_type_def tran_sym.symbol_type_map_of list_all_iff)
qed

lemma push_token_Inr [simp]:
  "push_token p = (Inr tok, l') \<longleftrightarrow> tok = fst p \<and> l' = record_token (fst p) (snd p)"
  by (cases p) (auto simp: push_token_def)

text \<open>The ways in which \<open>next_token\<close> can come to a token.\<close>

inductive produced :: "token \<Rightarrow> bool" where
  eoi: "produced (token_new EOI ''<EOI>'')"
| varchar: "produced (fst (varchar l))"
| name: "isalpha (lx_ch l) \<Longrightarrow> produced (fst (name l))"
| number: "isdigit (lx_ch l) \<Longrightarrow> produced (fst (number l))"
| compound: "compound l = (Inr tok, l') \<Longrightarrow> produced tok"
| single: "single_char c = Some (ty, tx) \<Longrightarrow> produced (token_new ty tx)"

lemma next_token_loop_produced: "next_token_loop l = (Inr tok, l') \<Longrightarrow> produced tok"
proof (induction l rule: next_token_loop.induct)
  case (1 l)
  have co: "(case compound l of (Inl e, l') \<Rightarrow> (Inl e, l') | (Inr tok, l') \<Rightarrow> push_token (tok, l')) = (Inr tok, l')
    \<Longrightarrow> produced tok"
    by (auto split: prod.splits sum.splits intro: produced.compound)
  show ?case
    using "1.prems" "1.IH"(1) [OF refl] "1.IH"(2) [OF refl] co
    apply (subst (asm) next_token_loop.simps)
    apply (simp only: Let_def split: if_splits)
    by (auto simp: token_error_run intro: produced.intros split: option.splits)
qed

lemma next_token_produced: "next_token l = (Inr tok, l') \<Longrightarrow> produced tok"
  unfolding next_token_def by (rule next_token_loop_produced)

lemma number_type: "m_type (fst (number l)) = T_INT \<or> m_type (fst (number l)) = T_FLOAT"
  by (auto simp: number_def split: prod.splits)

lemma name_type: "m_type (fst (name l)) \<notin> {T_ENCLOSED, T_IGNORE, T_ZEROFILL}"
proof -
  obtain v l1 where sc: "scan_while (\<lambda>c. isalnum c \<or> c = CHR ''_'') [] l = (v, l1)" by fastforce
  show ?thesis using get_symbol_type_cases [of v] by (auto simp: name_def sc Let_def)
qed

lemma compound_type:
  "compound l = (Inr tok, l') \<Longrightarrow>
     m_type tok \<in> {T_AND, T_DOT, T_LE, T_LT, T_GE, T_GT, T_NE, T_OR, T_INT, T_FLOAT}"
  using number_type [of l]
  by (auto simp: compound_def Let_def token_error_run split: if_splits prod.splits)

lemma produced_type: "produced tok \<Longrightarrow> m_type tok \<notin> {T_ENCLOSED, T_IGNORE, T_ZEROFILL}"
proof (induction rule: produced.induct)
  case (varchar l)
  then show ?case by (auto simp: varchar_def split: prod.splits)
next
  case (name l)
  then show ?case using name_type by blast
next
  case (number l)
  then show ?case using number_type [of l] by auto
next
  case (compound l tok l')
  then show ?case using compound_type by fastforce
next
  case (single c ty tx)
  then show ?case by (auto simp: single_char_def split: if_splits)
qed simp

section \<open>Properties\<close>

text \<open>
  C27. The keyword lookup of the SQL lexer is correct: the binary search
  returns, for every word and every mixture of upper and lower case, the type
  the keyword table gives to the word, and \<open>-1\<close> for a word that is not in the
  table.
\<close>

theorem get_symbol_type_lookup:
  "get_symbol_type text = (case map_of symbol (map toupper text) of Some ty \<Rightarrow> ty | None \<Rightarrow> -1)"
  unfolding get_symbol_type_def by (rule tran_sym.symbol_type_map_of)

text \<open>
  C18. One call of \<open>next_token\<close> on any lexer state ends; it never moves
  backwards in the input, it consumes at least one character whenever it
  returns a token other than the end token, and the only exception it throws
  is the token error 1900.
\<close>

theorem next_token_progress:
  "case next_token l of
     (Inl e, l') \<Rightarrow> (\<exists>rem. e = Runtime_rem ERRNO_TOKEN_ERROR rem) \<and> pot l' \<le> pot l
   | (Inr tok, l') \<Rightarrow> pot l' \<le> pot l \<and> (m_type tok = EOI \<or> pot l' < pot l)"
  using next_token_step [of l] by (auto simp: lex_step_def split: prod.splits sum.splits)

text \<open>
  The token types \<open>ENCLOSED\<close>, \<open>IGNORE\<close> and \<open>ZEROFILL\<close>, for which the
  parser has cases, have no keyword: the lexer never returns them, so the
  column constraint ZEROFILL and LOAD DATA ... IGNORE can never be written.
\<close>

theorem next_token_unreachable_types:
  assumes "next_token l = (Inr tok, l')"
  shows "m_type tok \<notin> {T_ENCLOSED, T_IGNORE, T_ZEROFILL}"
  using next_token_produced [OF assms] by (rule produced_type)

theorem next_token_unreachable_types_witness:
  "m_type (token_new T_NAME ''zerofill'') \<notin> {T_ENCLOSED, T_IGNORE, T_ZEROFILL}"
proof (rule next_token_unreachable_types)
  show "next_token (tran_lexer_new ''zerofill'')
    = (Inr (token_new T_NAME ''zerofill''), snd (next_token (tran_lexer_new ''zerofill'')))"
    by code_simp
qed

end
