(* ===== verification/SchemaTypes.thy ===== *)
theory SchemaTypes
  imports Prelude
begin

text \<open>The names, flags and type codes of \<open>src/schema/schema.h\<close> that the other parts share.\<close>

abbreviation (input) PK_NDX :: string where "PK_NDX \<equiv> ''NDX_000''"
abbreviation (input) NDX_PREFIX :: string where "NDX_PREFIX \<equiv> ''NDX_''"
abbreviation (input) FGN_PREFIX :: string where "FGN_PREFIX \<equiv> ''FGN_''"
abbreviation (input) REF_PREFIX :: string where "REF_PREFIX \<equiv> ''REF_''"
abbreviation (input) COL_PREFIX :: string where "COL_PREFIX \<equiv> ''COL_''"

abbreviation (input) FLAG_AUTO_INC :: int where "FLAG_AUTO_INC \<equiv> 0x1"
abbreviation (input) FLAG_FOREIGN :: int where "FLAG_FOREIGN \<equiv> 0x2"
abbreviation (input) FLAG_NOT_NULL :: int where "FLAG_NOT_NULL \<equiv> 0x4"
abbreviation (input) FLAG_PRIMARY :: int where "FLAG_PRIMARY \<equiv> 0x8"
abbreviation (input) FLAG_UNIQUE :: int where "FLAG_UNIQUE \<equiv> 0x10"
abbreviation (input) FLAG_UNSIGNED :: int where "FLAG_UNSIGNED \<equiv> 0x20"
abbreviation (input) FLAG_ZEROFILL :: int where "FLAG_ZEROFILL \<equiv> 0x40"
abbreviation (input) FLAG_MULTIPLE :: int where "FLAG_MULTIPLE \<equiv> 0x80"

abbreviation (input) TYPE_BOOLEAN :: int where "TYPE_BOOLEAN \<equiv> 1"
abbreviation (input) TYPE_CHAR :: int where "TYPE_CHAR \<equiv> 2"
abbreviation (input) TYPE_BINARY :: int where "TYPE_BINARY \<equiv> 3"
abbreviation (input) TYPE_DATE :: int where "TYPE_DATE \<equiv> 4"
abbreviation (input) TYPE_DATETIME :: int where "TYPE_DATETIME \<equiv> 5"
abbreviation (input) TYPE_ENUM :: int where "TYPE_ENUM \<equiv> 6"
abbreviation (input) TYPE_FLOAT :: int where "TYPE_FLOAT \<equiv> 7"
abbreviation (input) TYPE_FOREIGN :: int where "TYPE_FOREIGN \<equiv> 8"
abbreviation (input) TYPE_INT :: int where "TYPE_INT \<equiv> 9"
abbreviation (input) TYPE_PRIMARY :: int where "TYPE_PRIMARY \<equiv> 10"
abbreviation (input) TYPE_SECONDARY :: int where "TYPE_SECONDARY \<equiv> 11"
abbreviation (input) TYPE_TIMESTAMP :: int where "TYPE_TIMESTAMP \<equiv> 12"
abbreviation (input) TYPE_VARCHAR :: int where "TYPE_VARCHAR \<equiv> 13"

end
