(* ===== verification/ParserCore.thy ===== *)
theory ParserCore
  imports TranLexer SchemaTypes
begin

text \<open>
  The machinery of the SQL parser (\<open>src/tran\<close>, class \<open>parser\<close>): its state, the
  lookahead window that pulls tokens from the lexer on demand, \<open>consume\<close>,
  \<open>match\<close>, speculation, the table of data items, and the column headers. The
  statement and expression routines of the later theories are written on top
  of it. A routine that takes a code vector by reference is a function from
  the vector to the computation that returns the extended vector. Reading
  or writing a vector out of its range is the outcome \<open>Undefined\<close>.
\<close>

section \<open>The translator type of a name\<close>

abbreviation (input) TYPE_NAME :: int where "TYPE_NAME \<equiv> 16"

definition to_schema_type :: "int \<Rightarrow> int" where
  "to_schema_type type =
     (if type = T_FLOAT then TYPE_FLOAT
      else if type = T_INT then TYPE_INT
      else if type = T_NAME then TYPE_NAME
      else if type = T_VARCHAR then TYPE_VARCHAR
      else type)"

section \<open>State\<close>

type_synonym code = "string list"

record parser =
  ps_lexer :: tran_lexer
  ps_lookahead :: "token list"
  ps_code :: code
  ps_data :: "token list"
  ps_index :: nat
  ps_mark :: int

type_synonym 'a psm = "(error, parser, 'a) exn"

definition parser_remaining :: "parser \<Rightarrow> string" where
  "parser_remaining s = tran_remaining (ps_lexer s)"

text \<open>\<open>throw std::runtime_error{get_msg(ERRNO_TOKEN_ERROR, m_lexer.remaining())}\<close>.\<close>

definition parse_error :: "'a psm" where
  "parse_error = (\<lambda>s. (Inl (Runtime_rem ERRNO_TOKEN_ERROR (parser_remaining s)), s))"

section \<open>Lookahead\<close>

definition lexer_next :: "token psm" where
  "lexer_next = (\<lambda>s. case next_token (ps_lexer s) of (r, l) \<Rightarrow> (r, s \<lparr> ps_lexer := l \<rparr>))"

text \<open>The loop of \<open>load_lookahead\<close> runs once for each token that is missing.\<close>

fun load_n :: "nat \<Rightarrow> unit psm" where
  "load_n 0 = ret ()"
| "load_n (Suc n) = bnd lexer_next (\<lambda>tok.
     sq (modify (\<lambda>s. s \<lparr> ps_lookahead := ps_lookahead s @ [tok] \<rparr>)) (load_n n))"

definition load_lookahead :: "nat \<Rightarrow> unit psm" where
  "load_lookahead i =
     bnd (gets (\<lambda>s. ps_index s + i - length (ps_lookahead s))) load_n"

definition get_lookahead_token :: "nat \<Rightarrow> token psm" where
  "get_lookahead_token i = sq (load_lookahead i) (\<lambda>s.
     if ps_index s + i < length (ps_lookahead s)
     then (Inr (ps_lookahead s ! (ps_index s + i)), s)
     else (Inl (Undefined ''m_lookahead''), s))"

definition get_lookahead_type :: "nat \<Rightarrow> int psm" where
  "get_lookahead_type i = bnd (get_lookahead_token i) (\<lambda>tok. ret (m_type tok))"

definition is_speculating :: "parser \<Rightarrow> bool" where
  "is_speculating s = (\<not> ps_mark s < 0)"

definition consume :: "unit psm" where
  "consume =
     sq (modify (\<lambda>s. s \<lparr> ps_index := ps_index s + 1 \<rparr>)) (
     sq (modify (\<lambda>s. if \<not> is_speculating s \<and> length (ps_lookahead s) \<le> ps_index s
                      then s \<lparr> ps_index := 0, ps_lookahead := [] \<rparr> else s))
        (load_lookahead 1))"

definition match :: "int \<Rightarrow> unit psm" where
  "match type = bnd (get_lookahead_type 0) (\<lambda>t.
     if t \<noteq> type then parse_error else consume)"

text \<open>\<open>match\<close> of a list of types: the first one that does not throw.\<close>

fun match_list :: "int list \<Rightarrow> unit psm" where
  "match_list [] = parse_error"
| "match_list (ty # tys) = (\<lambda>s. case match ty s of
     (Inl e, s') \<Rightarrow> if is_runtime_error e then match_list tys s' else (Inl e, s')
   | (Inr u, s') \<Rightarrow> (Inr u, s'))"

section \<open>Speculation\<close>

definition mark :: "unit psm" where
  "mark = modify (\<lambda>s. s \<lparr> ps_mark := int (ps_index s) \<rparr>)"

definition unmark :: "unit psm" where
  "unmark = modify (\<lambda>s. s \<lparr> ps_index := nat (ps_mark s), ps_mark := -1 \<rparr>)"

fun match_all :: "int list \<Rightarrow> unit psm" where
  "match_all [] = ret ()"
| "match_all (ty # tys) = sq (match ty) (match_all tys)"

definition speculate_list :: "int list \<Rightarrow> bool psm" where
  "speculate_list lst = sq mark (\<lambda>s.
     case match_all lst s of
       (Inl e, s') \<Rightarrow> if is_runtime_error e then sq unmark (ret False) s' else (Inl e, s')
     | (Inr _, s') \<Rightarrow> sq unmark (ret True) s')"

fun speculate_list_to :: "int list \<Rightarrow> bool psm" where
  "speculate_list_to [] = ret False"
| "speculate_list_to (ty # tys) = bnd (get_lookahead_type 0) (\<lambda>t.
     if t = ty then ret True else speculate_list_to tys)"

definition join_list :: "int list" where
  "join_list = [T_CROSS, T_INNER, T_JOIN, T_LEFT, T_RIGHT]"

definition name_dot_name_list :: "int list" where
  "name_dot_name_list = [T_NAME, T_DOT, T_NAME]"

definition name_dot_name_dot_name_list :: "int list" where
  "name_dot_name_dot_name_list = [T_NAME, T_DOT, T_NAME, T_DOT, T_NAME]"

definition name_dot_asterisk_list :: "int list" where
  "name_dot_asterisk_list = [T_NAME, T_DOT, T_ASTERISK]"

definition name_dot_name_dot_asterisk_list :: "int list" where
  "name_dot_name_dot_asterisk_list = [T_NAME, T_DOT, T_NAME, T_DOT, T_ASTERISK]"

section \<open>Data items\<close>

text \<open>The default data item, two double quotes.\<close>

definition empty :: string where
  "empty = [DQ, DQ]"

fun find_data_from :: "nat \<Rightarrow> string \<Rightarrow> token list \<Rightarrow> string" where
  "find_data_from i nm [] = []"
| "find_data_from i nm (tok # toks) =
     (if nm = m_text tok then to_string (int i) else find_data_from (i + 1) nm toks)"

definition find_data :: "string \<Rightarrow> string psm" where
  "find_data nm = gets (\<lambda>s. find_data_from 0 nm (ps_data s))"

definition push_data :: "token \<Rightarrow> unit psm" where
  "push_data tok = modify (\<lambda>s. s \<lparr> ps_data := ps_data s @ [tok] \<rparr>)"

text \<open>\<open>data (int32_t)\<close>: the index of the item with the text of the next token.\<close>

definition data_tok :: "int \<Rightarrow> string psm" where
  "data_tok type =
     bnd (get_lookahead_token 0) (\<lambda>tok0.
     bnd (find_data (m_text tok0)) (\<lambda>index.
     bnd (if index = [] then
            bnd (gets (\<lambda>s. to_string (int (length (ps_data s))))) (\<lambda>index'.
            bnd (get_lookahead_token 0) (\<lambda>tok.
            sq (push_data tok) (ret index')))
          else ret index) (\<lambda>index'.
     sq (match type) (ret index'))))"

text \<open>\<open>data (std::string const&)\<close>.\<close>

definition data_str :: "string \<Rightarrow> string psm" where
  "data_str text =
     bnd (find_data text) (\<lambda>index.
     if index = [] then
       bnd (gets (\<lambda>s. to_string (int (length (ps_data s))))) (\<lambda>index'.
       sq (push_data (token_new T_VARCHAR text)) (ret index'))
     else ret index)"

section \<open>Code\<close>

text \<open>\<open>m_code.push_back\<close>, \<open>m_code.size()\<close> and \<open>m_code[mrk] = c\<close>.\<close>

definition emit :: "string \<Rightarrow> unit psm" where
  "emit c = modify (\<lambda>s. s \<lparr> ps_code := ps_code s @ [c] \<rparr>)"

definition emit_all :: "code \<Rightarrow> unit psm" where
  "emit_all cs = modify (\<lambda>s. s \<lparr> ps_code := ps_code s @ cs \<rparr>)"

definition code_size :: "nat psm" where
  "code_size = gets (\<lambda>s. length (ps_code s))"

definition code_set :: "nat \<Rightarrow> string \<Rightarrow> unit psm" where
  "code_set mrk c = (\<lambda>s.
     if mrk < length (ps_code s) then (Inr (), s \<lparr> ps_code := (ps_code s)[mrk := c] \<rparr>)
     else (Inl (Undefined ''m_code''), s))"

text \<open>The same on a local code vector.\<close>

definition vec_set :: "code \<Rightarrow> nat \<Rightarrow> string \<Rightarrow> code psm" where
  "vec_set code mrk c =
     (if mrk < length code then ret (code[mrk := c]) else throw (Undefined ''code''))"

text \<open>A routine applied to \<open>m_code\<close> itself.\<close>

definition on_code :: "(code \<Rightarrow> code psm) \<Rightarrow> unit psm" where
  "on_code f = bnd (gets ps_code) (\<lambda>c. bnd (f c) (\<lambda>c'. modify (\<lambda>s. s \<lparr> ps_code := c' \<rparr>)))"

definition pusho :: "string \<Rightarrow> string" where
  "pusho index = ''PUSHO '' @ index"

definition push :: "string \<Rightarrow> string" where
  "push n = ''PUSH '' @ n"

text \<open>\<open>m_code.push_back("PUSHO " + data(type))\<close> and \<open>... + find_data(empty)\<close>.\<close>

definition emit_data :: "int \<Rightarrow> unit psm" where
  "emit_data type = bnd (data_tok type) (\<lambda>i. emit (pusho i))"

definition emit_empty :: "unit psm" where
  "emit_empty = bnd (find_data empty) (\<lambda>i. emit (pusho i))"

definition emit_str :: "string \<Rightarrow> unit psm" where
  "emit_str nm = bnd (data_str nm) (\<lambda>i. emit (pusho i))"

section \<open>Column headers\<close>

definition header_end :: "token \<Rightarrow> bool" where
  "header_end tok = (m_type tok = T_COMMA \<or> m_type tok = T_FROM)"

text \<open>A double quote in a header gets a backslash in front.\<close>

fun escape_quotes :: "string \<Rightarrow> string" where
  "escape_quotes [] = []"
| "escape_quotes (c # cs) = (if c = DQ then [BSL, c] else [c]) @ escape_quotes cs"

definition header_text :: "string \<Rightarrow> string" where
  "header_text header =
     (let trimmed = rev (dropWhile isspace (rev (dropWhile isspace header)));
          untabbed = map (\<lambda>c. if c = TAB then CHR '' '' else c) trimmed
      in DQ # escape_quotes untabbed @ [DQ])"

text \<open>
  \<open>next_header\<close> takes the recorded tokens up to the next comma or FROM. It
  dereferences the first token, steps over SELECT and the token behind it, and
  calls \<open>front\<close> and \<open>back\<close> on the header, which must not be empty.
\<close>

definition next_header :: "string psm" where
  "next_header = (\<lambda>s.
     let toks = lx_token_list (ps_lexer s) in
     if toks = [] \<or> (m_type (hd toks) = T_SELECT \<and> tl toks = [])
     then (Inl (Undefined ''m_token_list''), s)
     else
       let iter = (if m_type (hd toks) = T_SELECT then drop 2 toks else toks);
           header = concat (map m_text (takeWhile (\<lambda>tok. \<not> header_end tok) iter));
           rest = drop 1 (dropWhile (\<lambda>tok. \<not> header_end tok) iter);
           s' = s \<lparr> ps_lexer := (ps_lexer s) \<lparr> lx_token_list := rest \<rparr> \<rparr>
       in if dropWhile isspace header = [] then (Inl (Undefined ''header''), s')
          else (Inr (header_text header), s'))"

section \<open>Construction and output\<close>

text \<open>The constructor, up to the first lookahead token.\<close>

definition parser_new :: "string \<Rightarrow> (error + unit) \<times> parser" where
  "parser_new stmt = load_lookahead 1
     \<lparr> ps_lexer = tran_lexer_new stmt, ps_lookahead = [], ps_code = [],
       ps_data = [token_new TYPE_VARCHAR empty], ps_index = 0, ps_mark = -1 \<rparr>"

definition dump_data_line :: "token \<Rightarrow> string" where
  "dump_data_line tok = ''  '' @ to_string (to_schema_type (m_type tok)) @ '' '' @ m_text tok @ [NL]"

definition dump_code_line :: "string \<Rightarrow> string" where
  "dump_code_line c = ''  '' @ c @ [NL]"

definition tran_dump :: "parser \<Rightarrow> string" where
  "tran_dump s = ''.DATA'' @ [NL] @ concat (map dump_data_line (ps_data s))
     @ ''%%'' @ [NL] @ ''.TEXT'' @ [NL]
     @ concat (map dump_code_line (rev (ps_code s)))
     @ ''%%'' @ [NL]"

end
