(* ===== verification/ParserExpr.thy ===== *)
theory ParserExpr
  imports ParserCore
begin

text \<open>
  The expression routines of the SQL parser: column names, and the three
  layers (logic, comparison, mathematics) of left-associative operators. Each
  layer is a loop over the operators of its \<open>switch\<close>; the loop is \<open>chain\<close>, with
  the table of the case labels and the calls they emit. The routines recurse
  only through \<open>math_primary\<close> (parentheses and signs), which the other routines
  take as their argument \<open>prim\<close>; its first argument is fuel, and so is the
  first argument of \<open>chain\<close>.
\<close>

section \<open>Names\<close>

text \<open>The line \<open>"PUSHO " + data(type)\<close>, respectively \<open>"PUSHO " + find_data(empty)\<close>.\<close>

definition data_line :: "int \<Rightarrow> string psm" where
  "data_line type = bnd (data_tok type) (\<lambda>i. ret (pusho i))"

definition empty_line :: "string psm" where
  "empty_line = bnd (find_data empty) (\<lambda>i. ret (pusho i))"

definition name_expr :: "code \<Rightarrow> code psm" where
  "name_expr code =
     bnd (speculate_list name_dot_name_dot_asterisk_list) (\<lambda>b1.
     if b1 then
       bnd (data_line T_NAME) (\<lambda>d1. sq (match T_DOT) (
       bnd (data_line T_NAME) (\<lambda>d2. sq (match T_DOT) (
       sq (match T_ASTERISK) (
       ret (code @ [''CALL MKASTEXPR'', d1, d2]))))))
     else bnd (speculate_list name_dot_asterisk_list) (\<lambda>b2.
     if b2 then
       bnd empty_line (\<lambda>d1.
       bnd (data_line T_NAME) (\<lambda>d2. sq (match T_DOT) (
       sq (match T_ASTERISK) (
       ret (code @ [''CALL MKASTEXPR'', d1, d2])))))
     else bnd (speculate_list name_dot_name_dot_name_list) (\<lambda>b3.
     if b3 then
       bnd empty_line (\<lambda>d1. sq (match T_DOT) (
       bnd (data_line T_NAME) (\<lambda>d2. sq (match T_DOT) (
       bnd (data_line T_NAME) (\<lambda>d3.
       ret (code @ [''CALL MKCLMNEXPR'', d1, d2, d3]))))))
     else bnd (speculate_list name_dot_name_list) (\<lambda>b4.
     if b4 then
       bnd empty_line (\<lambda>d1.
       bnd (data_line T_NAME) (\<lambda>d2. sq (match T_DOT) (
       bnd (data_line T_NAME) (\<lambda>d3.
       ret (code @ [''CALL MKCLMNEXPR'', d1, d2, d3])))))
     else
       bnd empty_line (\<lambda>d1.
       bnd empty_line (\<lambda>d2.
       bnd (data_line T_NAME) (\<lambda>d3.
       ret (code @ [''CALL MKCLMNEXPR'', d1, d2, d3]))))))))"

section \<open>Operator chains\<close>

text \<open>
  The loop of an operator layer. On an operator of the table: consume it, put
  its call in front of \<open>code\<close>, append the pending operand code \<open>pc\<close>, translate
  the right operand and append it, and go on with no operand pending.
  Otherwise append what is pending and return.
\<close>

fun chain :: "nat \<Rightarrow> (int \<times> string) list \<Rightarrow> code psm \<Rightarrow> code \<Rightarrow> code \<Rightarrow> code psm" where
  "chain 0 tbl sub code pc = throw Fuel"
| "chain (Suc n) tbl sub code pc =
     bnd (get_lookahead_type 0) (\<lambda>t. case map_of tbl t of
       Some call \<Rightarrow>
         sq consume (bnd sub (\<lambda>pc'. chain n tbl sub (call # code @ pc @ pc') []))
     | None \<Rightarrow> ret (code @ pc))"

definition math_term_ops :: "(int \<times> string) list" where
  "math_term_ops = [(T_ASTERISK, ''CALL MUL''), (T_BACKSLASH, ''CALL DIV'')]"

definition math_expr_ops :: "(int \<times> string) list" where
  "math_expr_ops = [(T_MINUS, ''CALL SUB''), (T_PLUS, ''CALL ADD'')]"

definition comparison_term_ops :: "(int \<times> string) list" where
  "comparison_term_ops = [(T_GE, ''CALL CMPGE''), (T_GT, ''CALL CMPGT''),
     (T_LE, ''CALL CMPLE''), (T_LT, ''CALL CMPLT'')]"

definition comparison_expr_ops :: "(int \<times> string) list" where
  "comparison_expr_ops = [(T_EQ, ''CALL CMPEQ''), (T_NE, ''CALL CMPNE'')]"

definition logic_term_ops :: "(int \<times> string) list" where
  "logic_term_ops = [(T_OR, ''CALL OR'')]"

definition logic_expr_ops :: "(int \<times> string) list" where
  "logic_expr_ops = [(T_AND, ''CALL AND'')]"

definition math_term :: "(bool \<Rightarrow> code psm) \<Rightarrow> nat \<Rightarrow> bool \<Rightarrow> code psm" where
  "math_term prim n use_asterisk =
     bnd (prim use_asterisk) (chain n math_term_ops (prim False) [])"

definition math_expr :: "(bool \<Rightarrow> code psm) \<Rightarrow> nat \<Rightarrow> code \<Rightarrow> bool \<Rightarrow> code psm" where
  "math_expr prim n code use_asterisk =
     bnd (math_term prim n use_asterisk) (chain n math_expr_ops (math_term prim n False) code)"

definition comparison_primary :: "(bool \<Rightarrow> code psm) \<Rightarrow> nat \<Rightarrow> bool \<Rightarrow> code psm" where
  "comparison_primary prim n use_asterisk = math_expr prim n [] use_asterisk"

definition comparison_term :: "(bool \<Rightarrow> code psm) \<Rightarrow> nat \<Rightarrow> bool \<Rightarrow> code psm" where
  "comparison_term prim n use_asterisk =
     bnd (comparison_primary prim n use_asterisk)
       (chain n comparison_term_ops (comparison_primary prim n False) [])"

definition comparison_expr :: "(bool \<Rightarrow> code psm) \<Rightarrow> nat \<Rightarrow> code \<Rightarrow> bool \<Rightarrow> code psm" where
  "comparison_expr prim n code use_asterisk =
     bnd (comparison_term prim n use_asterisk)
       (chain n comparison_expr_ops (comparison_term prim n False) code)"

definition logic_primary :: "(bool \<Rightarrow> code psm) \<Rightarrow> nat \<Rightarrow> bool \<Rightarrow> code psm" where
  "logic_primary prim n use_asterisk = comparison_expr prim n [] use_asterisk"

definition logic_term :: "(bool \<Rightarrow> code psm) \<Rightarrow> nat \<Rightarrow> bool \<Rightarrow> code psm" where
  "logic_term prim n use_asterisk =
     bnd (logic_primary prim n use_asterisk)
       (chain n logic_term_ops (logic_primary prim n False) [])"

definition logic_expr :: "(bool \<Rightarrow> code psm) \<Rightarrow> nat \<Rightarrow> code \<Rightarrow> code psm" where
  "logic_expr prim n code =
     bnd (logic_term prim n True) (chain n logic_expr_ops (logic_term prim n False) code)"

section \<open>Primaries\<close>

fun math_primary :: "nat \<Rightarrow> bool \<Rightarrow> code psm" where
  "math_primary 0 use_asterisk = throw Fuel"
| "math_primary (Suc n) use_asterisk =
     sq (load_lookahead 6) (
     bnd (get_lookahead_type 0) (\<lambda>t.
     if t = T_ASTERISK then
       (if \<not> use_asterisk then parse_error
        else sq consume (
          bnd (get_lookahead_type 0) (\<lambda>t1.
          if t1 = T_ASTERISK then parse_error
          else bnd empty_line (\<lambda>d1. bnd empty_line (\<lambda>d2.
            ret [''CALL MKASTEXPR'', d1, d2])))))
     else if t = T_FLOAT \<or> t = T_INT then
       bnd (get_lookahead_type 0) (\<lambda>ty. bnd (data_line ty) (\<lambda>d.
       ret [''CALL MKEXPR'', d]))
     else if t = T_L_PAREN then
       sq consume (
       bnd (logic_expr (math_primary n) n []) (\<lambda>code.
       sq (match T_R_PAREN) (ret code)))
     else if t = T_MINUS then
       sq consume (
       bnd (math_primary n False) (\<lambda>code. ret (''CALL NEGATE'' # code)))
     else if t = T_NAME then name_expr []
     else if t = T_NULL_SYM then
       sq consume (
       bnd (data_str ''null'') (\<lambda>i. ret [''CALL MKEXPR'', pusho i]))
     else if t = T_PLUS then
       sq consume (math_primary n False)
     else if t = T_VARCHAR then
       bnd (data_line T_VARCHAR) (\<lambda>d. ret [''CALL MKEXPR'', d])
     else parse_error))"

definition expr :: "nat \<Rightarrow> code \<Rightarrow> code psm" where
  "expr n code = logic_expr (math_primary n) n code"

end
