(* ===== verification/ParserStmt.thy ===== *)
theory ParserStmt
  imports ParserExpr
begin

text \<open>
  The statement routines of the SQL parser, in the order of the source: ALTER,
  CREATE, DELETE, DESCRIBE, DROP, GRANT, INSERT, LOAD, REVOKE, SELECT, SHOW,
  UPDATE, USE, and the loop \<open>stmt\<close> over the statements of the input. The
  argument \<open>n\<close> is the fuel of the loops; \<open>parse\<close> gives the length of the input
  plus three, and the theory \<open>ParserSafety\<close> proves that enough.
\<close>

section \<open>Shared pieces\<close>

text \<open>
  The loop that reads a comma-separated list of names: \<open>column_list\<close>, which the
  key definitions repeat in place. It returns the updated count.
\<close>

fun column_list :: "nat \<Rightarrow> int \<Rightarrow> int psm" where
  "column_list 0 count = throw Fuel"
| "column_list (Suc n) count =
     sq (emit_data T_NAME) (
     bnd (get_lookahead_type 0) (\<lambda>t.
     if t = T_COMMA then sq consume (column_list n (count + 1))
     else ret (count + 1)))"

text \<open>A parenthesised list of names behind its count, as in the key definitions.\<close>

definition counted_names :: "nat \<Rightarrow> unit psm" where
  "counted_names n =
     sq (match T_L_PAREN) (
     bnd code_size (\<lambda>mrk.
     sq (emit []) (
     bnd (column_list n 0) (\<lambda>count.
     sq (code_set mrk (push (to_string count))) (
     match T_R_PAREN)))))"

text \<open>A possibly qualified table name, on \<open>m_code\<close>.\<close>

definition qualified_name :: "unit psm" where
  "qualified_name =
     sq (load_lookahead 2) (
     bnd (get_lookahead_type 0) (\<lambda>t0.
     bnd (if t0 = T_NAME then bnd (get_lookahead_type 1) (\<lambda>t1. ret (t1 = T_DOT)) else ret False)
       (\<lambda>q. if q then
              sq (emit_data T_NAME) (sq (match T_DOT) (emit_data T_NAME))
            else sq emit_empty (emit_data T_NAME))))"

section \<open>Table references\<close>

definition opt_as_alias :: "code \<Rightarrow> code psm" where
  "opt_as_alias code =
     bnd (get_lookahead_type 0) (\<lambda>t.
     if t = T_AS then
       sq (match T_AS) (bnd (data_line T_NAME) (\<lambda>d. ret (code @ [d])))
     else bnd (get_lookahead_type 0) (\<lambda>t'.
       if t' = T_NAME then bnd (data_line T_NAME) (\<lambda>d. ret (code @ [d]))
       else bnd empty_line (\<lambda>d. ret (code @ [d]))))"

definition table_reference :: "code \<Rightarrow> code psm" where
  "table_reference code =
     sq (load_lookahead 2) (
     bnd (get_lookahead_type 0) (\<lambda>t0.
     bnd (if t0 = T_NAME then bnd (get_lookahead_type 1) (\<lambda>t1. ret (t1 = T_DOT)) else ret False)
       (\<lambda>q. if q then
              bnd (data_line T_NAME) (\<lambda>d1. sq (match T_DOT) (
              bnd (data_line T_NAME) (\<lambda>d2.
              opt_as_alias (code @ [''CALL OPNTBL'', d1, d2]))))
            else
              bnd empty_line (\<lambda>d1.
              bnd (data_line T_NAME) (\<lambda>d2.
              opt_as_alias (code @ [''CALL OPNTBL'', d1, d2]))))))"

section \<open>ALTER\<close>

definition alter_database :: "unit psm" where
  "alter_database = sq (emit ''CALL ALTDB'') (emit_data T_NAME)"

definition alter_user :: "unit psm" where
  "alter_user =
     sq (emit ''CALL ALTUSR'') (
     bnd (get_lookahead_type 0) (\<lambda>t.
     sq (if t = T_USER then
           sq consume (sq (match T_L_PAREN) (sq (match T_R_PAREN) (emit ''CALL MKUSR'')))
         else sq (emit_data T_VARCHAR) (sq (match T_ATSIGN) (emit_data T_VARCHAR))) (
     sq (match T_IDENTIFIED) (
     sq (match T_BY) (
     sq (emit_data T_VARCHAR) (
     bnd (get_lookahead_type 0) (\<lambda>t'.
     if t' = T_REPLACE then sq consume (emit_data T_VARCHAR)
     else emit_empty)))))))"

definition index_key :: "nat \<Rightarrow> unit psm" where
  "index_key n = counted_names n"

text \<open>The loop of the ENUM case of \<open>data_type\<close>.\<close>

fun enum_loop :: "nat \<Rightarrow> code \<Rightarrow> int \<Rightarrow> (code \<times> int) psm" where
  "enum_loop 0 code count = throw Fuel"
| "enum_loop (Suc n) code count =
     bnd (data_line T_VARCHAR) (\<lambda>d.
     bnd (get_lookahead_type 0) (\<lambda>t.
     if t = T_R_PAREN then ret (code @ [d], count + 1)
     else sq (match T_COMMA) (enum_loop n (code @ [d]) (count + 1))))"

definition data_type :: "nat \<Rightarrow> code \<Rightarrow> code psm" where
  "data_type n code =
     bnd (get_lookahead_type 0) (\<lambda>t.
     if t = T_CHAR then
       sq (match T_CHAR) (
       sq (match T_L_PAREN) (
       bnd (get_lookahead_token 0) (\<lambda>tok.
       sq (match T_INT) (
       sq (match T_R_PAREN) (
       ret (code @ [push (to_string TYPE_CHAR), push (m_text tok)]))))))
     else if t = T_DATE then
       sq consume (ret (code @ [push (to_string TYPE_DATE), ''PUSH 10'']))
     else if t = T_DATETIME then
       sq consume (ret (code @ [push (to_string TYPE_DATETIME), ''PUSH 19'']))
     else if t = T_ENUM then
       sq (match T_ENUM) (
       (let code1 = code @ [push (to_string TYPE_ENUM)];
            mrk = length code1
        in sq (match T_L_PAREN) (
           bnd (enum_loop n (code1 @ [[]]) 0) (\<lambda>(code2, count).
           sq (match T_R_PAREN) (
           vec_set code2 mrk (push (to_string count)))))))
     else if t = T_FLOAT then
       sq (match T_FLOAT) (
       sq (match T_L_PAREN) (
       bnd (get_lookahead_token 0) (\<lambda>tok1.
       sq (match T_INT) (
       sq (match T_COMMA) (
       bnd (get_lookahead_token 0) (\<lambda>tok2.
       sq (match T_INT) (
       sq (match T_R_PAREN) (
       ret (code @ [push (to_string TYPE_FLOAT), push (m_text tok1), push (m_text tok2)])))))))))
     else if t = T_INT then
       sq (match T_INT) (ret (code @ [push (to_string TYPE_INT), ''PUSH 10'']))
     else if t = T_TIMESTAMP then
       sq consume (ret (code @ [push (to_string TYPE_TIMESTAMP), ''PUSH 19'']))
     else if t = T_VARCHAR then
       sq (match T_VARCHAR) (
       sq (match T_L_PAREN) (
       bnd (get_lookahead_token 0) (\<lambda>tok.
       sq (match T_INT) (
       sq (match T_R_PAREN) (
       ret (code @ [push (to_string TYPE_VARCHAR), push (m_text tok)]))))))
     else parse_error)"

fun constraint_loop :: "nat \<Rightarrow> int \<Rightarrow> int psm" where
  "constraint_loop 0 flag = throw Fuel"
| "constraint_loop (Suc n) flag =
     bnd (get_lookahead_type 0) (\<lambda>t.
     if t = T_AUTO_INC then sq consume (constraint_loop n (flag OR FLAG_AUTO_INC))
     else if t = T_UNSIGNED then sq consume (constraint_loop n (flag OR FLAG_UNSIGNED))
     else if t = T_ZEROFILL then sq consume (constraint_loop n (flag OR FLAG_ZEROFILL))
     else ret flag)"

definition constraint :: "nat \<Rightarrow> code \<Rightarrow> code psm" where
  "constraint n code =
     (let mrk1 = length code in
      bnd (constraint_loop n 0) (\<lambda>flag.
      vec_set (code @ [''PUSH 0'']) mrk1 (push (to_string flag))))"

definition add_column :: "nat \<Rightarrow> nat \<Rightarrow> unit psm" where
  "add_column n mrk =
     sq (code_set mrk ''CALL ADDCLMN'') (
     sq (emit_data T_NAME) (
     sq (on_code (data_type n)) (
     sq (on_code (constraint n)) (
     bnd (get_lookahead_type 0) (\<lambda>t.
     if t = T_AFTER then sq consume (sq (emit ''PUSH 2'') (emit_data T_NAME))
     else if t = T_FIRST then sq consume (sq (emit ''PUSH 1'') (emit_data T_NAME))
     else emit ''PUSH 0'')))))"

definition add_foreign_key :: "nat \<Rightarrow> nat \<Rightarrow> code \<Rightarrow> code psm" where
  "add_foreign_key n mrk tbl_code =
     sq (match T_KEY) (
     sq (code_set mrk ''CALL ADDFGNKEY'') (
     sq (index_key n) (
     sq (match T_REFERENCES) (
     bnd (table_reference (tbl_code @ [''CALL ULCKTBL''])) (\<lambda>tbl_code'.
     sq (index_key n) (ret tbl_code'))))))"

definition add_index :: "nat \<Rightarrow> nat \<Rightarrow> unit psm" where
  "add_index n mrk = sq (code_set mrk ''CALL ADDNDX'') (index_key n)"

definition add_unique_index :: "nat \<Rightarrow> nat \<Rightarrow> unit psm" where
  "add_unique_index n mrk =
     sq (match T_INDEX) (sq (code_set mrk ''CALL ADDUNINDX'') (index_key n))"

definition alter_add :: "nat \<Rightarrow> nat \<Rightarrow> code \<Rightarrow> code psm" where
  "alter_add n mrk tbl_code =
     bnd (get_lookahead_type 0) (\<lambda>t.
     if t = T_COLUMN then sq consume (sq (add_column n mrk) (ret tbl_code))
     else if t = T_FOREIGN then sq consume (add_foreign_key n mrk tbl_code)
     else if t = T_INDEX then sq consume (sq (add_index n mrk) (ret tbl_code))
     else if t = T_UNIQUE then sq consume (sq (add_unique_index n mrk) (ret tbl_code))
     else parse_error)"

definition drop_column :: "nat \<Rightarrow> unit psm" where
  "drop_column mrk = sq (code_set mrk ''CALL DROPCLMN'') (emit_data T_NAME)"

definition drop_foreign_key :: "nat \<Rightarrow> unit psm" where
  "drop_foreign_key mrk =
     sq (match T_KEY) (sq (code_set mrk ''CALL DROPFGNKEY'') (emit_data T_NAME))"

definition drop_index :: "nat \<Rightarrow> unit psm" where
  "drop_index mrk = sq (code_set mrk ''CALL DROPNDX'') (emit_data T_NAME)"

definition alter_drop :: "nat \<Rightarrow> unit psm" where
  "alter_drop mrk =
     bnd (get_lookahead_type 0) (\<lambda>t.
     if t = T_COLUMN then sq consume (drop_column mrk)
     else if t = T_FOREIGN then sq consume (drop_foreign_key mrk)
     else if t = T_INDEX then sq consume (drop_index mrk)
     else parse_error)"

definition alter_table :: "nat \<Rightarrow> unit psm" where
  "alter_table n =
     bnd code_size (\<lambda>mrk.
     sq (emit ''CALL ALT'') (
     sq (load_lookahead 2) (
     bnd (table_reference [''CALL ULCKTBL'']) (\<lambda>tbl_code.
     bnd (get_lookahead_type 0) (\<lambda>t.
     bnd (if t = T_ADD then sq consume (alter_add n mrk tbl_code)
          else if t = T_DROP then sq consume (sq (alter_drop mrk) (ret tbl_code))
          else parse_error) (\<lambda>tbl_code'.
     sq (emit_all tbl_code') (emit ''CALL MKWRKSCH'')))))))"

definition alter_stmt :: "nat \<Rightarrow> unit psm" where
  "alter_stmt n =
     bnd (get_lookahead_type 0) (\<lambda>t.
     if t = T_DATABASE then sq consume alter_database
     else if t = T_TABLE then sq consume (alter_table n)
     else if t = T_USER then sq consume alter_user
     else parse_error)"

section \<open>CREATE\<close>

definition create_database :: "unit psm" where
  "create_database = sq (emit ''CALL CRTDB'') (emit_data T_NAME)"

definition foreign_key :: "nat \<Rightarrow> unit psm" where
  "foreign_key n =
     sq (emit ''CALL MKFGNKEY'') (
     sq (counted_names n) (
     sq (match T_REFERENCES) (
     sq qualified_name (
     counted_names n))))"

definition primary_key :: "nat \<Rightarrow> unit psm" where
  "primary_key n = sq (emit ''CALL MKPRIKEY'') (counted_names n)"

definition unique_key :: "nat \<Rightarrow> unit psm" where
  "unique_key n = sq (emit ''CALL MKUNIKEY'') (counted_names n)"

definition key_definition :: "nat \<Rightarrow> unit psm" where
  "key_definition n =
     bnd (get_lookahead_type 0) (\<lambda>t.
     if t = T_FOREIGN then sq consume (sq (match T_KEY) (foreign_key n))
     else if t = T_PRIMARY then sq consume (sq (match T_KEY) (primary_key n))
     else if t = T_UNIQUE then sq consume (unique_key n)
     else ret ())"

definition column_definition :: "nat \<Rightarrow> code \<Rightarrow> code psm" where
  "column_definition n code =
     bnd (get_lookahead_type 0) (\<lambda>t.
     if t = T_NAME then
       bnd (data_line T_NAME) (\<lambda>d.
       bnd (data_type n (code @ [''NOP'', ''CALL MKCLMNDEF'', d])) (\<lambda>code'.
       constraint n code'))
     else if t = T_FOREIGN \<or> t = T_PRIMARY then sq (key_definition n) (ret code)
     else parse_error)"

text \<open>The loop collects the code of the definitions; the list is then reversed.\<close>

fun column_definition_loop :: "nat \<Rightarrow> code list \<Rightarrow> code list psm" where
  "column_definition_loop 0 code_list = throw Fuel"
| "column_definition_loop (Suc n) code_list =
     bnd (column_definition (Suc n) []) (\<lambda>cd_code.
     bnd (get_lookahead_type 0) (\<lambda>t.
     if t = T_COMMA then sq consume (column_definition_loop n (code_list @ [cd_code]))
     else ret (code_list @ [cd_code])))"

definition column_definition_list :: "nat \<Rightarrow> code \<Rightarrow> code psm" where
  "column_definition_list n code =
     bnd (column_definition_loop n []) (\<lambda>code_list. ret (code @ concat (rev code_list)))"

definition create_table :: "nat \<Rightarrow> unit psm" where
  "create_table n =
     sq (emit ''CALL CRTTBL'') (
     sq qualified_name (
     sq (match T_L_PAREN) (
     bnd (column_definition_list n []) (\<lambda>code.
     sq (emit_all code) (
     sq (match T_R_PAREN) (
     emit ''CALL MKWRKSCH''))))))"

definition create_user :: "unit psm" where
  "create_user =
     sq (emit ''CALL CRTUSR'') (
     sq (emit_data T_VARCHAR) (
     sq (match T_ATSIGN) (
     sq (emit_data T_VARCHAR) (
     sq (match T_IDENTIFIED) (
     sq (match T_BY) (
     emit_data T_VARCHAR))))))"

definition create_stmt :: "nat \<Rightarrow> unit psm" where
  "create_stmt n =
     bnd (get_lookahead_type 0) (\<lambda>t.
     if t = T_DATABASE then sq consume create_database
     else if t = T_TABLE then sq consume (create_table n)
     else if t = T_USER then sq consume create_user
     else parse_error)"

section \<open>DELETE, DESCRIBE, DROP\<close>

definition opt_where :: "nat \<Rightarrow> unit psm" where
  "opt_where n =
     bnd (get_lookahead_type 0) (\<lambda>t.
     if t = T_WHERE then
       sq (emit ''CALL WHERE'') (
       sq (match T_WHERE) (
       bnd (expr n []) emit_all))
     else ret ())"

definition delete_stmt :: "nat \<Rightarrow> unit psm" where
  "delete_stmt n =
     sq (emit ''CALL DELETE'') (
     sq (match T_FROM) (
     bnd (table_reference [''CALL ULCKTBL'']) (\<lambda>tbl_code.
     sq (opt_where n) (
     emit_all tbl_code))))"

definition describe_stmt :: "unit psm" where
  "describe_stmt =
     sq (emit ''CALL DESCRIBE'') (
     sq (emit ''CALL SLCKTBL'') (
     on_code table_reference))"

definition drop_database :: "unit psm" where
  "drop_database = sq (emit ''CALL DROPDB'') (emit_data T_NAME)"

definition drop_table :: "unit psm" where
  "drop_table = sq (emit ''CALL DROPTBL'') qualified_name"

definition drop_user :: "unit psm" where
  "drop_user =
     sq (emit ''CALL DROPUSR'') (
     sq (emit_data T_VARCHAR) (sq (match T_ATSIGN) (emit_data T_VARCHAR)))"

definition drop_stmt :: "unit psm" where
  "drop_stmt =
     bnd (get_lookahead_type 0) (\<lambda>t.
     if t = T_DATABASE then sq consume drop_database
     else if t = T_TABLE then sq consume drop_table
     else if t = T_USER then sq consume drop_user
     else parse_error)"

section \<open>GRANT and REVOKE\<close>

definition simple_privs :: "int list" where
  "simple_privs = [T_ALL, T_ALTER, T_DELETE, T_DROP, T_FILE, T_GRANT, T_INDEX, T_INSERT,
     T_RELOAD, T_SELECT, T_SHUTDOWN, T_UPDATE]"

text \<open>
  The loop over the privileges, the same in \<open>grant_stmt\<close> and \<open>revoke_stmt\<close>. It
  returns the count at ON.
\<close>

fun priv_loop :: "nat \<Rightarrow> int \<Rightarrow> int psm" where
  "priv_loop 0 count = throw Fuel"
| "priv_loop (Suc n) count =
     bnd (get_lookahead_type 0) (\<lambda>t.
     if t = T_COMMA then sq consume (priv_loop n count)
     else if t = T_ON then ret count
     else if t \<in> set simple_privs then
       bnd (get_lookahead_token 0) (\<lambda>tok.
       sq (emit_str (map tolower (m_text tok @ ''_priv''))) (
       sq consume (priv_loop n (count + 1))))
     else if t = T_CREATE then
       sq consume (
       sq (load_lookahead 2) (
       bnd (get_lookahead_type 1) (\<lambda>t1.
       if t1 = T_USER then
         sq consume (sq (emit_str ''create_user_priv'') (priv_loop n (count + 1)))
       else sq (emit_str ''create_priv'') (priv_loop n (count + 1)))))
     else if t = T_SHOW then
       sq consume (
       sq (match T_DATABASE) (
       sq (emit_str ''show_db_priv'') (priv_loop n (count + 1))))
     else parse_error)"

text \<open>The object of the privileges: a starred or a qualified name.\<close>

definition priv_object :: "unit psm" where
  "priv_object =
     bnd (get_lookahead_type 0) (\<lambda>t.
     if t = T_ASTERISK then
       sq (load_lookahead 2) (
       bnd (get_lookahead_type 1) (\<lambda>t1.
       if t1 = T_DOT then
         sq (emit_data T_ASTERISK) (sq (match T_DOT) (emit_data T_ASTERISK))
       else sq emit_empty (emit_data T_ASTERISK)))
     else if t = T_NAME then
       sq (load_lookahead 3) (
       bnd (get_lookahead_type 1) (\<lambda>t1.
       if t1 = T_DOT then
         bnd (get_lookahead_type 2) (\<lambda>t2.
         if t2 = T_ASTERISK then
           sq (emit_data T_NAME) (sq (match T_DOT) (emit_data T_ASTERISK))
         else bnd (get_lookahead_type 2) (\<lambda>t2'.
           if t2' = T_NAME then
             sq (emit_data T_NAME) (sq (match T_DOT) (emit_data T_NAME))
           else ret ()))
       else sq emit_empty (emit_data T_NAME)))
     else parse_error)"

text \<open>The user the statement is for, with the optional password.\<close>

definition priv_user :: "unit psm" where
  "priv_user =
     sq (emit_data T_VARCHAR) (
     sq (match T_ATSIGN) (
     sq (emit_data T_VARCHAR) (
     bnd (get_lookahead_type 0) (\<lambda>t.
     if t = T_IDENTIFIED then
       sq consume (
       sq (match T_BY) (
       sq (emit ''PUSH 1'') (
       emit_data T_VARCHAR)))
     else emit ''PUSH 0''))))"

definition priv_stmt :: "nat \<Rightarrow> string \<Rightarrow> int \<Rightarrow> unit psm" where
  "priv_stmt n call keyword =
     sq (emit call) (
     bnd code_size (\<lambda>mrk.
     sq (emit []) (
     bnd (priv_loop n 0) (\<lambda>count.
     sq (code_set mrk (push (to_string count))) (
     sq (match T_ON) (
     sq priv_object (
     sq (match keyword) (
     priv_user))))))))"

definition grant_stmt :: "nat \<Rightarrow> unit psm" where
  "grant_stmt n = priv_stmt n ''CALL GRANT'' T_TO"

definition revoke_stmt :: "nat \<Rightarrow> unit psm" where
  "revoke_stmt n = priv_stmt n ''CALL REVOKE'' T_FROM"

section \<open>INSERT\<close>

definition opt_column_list :: "nat \<Rightarrow> unit psm" where
  "opt_column_list n =
     bnd code_size (\<lambda>mrk.
     sq (emit []) (
     bnd (get_lookahead_type 0) (\<lambda>t.
     bnd (if t = T_L_PAREN then
            sq consume (bnd (column_list n 0) (\<lambda>count. sq (match T_R_PAREN) (ret count)))
          else ret 0) (\<lambda>count.
     code_set mrk (push (to_string count))))))"

definition value_expr :: "nat \<Rightarrow> unit psm" where
  "value_expr n = bnd (expr n []) emit_all"

fun value_set_loop :: "nat \<Rightarrow> int \<Rightarrow> int psm" where
  "value_set_loop 0 count = throw Fuel"
| "value_set_loop (Suc n) count =
     sq (value_expr (Suc n)) (
     bnd (get_lookahead_type 0) (\<lambda>t.
     if t = T_COMMA then sq consume (value_set_loop n (count + 1))
     else ret (count + 1)))"

definition value_set :: "nat \<Rightarrow> unit psm" where
  "value_set n =
     bnd code_size (\<lambda>mrk.
     sq (emit []) (
     bnd (value_set_loop n 0) (\<lambda>count.
     code_set mrk (push (to_string count)))))"

fun value_set_list_loop :: "nat \<Rightarrow> int \<Rightarrow> int psm" where
  "value_set_list_loop 0 count = throw Fuel"
| "value_set_list_loop (Suc n) count =
     sq (match T_L_PAREN) (
     sq (value_set n) (
     sq (match T_R_PAREN) (
     bnd (get_lookahead_type 0) (\<lambda>t.
     if t = T_COMMA then sq consume (value_set_list_loop n (count + 1))
     else ret (count + 1)))))"

definition value_set_list :: "nat \<Rightarrow> unit psm" where
  "value_set_list n =
     bnd code_size (\<lambda>mrk.
     sq (emit []) (
     bnd (value_set_list_loop n 0) (\<lambda>count.
     code_set mrk (push (to_string count)))))"

definition insert_stmt :: "nat \<Rightarrow> unit psm" where
  "insert_stmt n =
     sq (emit ''CALL INSERT'') (
     sq (match T_INTO) (
     bnd (table_reference [''CALL ULCKTBL'']) (\<lambda>tbl_code.
     sq (opt_column_list n) (
     sq (match T_VALUES) (
     sq (value_set_list n) (
     emit_all tbl_code))))))"

section \<open>LOAD\<close>

definition load_stmt :: "unit psm" where
  "load_stmt =
     sq (emit ''CALL LOADDATA'') (
     sq (match T_DATA) (
     sq (match T_INFILE) (
     sq (emit_data T_VARCHAR) (
     bnd (get_lookahead_type 0) (\<lambda>t.
     sq (if t = T_IGNORE then emit ''PUSH 1''
         else if t = T_REPLACE then emit ''PUSH 2''
         else emit ''PUSH 0'') (
     sq (match T_INTO) (
     sq (match T_TABLE) (
     sq (emit ''CALL ULCKTBL'') (
     on_code table_reference)))))))))"

section \<open>SELECT\<close>

definition select_expr :: "nat \<Rightarrow> code \<Rightarrow> code psm" where
  "select_expr n code =
     bnd (expr n code) (\<lambda>code'.
     bnd next_header (\<lambda>h.
     bnd (data_str h) (\<lambda>i.
     ret (code' @ [''CALL MKEXPRHDR'', pusho i]))))"

fun select_expr_loop :: "nat \<Rightarrow> code \<Rightarrow> code psm" where
  "select_expr_loop 0 code = throw Fuel"
| "select_expr_loop (Suc n) code =
     bnd (select_expr (Suc n) code) (\<lambda>code'.
     bnd (get_lookahead_type 0) (\<lambda>t.
     if t = T_COMMA then sq consume (select_expr_loop n code')
     else ret code'))"

definition select_expr_list :: "nat \<Rightarrow> code \<Rightarrow> code psm" where
  "select_expr_list n code = select_expr_loop n (code @ [''CALL MKEXPRLST''])"

definition join :: "code \<Rightarrow> code psm" where
  "join code =
     bnd (get_lookahead_type 0) (\<lambda>t.
     if t = T_CROSS then sq (match T_CROSS) (sq (match T_JOIN) (ret (code @ [''CALL CRJOIN''])))
     else if t = T_JOIN then sq (match T_JOIN) (ret (code @ [''CALL CRJOIN'']))
     else if t = T_INNER then
       sq (match T_INNER) (sq (match T_JOIN) (ret (code @ [''CALL INJOIN''])))
     else if t = T_LEFT then
       sq (match T_LEFT) (
       bnd (get_lookahead_type 0) (\<lambda>t1.
       sq (if t1 = T_OUTER then match T_OUTER else ret ()) (
       sq (match T_JOIN) (ret (code @ [''CALL LTJOIN''])))))
     else if t = T_RIGHT then
       sq (match T_RIGHT) (
       bnd (get_lookahead_type 0) (\<lambda>t1.
       sq (if t1 = T_OUTER then match T_OUTER else ret ()) (
       sq (match T_JOIN) (ret (code @ [''CALL RTJOIN''])))))
     else ret code)"

text \<open>
  The loop of the USING list: from the second column on, the first code of the
  column expression is overwritten with NOP.
\<close>

fun using_loop :: "nat \<Rightarrow> code \<Rightarrow> int \<Rightarrow> (code \<times> int) psm" where
  "using_loop 0 code count = throw Fuel"
| "using_loop (Suc n) code count =
     (let mrk3 = length code in
      bnd (expr (Suc n) code) (\<lambda>code1.
      bnd (if count + 1 > 1 then vec_set code1 mrk3 ''NOP'' else ret code1) (\<lambda>code2.
      bnd (get_lookahead_type 0) (\<lambda>t.
      if t \<noteq> T_COMMA then ret (code2, count + 1)
      else sq (match T_COMMA) (using_loop n code2 (count + 1))))))"

definition on_using :: "nat \<Rightarrow> code \<Rightarrow> code psm" where
  "on_using n code =
     bnd (get_lookahead_type 0) (\<lambda>t.
     if t = T_ON then sq (match T_ON) (expr n (code @ [''CALL ON'']))
     else bnd (get_lookahead_type 0) (\<lambda>t'.
     if t' = T_USING then
       sq (match T_USING) (
       (let mrk1 = length code; code1 = code @ [''PUSH 0'']; mrk2 = length code1 in
        sq (match T_L_PAREN) (
        bnd (using_loop n code1 0) (\<lambda>(code2, count).
        sq (match T_R_PAREN) (
        bnd (vec_set code2 mrk2 (push (to_string count))) (\<lambda>code3.
        vec_set code3 mrk1 ''CALL USING''))))))
     else ret code))"

text \<open>The loop over the joins: table code, and the join code of each join.\<close>

fun join_loop :: "nat \<Rightarrow> code \<Rightarrow> code list \<Rightarrow> (code \<times> code list) psm" where
  "join_loop 0 tbl_code join_code_list = throw Fuel"
| "join_loop (Suc n) tbl_code join_code_list =
     bnd (speculate_list_to join_list) (\<lambda>b.
     if b then
       bnd (join []) (\<lambda>join_code.
       bnd (table_reference (tbl_code @ [''CALL SLCKTBL''])) (\<lambda>tbl_code'.
       bnd (on_using n join_code) (\<lambda>join_code'.
       join_loop n tbl_code' (join_code_list @ [join_code']))))
     else ret (tbl_code, join_code_list))"

definition table_reference_list :: "nat \<Rightarrow> code \<Rightarrow> code psm" where
  "table_reference_list n code =
     bnd (table_reference [''CALL SLCKTBL'']) (\<lambda>tbl_code.
     bnd (join_loop n tbl_code []) (\<lambda>(tbl_code', join_code_list).
     ret (code @ concat (rev join_code_list) @ tbl_code')))"

text \<open>One column of ORDER BY.\<close>

definition order_column :: "unit psm" where
  "order_column =
     sq (emit ''CALL MKCLMNEXPR'') (
     bnd (speculate_list name_dot_name_dot_name_list) (\<lambda>b3.
     if b3 then
       sq emit_empty (
       sq (match T_DOT) (
       sq (emit_data T_NAME) (
       sq (match T_DOT) (
       emit_data T_NAME))))
     else bnd (speculate_list name_dot_name_list) (\<lambda>b2.
     if b2 then
       sq emit_empty (
       sq (emit_data T_NAME) (
       sq (match T_DOT) (
       emit_data T_NAME)))
     else sq emit_empty (sq emit_empty (emit_data T_NAME)))))"

fun order_loop :: "nat \<Rightarrow> int \<Rightarrow> int psm" where
  "order_loop 0 count = throw Fuel"
| "order_loop (Suc n) count =
     sq order_column (
     bnd (get_lookahead_type 0) (\<lambda>t.
     if t = T_COMMA then sq consume (order_loop n (count + 1))
     else ret (count + 1)))"

definition opt_order_by :: "nat \<Rightarrow> unit psm" where
  "opt_order_by n =
     sq (load_lookahead 6) (
     bnd (get_lookahead_type 0) (\<lambda>t0.
     bnd (if t0 = T_ORDER then bnd (get_lookahead_type 1) (\<lambda>t1. ret (t1 = T_BY)) else ret False)
       (\<lambda>q. if q then
         sq (emit ''CALL ORDERBY'') (
         sq (match T_ORDER) (
         sq (match T_BY) (
         bnd code_size (\<lambda>mrk.
         sq (emit ''PUSH '') (
         bnd (get_lookahead_type 0) (\<lambda>t.
         bnd (if t = T_L_PAREN then sq consume (ret True) else ret False) (\<lambda>have_parentheses.
         bnd (order_loop n 0) (\<lambda>count.
         sq (code_set mrk (push (to_string count))) (
         if have_parentheses then
           bnd (get_lookahead_type 0) (\<lambda>t'.
           if t' = T_R_PAREN then consume else parse_error)
         else ret ())))))))))
       else ret ())))"

definition opt_into_outfile :: "unit psm" where
  "opt_into_outfile =
     bnd (get_lookahead_type 0) (\<lambda>t.
     if t \<noteq> T_INTO then ret ()
     else sq consume (
       sq (match T_OUTFILE) (
       sq (emit ''CALL SETOUTF'') (
       emit_data T_VARCHAR))))"

definition select_stmt :: "nat \<Rightarrow> unit psm" where
  "select_stmt n =
     sq (emit ''CALL SELECT'') (
     bnd (select_expr_list n []) (\<lambda>code.
     sq (match T_FROM) (
     bnd (table_reference_list n code) (\<lambda>code'.
     sq (opt_where n) (
     sq (opt_order_by n) (
     sq (emit_all code') (
     opt_into_outfile)))))))"

section \<open>SHOW, UPDATE, USE\<close>

definition show_stmt :: "unit psm" where
  "show_stmt =
     bnd (get_lookahead_type 0) (\<lambda>t.
     if t = T_DATABASES then sq consume (emit ''CALL SHOWDBS'')
     else if t = T_TABLES then sq consume (emit ''CALL SHOWTBLS'')
     else parse_error)"

definition assignment :: "nat \<Rightarrow> unit psm" where
  "assignment n =
     bnd code_size (\<lambda>mrk.
     bnd (expr n []) (\<lambda>code.
     sq (emit_all code) (
     code_set mrk ''CALL MKASSIGN'')))"

fun assignment_list :: "nat \<Rightarrow> unit psm" where
  "assignment_list 0 = throw Fuel"
| "assignment_list (Suc n) =
     sq (assignment (Suc n)) (
     bnd (get_lookahead_type 0) (\<lambda>t.
     if t = T_COMMA then sq consume (assignment_list n) else ret ()))"

definition update_stmt :: "nat \<Rightarrow> unit psm" where
  "update_stmt n =
     sq (emit ''CALL UPDATE'') (
     bnd (table_reference [''CALL ULCKTBL'']) (\<lambda>tbl_code.
     sq (match T_SET) (
     sq (assignment_list n) (
     sq (opt_where n) (
     emit_all tbl_code)))))"

definition use_stmt :: "unit psm" where
  "use_stmt = sq (emit ''CALL USE'') (emit_data T_NAME)"

section \<open>Statements\<close>

fun stmt_loop :: "nat \<Rightarrow> unit psm" where
  "stmt_loop 0 = throw Fuel"
| "stmt_loop (Suc n) =
     bnd (get_lookahead_type 0) (\<lambda>t0.
     if t0 = EOI then ret ()
     else bnd (get_lookahead_type 0) (\<lambda>t.
     if t = T_ALTER then sq consume (sq (alter_stmt n) (stmt_loop n))
     else if t = T_CREATE then sq consume (sq (create_stmt n) (stmt_loop n))
     else if t = T_DELETE then sq consume (sq (delete_stmt n) (stmt_loop n))
     else if t = T_DESCRIBE then sq consume (sq describe_stmt (stmt_loop n))
     else if t = T_DROP then sq consume (sq drop_stmt (stmt_loop n))
     else if t = T_GRANT then sq consume (sq (grant_stmt n) (stmt_loop n))
     else if t = T_INSERT then sq consume (sq (insert_stmt n) (stmt_loop n))
     else if t = T_LOAD then sq consume (sq load_stmt (stmt_loop n))
     else if t = T_REVOKE then sq consume (sq (revoke_stmt n) (stmt_loop n))
     else if t = T_SELECT then sq consume (sq (select_stmt n) (stmt_loop n))
     else if t = T_SHOW then sq consume (sq show_stmt (stmt_loop n))
     else if t = T_SEMICOLON then sq consume (stmt_loop n)
     else if t = T_UPDATE then sq consume (sq (update_stmt n) (stmt_loop n))
     else if t = T_USE then sq consume (sq use_stmt (stmt_loop n))
     else parse_error))"

definition stmt :: "nat \<Rightarrow> unit psm" where
  "stmt n = sq (emit ''RET'') (stmt_loop n)"

definition parse_fuel :: "string \<Rightarrow> nat" where
  "parse_fuel input = length input + 3"

definition parse :: "string \<Rightarrow> (error + unit) \<times> parser" where
  "parse input = (case parser_new input of
     (Inl e, s) \<Rightarrow> (Inl e, s)
   | (Inr _, s) \<Rightarrow> stmt (parse_fuel input) s)"

text \<open>\<open>dump_data(i)\<close> and \<open>dump_text(i)\<close> use \<open>at\<close>, which throws out of range.\<close>

definition dump_data :: "nat \<Rightarrow> string psm" where
  "dump_data i = (\<lambda>s. if i < length (ps_data s) then (Inr (m_text (ps_data s ! i)), s)
                      else (Inl (Logic_error ''out_of_range''), s))"

definition dump_text :: "nat \<Rightarrow> string psm" where
  "dump_text i = (\<lambda>s. if i < length (ps_code s) then (Inr (ps_code s ! i), s)
                      else (Inl (Logic_error ''out_of_range''), s))"

end
