(* ===== verification/ParserWp.thy ===== *)
theory ParserWp
  imports ParserStmt
begin

text \<open>
  A small weakest-precondition calculus for the parser monad. \<open>wp m Q s\<close> says
  that \<open>m\<close>, run from \<open>s\<close>, either throws one of the expected exceptions or ends
  in a state with \<open>Q\<close>. Progress is measured by \<open>left\<close>, the number of tokens in
  the window plus what the lexer can still consume; \<open>rel\<close> relates a state to the
  one a routine started from. The rules for the constructs of the monad are in
  \<open>wp_struct\<close>, those for the operations of the parser in \<open>wp_prim\<close>.
\<close>

section \<open>Lines of code\<close>

definition call_names :: "string list" where
  "call_names = [''ADD'', ''ADDCLMN'', ''ADDFGNKEY'', ''ADDNDX'', ''ADDUNINDX'', ''ALTDB'',
     ''ALTUSR'', ''AND'', ''CMPEQ'', ''CMPGE'', ''CMPGT'', ''CMPLE'', ''CMPLT'', ''CMPNE'', ''CRJOIN'',
     ''CRTDB'', ''CRTTBL'', ''CRTUSR'', ''DELETE'', ''DESCRIBE'', ''DIV'', ''DROPCLMN'', ''DROPDB'',
     ''DROPFGNKEY'', ''DROPNDX'', ''DROPTBL'', ''DROPUSR'', ''GRANT'', ''INJOIN'', ''INSERT'',
     ''LOADDATA'', ''LTJOIN'', ''MKASSIGN'', ''MKASTEXPR'', ''MKCLMNDEF'', ''MKCLMNEXPR'', ''MKEXPR'',
     ''MKEXPRHDR'', ''MKEXPRLST'', ''MKFGNKEY'', ''MKPRIKEY'', ''MKUNIKEY'', ''MKUSR'', ''MKWRKSCH'',
     ''MUL'', ''NEGATE'', ''ON'', ''OPNTBL'', ''OR'', ''ORDERBY'', ''REVOKE'', ''RTJOIN'', ''SELECT'',
     ''SETOUTF'', ''SHOWDBS'', ''SHOWTBLS'', ''SLCKTBL'', ''SUB'', ''ULCKTBL'', ''UPDATE'', ''USE'',
     ''USING'', ''WHERE'']"

text \<open>
  A finished line, for a given number of data items: a call, a reference to an
  existing data item, a push of a number, or the empty instruction.
  The operand of a push that comes from the input is the text of a token of
  type INT, which is a number or the keyword INT itself.
\<close>

definition push_operand :: "string \<Rightarrow> bool" where
  "push_operand t \<longleftrightarrow> t \<noteq> [] \<and> list_all isdigit t \<or> map toupper t = ''INT''"

definition call_line :: "string \<Rightarrow> string" where
  "call_line nm = ''CALL '' @ nm"

inductive wf_line :: "nat \<Rightarrow> string \<Rightarrow> bool" for nd where
  nop: "wf_line nd ''NOP''"
| call: "nm \<in> set call_names \<Longrightarrow> wf_line nd (call_line nm)"
| push: "push_operand t \<Longrightarrow> wf_line nd (push t)"
| pusho: "i < nd \<Longrightarrow> wf_line nd (pusho (nat_str i))"

declare wf_line.nop [simp]

inductive_cases wf_lineE: "wf_line nd c"

lemma wf_line_mono: "wf_line nd c \<Longrightarrow> nd \<le> nd' \<Longrightarrow> wf_line nd' c"
  by (induction rule: wf_line.induct) (auto intro: wf_line.intros)

lemma wf_call_lines: "list_all (\<lambda>nm. \<forall>nd. wf_line nd (call_line nm)) call_names"
  by (auto simp: list_all_iff intro: wf_line.call)

lemmas wf_calls [simp] = wf_call_lines [unfolded call_names_def call_line_def, simplified]

definition wf_lines :: "nat \<Rightarrow> code \<Rightarrow> bool" where
  "wf_lines nd code \<longleftrightarrow> (\<forall>c \<in> set code. wf_line nd c)"

lemma wf_lines_simps [simp]:
  "wf_lines nd []" "wf_lines nd (c # cs) \<longleftrightarrow> wf_line nd c \<and> wf_lines nd cs"
  "wf_lines nd (xs @ ys) \<longleftrightarrow> wf_lines nd xs \<and> wf_lines nd ys"
  by (auto simp: wf_lines_def)

lemma wf_lines_mono: "wf_lines nd c \<Longrightarrow> nd \<le> nd' \<Longrightarrow> wf_lines nd' c"
  by (auto simp: wf_lines_def intro: wf_line_mono)

lemma wf_lines_update: "wf_lines nd c \<Longrightarrow> wf_line nd x \<Longrightarrow> wf_lines nd (c[i := x])"
  using set_update_subset_insert by (fastforce simp: wf_lines_def)

lemma push_operand_number: "push_operand (to_string (int n))"
  using nat_str_digits [of n] by (simp add: push_operand_def to_string_nat list_all_iff)

lemma push_operand_nonneg: "0 \<le> i \<Longrightarrow> push_operand (to_string i)"
  using push_operand_number [of "nat i"] by simp

lemma wf_push_nonneg [simp]: "0 \<le> i \<Longrightarrow> wf_line nd (push (to_string i))"
  by (simp add: push_operand_nonneg wf_line.push)

lemma wf_push_literal [simp]:
  "wf_line nd ''PUSH 0''" "wf_line nd ''PUSH 1''" "wf_line nd ''PUSH 2''" "wf_line nd ''PUSH 10''"
  "wf_line nd ''PUSH 19''"
  using wf_line.push [of "''0''" nd] wf_line.push [of "''1''" nd] wf_line.push [of "''2''" nd]
    wf_line.push [of "''10''" nd] wf_line.push [of "''19''" nd]
  by (simp_all add: push_operand_def push_def isdigit_def)

section \<open>Tokens of type INT\<close>

lemma number_INT:
  assumes "isdigit (lx_ch l)" "m_type (fst (number l)) = T_INT"
  shows "push_operand (m_text (fst (number l)))"
proof -
  obtain v l1 where sc: "scan_while isdigit [] l = (v, l1)" by fastforce
  have "lx_ch l \<noteq> EOI_CH" using assms isdigit_not_EOI by metis
  then have "v \<noteq> []" "list_all isdigit v" using scan_while_all [OF sc] assms by auto
  then show ?thesis
    using assms by (auto simp: number_def sc push_operand_def split: if_splits prod.splits)
qed

lemma number_dot: "lx_ch l = CHR ''.'' \<Longrightarrow> m_type (fst (number l)) = T_FLOAT"
  by (simp add: number_def scan_while.simps [of isdigit "[]" l] isdigit_def split: prod.splits)

lemma symbol_INT: "list_all (\<lambda>p. snd p = T_INT \<longrightarrow> fst p = ''INT'') symbol"
  by code_simp

lemma name_INT:
  assumes "m_type (fst (name l)) = T_INT"
  shows "push_operand (m_text (fst (name l)))"
proof -
  obtain v l1 where sc: "scan_while (\<lambda>c. isalnum c \<or> c = CHR ''_'') [] l = (v, l1)" by fastforce
  with assms have "get_symbol_type v = T_INT" by (auto simp: name_def Let_def split: if_splits)
  then have "map_of symbol (map toupper v) = Some T_INT"
    by (auto simp: get_symbol_type_def tran_sym.symbol_type_map_of split: option.splits)
  then have "map toupper v = ''INT''"
    using symbol_INT by (auto simp: list_all_iff dest!: map_of_SomeD)
  then show ?thesis by (simp add: name_def sc Let_def push_operand_def)
qed

lemma produced_INT: "produced tok \<Longrightarrow> m_type tok = T_INT \<Longrightarrow> push_operand (m_text tok)"
proof (induction rule: produced.induct)
  case (varchar l)
  then show ?case by (auto simp: varchar_def split: prod.splits)
next
  case (name l)
  then show ?case by (simp add: name_INT)
next
  case (number l)
  then show ?case by (simp add: number_INT)
next
  case (compound l tok l')
  then show ?case
    using number_dot [of l]
    by (auto simp: compound_def Let_def token_error_run split: if_splits prod.splits)
next
  case (single c ty tx)
  then show ?case by (auto simp: single_char_def split: if_splits)
qed simp

section \<open>States\<close>

text \<open>Tokens that are not the end token, in the window, plus the rest of the lexer's input.\<close>

definition toks :: "token list \<Rightarrow> nat" where
  "toks ts = length (filter (\<lambda>tok. m_type tok \<noteq> EOI) ts)"

definition left :: "parser \<Rightarrow> nat" where
  "left s = toks (drop (ps_index s) (ps_lookahead s)) + pot (ps_lexer s)"

definition data_inv :: "token list \<Rightarrow> bool" where
  "data_inv ds \<longleftrightarrow> ds \<noteq> [] \<and> m_text (hd ds) = empty \<and> distinct (map m_text ds)"

definition ps_ok :: "parser \<Rightarrow> bool" where
  "ps_ok s \<longleftrightarrow> ps_mark s = -1 \<and> ps_index s < length (ps_lookahead s)
     \<and> list_all produced (ps_lookahead s) \<and> data_inv (ps_data s)"

definition cur :: "parser \<Rightarrow> token" where
  "cur s = ps_lookahead s ! ps_index s"

definition nd :: "parser \<Rightarrow> nat" where
  "nd s = length (ps_data s)"

text \<open>The positions of the code that hold no finished line.\<close>

definition bad :: "parser \<Rightarrow> nat set" where
  "bad s = {i. i < length (ps_code s) \<and> \<not> wf_line (nd s) (ps_code s ! i)}"

text \<open>
  The first line is RET, which the dump of the code puts behind all others.
\<close>

definition first_ret :: "parser \<Rightarrow> bool" where
  "first_ret s \<longleftrightarrow> ps_code s \<noteq> [] \<and> ps_code s ! 0 = ''RET''"

lemma first_ret_append [simp]: "first_ret s \<Longrightarrow> first_ret (s \<lparr> ps_code := ps_code s @ cs \<rparr>)"
  by (simp add: first_ret_def nth_append)

lemma first_ret_update: "first_ret s \<Longrightarrow> mrk \<noteq> 0 \<Longrightarrow> first_ret (s \<lparr> ps_code := (ps_code s)[mrk := c] \<rparr>)"
  by (simp add: first_ret_def)

lemma first_ret_other [simp]:
  "first_ret (s \<lparr> ps_data := ds \<rparr>) = first_ret s" "first_ret (s \<lparr> ps_lexer := l \<rparr>) = first_ret s"
  by (simp_all add: first_ret_def)

lemma first_ret_nonempty: "first_ret s \<Longrightarrow> ps_code s \<noteq> []"
  by (simp add: first_ret_def)

text \<open>
  How a state \<open>s\<close> of a routine relates to the state \<open>s0\<close> it started from: at
  least \<open>e\<close> tokens have been consumed, nothing has been removed from code and
  data, the only unfinished lines are the old ones and those at the
  reserved positions \<open>H\<close>, and RET is still the first line if it was.
\<close>

definition rel :: "nat \<Rightarrow> nat set \<Rightarrow> parser \<Rightarrow> parser \<Rightarrow> bool" where
  "rel e H s0 s \<longleftrightarrow> ps_ok s \<and> left s + e \<le> left s0 \<and> length (ps_code s0) \<le> length (ps_code s)
     \<and> nd s0 \<le> nd s \<and> bad s \<subseteq> bad s0 \<union> H \<and> H \<subseteq> {..<length (ps_code s)}
     \<and> (first_ret s0 \<longrightarrow> 0 \<notin> H \<and> first_ret s)"

lemma relD:
  "rel e H s0 s \<Longrightarrow> ps_ok s" "rel e H s0 s \<Longrightarrow> left s + e \<le> left s0"
  "rel e H s0 s \<Longrightarrow> length (ps_code s0) \<le> length (ps_code s)" "rel e H s0 s \<Longrightarrow> nd s0 \<le> nd s"
  by (simp_all add: rel_def)

lemma rel_refl: "ps_ok s \<Longrightarrow> rel 0 {} s s"
  by (simp add: rel_def)

lemma rel_weaken: "rel e H s0 s \<Longrightarrow> e' \<le> e \<Longrightarrow> rel e' H s0 s"
  by (simp add: rel_def)

lemma rel_trans: "rel e H s0 s \<Longrightarrow> rel e' H' s s' \<Longrightarrow> rel (e + e') (H \<union> H') s0 s'"
  by (auto simp: rel_def)

section \<open>Weakest preconditions\<close>

definition expected :: "error \<Rightarrow> bool" where
  "expected e \<longleftrightarrow> (\<exists>rem. e = Runtime_rem ERRNO_TOKEN_ERROR rem)
     \<or> e = Undefined ''header'' \<or> e = Undefined ''m_token_list''"

definition wp :: "'a psm \<Rightarrow> ('a \<Rightarrow> parser \<Rightarrow> bool) \<Rightarrow> parser \<Rightarrow> bool" where
  "wp m Q s = (case m s of (Inl e, s') \<Rightarrow> expected e | (Inr x, s') \<Rightarrow> Q x s')"

named_theorems wp_struct \<open>rules for the constructs of the monad\<close>
named_theorems wp_prim \<open>rules for the operations, from the relation to the start state\<close>

lemma wp_mono: "wp m Q s \<Longrightarrow> (\<And>x s'. Q x s' \<Longrightarrow> Q' x s') \<Longrightarrow> wp m Q' s"
  by (auto simp: wp_def split: prod.splits sum.splits)

lemma wp_ret [wp_struct]: "Q x s \<Longrightarrow> wp (ret x) Q s"
  by (simp add: wp_def)

lemma wp_bnd [wp_struct]: "wp m (\<lambda>x. wp (f x) Q) s \<Longrightarrow> wp (bnd m f) Q s"
  by (auto simp: wp_def bnd_run split: prod.splits sum.splits)

lemma wp_sq [wp_struct]: "wp m (\<lambda>_. wp k Q) s \<Longrightarrow> wp (sq m k) Q s"
  by (auto simp: wp_def sq_run split: prod.splits sum.splits)

lemma wp_if [wp_struct]:
  "(b \<Longrightarrow> wp m Q s) \<Longrightarrow> (\<not> b \<Longrightarrow> wp n Q s) \<Longrightarrow> wp (if b then m else n) Q s"
  by simp

lemma wp_let [wp_struct]: "(\<And>x. x = a \<Longrightarrow> wp (f x) Q s) \<Longrightarrow> wp (let x = a in f x) Q s"
  by simp

lemma wp_prod [wp_struct]: "(\<And>a b. p = (a, b) \<Longrightarrow> wp (f a b) Q s) \<Longrightarrow> wp (case p of (a, b) \<Rightarrow> f a b) Q s"
  by (cases p) simp

lemma wp_error [wp_struct]: "wp parse_error Q s"
  by (simp add: wp_def parse_error_def expected_def)

lemma wp_gets: "Q (f s) s \<Longrightarrow> wp (gets f) Q s"
  by (simp add: wp_def)

section \<open>The window\<close>

lemma toks_simps [simp]:
  "toks [] = 0" "toks (tok # ts) = (if m_type tok \<noteq> EOI then 1 else 0) + toks ts"
  "toks (ts @ us) = toks ts + toks us"
  by (simp_all add: toks_def)

lemma get_lookahead_token_run:
  "ps_index s + i < length (ps_lookahead s)
    \<Longrightarrow> get_lookahead_token i s = (Inr (ps_lookahead s ! (ps_index s + i)), s)"
  by (simp add: get_lookahead_token_def load_lookahead_def exn_simps)

text \<open>A state that differs by more tokens in the window only.\<close>

definition loaded :: "parser \<Rightarrow> parser \<Rightarrow> bool" where
  "loaded s s' \<longleftrightarrow> (\<exists>ext. ps_lookahead s' = ps_lookahead s @ ext
       \<and> toks ext + pot (ps_lexer s') \<le> pot (ps_lexer s) \<and> list_all produced ext)
     \<and> ps_index s' = ps_index s \<and> ps_mark s' = ps_mark s
     \<and> ps_code s' = ps_code s \<and> ps_data s' = ps_data s"

lemma loaded_refl: "loaded s s"
  by (simp add: loaded_def)

lemma loaded_trans: "loaded s s1 \<Longrightarrow> loaded s1 s2 \<Longrightarrow> loaded s s2"
  by (auto simp: loaded_def)

lemma lexer_next_step:
  assumes "lexer_next s = (r, s')"
  shows "case r of Inl e \<Rightarrow> (\<exists>rem. e = Runtime_rem ERRNO_TOKEN_ERROR rem) \<and> loaded s s'
     | Inr tok \<Rightarrow> loaded s (s' \<lparr> ps_lookahead := ps_lookahead s' @ [tok] \<rparr>)"
proof -
  obtain r' l where n: "next_token (ps_lexer s) = (r', l)" by fastforce
  with assms have "r' = r" "s' = s \<lparr> ps_lexer := l \<rparr>" by (auto simp: lexer_next_def)
  then show ?thesis
    using next_token_step [of "ps_lexer s"] next_token_produced [of "ps_lexer s"] n
    by (auto simp: lex_step_def loaded_def split: sum.splits)
qed

lemma load_n_step:
  "load_n n s = (r, s') \<Longrightarrow> loaded s s' \<and>
     (case r of Inl e \<Rightarrow> \<exists>rem. e = Runtime_rem ERRNO_TOKEN_ERROR rem
      | Inr _ \<Rightarrow> length (ps_lookahead s') = length (ps_lookahead s) + n)"
proof (induction n arbitrary: s)
  case 0
  then show ?case by (auto simp: loaded_refl)
next
  case (Suc n)
  obtain r1 s1 where nx: "lexer_next s = (r1, s1)" by fastforce
  note st = lexer_next_step [OF nx]
  show ?case
  proof (cases r1)
    case (Inl e)
    with Suc.prems nx st show ?thesis by auto
  next
    case (Inr tok)
    let ?s2 = "s1 \<lparr> ps_lookahead := ps_lookahead s1 @ [tok] \<rparr>"
    have "load_n n ?s2 = (r, s')" using Suc.prems nx Inr by (simp add: exn_simps)
    moreover have "loaded s ?s2" using st Inr by simp
    moreover have "ps_lookahead s1 = ps_lookahead s"
      using nx by (auto simp: lexer_next_def split: prod.splits)
    ultimately show ?thesis
      using Suc.IH [of ?s2] by (auto dest: loaded_trans split: sum.splits)
  qed
qed

lemma load_lookahead_step:
  assumes "load_lookahead i s = (r, s')"
  shows "loaded s s' \<and> (case r of Inl e \<Rightarrow> \<exists>rem. e = Runtime_rem ERRNO_TOKEN_ERROR rem
     | Inr _ \<Rightarrow> ps_index s' + i \<le> length (ps_lookahead s'))"
proof -
  have "load_n (ps_index s + i - length (ps_lookahead s)) s = (r, s')"
    using assms by (simp add: load_lookahead_def exn_simps)
  from load_n_step [OF this] show ?thesis
    by (auto simp: loaded_def split: sum.splits)
qed

lemma loaded_left: "loaded s s' \<Longrightarrow> ps_index s \<le> length (ps_lookahead s) \<Longrightarrow> left s' \<le> left s"
  by (auto simp: loaded_def left_def)

lemma loaded_ok: "loaded s s' \<Longrightarrow> ps_ok s \<Longrightarrow> ps_ok s' \<and> cur s' = cur s"
  by (auto simp: loaded_def ps_ok_def cur_def nth_append)

lemma loaded_rel: "loaded s s' \<Longrightarrow> rel e H s0 s \<Longrightarrow> rel e H s0 s'"
  using loaded_left [of s s'] loaded_ok [of s s']
  by (auto simp: rel_def ps_ok_def nd_def bad_def loaded_def first_ret_def)

lemma loaded_same: "loaded s s' \<Longrightarrow> nd s' = nd s \<and> ps_code s' = ps_code s"
  by (auto simp: loaded_def nd_def)

lemma wp_la [wp_prim]:
  "rel e H s0 s \<Longrightarrow> Q (m_type (cur s)) s \<Longrightarrow> wp (get_lookahead_type 0) Q s"
  by (simp add: wp_def get_lookahead_type_def rel_def ps_ok_def cur_def exn_simps
      get_lookahead_token_run)

lemma wp_tok [wp_prim]:
  "rel e H s0 s \<Longrightarrow> (produced (cur s) \<Longrightarrow> Q (cur s) s) \<Longrightarrow> wp (get_lookahead_token 0) Q s"
  by (simp add: wp_def rel_def ps_ok_def cur_def list_all_length get_lookahead_token_run)

lemma wp_la_at:
  "ps_index s + i < length (ps_lookahead s)
    \<Longrightarrow> Q (m_type (ps_lookahead s ! (ps_index s + i))) s \<Longrightarrow> wp (get_lookahead_type i) Q s"
  by (simp add: wp_def get_lookahead_type_def exn_simps get_lookahead_token_run)

lemma wp_load [wp_prim]:
  assumes "rel e H s0 s"
    and "\<And>s'. \<lbrakk> rel e H s0 s'; cur s' = cur s; nd s' = nd s; ps_code s' = ps_code s;
       ps_index s' + i \<le> length (ps_lookahead s') \<rbrakk> \<Longrightarrow> Q () s'"
  shows "wp (load_lookahead i) Q s"
proof -
  obtain r s' where ld: "load_lookahead i s = (r, s')" by fastforce
  note st = load_lookahead_step [OF ld]
  have "ps_ok s" using assms(1) by (simp add: relD)
  then show ?thesis
    using st ld loaded_rel [OF _ assms(1)] loaded_ok [of s s'] loaded_same [of s s'] assms(2) [of s']
    by (auto simp: wp_def expected_def split: sum.splits)
qed

lemma consume_step:
  assumes "ps_ok s" "consume s = (r, s')"
  shows "case r of Inl e \<Rightarrow> \<exists>rem. e = Runtime_rem ERRNO_TOKEN_ERROR rem
    | Inr _ \<Rightarrow> ps_ok s' \<and> left s' + (if m_type (cur s) \<noteq> EOI then 1 else 0) \<le> left s
        \<and> ps_code s' = ps_code s \<and> ps_data s' = ps_data s"
proof -
  have idx: "ps_index s < length (ps_lookahead s)" and mrk: "ps_mark s = -1"
    using assms(1) by (auto simp: ps_ok_def)
  define s1 where "s1 = (if length (ps_lookahead s) \<le> Suc (ps_index s)
    then s \<lparr> ps_index := 0, ps_lookahead := [] \<rparr> else s \<lparr> ps_index := Suc (ps_index s) \<rparr>)"
  have ld: "load_lookahead 1 s1 = (r, s')"
    using assms(2) mrk by (auto simp: consume_def exn_simps is_speculating_def s1_def split: if_splits)
  have "drop (ps_index s) (ps_lookahead s) = cur s # drop (Suc (ps_index s)) (ps_lookahead s)"
    using idx by (simp add: cur_def Cons_nth_drop_Suc)
  then have left1: "left s1 + (if m_type (cur s) \<noteq> EOI then 1 else 0) = left s"
    by (auto simp: left_def s1_def)
  have s1: "ps_mark s1 = -1" "ps_index s1 \<le> length (ps_lookahead s1)" "ps_code s1 = ps_code s"
    "ps_data s1 = ps_data s" "list_all produced (ps_lookahead s1)" "data_inv (ps_data s1)"
    using assms(1) by (auto simp: s1_def ps_ok_def)
  note st = load_lookahead_step [OF ld]
  show ?thesis
  proof (cases r)
    case (Inl e)
    with st show ?thesis by auto
  next
    case (Inr u)
    then have "loaded s1 s'" "Suc (ps_index s') \<le> length (ps_lookahead s')" using st by auto
    moreover have "left s' \<le> left s1" using loaded_left st s1 by blast
    ultimately show ?thesis using s1 left1 Inr by (auto simp: ps_ok_def loaded_def)
  qed
qed

lemma consume_rel:
  assumes "rel e H s0 s" "consume s = (Inr u, s')"
  shows "rel (e + (if m_type (cur s) \<noteq> EOI then 1 else 0)) H s0 s'"
  using consume_step [OF relD(1) [OF assms(1)] assms(2)] assms(1)
  by (auto simp: rel_def bad_def nd_def first_ret_def)

lemma wp_consume [wp_prim]:
  assumes "rel e H s0 s"
    and "\<And>s'. \<lbrakk> rel (e + (if m_type (cur s) \<noteq> EOI then 1 else 0)) H s0 s'; nd s' = nd s; ps_code s' = ps_code s \<rbrakk> \<Longrightarrow> Q () s'"
  shows "wp consume Q s"
proof -
  obtain r s' where c: "consume s = (r, s')" by fastforce
  from consume_step [OF relD(1) [OF assms(1)] c] consume_rel [OF assms(1), of _ s'] c assms(2) [of s']
  show ?thesis by (cases r) (auto simp: wp_def expected_def nd_def)
qed

lemma wp_match [wp_prim]:
  assumes "rel e H s0 s"
    and "\<And>s'. \<lbrakk> m_type (cur s) = ty; rel (Suc e) H s0 s'; nd s' = nd s; ps_code s' = ps_code s \<rbrakk> \<Longrightarrow> Q () s'"
    and "ty \<noteq> EOI"
  shows "wp (match ty) Q s"
  unfolding match_def
  apply (rule wp_bnd, rule wp_la [OF assms(1)], rule wp_if, rule wp_error)
  apply (rule wp_consume [OF assms(1)])
  using assms(2,3) by auto

section \<open>Speculation\<close>

definition spec :: "parser \<Rightarrow> parser \<Rightarrow> bool" where
  "spec s s' \<longleftrightarrow> loaded s (s' \<lparr> ps_index := ps_index s \<rparr>)"

lemma spec_consume:
  assumes "0 \<le> ps_mark s" "consume s = (r, s')"
  shows "spec s s' \<and> (case r of Inl e \<Rightarrow> \<exists>rem. e = Runtime_rem ERRNO_TOKEN_ERROR rem
    | Inr _ \<Rightarrow> ps_index s' < length (ps_lookahead s'))"
proof -
  have "load_lookahead 1 (s \<lparr> ps_index := Suc (ps_index s) \<rparr>) = (r, s')"
    using assms by (simp add: consume_def exn_simps is_speculating_def)
  from load_lookahead_step [OF this] show ?thesis
    by (auto simp: spec_def loaded_def split: sum.splits)
qed

lemma spec_match:
  assumes "0 \<le> ps_mark s" "ps_index s < length (ps_lookahead s)" "match ty s = (r, s')"
  shows "spec s s' \<and> (case r of Inl e \<Rightarrow> \<exists>rem. e = Runtime_rem ERRNO_TOKEN_ERROR rem
    | Inr _ \<Rightarrow> ps_index s' < length (ps_lookahead s'))"
proof -
  have la: "get_lookahead_type 0 s = (Inr (m_type (cur s)), s)"
    using assms by (simp add: get_lookahead_type_def get_lookahead_token_run cur_def)
  show ?thesis
  proof (cases "m_type (cur s) = ty")
    case True
    then have "consume s = (r, s')" using assms(3) la by (simp add: match_def)
    with spec_consume [OF assms(1)] show ?thesis by blast
  next
    case False
    with assms(3) la show ?thesis
      by (auto simp: match_def parse_error_def spec_def loaded_refl)
  qed
qed

lemma spec_match_all:
  "\<lbrakk> 0 \<le> ps_mark s; ps_index s < length (ps_lookahead s); match_all tys s = (r, s') \<rbrakk>
    \<Longrightarrow> spec s s' \<and> (\<forall>e. r = Inl e \<longrightarrow> (\<exists>rem. e = Runtime_rem ERRNO_TOKEN_ERROR rem))"
proof (induction tys arbitrary: s)
  case Nil
  then show ?case by (auto simp: spec_def loaded_refl)
next
  case (Cons ty tys)
  obtain r1 s1 where m: "match ty s = (r1, s1)" by fastforce
  note st = spec_match [OF Cons.prems(1,2) m]
  show ?case
  proof (cases r1)
    case (Inl e)
    with st m Cons.prems show ?thesis by auto
  next
    case (Inr u)
    then have s1: "0 \<le> ps_mark s1" "ps_index s1 < length (ps_lookahead s1)" "match_all tys s1 = (r, s')"
      using st m Cons.prems by (auto simp: spec_def loaded_def)
    from Cons.IH [OF s1] st Inr show ?thesis by (auto simp: spec_def loaded_def)
  qed
qed

lemma speculate_list_step:
  assumes "ps_ok s"
  shows "\<exists>b s'. speculate_list tys s = (Inr b, s') \<and> loaded s s'"
proof -
  let ?s = "s \<lparr> ps_mark := int (ps_index s) \<rparr>"
  obtain r s1 where m: "match_all tys ?s = (r, s1)" by fastforce
  have st: "spec ?s s1 \<and> (\<forall>e. r = Inl e \<longrightarrow> (\<exists>rem. e = Runtime_rem ERRNO_TOKEN_ERROR rem))"
    using assms by (intro spec_match_all [OF _ _ m]) (auto simp: ps_ok_def)
  then have "loaded s (s1 \<lparr> ps_index := nat (ps_mark s1), ps_mark := -1 \<rparr>)"
    using assms by (auto simp: spec_def loaded_def ps_ok_def)
  with st m show ?thesis
    by (cases r) (auto simp: speculate_list_def mark_def unmark_def exn_simps)
qed

lemma wp_speculate [wp_prim]:
  assumes "rel e H s0 s"
    and "\<And>b s'. \<lbrakk> rel e H s0 s'; cur s' = cur s; nd s' = nd s; ps_code s' = ps_code s \<rbrakk> \<Longrightarrow> Q b s'"
  shows "wp (speculate_list tys) Q s"
proof -
  have ok: "ps_ok s" using assms(1) by (simp add: relD)
  from speculate_list_step [OF ok, of tys] obtain b s' where
    sp: "speculate_list tys s = (Inr b, s')" "loaded s s'" by blast
  then show ?thesis
    using assms(2) [of s' b] loaded_rel [OF sp(2) assms(1)] loaded_ok [OF sp(2) ok] loaded_same [OF sp(2)]
    by (simp add: wp_def)
qed

lemma wp_speculate_to [wp_prim]:
  "rel e H s0 s \<Longrightarrow> Q (m_type (cur s) \<in> set tys) s \<Longrightarrow> wp (speculate_list_to tys) Q s"
proof (induction tys)
  case Nil
  then show ?case by (simp add: wp_def)
next
  case (Cons ty tys)
  show ?case
    unfolding speculate_list_to.simps
    apply (rule wp_bnd, rule wp_la [OF Cons.prems(1)], rule wp_if)
    using Cons by (auto intro: wp_ret)
qed

section \<open>Data items\<close>

lemma find_data_from_spec:
  "(find_data_from i nm ds = [] \<longleftrightarrow> nm \<notin> m_text ` set ds)
    \<and> (find_data_from i nm ds \<noteq> [] \<longrightarrow>
        (\<exists>j < length ds. m_text (ds ! j) = nm \<and> find_data_from i nm ds = nat_str (i + j)))"
proof (induction ds arbitrary: i)
  case (Cons d ds)
  then show ?case
    by (auto simp: to_string_nat) (metis Suc_less_eq add_Suc_right add_Suc nth_Cons_Suc)+
qed simp

lemma find_data_hit:
  "find_data_from 0 nm ds \<noteq> [] \<Longrightarrow>
     \<exists>j < length ds. m_text (ds ! j) = nm \<and> find_data_from 0 nm ds = nat_str j"
  using find_data_from_spec [of 0 nm ds] by auto

lemma find_data_miss: "find_data_from i nm ds = [] \<Longrightarrow> nm \<notin> m_text ` set ds"
  using find_data_from_spec [of i nm ds] by simp

lemma find_data_empty: "data_inv ds \<Longrightarrow> find_data_from 0 empty ds = nat_str 0"
  by (cases ds) (auto simp: data_inv_def to_string_def)

lemma data_inv_push:
  "data_inv ds \<Longrightarrow> m_text tok \<notin> m_text ` set ds \<Longrightarrow> data_inv (ds @ [tok])"
  by (auto simp: data_inv_def)

lemma rel_push_data:
  assumes "rel e H s0 s" "m_text tok \<notin> m_text ` set (ps_data s)"
  shows "rel e H s0 (s \<lparr> ps_data := ps_data s @ [tok] \<rparr>)"
proof -
  let ?s = "s \<lparr> ps_data := ps_data s @ [tok] \<rparr>"
  have "bad ?s \<subseteq> bad s" by (auto simp: bad_def nd_def intro: wf_line_mono)
  moreover have "left ?s = left s" by (simp add: left_def)
  moreover have "data_inv (ps_data ?s)"
    using assms data_inv_push by (auto simp: rel_def ps_ok_def)
  ultimately show ?thesis using assms(1) by (auto simp: rel_def ps_ok_def nd_def)
qed

lemma wp_find_empty [wp_prim]:
  "rel e H s0 s \<Longrightarrow> (0 < nd s \<Longrightarrow> Q (nat_str 0) s) \<Longrightarrow> wp (find_data empty) Q s"
  by (auto simp: wp_def find_data_def rel_def ps_ok_def find_data_empty nd_def data_inv_def)

lemma wp_data_str [wp_prim]:
  assumes rel: "rel e H s0 s"
    and Q: "\<And>i s'. \<lbrakk> rel e H s0 s'; cur s' = cur s; nd s \<le> nd s'; i < nd s'; ps_code s' = ps_code s \<rbrakk>
      \<Longrightarrow> Q (nat_str i) s'"
  shows "wp (data_str t) Q s"
proof (cases "find_data_from 0 t (ps_data s) = []")
  case True
  let ?s = "s \<lparr> ps_data := ps_data s @ [token_new T_VARCHAR t] \<rparr>"
  have "rel e H s0 ?s" using rel_push_data [OF rel] find_data_miss [OF True] by simp
  with True Q [of ?s "length (ps_data s)"] show ?thesis
    by (simp add: data_str_def wp_def find_data_def push_data_def exn_simps to_string_nat cur_def nd_def)
next
  case False
  from find_data_hit [OF False] obtain j where
    "j < length (ps_data s)" "find_data_from 0 t (ps_data s) = nat_str j" by blast
  with Q [of s j] rel show ?thesis
    by (simp add: data_str_def wp_def find_data_def exn_simps nd_def)
qed

lemma wp_data_tok [wp_prim]:
  assumes rel: "rel e H s0 s"
    and Q: "\<And>i s'. \<lbrakk> m_type (cur s) = ty; rel (Suc e) H s0 s'; nd s \<le> nd s'; i < nd s'; ps_code s' = ps_code s \<rbrakk>
      \<Longrightarrow> Q (nat_str i) s'"
    and ty: "ty \<noteq> EOI"
  shows "wp (data_tok ty) Q s"
proof -
  have tok: "get_lookahead_token 0 s = (Inr (cur s), s)"
    using rel get_lookahead_token_run [of s 0] by (simp add: rel_def ps_ok_def cur_def)
  have step: "wp (sq (match ty) (ret (nat_str i))) Q s1"
    if s1: "rel e H s0 s1" "cur s1 = cur s" "nd s \<le> nd s1" "i < nd s1" "ps_code s1 = ps_code s" for i s1
    apply (rule wp_sq, rule wp_match [OF s1(1)], rule wp_ret)
    using s1 Q ty by simp_all
  show ?thesis
  proof (cases "find_data_from 0 (m_text (cur s)) (ps_data s) = []")
    case True
    let ?s = "s \<lparr> ps_data := ps_data s @ [cur s] \<rparr>"
    have "rel e H s0 ?s" using rel_push_data [OF rel] find_data_miss [OF True] by simp
    from step [OF this, of "length (ps_data s)"] True tok show ?thesis
      by (simp add: data_tok_def wp_def find_data_def push_data_def exn_simps to_string_nat cur_def nd_def)
  next
    case False
    from find_data_hit [OF False] obtain j where
      j: "j < length (ps_data s)" "find_data_from 0 (m_text (cur s)) (ps_data s) = nat_str j" by blast
    with step [OF rel, of j] tok show ?thesis
      by (simp add: data_tok_def wp_def find_data_def exn_simps nd_def)
  qed
qed

section \<open>Code\<close>

lemma wp_code_size [wp_struct]: "Q (length (ps_code s)) s \<Longrightarrow> wp code_size Q s"
  by (simp add: code_size_def wp_def)

lemma rel_emit_all:
  assumes "rel e H s0 s" "wf_lines (nd s) cs"
  shows "rel e H s0 (s \<lparr> ps_code := ps_code s @ cs \<rparr>)"
proof -
  let ?s = "s \<lparr> ps_code := ps_code s @ cs \<rparr>"
  have "bad ?s \<subseteq> bad s"
  proof
    fix i assume "i \<in> bad ?s"
    then have i: "i < length (ps_code s @ cs)" "\<not> wf_line (nd s) ((ps_code s @ cs) ! i)"
      by (auto simp: bad_def nd_def)
    have "i < length (ps_code s)"
    proof (rule ccontr)
      assume "\<not> i < length (ps_code s)"
      then have "(ps_code s @ cs) ! i \<in> set cs" using i by (simp add: nth_append)
      with i assms(2) show False by (auto simp: wf_lines_def)
    qed
    with i show "i \<in> bad s" by (simp add: bad_def nth_append)
  qed
  moreover have "left ?s = left s" "ps_ok ?s = ps_ok s" "nd ?s = nd s"
    by (simp_all add: left_def ps_ok_def nd_def)
  ultimately show ?thesis using assms(1) by (auto simp: rel_def)
qed

lemma wp_emit_all [wp_prim]:
  assumes "rel e H s0 s"
    and "\<And>s'. \<lbrakk> rel e H s0 s'; cur s' = cur s; nd s' = nd s; ps_code s' = ps_code s @ cs \<rbrakk> \<Longrightarrow> Q () s'"
    and "wf_lines (nd s) cs"
  shows "wp (emit_all cs) Q s"
  using assms(2) [OF rel_emit_all [OF assms(1,3)]] by (simp add: emit_all_def wp_def cur_def nd_def)

lemma wp_emit [wp_prim]:
  assumes "rel e H s0 s"
    and "\<And>s'. \<lbrakk> rel e H s0 s'; cur s' = cur s; nd s' = nd s; ps_code s' = ps_code s @ [c] \<rbrakk> \<Longrightarrow> Q () s'"
    and "wf_line (nd s) c"
  shows "wp (emit c) Q s"
  using assms(2) [OF rel_emit_all [OF assms(1)]] assms(3) by (simp add: emit_def wp_def cur_def nd_def)

text \<open>A reserved position, whatever line it holds for now.\<close>

lemma rel_reserve:
  assumes "rel e H s0 s"
  shows "rel e (insert (length (ps_code s)) H) s0 (s \<lparr> ps_code := ps_code s @ [c] \<rparr>)"
proof -
  let ?s = "s \<lparr> ps_code := ps_code s @ [c] \<rparr>"
  have "bad ?s \<subseteq> insert (length (ps_code s)) (bad s)"
    by (auto simp: bad_def nd_def nth_append split: if_splits)
  moreover have "left ?s = left s" "ps_ok ?s = ps_ok s" "nd ?s = nd s"
    by (simp_all add: left_def ps_ok_def nd_def)
  ultimately show ?thesis using assms by (auto simp: rel_def dest: first_ret_nonempty)
qed

lemma wp_reserve:
  assumes "rel e H s0 s"
    and "\<And>s'. \<lbrakk> rel e (insert (length (ps_code s)) H) s0 s'; cur s' = cur s; nd s' = nd s \<rbrakk> \<Longrightarrow> Q () s'"
  shows "wp (emit c) Q s"
  using assms(2) [OF rel_reserve [OF assms(1)]] by (simp add: emit_def wp_def cur_def nd_def)

lemma rel_code_set:
  assumes "rel e H s0 s" "wf_line (nd s) c" "first_ret s0 \<longrightarrow> mrk \<noteq> 0"
  shows "rel e (H - {mrk}) s0 (s \<lparr> ps_code := (ps_code s)[mrk := c] \<rparr>)"
proof -
  let ?s = "s \<lparr> ps_code := (ps_code s)[mrk := c] \<rparr>"
  have "bad ?s \<subseteq> bad s - {mrk}"
  proof
    fix i assume "i \<in> bad ?s"
    then have i: "i < length (ps_code s)" "\<not> wf_line (nd s) ((ps_code s)[mrk := c] ! i)"
      by (auto simp: bad_def nd_def)
    then have "i \<noteq> mrk" using assms(2) by auto
    with i show "i \<in> bad s - {mrk}" by (simp add: bad_def)
  qed
  moreover have "left ?s = left s" "ps_ok ?s = ps_ok s" "nd ?s = nd s"
    by (simp_all add: left_def ps_ok_def nd_def)
  ultimately show ?thesis using assms(1,3) by (auto simp: rel_def intro: first_ret_update)
qed

lemma wp_code_set [wp_prim]:
  assumes "rel e H s0 s"
    and "\<And>s'. \<lbrakk> rel e (H - {mrk}) s0 s'; cur s' = cur s; nd s' = nd s \<rbrakk> \<Longrightarrow> Q () s'"
    and "mrk \<in> H" "wf_line (nd s) c"
  shows "wp (code_set mrk c) Q s"
proof -
  have "mrk < length (ps_code s)" "first_ret s0 \<longrightarrow> mrk \<noteq> 0"
    using assms(1,3) by (auto simp: rel_def intro: gr0I)
  then show ?thesis
    using assms(2) [OF rel_code_set [OF assms(1,4)]] by (simp add: code_set_def wp_def cur_def nd_def)
qed

lemma wp_vec_set [wp_struct]:
  "Q (code[mrk := c]) s \<Longrightarrow> mrk < length code \<Longrightarrow> wp (vec_set code mrk c) Q s"
  by (simp add: vec_set_def wp_def)

lemma wp_header [wp_prim]:
  assumes "rel e H s0 s"
    and "\<And>h s'. \<lbrakk> rel e H s0 s'; cur s' = cur s; nd s' = nd s; ps_code s' = ps_code s \<rbrakk> \<Longrightarrow> Q h s'"
  shows "wp next_header Q s"
proof -
  have "rel e H s0 (s \<lparr> ps_lexer := (ps_lexer s) \<lparr> lx_token_list := ts \<rparr> \<rparr>)" for ts
    using assms(1) by (auto simp: rel_def ps_ok_def left_def nd_def bad_def pot_def)
  then show ?thesis
    using assms(2) by (auto simp: wp_def next_header_def expected_def Let_def cur_def nd_def)
qed

text \<open>Composed primitives.\<close>

lemma wp_emit_data [wp_prim]:
  assumes "rel e H s0 s"
    and "\<And>s'. \<lbrakk> m_type (cur s) = ty; rel (Suc e) H s0 s'; nd s \<le> nd s' \<rbrakk> \<Longrightarrow> Q () s'"
    and "ty \<noteq> EOI"
  shows "wp (emit_data ty) Q s"
  unfolding emit_data_def
  by (rule wp_bnd, rule wp_data_tok [OF assms(1)], rule wp_emit)
     (use assms(2,3) in \<open>auto intro: wf_line.pusho\<close>)

lemma wp_emit_empty [wp_prim]:
  assumes "rel e H s0 s"
    and "\<And>s'. \<lbrakk> rel e H s0 s'; cur s' = cur s; nd s' = nd s \<rbrakk> \<Longrightarrow> Q () s'"
  shows "wp emit_empty Q s"
  unfolding emit_empty_def
  by (rule wp_bnd, rule wp_find_empty [OF assms(1)], rule wp_emit [OF assms(1)])
     (auto intro: wf_line.pusho assms(2))

lemma wp_emit_str [wp_prim]:
  assumes "rel e H s0 s"
    and "\<And>s'. \<lbrakk> rel e H s0 s'; cur s' = cur s; nd s \<le> nd s' \<rbrakk> \<Longrightarrow> Q () s'"
  shows "wp (emit_str t) Q s"
  unfolding emit_str_def
  by (rule wp_bnd, rule wp_data_str [OF assms(1)], rule wp_emit)
     (auto intro: wf_line.pusho assms(2))

lemma wp_data_line [wp_prim]:
  assumes "rel e H s0 s"
    and "\<And>d s'. \<lbrakk> m_type (cur s) = ty; rel (Suc e) H s0 s'; nd s \<le> nd s'; wf_line (nd s') d; ps_code s' = ps_code s \<rbrakk>
      \<Longrightarrow> Q d s'"
    and "ty \<noteq> EOI"
  shows "wp (data_line ty) Q s"
  unfolding data_line_def
  by (rule wp_bnd, rule wp_data_tok [OF assms(1)], rule wp_ret)
     (use assms(2,3) in \<open>auto intro: wf_line.pusho\<close>)

lemma wp_empty_line [wp_prim]:
  assumes "rel e H s0 s" "\<And>d. wf_line (nd s) d \<Longrightarrow> Q d s"
  shows "wp empty_line Q s"
  unfolding empty_line_def
  by (rule wp_bnd, rule wp_find_empty [OF assms(1)], rule wp_ret)
     (auto intro: wf_line.pusho assms(2))

end
