(* ===== verification/ParserSafety.thy ===== *)
theory ParserSafety
  imports ParserWp
begin

text \<open>
  The SQL parser does what a parser must do on every input: it ends, it reads
  its lookahead window and writes its code vectors only inside their ranges,
  it refers only to data items that exist, and it leaves no unfinished line in
  the code. One lemma per routine of the parser, by the calculus of \<open>ParserWp\<close>;
  each lemma is then a rule of that calculus for the routines that call it.
\<close>

section \<open>Routines\<close>

text \<open>
  A routine is sound for fuel \<open>k\<close> if from every good state with fewer than \<open>k\<close>
  tokens left it consumes at least \<open>e\<close> tokens, and its result satisfies \<open>R\<close>.
\<close>

definition sound :: "nat \<Rightarrow> nat \<Rightarrow> 'a psm \<Rightarrow> ('a \<Rightarrow> parser \<Rightarrow> bool) \<Rightarrow> bool" where
  "sound k e m R \<longleftrightarrow> (\<forall>s. ps_ok s \<longrightarrow> left s < k \<longrightarrow> wp m (\<lambda>x s'. rel e {} s s' \<and> R x s') s)"

lemma soundI:
  "(\<And>s. rel 0 {} s s \<Longrightarrow> left s < k \<Longrightarrow> wp m (\<lambda>x s'. rel e {} s s' \<and> R x s') s) \<Longrightarrow> sound k e m R"
  by (simp add: sound_def rel_refl)

lemma wp_call:
  assumes "sound k e' m R" "rel e H s0 s"
    and "\<And>x s'. \<lbrakk> rel (e + e') H s0 s'; nd s \<le> nd s'; length (ps_code s) \<le> length (ps_code s'); R x s' \<rbrakk> \<Longrightarrow> Q x s'"
    and "left s < k"
  shows "wp m Q s"
proof -
  have "wp m (\<lambda>x s'. rel e' {} s s' \<and> R x s') s"
    using assms(1,4) relD(1) [OF assms(2)] by (simp add: sound_def)
  then show ?thesis
    by (rule wp_mono) (use rel_trans [OF assms(2)] relD assms(3) in fastforce)
qed

lemma left_less: "rel e H s0 s \<Longrightarrow> left s0 < K \<Longrightarrow> K \<le> k + e \<Longrightarrow> left s < k"
  using relD(2) by fastforce

lemma sound_mono: "sound k e m R \<Longrightarrow> k' \<le> k \<Longrightarrow> sound k' e m R"
  by (simp add: sound_def)

text \<open>A routine that extends a code vector: finished lines in, finished lines out.\<close>

definition good :: "code \<Rightarrow> parser \<Rightarrow> bool" where
  "good c s \<longleftrightarrow> wf_lines (nd s) c \<and> 0 < length c"

definition soundP :: "nat \<Rightarrow> nat \<Rightarrow> code \<Rightarrow> 'a psm \<Rightarrow> ('a \<Rightarrow> parser \<Rightarrow> bool) \<Rightarrow> bool" where
  "soundP k e code m R \<longleftrightarrow> (\<forall>s. ps_ok s \<longrightarrow> left s < k \<longrightarrow> wf_lines (nd s) code
     \<longrightarrow> wp m (\<lambda>x s'. rel e {} s s' \<and> R x s') s)"

lemma soundPI:
  "(\<And>s. rel 0 {} s s \<Longrightarrow> left s < k \<Longrightarrow> wf_lines (nd s) code
      \<Longrightarrow> wp m (\<lambda>x s'. rel e {} s s' \<and> R x s') s) \<Longrightarrow> soundP k e code m R"
  by (simp add: soundP_def rel_refl)

lemma soundP_Nil: "soundP k e [] m R = sound k e m R"
  by (simp add: sound_def soundP_def)

lemma wp_callP:
  assumes "soundP k e' code m R" "rel e H s0 s"
    and "\<And>x s'. \<lbrakk> rel (e + e') H s0 s'; nd s \<le> nd s'; length (ps_code s) \<le> length (ps_code s'); R x s' \<rbrakk> \<Longrightarrow> Q x s'"
    and "left s < k" "wf_lines (nd s) code"
  shows "wp m Q s"
proof -
  have "wp m (\<lambda>x s'. rel e' {} s s' \<and> R x s') s"
    using assms(1,4,5) relD(1) [OF assms(2)] by (simp add: soundP_def)
  then show ?thesis
    by (rule wp_mono) (use rel_trans [OF assms(2)] relD assms(3) in fastforce)
qed

lemmas rel_mono = rel_weaken wf_line_mono wf_lines_mono

section \<open>Expressions\<close>

definition extends :: "code \<Rightarrow> code \<Rightarrow> parser \<Rightarrow> bool" where
  "extends code c s \<longleftrightarrow> wf_lines (nd s) c \<and> length code < length c"

lemma extends_Nil: "extends [] c s = good c s"
  by (auto simp: extends_def good_def)

lemma name_expr_sound: "soundP k 1 code (name_expr code) (extends code)"
  unfolding name_expr_def extends_def
  by (rule soundPI)
     (rule wp_struct | (rule wp_prim, assumption) | fastforce elim!: rel_mono)+

definition tbl_ok :: "(int \<times> string) list \<Rightarrow> bool" where
  "tbl_ok tbl \<longleftrightarrow> (\<forall>t c. map_of tbl t = Some c \<longrightarrow> t \<noteq> EOI \<and> (\<forall>nd. wf_line nd c))"

lemma op_tables_ok:
  "tbl_ok math_term_ops" "tbl_ok math_expr_ops" "tbl_ok comparison_term_ops"
  "tbl_ok comparison_expr_ops" "tbl_ok logic_term_ops" "tbl_ok logic_expr_ops"
  by (auto simp: tbl_ok_def math_term_ops_def math_expr_ops_def comparison_term_ops_def
      comparison_expr_ops_def logic_term_ops_def logic_expr_ops_def split: if_splits)

lemma chain_sound:
  assumes "tbl_ok tbl"
  shows "sound n 1 sub good \<Longrightarrow> soundP n 0 (code @ pc) (chain n tbl sub code pc)
    (\<lambda>c s. wf_lines (nd s) c \<and> length code + length pc \<le> length c)"
proof (induction n arbitrary: code pc)
  case 0
  then show ?case by (simp add: soundP_def)
next
  case (Suc n)
  have sub: "sound n 1 sub good" using Suc.prems by (rule sound_mono) simp
  show ?case
  proof (rule soundPI)
    fix s assume r: "rel 0 {} s s" and lt: "left s < Suc n" and wf: "wf_lines (nd s) (code @ pc)"
    show "wp (chain (Suc n) tbl sub code pc) (\<lambda>c s'. rel 0 {} s s' \<and>
       wf_lines (nd s') c \<and> length code + length pc \<le> length c) s"
    proof (cases "map_of tbl (m_type (cur s))")
      case None
      then show ?thesis
        unfolding chain.simps
        by (intro wp_bnd, intro wp_la [OF r]) (use r wf in \<open>auto intro: wp_ret\<close>)
    next
      case (Some call)
      then have eoi: "m_type (cur s) \<noteq> EOI" and call: "\<And>nd. wf_line nd call"
        using assms by (auto simp: tbl_ok_def)
      have "wp (sq consume (bnd sub (\<lambda>pc'. chain n tbl sub (call # code @ pc @ pc') [])))
         (\<lambda>c s'. rel 0 {} s s' \<and> wf_lines (nd s') c \<and> length code + length pc \<le> length c) s"
        apply (rule wp_sq, rule wp_consume [OF r], rule wp_bnd)
        apply (rule wp_call [OF sub], assumption)
         apply (rule wp_callP [OF Suc.IH [OF sub]], assumption)
           apply (auto elim!: rel_mono)[1]
          apply (erule left_less [OF _ lt], use eoi in simp)
         apply (use call wf in \<open>auto elim!: rel_mono simp: good_def\<close>)[1]
        apply (erule left_less [OF _ lt], use eoi in simp)
        done
      then show ?thesis
        unfolding chain.simps by (intro wp_bnd, intro wp_la [OF r]) (simp add: Some)
    qed
  qed
qed

lemma layer_sound:
  assumes "tbl_ok tbl" "sound n 1 a good" "sound n 1 sub good"
  shows "soundP n 1 code (bnd a (chain n tbl sub code)) (extends code)"
proof (rule soundPI)
  fix s assume r: "rel 0 {} s s" and lt: "left s < n" and wf: "wf_lines (nd s) code"
  show "wp (bnd a (chain n tbl sub code)) (\<lambda>c s'. rel 1 {} s s' \<and> extends code c s') s"
    apply (rule wp_bnd, rule wp_call [OF assms(2) r])
     apply (rule wp_callP [OF chain_sound [OF assms(1,3)]], assumption)
       apply (auto simp: good_def extends_def simp del: length_greater_0_conv elim!: rel_mono)[1]
      apply (erule left_less [OF _ lt], simp)
     apply (use wf in \<open>auto simp: good_def elim!: rel_mono\<close>)[1]
    by (rule lt)
qed

lemma layer_sound_Nil:
  "tbl_ok tbl \<Longrightarrow> sound n 1 a good \<Longrightarrow> sound n 1 sub good \<Longrightarrow> sound n 1 (bnd a (chain n tbl sub [])) good"
  using layer_sound [of tbl n a sub "[]"] by (simp add: extends_Nil [abs_def] soundP_Nil)

lemma logic_expr_sound:
  assumes "\<And>ua. sound n 1 (prim ua) good"
  shows "soundP n 1 code (logic_expr prim n code) (extends code)"
proof -
  have mt: "sound n 1 (math_term prim n ua) good" for ua
    unfolding math_term_def by (intro layer_sound_Nil op_tables_ok assms)
  have cp: "sound n 1 (comparison_primary prim n ua) good" for ua
    unfolding comparison_primary_def math_expr_def by (intro layer_sound_Nil op_tables_ok mt)
  have ct: "sound n 1 (comparison_term prim n ua) good" for ua
    unfolding comparison_term_def by (intro layer_sound_Nil op_tables_ok cp)
  have lp: "sound n 1 (logic_primary prim n ua) good" for ua
    unfolding logic_primary_def comparison_expr_def by (intro layer_sound_Nil op_tables_ok ct)
  have lt: "sound n 1 (logic_term prim n ua) good" for ua
    unfolding logic_term_def by (intro layer_sound_Nil op_tables_ok lp)
  show ?thesis
    unfolding logic_expr_def by (intro layer_sound op_tables_ok lt)
qed

lemma math_primary_sound: "sound n 1 (math_primary n ua) good"
proof (induction n arbitrary: ua)
  case 0
  then show ?case by (simp add: sound_def)
next
  case (Suc n)
  have le: "sound n 1 (logic_expr (math_primary n) n []) good"
    using logic_expr_sound [OF Suc.IH, where code = "[]"] by (simp add: extends_Nil [abs_def] soundP_Nil)
  have ne: "sound k 1 (name_expr []) good" for k
    using name_expr_sound [of k "[]"] by (simp add: extends_Nil [abs_def] soundP_Nil)
  show ?case
  proof (rule soundI)
    fix s assume r: "rel 0 {} s s" and lt: "left s < Suc n"
    show "wp (math_primary (Suc n) ua) (\<lambda>c s'. rel 1 {} s s' \<and> good c s') s"
      unfolding math_primary.simps
      by (rule wp_struct | (rule wp_prim, rule r | rule wp_prim, assumption)
          | (rule wp_call [OF le] wp_call [OF ne] wp_call [OF Suc.IH], assumption)
          | (erule left_less [OF _ lt], simp; fail)
          | fastforce elim!: rel_mono intro: wf_line.pusho simp: good_def)+
  qed
qed

lemma expr_sound: "soundP n 1 code (expr n code) (extends code)"
  unfolding expr_def by (intro logic_expr_sound math_primary_sound)

section \<open>Calling routines\<close>

lemma wp_call0:
  assumes "\<And>k. sound k e' m R" "rel e H s0 s"
    and "\<And>x s'. \<lbrakk> rel (e + e') H s0 s'; nd s \<le> nd s'; length (ps_code s) \<le> length (ps_code s'); R x s' \<rbrakk> \<Longrightarrow> Q x s'"
  shows "wp m Q s"
  by (rule wp_call [OF assms(1) [of "Suc (left s)"] assms(2)]) (use assms(3) in auto)

lemmas [wp_prim] = expr_sound [THEN wp_callP]

text \<open>A routine that finishes the line at a reserved position \<open>mrk\<close>.\<close>

definition clean :: "nat \<Rightarrow> parser \<Rightarrow> parser" where
  "clean mrk s = s \<lparr> ps_code := (ps_code s)[mrk := ''NOP''] \<rparr>"

definition soundH :: "nat \<Rightarrow> nat \<Rightarrow> nat \<Rightarrow> 'a psm \<Rightarrow> ('a \<Rightarrow> parser \<Rightarrow> bool) \<Rightarrow> bool" where
  "soundH mrk k e m R \<longleftrightarrow> (\<forall>s. ps_ok s \<longrightarrow> mrk < length (ps_code s) \<longrightarrow> left s < k
     \<longrightarrow> wp m (\<lambda>x s'. rel e {} (clean mrk s) s' \<and> R x s') s)"

lemma left_clean [simp]: "left (clean mrk s) = left s" "nd (clean mrk s) = nd s"
  "length (ps_code (clean mrk s)) = length (ps_code s)"
  by (simp_all add: left_def clean_def nd_def)

lemma soundHI:
  assumes "\<And>s a. rel 0 {mrk} a s \<Longrightarrow> left a < k \<Longrightarrow> wp m (\<lambda>x s'. rel e {} a s' \<and> R x s') s"
  shows "soundH mrk k e m R"
  unfolding soundH_def
proof (intro allI impI)
  fix s assume s: "ps_ok s" "mrk < length (ps_code s)" "left s < k"
  have "bad s \<subseteq> insert mrk (bad (clean mrk s))"
    by (auto simp: bad_def clean_def nd_def)
  moreover have "first_ret (clean mrk s) \<Longrightarrow> mrk \<noteq> 0 \<and> first_ret s"
    by (cases "mrk = 0") (auto simp: first_ret_def clean_def)
  ultimately have "rel 0 {mrk} (clean mrk s) s" using s by (auto simp: rel_def)
  from assms [OF this] s show "wp m (\<lambda>x s'. rel e {} (clean mrk s) s' \<and> R x s') s" by simp
qed

lemma wp_callH:
  assumes "soundH mrk k e' m R" "rel e H s0 s"
    and "\<And>x s'. \<lbrakk> rel (e + e') (H - {mrk}) s0 s'; nd s \<le> nd s'; length (ps_code s) \<le> length (ps_code s'); R x s' \<rbrakk> \<Longrightarrow> Q x s'"
    and "mrk \<in> H" "left s < k"
  shows "wp m Q s"
proof -
  have "mrk < length (ps_code s)" using assms(2,4) by (auto simp: rel_def)
  then have w: "wp m (\<lambda>x s'. rel e' {} (clean mrk s) s' \<and> R x s') s"
    using assms(1,5) relD(1) [OF assms(2)] by (simp add: soundH_def)
  have r: "rel e (H - {mrk}) s0 (clean mrk s)"
    unfolding clean_def using assms(2,4)
    by (intro rel_code_set [OF assms(2) wf_line.nop]) (auto simp: rel_def intro: gr0I)
  from w show ?thesis
    by (rule wp_mono) (use rel_trans [OF r] relD assms(3) in fastforce)
qed

text \<open>Routines that append to a code vector, and their application to \<open>m_code\<close>.\<close>

definition appends :: "code \<Rightarrow> code \<Rightarrow> parser \<Rightarrow> bool" where
  "appends code c s \<longleftrightarrow> (\<exists>ext. c = code @ ext \<and> wf_lines (nd s) ext \<and> 0 < length ext)"

lemma wp_on_code:
  assumes f: "\<And>c. sound k e' (f c) (appends c)" and r: "rel e H s0 s"
    and Q: "\<And>s'. \<lbrakk> rel (e + e') H s0 s'; nd s \<le> nd s'; length (ps_code s) \<le> length (ps_code s') \<rbrakk> \<Longrightarrow> Q () s'"
    and lt: "left s < k"
  shows "wp (on_code f) Q s"
  unfolding on_code_def
proof (rule wp_bnd, rule wp_gets, rule wp_bnd)
  have "wp (f (ps_code s)) (\<lambda>c s'. rel e' {} s s' \<and> appends (ps_code s) c s') s"
    using f relD(1) [OF r] lt by (simp add: sound_def)
  then show "wp (f (ps_code s)) (\<lambda>c'. wp (modify (\<lambda>s. s \<lparr> ps_code := c' \<rparr>)) Q) s"
  proof (rule wp_mono)
    fix c' s' assume a: "rel e' {} s s' \<and> appends (ps_code s) c' s'"
    then obtain ext where c': "c' = ps_code s @ ext" "wf_lines (nd s') ext" by (auto simp: appends_def)
    let ?s = "s' \<lparr> ps_code := c' \<rparr>"
    have nd: "nd s \<le> nd s'" using a relD by blast
    have "bad ?s \<subseteq> bad s"
    proof
      fix i assume "i \<in> bad ?s"
      then have i: "i < length c'" "\<not> wf_line (nd s') (c' ! i)" by (auto simp: bad_def nd_def)
      have "i < length (ps_code s)"
      proof (rule ccontr)
        assume "\<not> i < length (ps_code s)"
        then have "c' ! i \<in> set ext" using i c' by (simp add: nth_append)
        with i c' show False by (auto simp: wf_lines_def)
      qed
      with i c' nd show "i \<in> bad s" by (auto simp: bad_def nth_append intro: wf_line_mono)
    qed
    then have "rel e' {} s ?s"
      using a c' by (auto simp: rel_def ps_ok_def left_def nd_def first_ret_def nth_append)
    with rel_trans [OF r this] nd show "wp (modify (\<lambda>s. s \<lparr> ps_code := c' \<rparr>)) Q s'"
      using Q [of ?s] c' by (simp add: wp_def nd_def)
  qed
qed

lemma wp_on_code0:
  assumes "\<And>k c. sound k e' (f c) (appends c)" "rel e H s0 s"
    and "\<And>s'. \<lbrakk> rel (e + e') H s0 s'; nd s \<le> nd s'; length (ps_code s) \<le> length (ps_code s') \<rbrakk> \<Longrightarrow> Q () s'"
  shows "wp (on_code f) Q s"
  by (rule wp_on_code [OF assms(1) [of "Suc (left s)"] assms(2)]) (use assms(3) in auto)

lemma appends_trans:
  "appends c d s \<Longrightarrow> appends d e s' \<Longrightarrow> nd s \<le> nd s' \<Longrightarrow> appends c e s'"
  by (auto simp: appends_def elim!: wf_lines_mono)

lemma opt_as_alias_sound: "sound k 0 (opt_as_alias code) (appends code)"
  unfolding opt_as_alias_def appends_def
  by (rule soundI)
     (rule wp_struct | (rule wp_prim, assumption) | fastforce elim!: rel_mono)+

lemmas [wp_prim] = opt_as_alias_sound [THEN wp_call0]

lemma table_reference_sound: "sound k 1 (table_reference code) (appends code)"
  unfolding table_reference_def
  by (rule soundI)
     (rule wp_struct | (rule wp_prim, assumption) | (rule wp_la_at, (simp; fail))
      | fastforce elim!: rel_mono simp: appends_def)+

lemmas [wp_prim] = table_reference_sound [THEN wp_call0]

text \<open>Lines that only reserve a position.\<close>

lemmas wp_reserved =
  wp_reserve [where c = "[]"] wp_reserve [where c = "''CALL ALT''"] wp_reserve [where c = "''PUSH ''"]

section \<open>Shared pieces\<close>

lemma column_list_sound: "sound n 1 (column_list n count) (\<lambda>c _. 0 \<le> count \<longrightarrow> 0 \<le> c)"
proof (induction n arbitrary: count)
  case 0
  then show ?case by (simp add: sound_def)
next
  case (Suc n)
  note [wp_prim] = Suc.IH [THEN wp_call]
  show ?case
    unfolding column_list.simps
    by (rule soundI)
       (rule wp_struct | (rule wp_reserved, assumption) | (rule wp_prim, assumption)
        | (rule wp_la_at, (simp; fail)) | (rule left_less, assumption, assumption, (simp; fail))
        | fastforce elim!: rel_mono)+
qed

lemmas [wp_prim] = column_list_sound [THEN wp_call]

lemma counted_names_sound: "sound n 1 (counted_names n) (\<lambda>_ _. True)"
  unfolding counted_names_def
  by (rule soundI)
     (rule wp_struct | (rule wp_reserved, assumption) | (rule wp_prim, assumption)
        | (rule wp_la_at, (simp; fail)) | (rule left_less, assumption, assumption, (simp; fail))
        | fastforce elim!: rel_mono)+

lemmas [wp_prim] = counted_names_sound [THEN wp_call]

lemma qualified_name_sound: "sound k 1 (qualified_name) (\<lambda>_ _. True)"
  unfolding qualified_name_def
  by (rule soundI)
     (rule wp_struct | (rule wp_reserved, assumption) | (rule wp_prim, assumption)
        | (rule wp_la_at, (simp; fail)) | (rule left_less, assumption, assumption, (simp; fail))
        | fastforce elim!: rel_mono)+

lemmas [wp_prim] = qualified_name_sound [THEN wp_call0]

section \<open>ALTER\<close>

lemma alter_database_sound: "sound k 1 (alter_database) (\<lambda>_ _. True)"
  unfolding alter_database_def
  by (rule soundI)
     (rule wp_struct | (rule wp_reserved, assumption) | (rule wp_prim, assumption)
        | (rule wp_la_at, (simp; fail)) | (rule left_less, assumption, assumption, (simp; fail))
        | fastforce elim!: rel_mono)+

lemmas [wp_prim] = alter_database_sound [THEN wp_call0]

lemma alter_user_sound: "sound k 1 (alter_user) (\<lambda>_ _. True)"
  unfolding alter_user_def
  by (rule soundI)
     (rule wp_struct | (rule wp_reserved, assumption) | (rule wp_prim, assumption)
        | (rule wp_la_at, (simp; fail)) | (rule left_less, assumption, assumption, (simp; fail))
        | fastforce elim!: rel_mono)+

lemmas [wp_prim] = alter_user_sound [THEN wp_call0]

lemma index_key_sound: "sound n 1 (index_key n) (\<lambda>_ _. True)"
  unfolding index_key_def
  by (rule soundI)
     (rule wp_struct | (rule wp_reserved, assumption) | (rule wp_prim, assumption)
        | (rule wp_la_at, (simp; fail)) | (rule left_less, assumption, assumption, (simp; fail))
        | fastforce elim!: rel_mono)+

lemmas [wp_prim] = index_key_sound [THEN wp_call]

lemma enum_loop_sound: "sound n 1 (enum_loop n code count) (\<lambda>p s. (\<exists>ext. fst p = code @ ext \<and> wf_lines (nd s) ext) \<and> (0 \<le> count \<longrightarrow> 0 \<le> snd p))"
proof (induction n arbitrary: code count)
  case 0
  then show ?case by (simp add: sound_def)
next
  case (Suc n)
  note [wp_prim] = Suc.IH [THEN wp_call]
  show ?case
    unfolding enum_loop.simps
    by (rule soundI)
       (rule wp_struct | (rule wp_reserved, assumption) | (rule wp_prim, assumption)
        | (rule wp_la_at, (simp; fail)) | (rule left_less, assumption, assumption, (simp; fail))
        | fastforce elim!: rel_mono)+
qed

lemmas [wp_prim] = enum_loop_sound [THEN wp_call]

lemma data_type_sound: "sound n 1 (data_type n code) (appends code)"
  unfolding data_type_def
  by (rule soundI)
     (rule wp_struct | (rule wp_reserved, assumption) | (rule wp_prim, assumption)
        | (rule wp_la_at, (simp; fail)) | (rule left_less, assumption, assumption, (simp; fail))
        | fastforce elim!: rel_mono simp: appends_def list_update_append intro: wf_line.push produced_INT)+

lemma constraint_loop_sound: "sound n 0 (constraint_loop n flag) (\<lambda>f _. 0 \<le> flag \<longrightarrow> 0 \<le> f)"
proof (induction n arbitrary: flag)
  case 0
  then show ?case by (simp add: sound_def)
next
  case (Suc n)
  note [wp_prim] = Suc.IH [THEN wp_call]
  show ?case
    unfolding constraint_loop.simps
    by (rule soundI)
       (rule wp_struct | (rule wp_reserved, assumption) | (rule wp_prim, assumption)
        | (rule wp_la_at, (simp; fail)) | (rule left_less, assumption, assumption, (simp; fail))
        | fastforce elim!: rel_mono)+
qed

lemmas [wp_prim] = constraint_loop_sound [THEN wp_call]

lemma constraint_sound: "sound n 0 (constraint n code) (appends code)"
  unfolding constraint_def
  by (rule soundI)
     (rule wp_struct | (rule wp_reserved, assumption) | (rule wp_prim, assumption)
        | (rule wp_la_at, (simp; fail)) | (rule left_less, assumption, assumption, (simp; fail))
        | fastforce elim!: rel_mono simp: appends_def)+

lemmas [wp_prim] =
  data_type_sound [THEN wp_call] constraint_sound [THEN wp_call]
  wp_on_code [OF data_type_sound] wp_on_code [OF constraint_sound] wp_on_code0 [OF table_reference_sound]

lemma add_column_sound: "soundH mrk n 1 (add_column n mrk) (\<lambda>_ _. True)"
  unfolding add_column_def
  by (rule soundHI)
     (rule wp_struct | (rule wp_reserved, assumption) | (rule wp_prim, assumption)
        | (rule wp_la_at, (simp; fail)) | (rule left_less, assumption, assumption, (simp; fail))
        | fastforce elim!: rel_mono)+

lemmas [wp_prim] = add_column_sound [THEN wp_callH]

lemma add_foreign_key_sound: "soundH mrk n 1 (add_foreign_key n mrk tbl_code) (appends tbl_code)"
  unfolding add_foreign_key_def
  by (rule soundHI)
     (rule wp_struct | (rule wp_reserved, assumption) | (rule wp_prim, assumption)
        | (rule wp_la_at, (simp; fail)) | (rule left_less, assumption, assumption, (simp; fail))
        | fastforce elim!: rel_mono simp: appends_def)+

lemmas [wp_prim] = add_foreign_key_sound [THEN wp_callH]

lemma add_index_sound: "soundH mrk n 1 (add_index n mrk) (\<lambda>_ _. True)"
  unfolding add_index_def
  by (rule soundHI)
     (rule wp_struct | (rule wp_reserved, assumption) | (rule wp_prim, assumption)
        | (rule wp_la_at, (simp; fail)) | (rule left_less, assumption, assumption, (simp; fail))
        | fastforce elim!: rel_mono)+

lemmas [wp_prim] = add_index_sound [THEN wp_callH]

lemma add_unique_index_sound: "soundH mrk n 1 (add_unique_index n mrk) (\<lambda>_ _. True)"
  unfolding add_unique_index_def
  by (rule soundHI)
     (rule wp_struct | (rule wp_reserved, assumption) | (rule wp_prim, assumption)
        | (rule wp_la_at, (simp; fail)) | (rule left_less, assumption, assumption, (simp; fail))
        | fastforce elim!: rel_mono)+

lemmas [wp_prim] = add_unique_index_sound [THEN wp_callH]

lemma alter_add_sound: "soundH mrk n 1 (alter_add n mrk tbl_code) (\<lambda>c s. \<exists>ext. c = tbl_code @ ext \<and> wf_lines (nd s) ext)"
  unfolding alter_add_def
  by (rule soundHI)
     (rule wp_struct | (rule wp_reserved, assumption) | (rule wp_prim, assumption)
        | (rule wp_la_at, (simp; fail)) | (rule left_less, assumption, assumption, (simp; fail))
        | fastforce elim!: rel_mono simp: appends_def)+

lemmas [wp_prim] = alter_add_sound [THEN wp_callH]

lemma drop_column_sound: "soundH mrk k 1 (drop_column mrk) (\<lambda>_ _. True)"
  unfolding drop_column_def
  by (rule soundHI)
     (rule wp_struct | (rule wp_reserved, assumption) | (rule wp_prim, assumption)
        | (rule wp_la_at, (simp; fail)) | (rule left_less, assumption, assumption, (simp; fail))
        | fastforce elim!: rel_mono)+

lemmas [wp_prim] = drop_column_sound [THEN wp_callH]

lemma drop_foreign_key_sound: "soundH mrk k 1 (drop_foreign_key mrk) (\<lambda>_ _. True)"
  unfolding drop_foreign_key_def
  by (rule soundHI)
     (rule wp_struct | (rule wp_reserved, assumption) | (rule wp_prim, assumption)
        | (rule wp_la_at, (simp; fail)) | (rule left_less, assumption, assumption, (simp; fail))
        | fastforce elim!: rel_mono)+

lemmas [wp_prim] = drop_foreign_key_sound [THEN wp_callH]

lemma drop_index_sound: "soundH mrk k 1 (drop_index mrk) (\<lambda>_ _. True)"
  unfolding drop_index_def
  by (rule soundHI)
     (rule wp_struct | (rule wp_reserved, assumption) | (rule wp_prim, assumption)
        | (rule wp_la_at, (simp; fail)) | (rule left_less, assumption, assumption, (simp; fail))
        | fastforce elim!: rel_mono)+

lemmas [wp_prim] = drop_index_sound [THEN wp_callH]

lemma alter_drop_sound: "soundH mrk k 1 (alter_drop mrk) (\<lambda>_ _. True)"
  unfolding alter_drop_def
  by (rule soundHI)
     (rule wp_struct | (rule wp_reserved, assumption) | (rule wp_prim, assumption)
        | (rule wp_la_at, (simp; fail)) | (rule left_less, assumption, assumption, (simp; fail))
        | fastforce elim!: rel_mono)+

lemmas [wp_prim] = alter_drop_sound [THEN wp_callH]

lemma alter_table_sound: "sound n 1 (alter_table n) (\<lambda>_ _. True)"
  unfolding alter_table_def
  by (rule soundI)
     (rule wp_struct | (rule wp_reserved, assumption) | (rule wp_prim, assumption)
        | (rule wp_la_at, (simp; fail)) | (rule left_less, assumption, assumption, (simp; fail))
        | fastforce elim!: rel_mono simp: appends_def)+

lemmas [wp_prim] = alter_table_sound [THEN wp_call]

lemma alter_stmt_sound: "sound n 1 (alter_stmt n) (\<lambda>_ _. True)"
  unfolding alter_stmt_def
  by (rule soundI)
     (rule wp_struct | (rule wp_reserved, assumption) | (rule wp_prim, assumption)
        | (rule wp_la_at, (simp; fail)) | (rule left_less, assumption, assumption, (simp; fail))
        | fastforce elim!: rel_mono)+

lemmas [wp_prim] = alter_stmt_sound [THEN wp_call]

section \<open>CREATE\<close>

lemma create_database_sound: "sound k 1 (create_database) (\<lambda>_ _. True)"
  unfolding create_database_def
  by (rule soundI)
     (rule wp_struct | (rule wp_reserved, assumption) | (rule wp_prim, assumption)
        | (rule wp_la_at, (simp; fail)) | (rule left_less, assumption, assumption, (simp; fail))
        | fastforce elim!: rel_mono)+

lemmas [wp_prim] = create_database_sound [THEN wp_call0]

lemma foreign_key_sound: "sound n 1 (foreign_key n) (\<lambda>_ _. True)"
  unfolding foreign_key_def
  by (rule soundI)
     (rule wp_struct | (rule wp_reserved, assumption) | (rule wp_prim, assumption)
        | (rule wp_la_at, (simp; fail)) | (rule left_less, assumption, assumption, (simp; fail))
        | fastforce elim!: rel_mono)+

lemmas [wp_prim] = foreign_key_sound [THEN wp_call]

lemma primary_key_sound: "sound n 1 (primary_key n) (\<lambda>_ _. True)"
  unfolding primary_key_def
  by (rule soundI)
     (rule wp_struct | (rule wp_reserved, assumption) | (rule wp_prim, assumption)
        | (rule wp_la_at, (simp; fail)) | (rule left_less, assumption, assumption, (simp; fail))
        | fastforce elim!: rel_mono)+

lemmas [wp_prim] = primary_key_sound [THEN wp_call]

lemma unique_key_sound: "sound n 1 (unique_key n) (\<lambda>_ _. True)"
  unfolding unique_key_def
  by (rule soundI)
     (rule wp_struct | (rule wp_reserved, assumption) | (rule wp_prim, assumption)
        | (rule wp_la_at, (simp; fail)) | (rule left_less, assumption, assumption, (simp; fail))
        | fastforce elim!: rel_mono)+

lemmas [wp_prim] = unique_key_sound [THEN wp_call]

lemma key_definition_sound: "sound n 0 (key_definition n) (\<lambda>_ _. True)"
  unfolding key_definition_def
  by (rule soundI)
     (rule wp_struct | (rule wp_reserved, assumption) | (rule wp_prim, assumption)
        | (rule wp_la_at, (simp; fail)) | (rule left_less, assumption, assumption, (simp; fail))
        | fastforce elim!: rel_mono)+

lemmas [wp_prim] = key_definition_sound [THEN wp_call]

lemma column_definition_sound: "sound n 0 (column_definition n code) (\<lambda>c s. \<exists>ext. c = code @ ext \<and> wf_lines (nd s) ext)"
  unfolding column_definition_def
  by (rule soundI)
     (rule wp_struct | (rule wp_reserved, assumption) | (rule wp_prim, assumption)
        | (rule wp_la_at, (simp; fail)) | (rule left_less, assumption, assumption, (simp; fail))
        | fastforce elim!: rel_mono simp: appends_def)+

lemmas [wp_prim] = column_definition_sound [THEN wp_call]

lemma column_definition_loop_sound: "sound n 0 (column_definition_loop n code_list) (\<lambda>cs s. \<exists>ext. cs = code_list @ ext \<and> wf_lines (nd s) (concat ext))"
proof (induction n arbitrary: code_list)
  case 0
  then show ?case by (simp add: sound_def)
next
  case (Suc n)
  note [wp_prim] = Suc.IH [THEN wp_call]
  show ?case
    unfolding column_definition_loop.simps
    by (rule soundI)
       (rule wp_struct | (rule wp_reserved, assumption) | (rule wp_prim, assumption)
        | (rule wp_la_at, (simp; fail)) | (rule left_less, assumption, assumption, (simp; fail))
        | fastforce elim!: rel_mono)+
qed

lemmas [wp_prim] = column_definition_loop_sound [THEN wp_call]

lemma wf_concat_rev: "wf_lines N (concat (rev cs)) = wf_lines N (concat cs)"
  by (auto simp: wf_lines_def)

lemma column_definition_list_sound: "sound n 0 (column_definition_list n code) (\<lambda>c s. \<exists>ext. c = code @ ext \<and> wf_lines (nd s) ext)"
  unfolding column_definition_list_def
  by (rule soundI)
     (rule wp_struct | (rule wp_reserved, assumption) | (rule wp_prim, assumption)
        | (rule wp_la_at, (simp; fail)) | (rule left_less, assumption, assumption, (simp; fail))
        | fastforce elim!: rel_mono simp: wf_concat_rev)+

lemmas [wp_prim] = column_definition_list_sound [THEN wp_call]

lemma create_table_sound: "sound n 1 (create_table n) (\<lambda>_ _. True)"
  unfolding create_table_def
  by (rule soundI)
     (rule wp_struct | (rule wp_reserved, assumption) | (rule wp_prim, assumption)
        | (rule wp_la_at, (simp; fail)) | (rule left_less, assumption, assumption, (simp; fail))
        | fastforce elim!: rel_mono)+

lemmas [wp_prim] = create_table_sound [THEN wp_call]

lemma create_user_sound: "sound k 1 (create_user) (\<lambda>_ _. True)"
  unfolding create_user_def
  by (rule soundI)
     (rule wp_struct | (rule wp_reserved, assumption) | (rule wp_prim, assumption)
        | (rule wp_la_at, (simp; fail)) | (rule left_less, assumption, assumption, (simp; fail))
        | fastforce elim!: rel_mono)+

lemmas [wp_prim] = create_user_sound [THEN wp_call0]

lemma create_stmt_sound: "sound n 1 (create_stmt n) (\<lambda>_ _. True)"
  unfolding create_stmt_def
  by (rule soundI)
     (rule wp_struct | (rule wp_reserved, assumption) | (rule wp_prim, assumption)
        | (rule wp_la_at, (simp; fail)) | (rule left_less, assumption, assumption, (simp; fail))
        | fastforce elim!: rel_mono)+

lemmas [wp_prim] = create_stmt_sound [THEN wp_call]

section \<open>DELETE, DESCRIBE, DROP\<close>

lemma opt_where_sound: "sound n 0 (opt_where n) (\<lambda>_ _. True)"
  unfolding opt_where_def
  by (rule soundI)
     (rule wp_struct | (rule wp_reserved, assumption) | (rule wp_prim, assumption)
        | (rule wp_la_at, (simp; fail)) | (rule left_less, assumption, assumption, (simp; fail))
        | fastforce elim!: rel_mono simp: extends_def)+

lemmas [wp_prim] = opt_where_sound [THEN wp_call]

lemma delete_stmt_sound: "sound n 1 (delete_stmt n) (\<lambda>_ _. True)"
  unfolding delete_stmt_def
  by (rule soundI)
     (rule wp_struct | (rule wp_reserved, assumption) | (rule wp_prim, assumption)
        | (rule wp_la_at, (simp; fail)) | (rule left_less, assumption, assumption, (simp; fail))
        | fastforce elim!: rel_mono simp: appends_def)+

lemmas [wp_prim] = delete_stmt_sound [THEN wp_call]

lemma describe_stmt_sound: "sound k 1 (describe_stmt) (\<lambda>_ _. True)"
  unfolding describe_stmt_def
  by (rule soundI)
     (rule wp_struct | (rule wp_reserved, assumption) | (rule wp_prim, assumption)
        | (rule wp_la_at, (simp; fail)) | (rule left_less, assumption, assumption, (simp; fail))
        | fastforce elim!: rel_mono)+

lemmas [wp_prim] = describe_stmt_sound [THEN wp_call0]

lemma drop_database_sound: "sound k 1 (drop_database) (\<lambda>_ _. True)"
  unfolding drop_database_def
  by (rule soundI)
     (rule wp_struct | (rule wp_reserved, assumption) | (rule wp_prim, assumption)
        | (rule wp_la_at, (simp; fail)) | (rule left_less, assumption, assumption, (simp; fail))
        | fastforce elim!: rel_mono)+

lemmas [wp_prim] = drop_database_sound [THEN wp_call0]

lemma drop_table_sound: "sound k 1 (drop_table) (\<lambda>_ _. True)"
  unfolding drop_table_def
  by (rule soundI)
     (rule wp_struct | (rule wp_reserved, assumption) | (rule wp_prim, assumption)
        | (rule wp_la_at, (simp; fail)) | (rule left_less, assumption, assumption, (simp; fail))
        | fastforce elim!: rel_mono)+

lemmas [wp_prim] = drop_table_sound [THEN wp_call0]

lemma drop_user_sound: "sound k 1 (drop_user) (\<lambda>_ _. True)"
  unfolding drop_user_def
  by (rule soundI)
     (rule wp_struct | (rule wp_reserved, assumption) | (rule wp_prim, assumption)
        | (rule wp_la_at, (simp; fail)) | (rule left_less, assumption, assumption, (simp; fail))
        | fastforce elim!: rel_mono)+

lemmas [wp_prim] = drop_user_sound [THEN wp_call0]

lemma drop_stmt_sound: "sound k 1 (drop_stmt) (\<lambda>_ _. True)"
  unfolding drop_stmt_def
  by (rule soundI)
     (rule wp_struct | (rule wp_reserved, assumption) | (rule wp_prim, assumption)
        | (rule wp_la_at, (simp; fail)) | (rule left_less, assumption, assumption, (simp; fail))
        | fastforce elim!: rel_mono)+

lemmas [wp_prim] = drop_stmt_sound [THEN wp_call0]

section \<open>GRANT and REVOKE\<close>

lemma simple_privs_not_EOI [simp]: "t \<in> set simple_privs \<Longrightarrow> (t = EOI) = False"
  by (auto simp: simple_privs_def)

lemma priv_loop_sound: "sound n 0 (priv_loop n count) (\<lambda>c _. 0 \<le> count \<longrightarrow> 0 \<le> c)"
proof (induction n arbitrary: count)
  case 0
  then show ?case by (simp add: sound_def)
next
  case (Suc n)
  note [wp_prim] = Suc.IH [THEN wp_call]
  show ?case
    unfolding priv_loop.simps
    by (rule soundI)
       (rule wp_struct | (rule wp_reserved, assumption) | (rule wp_prim, assumption)
        | (rule wp_la_at, (simp; fail)) | (rule left_less, assumption, assumption, (simp; fail))
        | fastforce elim!: rel_mono simp: simple_privs_def)+
qed

lemmas [wp_prim] = priv_loop_sound [THEN wp_call]

lemma priv_object_sound: "sound k 0 (priv_object) (\<lambda>_ _. True)"
  unfolding priv_object_def
  by (rule soundI)
     (rule wp_struct | (rule wp_reserved, assumption) | (rule wp_prim, assumption)
        | (rule wp_la_at, (simp; fail)) | (rule left_less, assumption, assumption, (simp; fail))
        | fastforce elim!: rel_mono)+

lemmas [wp_prim] = priv_object_sound [THEN wp_call0]

lemma priv_user_sound: "sound k 1 (priv_user) (\<lambda>_ _. True)"
  unfolding priv_user_def
  by (rule soundI)
     (rule wp_struct | (rule wp_reserved, assumption) | (rule wp_prim, assumption)
        | (rule wp_la_at, (simp; fail)) | (rule left_less, assumption, assumption, (simp; fail))
        | fastforce elim!: rel_mono)+

lemmas [wp_prim] = priv_user_sound [THEN wp_call0]

lemma priv_stmt_sound:
  "keyword \<noteq> EOI \<Longrightarrow> (\<And>nd. wf_line nd call) \<Longrightarrow> sound n 1 (priv_stmt n call keyword) (\<lambda>_ _. True)"
  unfolding priv_stmt_def
  by (rule soundI)
     (rule wp_struct | (rule wp_reserved, assumption) | (rule wp_prim, assumption)
        | (rule wp_la_at, (simp; fail)) | (rule left_less, assumption, assumption, (simp; fail))
        | fastforce elim!: rel_mono)+

lemma grant_stmt_sound: "sound n 1 (grant_stmt n) (\<lambda>_ _. True)"
  unfolding grant_stmt_def by (rule priv_stmt_sound) simp_all

lemma revoke_stmt_sound: "sound n 1 (revoke_stmt n) (\<lambda>_ _. True)"
  unfolding revoke_stmt_def by (rule priv_stmt_sound) simp_all

lemmas [wp_prim] = grant_stmt_sound [THEN wp_call] revoke_stmt_sound [THEN wp_call]

section \<open>INSERT and LOAD\<close>

lemma opt_column_list_sound: "sound n 0 (opt_column_list n) (\<lambda>_ _. True)"
  unfolding opt_column_list_def
  by (rule soundI)
     (rule wp_struct | (rule wp_reserved, assumption) | (rule wp_prim, assumption)
        | (rule wp_la_at, (simp; fail)) | (rule left_less, assumption, assumption, (simp; fail))
        | fastforce elim!: rel_mono)+

lemmas [wp_prim] = opt_column_list_sound [THEN wp_call]

lemma value_expr_sound: "sound n 1 (value_expr n) (\<lambda>_ _. True)"
  unfolding value_expr_def
  by (rule soundI)
     (rule wp_struct | (rule wp_reserved, assumption) | (rule wp_prim, assumption)
        | (rule wp_la_at, (simp; fail)) | (rule left_less, assumption, assumption, (simp; fail))
        | fastforce elim!: rel_mono simp: extends_def)+

lemmas [wp_prim] = value_expr_sound [THEN wp_call]

lemma value_set_loop_sound: "sound n 1 (value_set_loop n count) (\<lambda>c _. 0 \<le> count \<longrightarrow> 0 \<le> c)"
proof (induction n arbitrary: count)
  case 0
  then show ?case by (simp add: sound_def)
next
  case (Suc n)
  note [wp_prim] = Suc.IH [THEN wp_call]
  show ?case
    unfolding value_set_loop.simps
    by (rule soundI)
       (rule wp_struct | (rule wp_reserved, assumption) | (rule wp_prim, assumption)
        | (rule wp_la_at, (simp; fail)) | (rule left_less, assumption, assumption, (simp; fail))
        | fastforce elim!: rel_mono)+
qed

lemmas [wp_prim] = value_set_loop_sound [THEN wp_call]

lemma value_set_sound: "sound n 1 (value_set n) (\<lambda>_ _. True)"
  unfolding value_set_def
  by (rule soundI)
     (rule wp_struct | (rule wp_reserved, assumption) | (rule wp_prim, assumption)
        | (rule wp_la_at, (simp; fail)) | (rule left_less, assumption, assumption, (simp; fail))
        | fastforce elim!: rel_mono)+

lemmas [wp_prim] = value_set_sound [THEN wp_call]

lemma value_set_list_loop_sound: "sound n 1 (value_set_list_loop n count) (\<lambda>c _. 0 \<le> count \<longrightarrow> 0 \<le> c)"
proof (induction n arbitrary: count)
  case 0
  then show ?case by (simp add: sound_def)
next
  case (Suc n)
  note [wp_prim] = Suc.IH [THEN wp_call]
  show ?case
    unfolding value_set_list_loop.simps
    by (rule soundI)
       (rule wp_struct | (rule wp_reserved, assumption) | (rule wp_prim, assumption)
        | (rule wp_la_at, (simp; fail)) | (rule left_less, assumption, assumption, (simp; fail))
        | fastforce elim!: rel_mono)+
qed

lemmas [wp_prim] = value_set_list_loop_sound [THEN wp_call]

lemma value_set_list_sound: "sound n 1 (value_set_list n) (\<lambda>_ _. True)"
  unfolding value_set_list_def
  by (rule soundI)
     (rule wp_struct | (rule wp_reserved, assumption) | (rule wp_prim, assumption)
        | (rule wp_la_at, (simp; fail)) | (rule left_less, assumption, assumption, (simp; fail))
        | fastforce elim!: rel_mono)+

lemmas [wp_prim] = value_set_list_sound [THEN wp_call]

lemma insert_stmt_sound: "sound n 1 (insert_stmt n) (\<lambda>_ _. True)"
  unfolding insert_stmt_def
  by (rule soundI)
     (rule wp_struct | (rule wp_reserved, assumption) | (rule wp_prim, assumption)
        | (rule wp_la_at, (simp; fail)) | (rule left_less, assumption, assumption, (simp; fail))
        | fastforce elim!: rel_mono simp: appends_def)+

lemmas [wp_prim] = insert_stmt_sound [THEN wp_call]

lemma load_stmt_sound: "sound k 1 (load_stmt) (\<lambda>_ _. True)"
  unfolding load_stmt_def
  by (rule soundI)
     (rule wp_struct | (rule wp_reserved, assumption) | (rule wp_prim, assumption)
        | (rule wp_la_at, (simp; fail)) | (rule left_less, assumption, assumption, (simp; fail))
        | fastforce elim!: rel_mono)+

lemmas [wp_prim] = load_stmt_sound [THEN wp_call0]

section \<open>SELECT\<close>

lemma select_expr_sound: "soundP n 1 code (select_expr n code) (\<lambda>c s. wf_lines (nd s) c)"
  unfolding select_expr_def
  by (rule soundPI)
     (rule wp_struct | (rule wp_reserved, assumption) | (rule wp_prim, assumption)
        | (rule wp_la_at, (simp; fail)) | (rule left_less, assumption, assumption, (simp; fail))
        | fastforce elim!: rel_mono intro: wf_line.pusho simp: extends_def wf_lines_update)+

lemmas [wp_prim] = select_expr_sound [THEN wp_callP]

lemma select_expr_loop_sound: "soundP n 1 code (select_expr_loop n code) (\<lambda>c s. wf_lines (nd s) c)"
proof (induction n arbitrary: code)
  case 0
  then show ?case by (simp add: soundP_def)
next
  case (Suc n)
  note [wp_prim] = Suc.IH [THEN wp_callP]
  show ?case
    unfolding select_expr_loop.simps
    by (rule soundPI)
       (rule wp_struct | (rule wp_reserved, assumption) | (rule wp_prim, assumption)
        | (rule wp_la_at, (simp; fail)) | (rule left_less, assumption, assumption, (simp; fail))
        | fastforce elim!: rel_mono simp: extends_def wf_lines_update)+
qed

lemmas [wp_prim] = select_expr_loop_sound [THEN wp_callP]

lemma select_expr_list_sound: "soundP n 1 code (select_expr_list n code) (\<lambda>c s. wf_lines (nd s) c)"
  unfolding select_expr_list_def
  by (rule soundPI)
     (rule wp_struct | (rule wp_reserved, assumption) | (rule wp_prim, assumption)
        | (rule wp_la_at, (simp; fail)) | (rule left_less, assumption, assumption, (simp; fail))
        | fastforce elim!: rel_mono simp: extends_def wf_lines_update)+

lemmas [wp_prim] = select_expr_list_sound [THEN wp_callP]

lemma join_sound: "sound k 0 (join code) (\<lambda>c s. \<exists>ext. c = code @ ext \<and> wf_lines (nd s) ext)"
  unfolding join_def
  by (rule soundI)
     (rule wp_struct | (rule wp_reserved, assumption) | (rule wp_prim, assumption)
        | (rule wp_la_at, (simp; fail)) | (rule left_less, assumption, assumption, (simp; fail))
        | fastforce elim!: rel_mono)+

lemmas [wp_prim] = join_sound [THEN wp_call0]

lemma using_loop_sound: "soundP n 1 code (using_loop n code count) (\<lambda>p s. wf_lines (nd s) (fst p) \<and> (0 \<le> count \<longrightarrow> 0 \<le> snd p) \<and> length code < length (fst p))"
proof (induction n arbitrary: code count)
  case 0
  then show ?case by (simp add: soundP_def)
next
  case (Suc n)
  note [wp_prim] = Suc.IH [THEN wp_callP]
  show ?case
    unfolding using_loop.simps
    by (rule soundPI)
       (rule wp_struct | (rule wp_reserved, assumption) | (rule wp_prim, assumption)
        | (rule wp_la_at, (simp; fail)) | (rule left_less, assumption, assumption, (simp; fail))
        | fastforce elim!: rel_mono simp: extends_def wf_lines_update)+
qed

lemmas [wp_prim] = using_loop_sound [THEN wp_callP]

lemma on_using_sound: "soundP n 0 code (on_using n code) (\<lambda>c s. wf_lines (nd s) c)"
  unfolding on_using_def
  by (rule soundPI)
     (rule wp_struct | (rule wp_reserved, assumption) | (rule wp_prim, assumption)
        | (rule wp_la_at, (simp; fail)) | (rule left_less, assumption, assumption, (simp; fail))
        | fastforce elim!: rel_mono simp: extends_def wf_lines_update)+

lemmas [wp_prim] = on_using_sound [THEN wp_callP]

lemma join_loop_sound: "soundP n 0 (tbl_code @ concat jcl) (join_loop n tbl_code jcl) (\<lambda>p s. wf_lines (nd s) (fst p) \<and> wf_lines (nd s) (concat (snd p)))"
proof (induction n arbitrary: tbl_code jcl)
  case 0
  then show ?case by (simp add: soundP_def)
next
  case (Suc n)
  note [wp_prim] = Suc.IH [THEN wp_callP]
  show ?case
    unfolding join_loop.simps
    by (rule soundPI)
       (rule wp_struct | (rule wp_reserved, assumption) | (rule wp_prim, assumption)
        | (rule wp_la_at, (simp; fail)) | (rule left_less, assumption, assumption, (simp; fail))
        | fastforce elim!: rel_mono simp: extends_def wf_lines_update appends_def)+
qed

lemmas [wp_prim] = join_loop_sound [THEN wp_callP]

lemma table_reference_list_sound: "soundP n 1 code (table_reference_list n code) (\<lambda>c s. wf_lines (nd s) c)"
  unfolding table_reference_list_def
  by (rule soundPI)
     (rule wp_struct | (rule wp_reserved, assumption) | (rule wp_prim, assumption)
        | (rule wp_la_at, (simp; fail)) | (rule left_less, assumption, assumption, (simp; fail))
        | fastforce elim!: rel_mono simp: extends_def wf_lines_update appends_def wf_concat_rev)+

lemmas [wp_prim] = table_reference_list_sound [THEN wp_callP]

lemma order_column_sound: "sound k 1 (order_column) (\<lambda>_ _. True)"
  unfolding order_column_def
  by (rule soundI)
     (rule wp_struct | (rule wp_reserved, assumption) | (rule wp_prim, assumption)
        | (rule wp_la_at, (simp; fail)) | (rule left_less, assumption, assumption, (simp; fail))
        | fastforce elim!: rel_mono)+

lemmas [wp_prim] = order_column_sound [THEN wp_call0]

lemma order_loop_sound: "sound n 1 (order_loop n count) (\<lambda>c _. 0 \<le> count \<longrightarrow> 0 \<le> c)"
proof (induction n arbitrary: count)
  case 0
  then show ?case by (simp add: sound_def)
next
  case (Suc n)
  note [wp_prim] = Suc.IH [THEN wp_call]
  show ?case
    unfolding order_loop.simps
    by (rule soundI)
       (rule wp_struct | (rule wp_reserved, assumption) | (rule wp_prim, assumption)
        | (rule wp_la_at, (simp; fail)) | (rule left_less, assumption, assumption, (simp; fail))
        | fastforce elim!: rel_mono)+
qed

lemmas [wp_prim] = order_loop_sound [THEN wp_call]

lemma opt_order_by_sound: "sound n 0 (opt_order_by n) (\<lambda>_ _. True)"
  unfolding opt_order_by_def
  by (rule soundI)
     (rule wp_struct | (rule wp_reserved, assumption) | (rule wp_prim, assumption)
        | (rule wp_la_at, (simp; fail)) | (rule left_less, assumption, assumption, (simp; fail))
        | fastforce elim!: rel_mono)+

lemmas [wp_prim] = opt_order_by_sound [THEN wp_call]

lemma opt_into_outfile_sound: "sound k 0 (opt_into_outfile) (\<lambda>_ _. True)"
  unfolding opt_into_outfile_def
  by (rule soundI)
     (rule wp_struct | (rule wp_reserved, assumption) | (rule wp_prim, assumption)
        | (rule wp_la_at, (simp; fail)) | (rule left_less, assumption, assumption, (simp; fail))
        | fastforce elim!: rel_mono)+

lemmas [wp_prim] = opt_into_outfile_sound [THEN wp_call0]

lemma select_stmt_sound: "sound n 1 (select_stmt n) (\<lambda>_ _. True)"
  unfolding select_stmt_def
  by (rule soundI)
     (rule wp_struct | (rule wp_reserved, assumption) | (rule wp_prim, assumption)
        | (rule wp_la_at, (simp; fail)) | (rule left_less, assumption, assumption, (simp; fail))
        | fastforce elim!: rel_mono simp: extends_def wf_lines_update)+

lemmas [wp_prim] = select_stmt_sound [THEN wp_call]

section \<open>SHOW, UPDATE and USE\<close>

lemma show_stmt_sound: "sound k 1 (show_stmt) (\<lambda>_ _. True)"
  unfolding show_stmt_def
  by (rule soundI)
     (rule wp_struct | (rule wp_reserved, assumption) | (rule wp_prim, assumption)
        | (rule wp_la_at, (simp; fail)) | (rule left_less, assumption, assumption, (simp; fail))
        | fastforce elim!: rel_mono)+

lemmas [wp_prim] = show_stmt_sound [THEN wp_call0]

text \<open>A line that is overwritten where it stands.\<close>

lemma wp_overwrite:
  assumes "rel e H s0 s" "mrk < length (ps_code s)" "wf_line (nd s) c" "length (ps_code s0) \<le> mrk"
    and "\<And>s'. rel e H s0 s' \<Longrightarrow> Q () s'"
  shows "wp (code_set mrk c) Q s"
proof -
  have "rel e H s0 (s \<lparr> ps_code := (ps_code s)[mrk := c] \<rparr>)"
    using rel_code_set [OF assms(1,3), of mrk] assms(1,4) first_ret_nonempty [of s0]
    by (cases mrk) (auto simp: rel_def)
  with assms show ?thesis by (simp add: code_set_def wp_def)
qed

lemma assignment_sound: "sound n 1 (assignment n) (\<lambda>_ _. True)"
proof (rule soundI)
  fix s assume r: "rel 0 {} s s" and lt: "left s < n"
  show "wp (assignment n) (\<lambda>_ s'. rel 1 {} s s' \<and> True) s"
    unfolding assignment_def
    apply (rule wp_bnd, rule wp_code_size, rule wp_bnd, rule wp_callP [OF expr_sound r])
      apply (rule wp_sq, rule wp_emit_all, assumption)
       apply (rule wp_overwrite, assumption)
    by (auto simp: extends_def lt simp del: length_greater_0_conv)
qed

lemmas [wp_prim] = assignment_sound [THEN wp_call]

lemma assignment_list_sound: "sound n 1 (assignment_list n) (\<lambda>_ _. True)"
proof (induction n)
  case 0
  then show ?case by (simp add: sound_def)
next
  case (Suc n)
  note [wp_prim] = Suc.IH [THEN wp_call]
  show ?case
    unfolding assignment_list.simps
    by (rule soundI)
       (rule wp_struct | (rule wp_reserved, assumption) | (rule wp_prim, assumption)
        | (rule wp_la_at, (simp; fail)) | (rule left_less, assumption, assumption, (simp; fail))
        | fastforce elim!: rel_mono)+
qed

lemmas [wp_prim] = assignment_list_sound [THEN wp_call]

lemma update_stmt_sound: "sound n 1 (update_stmt n) (\<lambda>_ _. True)"
  unfolding update_stmt_def
  by (rule soundI)
     (rule wp_struct | (rule wp_reserved, assumption) | (rule wp_prim, assumption)
        | (rule wp_la_at, (simp; fail)) | (rule left_less, assumption, assumption, (simp; fail))
        | fastforce elim!: rel_mono simp: appends_def)+

lemmas [wp_prim] = update_stmt_sound [THEN wp_call]

lemma use_stmt_sound: "sound k 1 (use_stmt) (\<lambda>_ _. True)"
  unfolding use_stmt_def
  by (rule soundI)
     (rule wp_struct | (rule wp_reserved, assumption) | (rule wp_prim, assumption)
        | (rule wp_la_at, (simp; fail)) | (rule left_less, assumption, assumption, (simp; fail))
        | fastforce elim!: rel_mono)+

lemmas [wp_prim] = use_stmt_sound [THEN wp_call0]

section \<open>Statements\<close>

lemma stmt_loop_sound: "sound n 0 (stmt_loop n) (\<lambda>_ _. True)"
proof (induction n)
  case 0
  then show ?case by (simp add: sound_def)
next
  case (Suc n)
  note [wp_prim] = Suc.IH [THEN wp_call]
  show ?case
    unfolding stmt_loop.simps
    by (rule soundI)
       (rule wp_struct | (rule wp_reserved, assumption) | (rule wp_prim, assumption)
        | (rule wp_la_at, (simp; fail)) | (rule left_less, assumption, assumption, (simp; fail))
        | fastforce elim!: rel_mono)+
qed

lemmas [wp_prim] = stmt_loop_sound [THEN wp_call]

lemma bad_first: "first_ret s \<Longrightarrow> bad s \<subseteq> {0} \<Longrightarrow> \<exists>cs. ps_code s = ''RET'' # cs \<and> wf_lines (nd s) cs"
  by (cases "ps_code s") (fastforce simp: first_ret_def bad_def wf_lines_def in_set_conv_nth)+

lemma stmt_safe:
  assumes "ps_ok s" "left s < n" "ps_code s = []"
  shows "wp (stmt n) (\<lambda>_ s'. ps_ok s' \<and> (\<exists>cs. ps_code s' = ''RET'' # cs \<and> wf_lines (nd s') cs)) s"
proof -
  let ?s = "s \<lparr> ps_code := [''RET''] \<rparr>"
  have "ps_ok ?s" "left ?s < n" "first_ret ?s" "bad ?s \<subseteq> {0}"
    using assms by (auto simp: ps_ok_def left_def first_ret_def bad_def)
  then have "wp (stmt_loop n) (\<lambda>_ s'. ps_ok s' \<and> first_ret s' \<and> bad s' \<subseteq> {0}) ?s"
    using stmt_loop_sound [of n]
    by (auto simp: sound_def rel_def elim!: allE [of _ ?s] wp_mono)
  then have "wp (stmt_loop n) (\<lambda>_ s'. ps_ok s' \<and> (\<exists>cs. ps_code s' = ''RET'' # cs \<and> wf_lines (nd s') cs)) ?s"
    by (rule wp_mono) (use bad_first in blast)
  then show ?thesis
    unfolding stmt_def by (intro wp_sq) (simp add: wp_def emit_def assms(3))
qed

section \<open>The parser\<close>

lemma parser_new_ok:
  "wp (\<lambda>_. parser_new input) (\<lambda>_ s'. ps_ok s' \<and> left s' < parse_fuel input \<and> ps_code s' = []) s"
proof -
  let ?s = "\<lparr> ps_lexer = tran_lexer_new input, ps_lookahead = [], ps_code = [],
       ps_data = [token_new TYPE_VARCHAR empty], ps_index = 0, ps_mark = -1 \<rparr>"
  obtain r s' where ld: "load_lookahead 1 ?s = (r, s')" by fastforce
  have pot: "pot (tran_lexer_new input) \<le> Suc (length input)"
    by (simp add: pot_def tran_lexer_new_def lexer.defs lexer_new_def)
  note st = load_lookahead_step [OF ld]
  have "left s' \<le> left ?s" using loaded_left [of ?s s'] st by simp
  moreover have "left ?s < parse_fuel input" using pot by (simp add: left_def parse_fuel_def)
  moreover have "loaded ?s s'" using st by simp
  moreover have "parser_new input = (r, s')" using ld by (simp add: parser_new_def)
  ultimately show ?thesis
    using st by (cases r) (auto simp: wp_def expected_def loaded_def ps_ok_def data_inv_def bad_def)
qed

lemma parse_outcome:
  "case parse input of
     (Inl e, s) \<Rightarrow> e \<in> range (Runtime_rem ERRNO_TOKEN_ERROR)
                    \<union> {Undefined ''header'', Undefined ''m_token_list''}
   | (Inr _, s) \<Rightarrow> data_inv (ps_data s)
       \<and> (\<exists>cs. ps_code s = ''RET'' # cs \<and> wf_lines (length (ps_data s)) cs)"
proof -
  obtain r s where nw: "parser_new input = (r, s)" by fastforce
  show ?thesis
  proof (cases r)
    case (Inl e)
    with parser_new_ok [of input] nw show ?thesis by (auto simp: parse_def wp_def expected_def)
  next
    case (Inr u)
    then have "ps_ok s" "left s < parse_fuel input" "ps_code s = []"
      using parser_new_ok [of input] nw by (auto simp: wp_def)
    from stmt_safe [OF this] show ?thesis
      using nw Inr by (auto simp: parse_def wp_def expected_def ps_ok_def nd_def split: prod.splits sum.splits)
  qed
qed

text \<open>
  C7. For every input the parser ends with a result (never out of fuel), and
  never reads its lookahead window or writes a code vector out of range. It
  either throws the runtime error ERRNO_TOKEN_ERROR, or reaches one of the two
  undefined operations of the header scan, or returns; and when it returns, the
  data section holds pairwise distinct items with the empty string in front,
  and the code is RET, which the dump puts last, with only lines behind it that
  are a call of a known routine, NOP, a push of a number or a reference to an
  item of the data section that exists.
\<close>

theorem parse_safe:
  "case parse input of
     (Inl e, s) \<Rightarrow> e \<in> range (Runtime_rem ERRNO_TOKEN_ERROR)
                    \<union> {Undefined ''header'', Undefined ''m_token_list''}
   | (Inr _, s) \<Rightarrow> data_inv (ps_data s)
       \<and> (\<exists>cs. ps_code s = ''RET'' # cs \<and> wf_lines (length (ps_data s)) cs)"
  by (rule parse_outcome)

end
