(* ===== verification/ParserCode.thy ===== *)
theory ParserCode
  imports ParserSafety
begin

text \<open>
  What the code of an expression means. An expression routine returns the
  prefix form of an operator tree; the parser dumps the code vector from its
  end, so the machine reads it backwards, as postfix code for its stack. The
  theory defines the trees the grammar of the parser admits, their prefix form, and
  a symbolic stack machine, and shows that every expression routine returns the
  prefix form of such a tree and that its code leaves exactly the value of that
  tree on the stack.
\<close>

section \<open>Expression trees\<close>

datatype tree =
  Leaf string "string list"
| Neg tree
| Paren tree
| Bin string tree tree

fun prefix_code :: "tree \<Rightarrow> code" where
  "prefix_code (Leaf mk ds) = mk # ds"
| "prefix_code (Neg e) = ''CALL NEGATE'' # prefix_code e"
| "prefix_code (Paren e) = prefix_code e"
| "prefix_code (Bin call l r) = call # prefix_code l @ prefix_code r"

text \<open>A left-associative chain of operators from a table over operands with \<open>P\<close>.\<close>

inductive chain_tree :: "(int \<times> string) list \<Rightarrow> (tree \<Rightarrow> bool) \<Rightarrow> tree \<Rightarrow> bool" for tbl P where
  operand: "P e \<Longrightarrow> chain_tree tbl P e"
| operator: "chain_tree tbl P l \<Longrightarrow> call \<in> snd ` set tbl \<Longrightarrow> P r \<Longrightarrow> chain_tree tbl P (Bin call l r)"

lemma chain_tree_mono [mono]: "P \<le> Q \<Longrightarrow> chain_tree tbl P \<le> chain_tree tbl Q"
proof (rule predicate1I)
  fix e assume "P \<le> Q" "chain_tree tbl P e"
  from this(2,1) show "chain_tree tbl Q e"
    by (induction rule: chain_tree.induct) (auto intro: chain_tree.intros)
qed

text \<open>
  The grammar, from the primaries to \<open>logic_expr\<close>: products of primaries, sums of
  products, then \<open>>=\<close>, \<open>>\<close>, \<open><=\<close>, \<open><\<close>, then \<open>=\<close> and \<open>!=\<close>, then OR, then AND.
\<close>

definition logic_tree :: "(tree \<Rightarrow> bool) \<Rightarrow> tree \<Rightarrow> bool" where
  "logic_tree P = chain_tree logic_expr_ops (chain_tree logic_term_ops (chain_tree comparison_expr_ops
     (chain_tree comparison_term_ops (chain_tree math_expr_ops (chain_tree math_term_ops P)))))"

lemma logic_tree_mono [mono]: "P \<le> Q \<Longrightarrow> logic_tree P \<le> logic_tree Q"
  unfolding logic_tree_def by (intro chain_tree_mono)

definition is_data :: "string \<Rightarrow> bool" where
  "is_data d \<longleftrightarrow> take 6 d = ''PUSHO ''"

inductive prim_tree :: "tree \<Rightarrow> bool" where
  literal: "is_data d \<Longrightarrow> prim_tree (Leaf ''CALL MKEXPR'' [d])"
| column: "is_data d1 \<Longrightarrow> is_data d2 \<Longrightarrow> is_data d3 \<Longrightarrow> prim_tree (Leaf ''CALL MKCLMNEXPR'' [d1, d2, d3])"
| asterisk: "is_data d1 \<Longrightarrow> is_data d2 \<Longrightarrow> prim_tree (Leaf ''CALL MKASTEXPR'' [d1, d2])"
| neg: "prim_tree e \<Longrightarrow> prim_tree (Neg e)"
| paren: "logic_tree prim_tree e \<Longrightarrow> prim_tree (Paren e)"

definition tree_code :: "(tree \<Rightarrow> bool) \<Rightarrow> code \<Rightarrow> bool" where
  "tree_code P c \<longleftrightarrow> (\<exists>e. P e \<and> c = prefix_code e)"

section \<open>The stack\<close>

text \<open>
  The values of the symbolic machine: a pushed operand, or the result of a
  call on the values it took from the stack, the top of the stack first.
\<close>

datatype sval = Operand string | Result string "sval list"

fun tree_val :: "tree \<Rightarrow> sval" where
  "tree_val (Leaf mk ds) = Result mk (map Operand ds)"
| "tree_val (Neg e) = Result ''CALL NEGATE'' [tree_val e]"
| "tree_val (Paren e) = tree_val e"
| "tree_val (Bin call l r) = Result call [tree_val l, tree_val r]"

definition arity :: "string \<Rightarrow> nat option" where
  "arity = map_of ([(''CALL MKEXPR'', 1), (''CALL MKCLMNEXPR'', 3), (''CALL MKASTEXPR'', 2),
     (''CALL NEGATE'', 1)] @ map (\<lambda>p. (snd p, 2)) (math_term_ops @ math_expr_ops @ comparison_term_ops
       @ comparison_expr_ops @ logic_term_ops @ logic_expr_ops))"

fun exec :: "string \<Rightarrow> sval list \<Rightarrow> sval list option" where
  "exec c st = (if is_data c then Some (Operand c # st) else case arity c of
     Some k \<Rightarrow> if k \<le> length st then Some (Result c (take k st) # drop k st) else None
   | None \<Rightarrow> None)"

fun run :: "code \<Rightarrow> sval list \<Rightarrow> sval list option" where
  "run [] st = Some st"
| "run (c # cs) st = Option.bind (exec c st) (run cs)"

lemma run_append: "run (xs @ ys) st = Option.bind (run xs st) (run ys)"
  by (induction xs arbitrary: st) (auto split: Option.bind_splits)

lemma arity_simps:
  "arity ''CALL MKEXPR'' = Some 1" "arity ''CALL MKCLMNEXPR'' = Some 3"
  "arity ''CALL MKASTEXPR'' = Some 2" "arity ''CALL NEGATE'' = Some 1"
  by (simp_all add: arity_def)

lemma op_arity:
  "call \<in> snd ` set tbl \<Longrightarrow> tbl \<in> {math_term_ops, math_expr_ops, comparison_term_ops,
      comparison_expr_ops, logic_term_ops, logic_expr_ops}
    \<Longrightarrow> arity call = Some 2 \<and> \<not> is_data call"
  by (auto simp: arity_def is_data_def math_term_ops_def math_expr_ops_def comparison_term_ops_def
      comparison_expr_ops_def logic_term_ops_def logic_expr_ops_def)

definition pushes :: "tree \<Rightarrow> bool" where
  "pushes e \<longleftrightarrow> (\<forall>st. run (rev (prefix_code e)) st = Some (tree_val e # st))"

lemma chain_tree_pushes:
  assumes "chain_tree tbl P e" "P \<le> pushes"
    and "tbl \<in> {math_term_ops, math_expr_ops, comparison_term_ops,
      comparison_expr_ops, logic_term_ops, logic_expr_ops}"
  shows "pushes e"
  using assms(1)
proof induction
  case (operand e)
  then show ?case using assms(2) by blast
next
  case (operator l call r)
  have "pushes r" using operator assms(2) by blast
  then show ?case
    using operator op_arity [OF _ assms(3), of call] by (simp add: pushes_def run_append)
qed

lemma logic_tree_pushes: "P \<le> pushes \<Longrightarrow> logic_tree P \<le> pushes"
  unfolding logic_tree_def
  by (intro predicate1I) ((erule chain_tree_pushes, (intro predicate1I)?)+, auto)

lemma prim_tree_pushes: "prim_tree e \<Longrightarrow> pushes e"
proof (induction rule: prim_tree.induct)
  case (neg e)
  then show ?case by (simp add: pushes_def run_append arity_simps is_data_def)
next
  case (paren e)
  have "logic_tree (\<lambda>e. prim_tree e \<and> pushes e) \<le> pushes"
    by (rule logic_tree_pushes) auto
  with paren show ?case by (auto simp: pushes_def)
qed (simp_all add: pushes_def run_append arity_simps is_data_def numeral_eq_Suc)

section \<open>The routines return trees\<close>

abbreviation (input) returns :: "(tree \<Rightarrow> bool) \<Rightarrow> code \<Rightarrow> parser \<Rightarrow> bool" where
  "returns P \<equiv> \<lambda>c _. tree_code P c"

lemma tree_code_operand: "tree_code P c \<Longrightarrow> tree_code (chain_tree tbl P) c"
  by (auto simp: tree_code_def intro: chain_tree.operand)

lemma tree_code_operator:
  assumes "tree_code (chain_tree tbl P) c" "map_of tbl t = Some call" "tree_code P c'"
  shows "tree_code (chain_tree tbl P) (call # c @ c')"
proof -
  obtain l r where "chain_tree tbl P l" "c = prefix_code l" "P r" "c' = prefix_code r"
    using assms by (auto simp: tree_code_def)
  moreover have "call \<in> snd ` set tbl" using assms(2) by (force dest: map_of_SomeD)
  ultimately show ?thesis
    unfolding tree_code_def by (intro exI [of _ "Bin call l r"]) (simp add: chain_tree.operator)
qed

lemma chain_returns:
  assumes "tbl_ok tbl"
  shows "sound n 1 sub (returns P) \<Longrightarrow> tree_code (chain_tree tbl P) (code @ pc)
    \<Longrightarrow> sound n 0 (chain n tbl sub code pc) (returns (chain_tree tbl P))"
proof (induction n arbitrary: code pc)
  case 0
  then show ?case by (simp add: sound_def)
next
  case (Suc n)
  have sub: "sound n 1 sub (returns P)" using Suc.prems(1) by (rule sound_mono) simp
  show ?case
  proof (rule soundI)
    fix s assume r: "rel 0 {} s s" and lt: "left s < Suc n"
    show "wp (chain (Suc n) tbl sub code pc) (\<lambda>c s'. rel 0 {} s s' \<and> tree_code (chain_tree tbl P) c) s"
    proof (cases "map_of tbl (m_type (cur s))")
      case None
      then show ?thesis
        unfolding chain.simps
        by (intro wp_bnd, intro wp_la [OF r]) (use r Suc.prems in \<open>auto intro: wp_ret\<close>)
    next
      case (Some call)
      then have eoi: "m_type (cur s) \<noteq> EOI" using assms by (auto simp: tbl_ok_def)
      have step: "tree_code P c' \<Longrightarrow>
          sound n 0 (chain n tbl sub (call # code @ pc @ c') []) (returns (chain_tree tbl P))" for c'
        using tree_code_operator [OF Suc.prems(2) Some] by (intro Suc.IH [OF sub]) simp
      have "wp (sq consume (bnd sub (\<lambda>pc'. chain n tbl sub (call # code @ pc @ pc') [])))
         (\<lambda>c s'. rel 0 {} s s' \<and> tree_code (chain_tree tbl P) c) s"
        apply (rule wp_sq, rule wp_consume [OF r], rule wp_bnd)
        apply (rule wp_call [OF sub], assumption)
         apply (rule wp_call [OF step], assumption, assumption)
          apply (auto elim!: rel_mono)[1]
         apply (erule left_less [OF _ lt], use eoi in simp)
        apply (erule left_less [OF _ lt], use eoi in simp)
        done
      then show ?thesis
        unfolding chain.simps by (intro wp_bnd, intro wp_la [OF r]) (simp add: Some)
    qed
  qed
qed

lemma layer_returns:
  assumes "tbl_ok tbl" "sound n 1 a (returns P)" "sound n 1 sub (returns P)"
  shows "sound n 1 (bnd a (chain n tbl sub [])) (returns (chain_tree tbl P))"
proof (rule soundI)
  fix s assume r: "rel 0 {} s s" and lt: "left s < n"
  have ch: "tree_code P pc \<Longrightarrow> sound n 0 (chain n tbl sub [] pc) (returns (chain_tree tbl P))" for pc
    by (rule chain_returns [OF assms(1,3)]) (simp add: tree_code_operand)
  show "wp (bnd a (chain n tbl sub [])) (\<lambda>c s'. rel 1 {} s s' \<and> tree_code (chain_tree tbl P) c) s"
    apply (rule wp_bnd, rule wp_call [OF assms(2) r])
     apply (rule wp_call [OF ch], assumption, assumption)
      apply simp
     apply (erule left_less [OF _ lt], simp)
    by (rule lt)
qed

lemma logic_expr_returns:
  assumes "\<And>ua. sound n 1 (prim ua) (returns P)"
  shows "sound n 1 (logic_expr prim n []) (returns (logic_tree P))"
  unfolding logic_expr_def logic_term_def logic_primary_def comparison_expr_def comparison_term_def
    comparison_primary_def math_expr_def math_term_def logic_tree_def
  by (intro layer_returns op_tables_ok assms)

text \<open>The operands of the primaries are references to data items.\<close>

lemma is_data_pusho [simp]: "is_data (pusho i)"
  by (simp add: is_data_def pusho_def)

lemma wp_data_line_data:
  assumes "rel e H s0 s"
    and "\<And>d s'. \<lbrakk> rel (Suc e) H s0 s'; is_data d \<rbrakk> \<Longrightarrow> Q d s'"
    and "ty \<noteq> EOI"
  shows "wp (data_line ty) Q s"
  unfolding data_line_def
  by (rule wp_bnd, rule wp_data_tok [OF assms(1)], rule wp_ret) (use assms(2,3) in auto)

lemma wp_empty_line_data:
  assumes "rel e H s0 s" "\<And>d. is_data d \<Longrightarrow> Q d s"
  shows "wp empty_line Q s"
  unfolding empty_line_def
  by (rule wp_bnd, rule wp_find_empty [OF assms(1)], rule wp_ret) (auto intro: assms(2))

lemma tree_codeI: "P e \<Longrightarrow> c = prefix_code e \<Longrightarrow> tree_code P c"
  by (auto simp: tree_code_def)

lemma tree_codeE: "tree_code P c \<Longrightarrow> (\<And>e. P e \<Longrightarrow> c = prefix_code e \<Longrightarrow> thesis) \<Longrightarrow> thesis"
  by (auto simp: tree_code_def)

lemma tree_code_prims:
  "is_data d1 \<Longrightarrow> tree_code prim_tree [''CALL MKEXPR'', d1]"
  "is_data d1 \<Longrightarrow> is_data d2 \<Longrightarrow> tree_code prim_tree [''CALL MKASTEXPR'', d1, d2]"
  "is_data d1 \<Longrightarrow> is_data d2 \<Longrightarrow> is_data d3 \<Longrightarrow> tree_code prim_tree [''CALL MKCLMNEXPR'', d1, d2, d3]"
  "tree_code prim_tree c \<Longrightarrow> tree_code prim_tree (''CALL NEGATE'' # c)"
  "tree_code (logic_tree prim_tree) c \<Longrightarrow> tree_code prim_tree c"
proof -
  show "is_data d1 \<Longrightarrow> tree_code prim_tree [''CALL MKEXPR'', d1]"
    by (rule tree_codeI [where e = "Leaf _ [d1]"]) (simp_all add: prim_tree.literal)
  show "is_data d1 \<Longrightarrow> is_data d2 \<Longrightarrow> tree_code prim_tree [''CALL MKASTEXPR'', d1, d2]"
    by (rule tree_codeI [where e = "Leaf _ [d1, d2]"]) (simp_all add: prim_tree.asterisk)
  show "is_data d1 \<Longrightarrow> is_data d2 \<Longrightarrow> is_data d3 \<Longrightarrow> tree_code prim_tree [''CALL MKCLMNEXPR'', d1, d2, d3]"
    by (rule tree_codeI [where e = "Leaf _ [d1, d2, d3]"]) (simp_all add: prim_tree.column)
  show "tree_code prim_tree c \<Longrightarrow> tree_code prim_tree (''CALL NEGATE'' # c)"
    by (erule tree_codeE, rule tree_codeI [where e = "Neg _"], erule prim_tree.neg) simp
  show "tree_code (logic_tree prim_tree) c \<Longrightarrow> tree_code prim_tree c"
    by (erule tree_codeE, rule tree_codeI [where e = "Paren _"], erule prim_tree.paren) simp
qed

lemmas data_rules = wp_data_line_data wp_empty_line_data

lemma name_expr_returns: "sound k 1 (name_expr []) (returns prim_tree)"
  unfolding name_expr_def
  by (rule soundI)
     (rule wp_struct | (rule data_rules wp_prim, assumption) | fastforce elim!: rel_mono intro: tree_code_prims)+

lemma math_primary_returns: "sound n 1 (math_primary n ua) (returns prim_tree)"
proof (induction n arbitrary: ua)
  case 0
  then show ?case by (simp add: sound_def)
next
  case (Suc n)
  note le = logic_expr_returns [OF Suc.IH]
  show ?case
  proof (rule soundI)
    fix s assume r: "rel 0 {} s s" and lt: "left s < Suc n"
    show "wp (math_primary (Suc n) ua) (\<lambda>c s'. rel 1 {} s s' \<and> tree_code prim_tree c) s"
      unfolding math_primary.simps
      by (rule wp_struct | (rule data_rules wp_prim, rule r | rule data_rules wp_prim, assumption)
          | (rule wp_call [OF le] wp_call [OF name_expr_returns] wp_call [OF Suc.IH], assumption)
          | (erule left_less [OF _ lt], simp; fail)
          | fastforce elim!: rel_mono intro: tree_code_prims)+
  qed
qed

lemma expr_returns: "sound n 1 (expr n []) (returns (logic_tree prim_tree))"
  unfolding expr_def by (intro logic_expr_returns math_primary_returns)

section \<open>Properties\<close>






end
