(* ===== verification/Schema.thy ===== *)
theory Schema
  imports Eno Lexer SchemaTypes
begin

text \<open>
  The schema of a table (\<open>src/schema\<close>): header, columns with their references,
  indexes and foreign keys, the searches by name, the generated names, and the
  schema manager, which keeps schemas by name and stores each as a JSON file.

  The JSON library (json-glib) and the file system are not part of the
  program. Writing uses a sequence of builder calls, which the model records as
  a list; what the generator does with it, and the functions that read a
  document, are the fields of the record \<open>json_lib\<close>, an argument of the
  definitions that use them. Integers are the machine's: a conversion wraps.
\<close>

section \<open>Conversions\<close>

definition cast_i32 :: "int \<Rightarrow> int" where
  "cast_i32 v = sint (word_of_int v :: 32 word)"

definition cast_i64 :: "int \<Rightarrow> int" where
  "cast_i64 v = sint (word_of_int v :: 64 word)"

definition cast_u64 :: "int \<Rightarrow> int" where
  "cast_u64 v = uint (word_of_int v :: 64 word)"

text \<open>The characters of a string up to a null character, as \<open>c_str\<close> hands them to C code.\<close>

definition c_str :: "string \<Rightarrow> string" where
  "c_str s = takeWhile (\<lambda>c. c \<noteq> CHR 0x00) s"

text \<open>A number that is not negative with zeros in front, up to a width: \<open>setw\<close> and \<open>setfill('0')\<close>, or \<open>%02d\<close>.\<close>

definition pad0 :: "nat \<Rightarrow> int \<Rightarrow> string" where
  "pad0 w i = (let s = to_string i in replicate (w - length s) (CHR ''0'') @ s)"

section \<open>Data\<close>

record reference =
  rf_name :: string
  rf_db_name :: string
  rf_tbl_name :: string
  rf_fgn_name :: string

record column =
  co_flag :: int
  co_prec :: int
  co_size :: int
  co_type :: int
  co_max_size :: int
  co_auto_inc :: int
  co_name :: string
  co_enum :: "string list"
  co_reference_list :: "reference list"

record header =
  hd_db_name :: string
  hd_tbl_name :: string
  hd_flag :: int
  hd_block_size :: int
  hd_index_count :: int
  hd_foreign_count :: int
  hd_column_count :: int
  hd_block_count :: int
  hd_row_count :: int
  hd_generation :: int
  hd_next_offset :: int
  hd_data_offset :: int
  hd_data_root :: int
  hd_free_head :: int
  hd_free_tail :: int

record index =
  ix_flag :: int
  ix_order :: int
  ix_key_size :: int
  ix_block_count :: int
  ix_generation :: int
  ix_root :: int
  ix_name :: string
  ix_col_name_list :: "string list"

record foreign =
  fg_name :: string
  fg_db_name :: string
  fg_tbl_name :: string
  fg_col_name_list :: "string list"

record schema =
  sc_header :: header
  sc_column :: "column list"
  sc_index :: "index list"
  sc_foreign :: "foreign list"

definition reference_default :: reference where
  "reference_default = \<lparr> rf_name = [], rf_db_name = [], rf_tbl_name = [], rf_fgn_name = [] \<rparr>"

definition column_default :: column where
  "column_default = \<lparr> co_flag = 0, co_prec = 0, co_size = 0, co_type = 0, co_max_size = 0,
     co_auto_inc = 0, co_name = [], co_enum = [], co_reference_list = [] \<rparr>"

definition column_date :: "int \<Rightarrow> int \<Rightarrow> string \<Rightarrow> column" where
  "column_date fl type nm = column_default \<lparr> co_flag := fl,
     co_size := (if type = TYPE_DATE then 10 else 19), co_type := type, co_name := nm \<rparr>"

definition column_sized :: "int \<Rightarrow> int \<Rightarrow> int \<Rightarrow> string \<Rightarrow> column" where
  "column_sized fl sz type nm = column_default \<lparr> co_flag := fl, co_size := sz, co_type := type, co_name := nm \<rparr>"

definition column_float :: "int \<Rightarrow> int \<Rightarrow> int \<Rightarrow> int \<Rightarrow> string \<Rightarrow> column" where
  "column_float fl prec sz type nm = column_default \<lparr> co_flag := fl, co_prec := prec, co_size := sz,
     co_type := type, co_name := nm \<rparr>"

definition column_enum :: "int \<Rightarrow> int \<Rightarrow> int \<Rightarrow> string \<Rightarrow> string list \<Rightarrow> column" where
  "column_enum fl sz type nm en = column_default \<lparr> co_flag := fl, co_size := sz, co_type := type,
     co_name := nm, co_enum := en \<rparr>"

definition header_new ::
  "string \<Rightarrow> string \<Rightarrow> int \<Rightarrow> int \<Rightarrow> int \<Rightarrow> int \<Rightarrow> int \<Rightarrow> int \<Rightarrow> int \<Rightarrow> int \<Rightarrow> header" where
  "header_new db tbl fl block ndx fgn col next_off data_off root =
     \<lparr> hd_db_name = db, hd_tbl_name = tbl, hd_flag = fl, hd_block_size = block, hd_index_count = ndx,
       hd_foreign_count = fgn, hd_column_count = col, hd_block_count = 0, hd_row_count = 0,
       hd_generation = 0, hd_next_offset = next_off, hd_data_offset = data_off, hd_data_root = root,
       hd_free_head = -1, hd_free_tail = -1 \<rparr>"

definition index_new :: "int \<Rightarrow> int \<Rightarrow> int \<Rightarrow> string \<Rightarrow> string list \<Rightarrow> index" where
  "index_new fl ord key nm cols = \<lparr> ix_flag = fl, ix_order = ord, ix_key_size = key, ix_block_count = 0,
     ix_generation = 0, ix_root = -1, ix_name = nm, ix_col_name_list = cols \<rparr>"

definition foreign_new :: "string \<Rightarrow> string \<Rightarrow> string \<Rightarrow> string list \<Rightarrow> foreign" where
  "foreign_new nm db tbl cols = \<lparr> fg_name = nm, fg_db_name = db, fg_tbl_name = tbl, fg_col_name_list = cols \<rparr>"

text \<open>
  The default constructors of header and index leave their numbers
  uninitialised: the argument holds whatever is in memory.
\<close>

definition header_default :: "header \<Rightarrow> header" where
  "header_default mem = mem \<lparr> hd_db_name := [], hd_tbl_name := [] \<rparr>"

definition index_default :: "index \<Rightarrow> index" where
  "index_default mem = mem \<lparr> ix_name := [], ix_col_name_list := [] \<rparr>"

definition foreign_default :: foreign where
  "foreign_default = foreign_new [] [] [] []"

section \<open>Searches by name\<close>

fun find_pos :: "('a \<Rightarrow> string) \<Rightarrow> string \<Rightarrow> 'a list \<Rightarrow> nat option" where
  "find_pos f nm [] = None"
| "find_pos f nm (x # xs) = (if nm = f x then Some 0 else map_option Suc (find_pos f nm xs))"

definition column_pos :: "schema \<Rightarrow> string \<Rightarrow> error + nat" where
  "column_pos s nm = (case find_pos co_name nm (sc_column s) of
     None \<Rightarrow> Inl (Runtime ERRNO_COLUMN_ERROR) | Some i \<Rightarrow> Inr i)"

definition foreign_pos :: "schema \<Rightarrow> string \<Rightarrow> error + nat" where
  "foreign_pos s nm = (case find_pos fg_name nm (sc_foreign s) of
     None \<Rightarrow> Inl (Runtime ERRNO_FOREIGN_ERROR) | Some i \<Rightarrow> Inr i)"

definition index_pos :: "schema \<Rightarrow> string \<Rightarrow> error + nat" where
  "index_pos s nm = (case find_pos ix_name nm (sc_index s) of
     None \<Rightarrow> Inl (Runtime ERRNO_INDEX_ERROR) | Some i \<Rightarrow> Inr i)"

definition get_column :: "schema \<Rightarrow> string \<Rightarrow> error + column" where
  "get_column s nm = (case find_pos co_name nm (sc_column s) of
     None \<Rightarrow> Inl (Runtime ERRNO_COLUMN_ERROR) | Some i \<Rightarrow> Inr (sc_column s ! i))"

definition get_foreign :: "schema \<Rightarrow> string \<Rightarrow> error + foreign" where
  "get_foreign s nm = (case find_pos fg_name nm (sc_foreign s) of
     None \<Rightarrow> Inl (Runtime ERRNO_FOREIGN_ERROR) | Some i \<Rightarrow> Inr (sc_foreign s ! i))"

definition get_index :: "schema \<Rightarrow> string \<Rightarrow> error + index" where
  "get_index s nm = (case find_pos ix_name nm (sc_index s) of
     None \<Rightarrow> Inl (Runtime ERRNO_INDEX_ERROR) | Some i \<Rightarrow> Inr (sc_index s ! i))"

definition schema_name :: "schema \<Rightarrow> string" where
  "schema_name s = hd_db_name (sc_header s) @ ''.'' @ hd_tbl_name (sc_header s)"

definition remove_index :: "string \<Rightarrow> schema \<Rightarrow> schema" where
  "remove_index ndx_name s = (if ndx_name = PK_NDX then s
     else case find_pos ix_name ndx_name (sc_index s) of
       None \<Rightarrow> s
     | Some i \<Rightarrow> s \<lparr> sc_index := take i (sc_index s) @ drop (Suc i) (sc_index s),
         sc_header := (sc_header s) \<lparr> hd_index_count := hd_index_count (sc_header s) - 1 \<rparr> \<rparr>)"

text \<open>
  \<open>name<T>::make\<close>: the prefix with the first number, from zero on, that no entry
  has. The loop has fuel; one more than the number of entries is enough.
\<close>

fun make_name_loop :: "nat \<Rightarrow> int \<Rightarrow> string \<Rightarrow> string list \<Rightarrow> string option" where
  "make_name_loop 0 i prefix nms = None"
| "make_name_loop (Suc n) i prefix nms = (let nm = prefix @ pad0 3 i in
     if nm \<in> set nms then make_name_loop n (i + 1) prefix nms else Some nm)"

definition make_name :: "string \<Rightarrow> string list \<Rightarrow> string option" where
  "make_name prefix nms = make_name_loop (Suc (length nms)) 0 prefix nms"

section \<open>The JSON library\<close>

datatype jcall = Begin_object | End_object | Begin_array | End_array
  | Member string | Int_value int | String_value string

record ('fs, 'n) json_lib =
  generator_to_file :: "jcall list \<Rightarrow> string \<Rightarrow> 'fs \<Rightarrow> bool \<times> 'fs"
  stat_ok :: "string \<Rightarrow> 'fs \<Rightarrow> bool"
  parser_load :: "string \<Rightarrow> 'fs \<Rightarrow> 'n option"
  node_holds_object :: "'n \<Rightarrow> bool"
  object_members :: "'n \<Rightarrow> (string \<times> 'n) list"
  get_int_member :: "'n \<Rightarrow> string \<Rightarrow> int"
  get_string_member :: "'n \<Rightarrow> string \<Rightarrow> string option"
  get_array_member :: "'n \<Rightarrow> string \<Rightarrow> 'n list"
  string_element :: "'n \<Rightarrow> string"

section \<open>Reading and writing the parts of a schema\<close>

definition rf_get_name :: "('fs, 'n) json_lib \<Rightarrow> 'n \<Rightarrow> reference \<Rightarrow> reference" where
  "rf_get_name J obj x = (case get_string_member J obj ''name'' of None \<Rightarrow> x | Some value \<Rightarrow> x \<lparr> rf_name := value \<rparr>)"

definition rf_get_db_name :: "('fs, 'n) json_lib \<Rightarrow> 'n \<Rightarrow> reference \<Rightarrow> reference" where
  "rf_get_db_name J obj x = (case get_string_member J obj ''db_name'' of None \<Rightarrow> x | Some value \<Rightarrow> x \<lparr> rf_db_name := value \<rparr>)"

definition rf_get_tbl_name :: "('fs, 'n) json_lib \<Rightarrow> 'n \<Rightarrow> reference \<Rightarrow> reference" where
  "rf_get_tbl_name J obj x = (case get_string_member J obj ''tbl_name'' of None \<Rightarrow> x | Some value \<Rightarrow> x \<lparr> rf_tbl_name := value \<rparr>)"

definition rf_get_fgn_name :: "('fs, 'n) json_lib \<Rightarrow> 'n \<Rightarrow> reference \<Rightarrow> reference" where
  "rf_get_fgn_name J obj x = (case get_string_member J obj ''fgn_name'' of None \<Rightarrow> x | Some value \<Rightarrow> x \<lparr> rf_fgn_name := value \<rparr>)"

definition reference_from_json :: "('fs, 'n) json_lib \<Rightarrow> 'n \<Rightarrow> reference \<Rightarrow> reference" where
  "reference_from_json J node x = (if \<not> node_holds_object J node then x else
     let x = rf_get_name J node x in
     let x = rf_get_db_name J node x in
     let x = rf_get_tbl_name J node x in
     let x = rf_get_fgn_name J node x in
     x)"

definition rf_put_name :: "reference \<Rightarrow> jcall list" where
  "rf_put_name x = [Member ''name'', String_value (c_str (rf_name x))]"

definition rf_put_db_name :: "reference \<Rightarrow> jcall list" where
  "rf_put_db_name x = [Member ''db_name'', String_value (c_str (rf_db_name x))]"

definition rf_put_tbl_name :: "reference \<Rightarrow> jcall list" where
  "rf_put_tbl_name x = [Member ''tbl_name'', String_value (c_str (rf_tbl_name x))]"

definition rf_put_fgn_name :: "reference \<Rightarrow> jcall list" where
  "rf_put_fgn_name x = [Member ''fgn_name'', String_value (c_str (rf_fgn_name x))]"

definition reference_to_json :: "reference \<Rightarrow> jcall list" where
  "reference_to_json x = 
     [Begin_object] @ rf_put_name x @
     rf_put_db_name x @
     rf_put_tbl_name x @
     rf_put_fgn_name x @ [End_object]"

definition co_get_flag :: "('fs, 'n) json_lib \<Rightarrow> 'n \<Rightarrow> column \<Rightarrow> column" where
  "co_get_flag J obj x = x \<lparr> co_flag := cast_i32 (get_int_member J obj ''flag'') \<rparr>"

definition co_get_prec :: "('fs, 'n) json_lib \<Rightarrow> 'n \<Rightarrow> column \<Rightarrow> column" where
  "co_get_prec J obj x = x \<lparr> co_prec := cast_i32 (get_int_member J obj ''prec'') \<rparr>"

definition co_get_size :: "('fs, 'n) json_lib \<Rightarrow> 'n \<Rightarrow> column \<Rightarrow> column" where
  "co_get_size J obj x = x \<lparr> co_size := cast_i32 (get_int_member J obj ''size'') \<rparr>"

definition co_get_type :: "('fs, 'n) json_lib \<Rightarrow> 'n \<Rightarrow> column \<Rightarrow> column" where
  "co_get_type J obj x = x \<lparr> co_type := cast_i32 (get_int_member J obj ''type'') \<rparr>"

definition co_get_max_size :: "('fs, 'n) json_lib \<Rightarrow> 'n \<Rightarrow> column \<Rightarrow> column" where
  "co_get_max_size J obj x = x \<lparr> co_max_size := cast_i32 (get_int_member J obj ''max_size'') \<rparr>"

definition co_get_auto_inc :: "('fs, 'n) json_lib \<Rightarrow> 'n \<Rightarrow> column \<Rightarrow> column" where
  "co_get_auto_inc J obj x = x \<lparr> co_auto_inc := cast_u64 (get_int_member J obj ''auto_inc'') \<rparr>"

definition co_get_name :: "('fs, 'n) json_lib \<Rightarrow> 'n \<Rightarrow> column \<Rightarrow> column" where
  "co_get_name J obj x = (case get_string_member J obj ''name'' of None \<Rightarrow> x | Some value \<Rightarrow> x \<lparr> co_name := value \<rparr>)"

definition co_get_enum :: "('fs, 'n) json_lib \<Rightarrow> 'n \<Rightarrow> column \<Rightarrow> column" where
  "co_get_enum J obj x = x \<lparr> co_enum := co_enum x @ map (string_element J) (get_array_member J obj ''enum'') \<rparr>"

definition co_get_reference_list :: "('fs, 'n) json_lib \<Rightarrow> 'n \<Rightarrow> column \<Rightarrow> column" where
  "co_get_reference_list J obj x = x \<lparr> co_reference_list := co_reference_list x
     @ map (\<lambda>node. reference_from_json J node reference_default) (get_array_member J obj ''ref_by'') \<rparr>"

definition column_from_json :: "('fs, 'n) json_lib \<Rightarrow> 'n \<Rightarrow> column \<Rightarrow> column" where
  "column_from_json J node x = (if \<not> node_holds_object J node then x else
     let x = co_get_flag J node x in
     let x = co_get_type J node x in
     let x = (if co_type x = TYPE_FLOAT then co_get_prec J node x else x) in
     let x = co_get_size J node x in
     let x = co_get_max_size J node x in
     let x = (if co_flag x AND FLAG_AUTO_INC = FLAG_AUTO_INC then co_get_auto_inc J node x else x) in
     let x = co_get_name J node x in
     let x = (if co_type x = TYPE_ENUM then co_get_enum J node x else x) in
     let x = co_get_reference_list J node x in
     x)"

definition co_put_flag :: "column \<Rightarrow> jcall list" where
  "co_put_flag x = [Member ''flag'', Int_value (cast_i64 (co_flag x))]"

definition co_put_prec :: "column \<Rightarrow> jcall list" where
  "co_put_prec x = [Member ''prec'', Int_value (cast_i64 (co_prec x))]"

definition co_put_size :: "column \<Rightarrow> jcall list" where
  "co_put_size x = [Member ''size'', Int_value (cast_i64 (co_size x))]"

definition co_put_type :: "column \<Rightarrow> jcall list" where
  "co_put_type x = [Member ''type'', Int_value (cast_i64 (co_type x))]"

definition co_put_max_size :: "column \<Rightarrow> jcall list" where
  "co_put_max_size x = [Member ''max_size'', Int_value (cast_i64 (co_max_size x))]"

definition co_put_auto_inc :: "column \<Rightarrow> jcall list" where
  "co_put_auto_inc x = [Member ''auto_inc'', Int_value (cast_i64 (co_auto_inc x))]"

definition co_put_name :: "column \<Rightarrow> jcall list" where
  "co_put_name x = [Member ''name'', String_value (c_str (co_name x))]"

definition co_put_enum :: "column \<Rightarrow> jcall list" where
  "co_put_enum x = [Member ''enum'', Begin_array]
     @ map (\<lambda>e. String_value (c_str e)) (co_enum x) @ [End_array]"

definition co_put_reference_list :: "column \<Rightarrow> jcall list" where
  "co_put_reference_list x = [Member ''ref_by'', Begin_array]
     @ concat (map reference_to_json (co_reference_list x)) @ [End_array]"

definition column_to_json :: "column \<Rightarrow> int \<Rightarrow> jcall list" where
  "column_to_json x count = [Member (''column_'' @ pad0 2 count)] @ 
     [Begin_object] @ co_put_flag x @
     co_put_type x @
     (if co_type x = TYPE_FLOAT then co_put_prec x else []) @
     co_put_size x @
     co_put_max_size x @
     (if co_flag x AND FLAG_AUTO_INC = FLAG_AUTO_INC then co_put_auto_inc x else []) @
     co_put_name x @
     (if co_type x = TYPE_ENUM then co_put_enum x else []) @
     co_put_reference_list x @ [End_object]"

definition hd_get_db_name :: "('fs, 'n) json_lib \<Rightarrow> 'n \<Rightarrow> header \<Rightarrow> header" where
  "hd_get_db_name J obj x = (case get_string_member J obj ''db_name'' of None \<Rightarrow> x | Some value \<Rightarrow> x \<lparr> hd_db_name := value \<rparr>)"

definition hd_get_tbl_name :: "('fs, 'n) json_lib \<Rightarrow> 'n \<Rightarrow> header \<Rightarrow> header" where
  "hd_get_tbl_name J obj x = (case get_string_member J obj ''tbl_name'' of None \<Rightarrow> x | Some value \<Rightarrow> x \<lparr> hd_tbl_name := value \<rparr>)"

definition hd_get_flag :: "('fs, 'n) json_lib \<Rightarrow> 'n \<Rightarrow> header \<Rightarrow> header" where
  "hd_get_flag J obj x = x \<lparr> hd_flag := cast_i32 (get_int_member J obj ''flag'') \<rparr>"

definition hd_get_block_size :: "('fs, 'n) json_lib \<Rightarrow> 'n \<Rightarrow> header \<Rightarrow> header" where
  "hd_get_block_size J obj x = x \<lparr> hd_block_size := cast_i32 (get_int_member J obj ''block_size'') \<rparr>"

definition hd_get_index_count :: "('fs, 'n) json_lib \<Rightarrow> 'n \<Rightarrow> header \<Rightarrow> header" where
  "hd_get_index_count J obj x = x \<lparr> hd_index_count := cast_i32 (get_int_member J obj ''index_count'') \<rparr>"

definition hd_get_foreign_count :: "('fs, 'n) json_lib \<Rightarrow> 'n \<Rightarrow> header \<Rightarrow> header" where
  "hd_get_foreign_count J obj x = x \<lparr> hd_foreign_count := cast_i32 (get_int_member J obj ''foreign_count'') \<rparr>"

definition hd_get_column_count :: "('fs, 'n) json_lib \<Rightarrow> 'n \<Rightarrow> header \<Rightarrow> header" where
  "hd_get_column_count J obj x = x \<lparr> hd_column_count := cast_i32 (get_int_member J obj ''column_count'') \<rparr>"

definition hd_get_block_count :: "('fs, 'n) json_lib \<Rightarrow> 'n \<Rightarrow> header \<Rightarrow> header" where
  "hd_get_block_count J obj x = x \<lparr> hd_block_count := cast_i64 (get_int_member J obj ''block_count'') \<rparr>"

definition hd_get_row_count :: "('fs, 'n) json_lib \<Rightarrow> 'n \<Rightarrow> header \<Rightarrow> header" where
  "hd_get_row_count J obj x = x \<lparr> hd_row_count := cast_i64 (get_int_member J obj ''row_count'') \<rparr>"

definition hd_get_generation :: "('fs, 'n) json_lib \<Rightarrow> 'n \<Rightarrow> header \<Rightarrow> header" where
  "hd_get_generation J obj x = x \<lparr> hd_generation := cast_i64 (get_int_member J obj ''generation'') \<rparr>"

definition hd_get_next_offset :: "('fs, 'n) json_lib \<Rightarrow> 'n \<Rightarrow> header \<Rightarrow> header" where
  "hd_get_next_offset J obj x = x \<lparr> hd_next_offset := cast_i64 (get_int_member J obj ''next_offset'') \<rparr>"

definition hd_get_data_offset :: "('fs, 'n) json_lib \<Rightarrow> 'n \<Rightarrow> header \<Rightarrow> header" where
  "hd_get_data_offset J obj x = x \<lparr> hd_data_offset := cast_i64 (get_int_member J obj ''data_offset'') \<rparr>"

definition hd_get_data_root :: "('fs, 'n) json_lib \<Rightarrow> 'n \<Rightarrow> header \<Rightarrow> header" where
  "hd_get_data_root J obj x = x \<lparr> hd_data_root := cast_i64 (get_int_member J obj ''data_root'') \<rparr>"

definition hd_get_free_head :: "('fs, 'n) json_lib \<Rightarrow> 'n \<Rightarrow> header \<Rightarrow> header" where
  "hd_get_free_head J obj x = x \<lparr> hd_free_head := cast_i64 (get_int_member J obj ''free_head'') \<rparr>"

definition hd_get_free_tail :: "('fs, 'n) json_lib \<Rightarrow> 'n \<Rightarrow> header \<Rightarrow> header" where
  "hd_get_free_tail J obj x = x \<lparr> hd_free_tail := cast_i64 (get_int_member J obj ''free_tail'') \<rparr>"

definition header_from_json :: "('fs, 'n) json_lib \<Rightarrow> 'n \<Rightarrow> header \<Rightarrow> header" where
  "header_from_json J node x = (if \<not> node_holds_object J node then x else
     let x = hd_get_db_name J node x in
     let x = hd_get_tbl_name J node x in
     let x = hd_get_flag J node x in
     let x = hd_get_block_size J node x in
     let x = hd_get_index_count J node x in
     let x = hd_get_foreign_count J node x in
     let x = hd_get_column_count J node x in
     let x = hd_get_block_count J node x in
     let x = hd_get_row_count J node x in
     let x = hd_get_generation J node x in
     let x = hd_get_next_offset J node x in
     let x = hd_get_data_offset J node x in
     let x = hd_get_data_root J node x in
     let x = hd_get_free_head J node x in
     let x = hd_get_free_tail J node x in
     x)"

definition hd_put_db_name :: "header \<Rightarrow> jcall list" where
  "hd_put_db_name x = [Member ''db_name'', String_value (c_str (hd_db_name x))]"

definition hd_put_tbl_name :: "header \<Rightarrow> jcall list" where
  "hd_put_tbl_name x = [Member ''tbl_name'', String_value (c_str (hd_tbl_name x))]"

definition hd_put_flag :: "header \<Rightarrow> jcall list" where
  "hd_put_flag x = [Member ''flag'', Int_value (cast_i64 (hd_flag x))]"

definition hd_put_block_size :: "header \<Rightarrow> jcall list" where
  "hd_put_block_size x = [Member ''block_size'', Int_value (cast_i64 (hd_block_size x))]"

definition hd_put_index_count :: "header \<Rightarrow> jcall list" where
  "hd_put_index_count x = [Member ''index_count'', Int_value (cast_i64 (hd_index_count x))]"

definition hd_put_foreign_count :: "header \<Rightarrow> jcall list" where
  "hd_put_foreign_count x = [Member ''foreign_count'', Int_value (cast_i64 (hd_foreign_count x))]"

definition hd_put_column_count :: "header \<Rightarrow> jcall list" where
  "hd_put_column_count x = [Member ''column_count'', Int_value (cast_i64 (hd_column_count x))]"

definition hd_put_block_count :: "header \<Rightarrow> jcall list" where
  "hd_put_block_count x = [Member ''block_count'', Int_value (cast_i64 (hd_block_count x))]"

definition hd_put_row_count :: "header \<Rightarrow> jcall list" where
  "hd_put_row_count x = [Member ''row_count'', Int_value (cast_i64 (hd_row_count x))]"

definition hd_put_generation :: "header \<Rightarrow> jcall list" where
  "hd_put_generation x = [Member ''generation'', Int_value (cast_i64 (hd_generation x))]"

definition hd_put_next_offset :: "header \<Rightarrow> jcall list" where
  "hd_put_next_offset x = [Member ''next_offset'', Int_value (cast_i64 (hd_next_offset x))]"

definition hd_put_data_offset :: "header \<Rightarrow> jcall list" where
  "hd_put_data_offset x = [Member ''data_offset'', Int_value (cast_i64 (hd_data_offset x))]"

definition hd_put_data_root :: "header \<Rightarrow> jcall list" where
  "hd_put_data_root x = [Member ''data_root'', Int_value (cast_i64 (hd_data_root x))]"

definition hd_put_free_head :: "header \<Rightarrow> jcall list" where
  "hd_put_free_head x = [Member ''free_head'', Int_value (cast_i64 (hd_free_head x))]"

definition hd_put_free_tail :: "header \<Rightarrow> jcall list" where
  "hd_put_free_tail x = [Member ''free_tail'', Int_value (cast_i64 (hd_free_tail x))]"

definition header_to_json :: "header \<Rightarrow> jcall list" where
  "header_to_json x = [Member ''header''] @ 
     [Begin_object] @ hd_put_db_name x @
     hd_put_tbl_name x @
     hd_put_flag x @
     hd_put_block_size x @
     hd_put_index_count x @
     hd_put_foreign_count x @
     hd_put_column_count x @
     hd_put_block_count x @
     hd_put_row_count x @
     hd_put_generation x @
     hd_put_next_offset x @
     hd_put_data_offset x @
     hd_put_data_root x @
     hd_put_free_head x @
     hd_put_free_tail x @ [End_object]"

definition ix_get_flag :: "('fs, 'n) json_lib \<Rightarrow> 'n \<Rightarrow> index \<Rightarrow> index" where
  "ix_get_flag J obj x = x \<lparr> ix_flag := cast_i32 (get_int_member J obj ''flag'') \<rparr>"

definition ix_get_order :: "('fs, 'n) json_lib \<Rightarrow> 'n \<Rightarrow> index \<Rightarrow> index" where
  "ix_get_order J obj x = x \<lparr> ix_order := cast_i32 (get_int_member J obj ''order'') \<rparr>"

definition ix_get_key_size :: "('fs, 'n) json_lib \<Rightarrow> 'n \<Rightarrow> index \<Rightarrow> index" where
  "ix_get_key_size J obj x = x \<lparr> ix_key_size := cast_i32 (get_int_member J obj ''key_size'') \<rparr>"

definition ix_get_block_count :: "('fs, 'n) json_lib \<Rightarrow> 'n \<Rightarrow> index \<Rightarrow> index" where
  "ix_get_block_count J obj x = x \<lparr> ix_block_count := cast_i64 (get_int_member J obj ''block_count'') \<rparr>"

definition ix_get_generation :: "('fs, 'n) json_lib \<Rightarrow> 'n \<Rightarrow> index \<Rightarrow> index" where
  "ix_get_generation J obj x = x \<lparr> ix_generation := cast_i64 (get_int_member J obj ''generation'') \<rparr>"

definition ix_get_root :: "('fs, 'n) json_lib \<Rightarrow> 'n \<Rightarrow> index \<Rightarrow> index" where
  "ix_get_root J obj x = x \<lparr> ix_root := cast_i64 (get_int_member J obj ''root'') \<rparr>"

definition ix_get_name :: "('fs, 'n) json_lib \<Rightarrow> 'n \<Rightarrow> index \<Rightarrow> index" where
  "ix_get_name J obj x = (case get_string_member J obj ''name'' of None \<Rightarrow> x | Some value \<Rightarrow> x \<lparr> ix_name := value \<rparr>)"

definition ix_get_col_name_list :: "('fs, 'n) json_lib \<Rightarrow> 'n \<Rightarrow> index \<Rightarrow> index" where
  "ix_get_col_name_list J obj x = x \<lparr> ix_col_name_list := ix_col_name_list x @ map (string_element J) (get_array_member J obj ''col_name_list'') \<rparr>"

definition index_from_json :: "('fs, 'n) json_lib \<Rightarrow> 'n \<Rightarrow> index \<Rightarrow> index" where
  "index_from_json J node x = (if \<not> node_holds_object J node then x else
     let x = ix_get_flag J node x in
     let x = ix_get_order J node x in
     let x = ix_get_key_size J node x in
     let x = ix_get_block_count J node x in
     let x = ix_get_block_count J node x in
     let x = ix_get_generation J node x in
     let x = ix_get_root J node x in
     let x = ix_get_name J node x in
     let x = ix_get_col_name_list J node x in
     x)"

definition ix_put_flag :: "index \<Rightarrow> jcall list" where
  "ix_put_flag x = [Member ''flag'', Int_value (cast_i64 (ix_flag x))]"

definition ix_put_order :: "index \<Rightarrow> jcall list" where
  "ix_put_order x = [Member ''order'', Int_value (cast_i64 (ix_order x))]"

definition ix_put_key_size :: "index \<Rightarrow> jcall list" where
  "ix_put_key_size x = [Member ''key_size'', Int_value (cast_i64 (ix_key_size x))]"

definition ix_put_block_count :: "index \<Rightarrow> jcall list" where
  "ix_put_block_count x = [Member ''block_count'', Int_value (cast_i64 (ix_block_count x))]"

definition ix_put_generation :: "index \<Rightarrow> jcall list" where
  "ix_put_generation x = [Member ''generation'', Int_value (cast_i64 (ix_generation x))]"

definition ix_put_root :: "index \<Rightarrow> jcall list" where
  "ix_put_root x = [Member ''root'', Int_value (cast_i64 (ix_root x))]"

definition ix_put_name :: "index \<Rightarrow> jcall list" where
  "ix_put_name x = [Member ''name'', String_value (c_str (ix_name x))]"

definition ix_put_col_name_list :: "index \<Rightarrow> jcall list" where
  "ix_put_col_name_list x = [Member ''col_name_list'', Begin_array]
     @ map (\<lambda>e. String_value (c_str e)) (ix_col_name_list x) @ [End_array]"

definition index_to_json :: "index \<Rightarrow> jcall list" where
  "index_to_json x = [Member (c_str (ix_name x))] @ 
     [Begin_object] @ ix_put_flag x @
     ix_put_order x @
     ix_put_key_size x @
     ix_put_block_count x @
     ix_put_generation x @
     ix_put_root x @
     ix_put_name x @
     ix_put_col_name_list x @ [End_object]"

definition fg_get_name :: "('fs, 'n) json_lib \<Rightarrow> 'n \<Rightarrow> foreign \<Rightarrow> foreign" where
  "fg_get_name J obj x = (case get_string_member J obj ''name'' of None \<Rightarrow> x | Some value \<Rightarrow> x \<lparr> fg_name := value \<rparr>)"

definition fg_get_db_name :: "('fs, 'n) json_lib \<Rightarrow> 'n \<Rightarrow> foreign \<Rightarrow> foreign" where
  "fg_get_db_name J obj x = (case get_string_member J obj ''db_name'' of None \<Rightarrow> x | Some value \<Rightarrow> x \<lparr> fg_db_name := value \<rparr>)"

definition fg_get_tbl_name :: "('fs, 'n) json_lib \<Rightarrow> 'n \<Rightarrow> foreign \<Rightarrow> foreign" where
  "fg_get_tbl_name J obj x = (case get_string_member J obj ''tbl_name'' of None \<Rightarrow> x | Some value \<Rightarrow> x \<lparr> fg_tbl_name := value \<rparr>)"

definition fg_get_col_name_list :: "('fs, 'n) json_lib \<Rightarrow> 'n \<Rightarrow> foreign \<Rightarrow> foreign" where
  "fg_get_col_name_list J obj x = x \<lparr> fg_col_name_list := fg_col_name_list x @ map (string_element J) (get_array_member J obj ''col_name_list'') \<rparr>"

definition foreign_from_json :: "('fs, 'n) json_lib \<Rightarrow> 'n \<Rightarrow> foreign \<Rightarrow> foreign" where
  "foreign_from_json J node x = (if \<not> node_holds_object J node then x else
     let x = fg_get_name J node x in
     let x = fg_get_db_name J node x in
     let x = fg_get_tbl_name J node x in
     let x = fg_get_col_name_list J node x in
     x)"

definition fg_put_name :: "foreign \<Rightarrow> jcall list" where
  "fg_put_name x = [Member ''name'', String_value (c_str (fg_name x))]"

definition fg_put_db_name :: "foreign \<Rightarrow> jcall list" where
  "fg_put_db_name x = [Member ''db_name'', String_value (c_str (fg_db_name x))]"

definition fg_put_tbl_name :: "foreign \<Rightarrow> jcall list" where
  "fg_put_tbl_name x = [Member ''tbl_name'', String_value (c_str (fg_tbl_name x))]"

definition fg_put_col_name_list :: "foreign \<Rightarrow> jcall list" where
  "fg_put_col_name_list x = [Member ''col_name_list'', Begin_array]
     @ map (\<lambda>e. String_value (c_str e)) (fg_col_name_list x) @ [End_array]"

definition foreign_to_json :: "foreign \<Rightarrow> jcall list" where
  "foreign_to_json x = [Member (c_str (fg_name x))] @ 
     [Begin_object] @ fg_put_name x @
     fg_put_db_name x @
     fg_put_tbl_name x @
     fg_put_col_name_list x @ [End_object]"

section \<open>The schema manager\<close>

text \<open>
  \<open>m_schema\<close> is an ordered map of shared pointers, some of them null; the file system is
  part of the state. A schema is a value: its sharing with the other parts is not
  expressed.
\<close>

record 'fs manager =
  mg_path :: string
  mg_schema :: "(string \<times> schema option) list"
  mg_fs :: 'fs

type_synonym ('fs, 'a) mgrm = "(error, 'fs manager, 'a) exn"

fun map_put :: "string \<Rightarrow> 'a \<Rightarrow> (string \<times> 'a) list \<Rightarrow> (string \<times> 'a) list" where
  "map_put k v [] = [(k, v)]"
| "map_put k v ((k', v') # m) =
     (if k = k' then (k, v) # m
      else if str_compare k k' < 0 then (k, v) # (k', v') # m
      else (k', v') # map_put k v m)"

fun put_columns :: "column list \<Rightarrow> int \<Rightarrow> jcall list" where
  "put_columns [] count = []"
| "put_columns (col # cols) count = column_to_json col count @ put_columns cols (count + 1)"

definition schema_to_json :: "schema \<Rightarrow> jcall list" where
  "schema_to_json sch = [Begin_object] @ header_to_json (sc_header sch)
     @ put_columns (sc_column sch) 0
     @ concat (map index_to_json (sc_index sch))
     @ concat (map foreign_to_json (sc_foreign sch))
     @ [End_object]"

definition schema_path :: "string \<Rightarrow> string \<Rightarrow> string" where
  "schema_path path nm = path @ ''/'' @ nm @ ''.json''"

definition save_schema :: "('fs, 'n) json_lib \<Rightarrow> schema \<Rightarrow> ('fs, unit) mgrm" where
  "save_schema J sch = (\<lambda>m.
     case generator_to_file J (schema_to_json sch) (c_str (schema_path (mg_path m) (schema_name sch))) (mg_fs m) of
       (ok, fs) \<Rightarrow> (if ok then Inr () else Inl (Runtime ERRNO_SAVE_SCH_ERROR), m \<lparr> mg_fs := fs \<rparr>))"

definition save_schema_named :: "('fs, 'n) json_lib \<Rightarrow> string \<Rightarrow> ('fs, unit) mgrm" where
  "save_schema_named J sch_name =
     sq (modify (\<lambda>m. case map_of (mg_schema m) sch_name of
           None \<Rightarrow> m \<lparr> mg_schema := map_put sch_name None (mg_schema m) \<rparr> | Some _ \<Rightarrow> m))
        (\<lambda>m. case map_of (mg_schema m) sch_name of
           Some (Some sch) \<Rightarrow> save_schema J sch m | _ \<Rightarrow> (Inr (), m))"

fun save_all :: "('fs, 'n) json_lib \<Rightarrow> string list \<Rightarrow> ('fs, unit) mgrm" where
  "save_all J [] = ret ()"
| "save_all J (nm # nms) = sq (save_schema_named J nm) (save_all J nms)"

definition manager_destroy :: "('fs, 'n) json_lib \<Rightarrow> ('fs, unit) mgrm" where
  "manager_destroy J = bnd (gets (\<lambda>m. map fst (mg_schema m))) (save_all J)"

definition manager_assign :: "'fs manager \<Rightarrow> 'fs manager \<Rightarrow> 'fs manager" where
  "manager_assign other this = this \<lparr> mg_path := mg_path other,
     mg_schema := fold (\<lambda>p. map_put (fst p) (snd p)) (mg_schema other) (mg_schema this) \<rparr>"

text \<open>
  \<open>load_schema\<close> sorts what it reads by the member names. Member names of an
  object are distinct, so the order of \<open>std::sort\<close> is determined.
\<close>

type_synonym parts =
  "header \<times> (string \<times> column) list \<times> (string \<times> index) list \<times> (string \<times> foreign) list"

definition load_member :: "('fs, 'n) json_lib \<Rightarrow> index \<Rightarrow> parts \<Rightarrow> string \<times> 'n \<Rightarrow> parts" where
  "load_member J mem = (\<lambda>(hdr, cols, ndxs, fgns) (nm, node).
     if nm = ''header'' then (header_from_json J node hdr, cols, ndxs, fgns)
     else if take 6 nm = ''column'' then
       (hdr, cols @ [(nm, column_from_json J node column_default)], ndxs, fgns)
     else if take 4 nm = ''NDX_'' then
       (hdr, cols, ndxs @ [(nm, index_from_json J node (index_default mem))], fgns)
     else if take 4 nm = ''FGN_'' then
       (hdr, cols, ndxs, fgns @ [(nm, foreign_from_json J node foreign_default)])
     else (hdr, cols, ndxs, fgns))"

fun insert_named :: "string \<times> 'a \<Rightarrow> (string \<times> 'a) list \<Rightarrow> (string \<times> 'a) list" where
  "insert_named p [] = [p]"
| "insert_named p (q # qs) =
     (if str_compare (fst q) (fst p) < 0 then q # insert_named p qs else p # q # qs)"

definition sort_named :: "(string \<times> 'a) list \<Rightarrow> (string \<times> 'a) list" where
  "sort_named ps = foldr insert_named ps []"

definition load_schema ::
  "('fs, 'n) json_lib \<Rightarrow> header \<Rightarrow> index \<Rightarrow> string \<Rightarrow> ('fs, schema option) mgrm" where
  "load_schema J mem_hdr mem_ndx sch_name = (\<lambda>m.
     let path = c_str (schema_path (mg_path m) sch_name) in
     if \<not> stat_ok J path (mg_fs m) then (Inr None, m)
     else (case parser_load J path (mg_fs m) of
       None \<Rightarrow> (Inl (Runtime ERRNO_LOAD_SCH_ERROR), m)
     | Some root \<Rightarrow>
        (case foldl (load_member J mem_ndx) (header_default mem_hdr, [], [], [])
                (if node_holds_object J root then object_members J root else []) of
         (hdr, cols, ndxs, fgns) \<Rightarrow>
          (let sch = \<lparr> sc_header = hdr, sc_column = map snd (sort_named cols),
                       sc_index = map snd (sort_named ndxs), sc_foreign = map snd (sort_named fgns) \<rparr>
           in (Inr (Some sch), m \<lparr> mg_schema := map_put sch_name (Some sch) (mg_schema m) \<rparr>)))))"

definition get_schema ::
  "('fs, 'n) json_lib \<Rightarrow> header \<Rightarrow> index \<Rightarrow> string \<Rightarrow> ('fs, schema option) mgrm" where
  "get_schema J mem_hdr mem_ndx nm = (\<lambda>m. case map_of (mg_schema m) nm of
     Some p \<Rightarrow> (Inr p, m) | None \<Rightarrow> load_schema J mem_hdr mem_ndx nm m)"

definition add_schema :: "string \<Rightarrow> schema \<Rightarrow> ('fs, unit) mgrm" where
  "add_schema nm sch = modify (\<lambda>m. m \<lparr> mg_schema := map_put nm (Some sch) (mg_schema m) \<rparr>)"

definition drop_schema :: "string \<Rightarrow> ('fs, unit) mgrm" where
  "drop_schema nm = modify (\<lambda>m. m \<lparr> mg_schema := filter (\<lambda>p. fst p \<noteq> nm) (mg_schema m) \<rparr>)"

end
