(* ===== verification/SchemaJson.thy ===== *)
theory SchemaJson
  imports Schema "HOL-Library.Multiset"
begin

text \<open>
  Saving a schema and loading it again. The assumptions about the JSON library
  are collected in \<open>json_laws\<close>: a document that was written with the builder
  calls of its structure is read back with the members and values it has, the
  members of an object in any order. Under them, loading gives back the schema
  that was saved when its indexes and foreign keys are in the order of their
  names, and its columns in the order of their member names, which is the
  order of their numbers for at most a hundred columns.
\<close>

section \<open>Documents\<close>

datatype jdoc = JInt int | JStr string | JArr "jdoc list" | JObj "(string \<times> jdoc) list"

fun calls_of :: "jdoc \<Rightarrow> jcall list" where
  "calls_of (JInt i) = [Int_value i]"
| "calls_of (JStr s) = [String_value s]"
| "calls_of (JArr ds) = [Begin_array] @ concat (map calls_of ds) @ [End_array]"
| "calls_of (JObj ms) = [Begin_object] @ concat (map (\<lambda>(k, d). Member k # calls_of d) ms) @ [End_object]"

text \<open>A string the library can store: ASCII without the null character.\<close>

definition plain :: "string \<Rightarrow> bool" where
  "plain s \<longleftrightarrow> list_all (\<lambda>c. c \<noteq> CHR 0x00 \<and> (of_char c :: nat) < 128) s"

fun wf_doc :: "jdoc \<Rightarrow> bool" where
  "wf_doc (JInt i) \<longleftrightarrow> - (2 ^ 63) \<le> i \<and> i < 2 ^ 63"
| "wf_doc (JStr s) \<longleftrightarrow> plain s"
| "wf_doc (JArr ds) \<longleftrightarrow> list_all wf_doc ds"
| "wf_doc (JObj ms) \<longleftrightarrow> distinct (map fst ms) \<and> list_all (\<lambda>(k, d). plain k \<and> wf_doc d) ms"

text \<open>The node \<open>n\<close> reads as the document.\<close>

inductive reads :: "('fs, 'n) json_lib \<Rightarrow> 'n \<Rightarrow> jdoc \<Rightarrow> bool" for J where
  str: "string_element J n = s \<Longrightarrow> reads J n (JStr s)"
| int: "reads J n (JInt i)"
| arr: "reads J n (JArr ds)"
| obj: "node_holds_object J n
    \<Longrightarrow> (\<And>k i. map_of ms k = Some (JInt i) \<Longrightarrow> get_int_member J n k = i)
    \<Longrightarrow> (\<And>k s. map_of ms k = Some (JStr s) \<Longrightarrow> get_string_member J n k = Some s)
    \<Longrightarrow> (\<And>k ds. map_of ms k = Some (JArr ds) \<Longrightarrow> list_all2 (reads J) (get_array_member J n k) ds)
    \<Longrightarrow> mset (object_members J n) = mset ns
    \<Longrightarrow> map fst ns = map fst ms \<Longrightarrow> list_all2 (reads J) (map snd ns) (map snd ms)
    \<Longrightarrow> reads J n (JObj ms)"

inductive_cases reads_strE: "reads J n (JStr s)"
inductive_cases reads_objE: "reads J n (JObj ms)"

definition json_laws :: "('fs, 'n) json_lib \<Rightarrow> bool" where
  "json_laws J \<longleftrightarrow> (\<forall>d path fs fs'. wf_doc d \<longrightarrow> generator_to_file J (calls_of d) path fs = (True, fs')
     \<longrightarrow> stat_ok J path fs' \<and> (\<exists>n. parser_load J path fs' = Some n \<and> reads J n d))"

section \<open>The documents of a schema\<close>

definition reference_doc :: "reference \<Rightarrow> jdoc" where
  "reference_doc x = JObj [(''name'', JStr (rf_name x)), (''db_name'', JStr (rf_db_name x)),
     (''tbl_name'', JStr (rf_tbl_name x)), (''fgn_name'', JStr (rf_fgn_name x))]"

definition column_doc :: "column \<Rightarrow> jdoc" where
  "column_doc x = JObj ([(''flag'', JInt (co_flag x)), (''type'', JInt (co_type x))]
     @ (if co_type x = TYPE_FLOAT then [(''prec'', JInt (co_prec x))] else [])
     @ [(''size'', JInt (co_size x)), (''max_size'', JInt (co_max_size x))]
     @ (if co_flag x AND FLAG_AUTO_INC = FLAG_AUTO_INC then [(''auto_inc'', JInt (cast_i64 (co_auto_inc x)))] else [])
     @ [(''name'', JStr (co_name x))]
     @ (if co_type x = TYPE_ENUM then [(''enum'', JArr (map JStr (co_enum x)))] else [])
     @ [(''ref_by'', JArr (map reference_doc (co_reference_list x)))])"

definition header_doc :: "header \<Rightarrow> jdoc" where
  "header_doc x = JObj [(''db_name'', JStr (hd_db_name x)), (''tbl_name'', JStr (hd_tbl_name x)),
     (''flag'', JInt (hd_flag x)), (''block_size'', JInt (hd_block_size x)),
     (''index_count'', JInt (hd_index_count x)), (''foreign_count'', JInt (hd_foreign_count x)),
     (''column_count'', JInt (hd_column_count x)), (''block_count'', JInt (hd_block_count x)),
     (''row_count'', JInt (hd_row_count x)), (''generation'', JInt (hd_generation x)),
     (''next_offset'', JInt (hd_next_offset x)), (''data_offset'', JInt (hd_data_offset x)),
     (''data_root'', JInt (hd_data_root x)), (''free_head'', JInt (hd_free_head x)),
     (''free_tail'', JInt (hd_free_tail x))]"

definition index_doc :: "index \<Rightarrow> jdoc" where
  "index_doc x = JObj [(''flag'', JInt (ix_flag x)), (''order'', JInt (ix_order x)),
     (''key_size'', JInt (ix_key_size x)), (''block_count'', JInt (ix_block_count x)),
     (''generation'', JInt (ix_generation x)), (''root'', JInt (ix_root x)),
     (''name'', JStr (ix_name x)), (''col_name_list'', JArr (map JStr (ix_col_name_list x)))]"

definition foreign_doc :: "foreign \<Rightarrow> jdoc" where
  "foreign_doc x = JObj [(''name'', JStr (fg_name x)), (''db_name'', JStr (fg_db_name x)),
     (''tbl_name'', JStr (fg_tbl_name x)), (''col_name_list'', JArr (map JStr (fg_col_name_list x)))]"

definition column_key :: "int \<Rightarrow> string" where
  "column_key i = ''column_'' @ pad0 2 i"

fun column_members :: "column list \<Rightarrow> int \<Rightarrow> (string \<times> column) list" where
  "column_members [] i = []"
| "column_members (col # cols) i = (column_key i, col) # column_members cols (i + 1)"

abbreviation named_index :: "index \<Rightarrow> string \<times> index" where "named_index x \<equiv> (ix_name x, x)"
abbreviation named_foreign :: "foreign \<Rightarrow> string \<times> foreign" where "named_foreign x \<equiv> (fg_name x, x)"

definition schema_doc :: "schema \<Rightarrow> jdoc" where
  "schema_doc s = JObj ([(''header'', header_doc (sc_header s))]
     @ map (apsnd column_doc) (column_members (sc_column s) 0)
     @ map (apsnd index_doc) (map named_index (sc_index s))
     @ map (apsnd foreign_doc) (map named_foreign (sc_foreign s)))"

section \<open>Well-formed schemas\<close>

definition in32 :: "int \<Rightarrow> bool" where "in32 v \<longleftrightarrow> - (2 ^ 31) \<le> v \<and> v < 2 ^ 31"
definition in64 :: "int \<Rightarrow> bool" where "in64 v \<longleftrightarrow> - (2 ^ 63) \<le> v \<and> v < 2 ^ 63"

definition reference_ok :: "reference \<Rightarrow> bool" where
  "reference_ok x \<longleftrightarrow> plain (rf_name x) \<and> plain (rf_db_name x) \<and> plain (rf_tbl_name x) \<and> plain (rf_fgn_name x)"

definition column_ok :: "column \<Rightarrow> bool" where
  "column_ok x \<longleftrightarrow> in32 (co_flag x) \<and> in32 (co_prec x) \<and> in32 (co_size x) \<and> in32 (co_type x)
     \<and> in32 (co_max_size x) \<and> 0 \<le> co_auto_inc x \<and> co_auto_inc x < 2 ^ 64 \<and> plain (co_name x)
     \<and> list_all plain (co_enum x) \<and> list_all reference_ok (co_reference_list x)
     \<and> (co_type x \<noteq> TYPE_FLOAT \<longrightarrow> co_prec x = 0)
     \<and> (co_flag x AND FLAG_AUTO_INC \<noteq> FLAG_AUTO_INC \<longrightarrow> co_auto_inc x = 0)
     \<and> (co_type x \<noteq> TYPE_ENUM \<longrightarrow> co_enum x = [])"

definition header_ok :: "header \<Rightarrow> bool" where
  "header_ok x \<longleftrightarrow> plain (hd_db_name x) \<and> plain (hd_tbl_name x)
     \<and> list_all in32 [hd_flag x, hd_block_size x, hd_index_count x, hd_foreign_count x, hd_column_count x]
     \<and> list_all in64 [hd_block_count x, hd_row_count x, hd_generation x, hd_next_offset x, hd_data_offset x,
         hd_data_root x, hd_free_head x, hd_free_tail x]"

definition index_ok :: "index \<Rightarrow> bool" where
  "index_ok x \<longleftrightarrow> list_all in32 [ix_flag x, ix_order x, ix_key_size x]
     \<and> list_all in64 [ix_block_count x, ix_generation x, ix_root x]
     \<and> plain (ix_name x) \<and> list_all plain (ix_col_name_list x) \<and> take 4 (ix_name x) = NDX_PREFIX"

definition foreign_ok :: "foreign \<Rightarrow> bool" where
  "foreign_ok x \<longleftrightarrow> plain (fg_name x) \<and> plain (fg_db_name x) \<and> plain (fg_tbl_name x)
     \<and> list_all plain (fg_col_name_list x) \<and> take 4 (fg_name x) = FGN_PREFIX"

abbreviation name_less :: "string \<Rightarrow> string \<Rightarrow> bool" where
  "name_less s t \<equiv> str_compare s t < 0"

definition schema_ok :: "schema \<Rightarrow> bool" where
  "schema_ok s \<longleftrightarrow> header_ok (sc_header s) \<and> list_all column_ok (sc_column s)
     \<and> list_all index_ok (sc_index s) \<and> sorted_wrt name_less (map ix_name (sc_index s))
     \<and> list_all foreign_ok (sc_foreign s) \<and> sorted_wrt name_less (map fg_name (sc_foreign s))"

section \<open>The builder calls are those of the document\<close>

lemma cast_in [simp]: "in32 v \<Longrightarrow> cast_i32 v = v" "in64 v \<Longrightarrow> cast_i64 v = v" "in32 v \<Longrightarrow> cast_i64 v = v"
  by (auto simp: cast_i32_def cast_i64_def in32_def in64_def sint_sbintrunc' signed_take_bit_int_eq_self)

lemma cast_u64_i64: "0 \<le> v \<Longrightarrow> v < 2 ^ 64 \<Longrightarrow> cast_u64 (cast_i64 v) = v"
  by (simp add: cast_u64_def cast_i64_def uint_word_of_int_eq take_bit_int_eq_self)

lemma in64_cast [simp]: "in64 (cast_i64 v)"
  using sint_range_size [of "word_of_int v :: 64 word"]
  by (simp add: in64_def cast_i64_def word_size)

lemma in32_in64: "in32 v \<Longrightarrow> in64 v"
  by (simp add: in32_def in64_def)

lemma plain_c_str [simp]: "plain s \<Longrightarrow> c_str s = s"
  by (simp add: plain_def c_str_def takeWhile_eq_all_conv list_all_iff)

lemmas json_get_defs = rf_get_name_def rf_get_db_name_def rf_get_tbl_name_def rf_get_fgn_name_def
  co_get_flag_def co_get_prec_def co_get_size_def co_get_type_def co_get_max_size_def co_get_auto_inc_def
  co_get_name_def co_get_enum_def co_get_reference_list_def
  hd_get_db_name_def hd_get_tbl_name_def hd_get_flag_def hd_get_block_size_def hd_get_index_count_def
  hd_get_foreign_count_def hd_get_column_count_def hd_get_block_count_def hd_get_row_count_def
  hd_get_generation_def hd_get_next_offset_def hd_get_data_offset_def hd_get_data_root_def
  hd_get_free_head_def hd_get_free_tail_def
  ix_get_flag_def ix_get_order_def ix_get_key_size_def ix_get_block_count_def ix_get_generation_def
  ix_get_root_def ix_get_name_def ix_get_col_name_list_def
  fg_get_name_def fg_get_db_name_def fg_get_tbl_name_def fg_get_col_name_list_def

lemmas json_put_defs = rf_put_name_def rf_put_db_name_def rf_put_tbl_name_def rf_put_fgn_name_def
  co_put_flag_def co_put_prec_def co_put_size_def co_put_type_def co_put_max_size_def co_put_auto_inc_def
  co_put_name_def co_put_enum_def co_put_reference_list_def
  hd_put_db_name_def hd_put_tbl_name_def hd_put_flag_def hd_put_block_size_def hd_put_index_count_def
  hd_put_foreign_count_def hd_put_column_count_def hd_put_block_count_def hd_put_row_count_def
  hd_put_generation_def hd_put_next_offset_def hd_put_data_offset_def hd_put_data_root_def
  hd_put_free_head_def hd_put_free_tail_def
  ix_put_flag_def ix_put_order_def ix_put_key_size_def ix_put_block_count_def ix_put_generation_def
  ix_put_root_def ix_put_name_def ix_put_col_name_list_def
  fg_put_name_def fg_put_db_name_def fg_put_tbl_name_def fg_put_col_name_list_def

lemma concat_map_cong: "list_all P xs \<Longrightarrow> (\<And>x. P x \<Longrightarrow> f x = g x) \<Longrightarrow> concat (map f xs) = concat (map g xs)"
  by (induction xs) auto

lemma string_values: "list_all plain xs \<Longrightarrow> concat (map (\<lambda>x. [String_value x]) xs) = map (\<lambda>e. String_value (c_str e)) xs"
  by (induction xs) auto

lemma reference_calls: "reference_ok x \<Longrightarrow> calls_of (reference_doc x) = reference_to_json x"
  by (simp add: reference_ok_def reference_doc_def reference_to_json_def json_put_defs)

lemma column_calls: "column_ok x \<Longrightarrow> Member (column_key n) # calls_of (column_doc x) = column_to_json x n"
  using concat_map_cong [OF _ reference_calls, of reference_ok "co_reference_list x"]
  by (simp add: column_ok_def column_doc_def column_to_json_def json_put_defs string_values column_key_def o_def list_all_iff)

lemma header_calls: "header_ok x \<Longrightarrow> Member ''header'' # calls_of (header_doc x) = header_to_json x"
  by (simp add: header_ok_def header_doc_def header_to_json_def json_put_defs)

lemma index_calls: "index_ok x \<Longrightarrow> Member (ix_name x) # calls_of (index_doc x) = index_to_json x"
  by (simp add: index_ok_def index_doc_def index_to_json_def json_put_defs string_values o_def list_all_iff)

lemma foreign_calls: "foreign_ok x \<Longrightarrow> Member (fg_name x) # calls_of (foreign_doc x) = foreign_to_json x"
  by (simp add: foreign_ok_def foreign_doc_def foreign_to_json_def json_put_defs string_values o_def list_all_iff)

lemma columns_calls:
  "list_all column_ok cols \<Longrightarrow>
    concat (map (\<lambda>(k, d). Member k # calls_of d) (map (apsnd column_doc) (column_members cols n)))
    = put_columns cols n"
  by (induction cols arbitrary: n) (simp_all add: column_calls)

lemma schema_calls: "schema_ok s \<Longrightarrow> calls_of (schema_doc s) = schema_to_json s"
  using columns_calls [of "sc_column s" 0] header_calls [of "sc_header s"]
    concat_map_cong [OF _ index_calls, of index_ok "sc_index s"]
    concat_map_cong [OF _ foreign_calls, of foreign_ok "sc_foreign s"]
  by (simp add: schema_ok_def schema_doc_def schema_to_json_def o_def)

section \<open>Reading a part back\<close>

lemma list_all2_strings:
  "list_all2 (reads J) ns (map JStr xs) \<Longrightarrow> map (string_element J) ns = xs"
  by (induction ns "map JStr xs" arbitrary: xs rule: list_all2_induct) (auto elim: reads_strE)

lemma reference_reads:
  "reads J n (reference_doc x) \<Longrightarrow> reference_from_json J n y = x"
  unfolding reference_doc_def
  by (erule reads_objE) (simp add: reference_from_json_def json_get_defs Let_def)

lemma list_all2_references:
  "list_all2 (reads J) ns (map reference_doc xs) \<Longrightarrow> map (\<lambda>n. reference_from_json J n y) ns = xs"
  by (induction ns "map reference_doc xs" arbitrary: xs rule: list_all2_induct) (auto dest: reference_reads)

lemma header_reads: "reads J n (header_doc x) \<Longrightarrow> header_ok x \<Longrightarrow> header_from_json J n y = x"
  unfolding header_doc_def
  by (erule reads_objE) (simp add: header_from_json_def json_get_defs Let_def header_ok_def)

lemma index_reads: "reads J n (index_doc x) \<Longrightarrow> index_ok x \<Longrightarrow> index_from_json J n (index_default y) = x"
  unfolding index_doc_def
  by (erule reads_objE)
     (simp add: index_from_json_def json_get_defs Let_def index_ok_def index_default_def list_all2_strings)

lemma foreign_reads: "reads J n (foreign_doc x) \<Longrightarrow> foreign_from_json J n foreign_default = x"
  unfolding foreign_doc_def
  by (erule reads_objE)
     (simp add: foreign_from_json_def json_get_defs Let_def foreign_default_def foreign_new_def list_all2_strings)

lemma column_reads:
  assumes "reads J n (column_doc x)" "column_ok x"
  shows "column_from_json J n column_default = x"
proof -
  from assms(1) obtain ms where ms: "column_doc x = JObj ms" and obj: "node_holds_object J n"
    and int: "\<And>k i. map_of ms k = Some (JInt i) \<Longrightarrow> get_int_member J n k = i"
    and str: "\<And>k s. map_of ms k = Some (JStr s) \<Longrightarrow> get_string_member J n k = Some s"
    and arr: "\<And>k ds. map_of ms k = Some (JArr ds) \<Longrightarrow> list_all2 (reads J) (get_array_member J n k) ds"
    unfolding column_doc_def by (auto elim!: reads_objE)
  have m: "get_int_member J n ''flag'' = co_flag x" "get_int_member J n ''type'' = co_type x"
    "get_int_member J n ''size'' = co_size x" "get_int_member J n ''max_size'' = co_max_size x"
    "get_string_member J n ''name'' = Some (co_name x)"
    using ms by (auto intro!: int str simp: column_doc_def)
  have refs: "map (\<lambda>n. reference_from_json J n reference_default) (get_array_member J n ''ref_by'')
      = co_reference_list x"
    using ms by (intro list_all2_references arr) (auto simp: column_doc_def)
  have prec: "get_int_member J n ''prec'' = co_prec x" if "co_type x = TYPE_FLOAT"
    using ms that by (auto intro!: int simp: column_doc_def)
  have auto: "get_int_member J n ''auto_inc'' = cast_i64 (co_auto_inc x)"
    if "co_flag x AND FLAG_AUTO_INC = FLAG_AUTO_INC"
    using ms that by (auto intro!: int simp: column_doc_def)
  have enum: "map (string_element J) (get_array_member J n ''enum'') = co_enum x" if "co_type x = TYPE_ENUM"
    using ms that by (intro list_all2_strings arr) (auto simp: column_doc_def)
  show ?thesis
    using assms(2) m refs prec auto enum obj
    by (cases x) (simp add: column_from_json_def json_get_defs Let_def column_default_def column_ok_def cast_u64_i64)
qed

section \<open>Sorting by name\<close>

abbreviation sorted_named :: "(string \<times> 'a) list \<Rightarrow> bool" where
  "sorted_named ps \<equiv> sorted_wrt (\<lambda>p q. name_less (fst p) (fst q)) ps"

lemma name_less_trans: "name_less s t \<Longrightarrow> name_less t u \<Longrightarrow> name_less s u"
  using transp_str_compare unfolding transp_def by (metis fst_conv)

lemma name_less_total: "s \<noteq> t \<Longrightarrow> \<not> name_less s t \<Longrightarrow> name_less t s"
  using str_compare_zero [of s t] str_compare_flip [of t s] by linarith

lemma name_less_asym: "name_less s t \<Longrightarrow> \<not> name_less t s"
  using str_compare_flip [of s t] by simp

lemma mset_insert_named [simp]: "mset (insert_named p qs) = add_mset p (mset qs)"
  by (induction qs) auto

lemma mset_sort_named [simp]: "mset (sort_named ps) = mset ps"
  by (induction ps) (simp_all add: sort_named_def)

lemma set_insert_named [simp]: "set (insert_named p qs) = insert p (set qs)"
  using mset_insert_named [of p qs] by (metis set_mset_add_mset_insert set_mset_mset)

lemma sorted_insert_named:
  "sorted_named qs \<Longrightarrow> fst p \<notin> fst ` set qs \<Longrightarrow> sorted_named (insert_named p qs)"
  by (induction qs) (auto dest: name_less_total intro: name_less_trans)

lemma sorted_sort_named: "distinct (map fst ps) \<Longrightarrow> sorted_named (sort_named ps)"
proof (induction ps)
  case (Cons p ps)
  have "fst ` set (sort_named ps) = fst ` set ps"
    using mset_sort_named [of ps] by (metis set_mset_mset)
  with Cons show ?case by (simp add: sort_named_def sorted_insert_named)
qed (simp add: sort_named_def)

lemma sorted_named_unique:
  "sorted_named ps \<Longrightarrow> sorted_named qs \<Longrightarrow> mset ps = mset qs \<Longrightarrow> ps = qs"
proof (induction ps arbitrary: qs)
  case (Cons p ps)
  then obtain q qs' where qs: "qs = q # qs'" by (cases qs) auto
  have "p \<in> set qs" "q \<in> set (p # ps)" using Cons.prems(3) qs by (metis list.set_intros(1) mset_eq_setD)+
  then have "p = q" using Cons.prems(1,2) qs name_less_asym by (auto simp: qs)
  with Cons qs show ?case by simp
qed simp

lemma sort_named_perm: "sorted_named qs \<Longrightarrow> mset ps = mset qs \<Longrightarrow> sort_named ps = qs"
proof (rule sorted_named_unique)
  assume a: "sorted_named qs" "mset ps = mset qs"
  have "distinct (map fst qs)" using a(1)
    by (induction qs) (auto simp: name_less_asym dest: name_less_asym)
  then have "distinct (map fst ps)" using a(2) by (metis mset_map mset_eq_imp_distinct_iff)
  then show "sorted_named (sort_named ps)" by (rule sorted_sort_named)
  show "sorted_named qs" "mset (sort_named ps) = mset qs" using a by simp_all
qed

section \<open>Column names\<close>

lemma pad0_two:
  assumes "n < 100"
  shows "pad0 2 (int n) = [digit_char (n div 10), digit_char (n mod 10)]"
proof -
  have "digit_char 0 = CHR ''0''" by code_simp
  moreover have "n div 10 < 10" using assms by simp
  ultimately show ?thesis
    by (simp add: pad0_def to_string_def nat_str.simps [of n] nat_str.simps [of "n div 10"])
qed

lemma str_compare_append [simp]: "str_compare (p @ s) (p @ t) = str_compare s t"
  by (induction p) auto

lemma digit_code: "d < 10 \<Longrightarrow> (of_char (digit_char d) :: nat) = 48 + d"
  by (simp add: digit_char_def)

lemma column_key_less:
  assumes "0 \<le> i" "i < j" "j < 100"
  shows "name_less (column_key i) (column_key j)"
proof -
  obtain m n where mn: "i = int m" "j = int n" using assms by (metis zero_le_imp_eq_int less_imp_le order_trans)
  have "m div 10 < n div 10 \<or> m div 10 = n div 10 \<and> m mod 10 < n mod 10"
    using assms mn by (metis div_le_mono div_mult_mod_eq le_neq_implies_less nat_add_left_cancel_less
        of_nat_less_iff order_less_imp_le)
  with assms mn show ?thesis by (auto simp: column_key_def pad0_two digit_code)
qed

lemma column_key_less_members:
  "k \<in> fst ` set (column_members cols m) \<Longrightarrow> 0 \<le> n \<Longrightarrow> n < m \<Longrightarrow> m + int (length cols) \<le> 100
    \<Longrightarrow> name_less (column_key n) k"
proof (induction cols arbitrary: m)
  case (Cons col cols)
  have "name_less (column_key n) (column_key m)"
    using column_key_less [of n m] Cons.prems(2-4) by simp
  moreover have "name_less (column_key n) k" if "k \<in> fst ` set (column_members cols (m + 1))"
    using Cons.IH [OF that] Cons.prems(2-4) by simp
  ultimately show ?case using Cons.prems(1) by auto
qed simp

lemma column_members_sorted:
  "0 \<le> n \<Longrightarrow> n + int (length cols) \<le> 100 \<Longrightarrow> sorted_named (column_members cols n)"
proof (induction cols arbitrary: n)
  case (Cons col cols)
  have "name_less (column_key n) k" if "k \<in> fst ` set (column_members cols (n + 1))" for k
    using column_key_less_members [OF that] Cons.prems by simp
  moreover have "sorted_named (column_members cols (n + 1))" using Cons by simp
  ultimately show ?case by auto
qed simp

lemma column_members_fst: "k \<in> fst ` set (column_members cols n) \<Longrightarrow> take 6 k = ''column''"
  by (induction cols arbitrary: n) (auto simp: column_key_def)

lemma column_members_snd [simp]: "map snd (column_members cols n) = cols"
  by (induction cols arbitrary: n) auto

section \<open>Reading the members of a document\<close>

lemma load_member_apply:
  "load_member J mem (hdr, cols, ndxs, fgns) (nm, node) =
     (if nm = ''header'' then (header_from_json J node hdr, cols, ndxs, fgns)
     else if take 6 nm = ''column'' then
       (hdr, cols @ [(nm, column_from_json J node column_default)], ndxs, fgns)
     else if take 4 nm = ''NDX_'' then
       (hdr, cols, ndxs @ [(nm, index_from_json J node (index_default mem))], fgns)
     else if take 4 nm = ''FGN_'' then
       (hdr, cols, ndxs, fgns @ [(nm, foreign_from_json J node foreign_default)])
     else (hdr, cols, ndxs, fgns))"
  by (simp add: load_member_def)

lemma load_fold:
  "foldl (load_member J mem) (h, c, i, f) ns =
    (foldl (\<lambda>h (nm, node). if nm = ''header'' then header_from_json J node h else h) h ns,
     c @ map (\<lambda>(nm, node). (nm, column_from_json J node column_default))
           (filter (\<lambda>(nm, _). take 6 nm = ''column'') ns),
     i @ map (\<lambda>(nm, node). (nm, index_from_json J node (index_default mem)))
           (filter (\<lambda>(nm, _). take 4 nm = ''NDX_'') ns),
     f @ map (\<lambda>(nm, node). (nm, foreign_from_json J node foreign_default))
           (filter (\<lambda>(nm, _). take 4 nm = ''FGN_'') ns))"
proof (induction ns arbitrary: h c i f)
  case (Cons p ns)
  obtain nm node where p: "p = (nm, node)" by fastforce
  have "take 4 nm = take 4 (take 6 nm)" by (simp add: min_def)
  then have "take 6 nm = ''column'' \<Longrightarrow> take 4 nm = ''colu''" by simp
  then show ?case
    by (auto simp: p Cons load_member_apply)
qed simp

lemma header_fold:
  "distinct (map fst ns) \<Longrightarrow> (''header'', node) \<in> set ns \<Longrightarrow>
    foldl (\<lambda>h (nm, node). if nm = ''header'' then header_from_json J node h else h) h ns
    = header_from_json J node (foldl (\<lambda>h (nm, node). if nm = ''header'' then header_from_json J node h else h) h [])"
proof (induction ns arbitrary: h)
  case (Cons p ns)
  have skip: "''header'' \<notin> fst ` set ns \<Longrightarrow>
    foldl (\<lambda>h (nm, node). if nm = ''header'' then header_from_json J node h else h) h ns = h" for h
    by (induction ns arbitrary: h) (auto split: if_splits)
  show ?case
  proof (cases "fst p = ''header''")
    case True
    then have "p = (''header'', node)" using Cons.prems by (cases p) force
    with Cons.prems skip show ?thesis by auto
  next
    case False
    with Cons show ?thesis by (cases p) auto
  qed
qed simp


section \<open>Loading what was saved\<close>

text \<open>Members that satisfy a test on the name, read by a function that inverts the document.\<close>

lemma read_members:
  assumes "list_all2 (reads J) (map snd ns) (map snd ms)" "map fst ns = map fst ms"
    and "filter (\<lambda>p. P (fst p)) ms = map (apsnd doc) xs"
    and "\<And>n k x. (k, x) \<in> set xs \<Longrightarrow> reads J n (doc x) \<Longrightarrow> f n = x"
  shows "map (\<lambda>(nm, node). (nm, f node)) (filter (\<lambda>(nm, _). P nm) ns) = xs"
  using assms
proof (induction ns arbitrary: ms xs)
  case Nil
  then show ?case by simp
next
  case (Cons p ns)
  obtain q ms' where ms: "ms = q # ms'" using Cons.prems(2) by (cases ms) auto
  show ?case
  proof (cases "P (fst q)")
    case True
    then obtain x xs' where xs: "xs = x # xs'" "q = apsnd doc x"
        "filter (\<lambda>p. P (fst p)) ms' = map (apsnd doc) xs'"
      using Cons.prems(3) ms by (cases xs) auto
    have "f (snd p) = snd x" using Cons.prems(1,4) ms xs by (cases x) auto
    moreover have "map (\<lambda>(nm, node). (nm, f node)) (filter (\<lambda>(nm, _). P nm) ns) = xs'"
      using Cons.IH [of ms' xs'] Cons.prems ms xs by auto
    moreover have "fst p = fst q" using Cons.prems(2) ms by simp
    ultimately show ?thesis using True xs by (cases x, cases p) auto
  next
    case False
    with Cons.IH [of ms' xs] Cons.prems ms show ?thesis by (cases p) auto
  qed
qed

lemma filter_prefix:
  "filter (\<lambda>p. take 6 (fst p) = ''column'') (map (apsnd column_doc) (column_members cols n))
     = map (apsnd column_doc) (column_members cols n)"
  by (induction cols arbitrary: n) (simp_all add: column_key_def)

lemma take_prefix: "take 6 nm = ''column'' \<Longrightarrow> take 4 nm = ''colu''"
proof -
  have "take 4 nm = take 4 (take 6 nm)" by (simp add: min_def)
  then show "take 6 nm = ''column'' \<Longrightarrow> take 4 nm = ''colu''" by simp
qed

definition schema_members :: "schema \<Rightarrow> (string \<times> jdoc) list" where
  "schema_members s = [(''header'', header_doc (sc_header s))]
     @ map (apsnd column_doc) (column_members (sc_column s) 0)
     @ map (apsnd index_doc) (map named_index (sc_index s))
     @ map (apsnd foreign_doc) (map named_foreign (sc_foreign s))"

lemma schema_filters:
  assumes "schema_ok s"
  shows "filter (\<lambda>p. take 6 (fst p) = ''column'') (schema_members s)
      = map (apsnd column_doc) (column_members (sc_column s) 0)"
    and "filter (\<lambda>p. take 4 (fst p) = ''NDX_'') (schema_members s)
      = map (apsnd index_doc) (map named_index (sc_index s))"
    and "filter (\<lambda>p. take 4 (fst p) = ''FGN_'') (schema_members s)
      = map (apsnd foreign_doc) (map named_foreign (sc_foreign s))"
proof -
  have cols: "list_all (\<lambda>k. take 6 k = ''column'' \<and> take 4 k = ''colu'') (map fst (column_members xs n))" for xs n
    by (induction xs arbitrary: n) (auto simp: column_key_def)
  have ndx: "list_all (\<lambda>k. take 4 k = ''NDX_'') (map ix_name (sc_index s))"
    and fgn: "list_all (\<lambda>k. take 4 k = ''FGN_'') (map fg_name (sc_foreign s))"
    using assms by (auto simp: schema_ok_def index_ok_def foreign_ok_def list_all_iff)
  show "filter (\<lambda>p. take 6 (fst p) = ''column'') (schema_members s)
      = map (apsnd column_doc) (column_members (sc_column s) 0)"
    using cols [of "sc_column s" 0] ndx fgn
    by (auto simp: schema_members_def list_all_iff filter_empty_conv o_def filter_id_conv dest: take_prefix)
  show "filter (\<lambda>p. take 4 (fst p) = ''NDX_'') (schema_members s)
      = map (apsnd index_doc) (map named_index (sc_index s))"
    using cols [of "sc_column s" 0] ndx fgn
    by (auto simp: schema_members_def list_all_iff filter_empty_conv o_def filter_id_conv)
  show "filter (\<lambda>p. take 4 (fst p) = ''FGN_'') (schema_members s)
      = map (apsnd foreign_doc) (map named_foreign (sc_foreign s))"
    using cols [of "sc_column s" 0] ndx fgn
    by (auto simp: schema_members_def list_all_iff filter_empty_conv o_def filter_id_conv)
qed

lemma named_sorted:
  "sorted_wrt name_less (map ix_name xs) \<Longrightarrow> sorted_named (map named_index xs)"
  "sorted_wrt name_less (map fg_name ys) \<Longrightarrow> sorted_named (map named_foreign ys)"
  by (simp_all add: sorted_wrt_map)

lemma sorted_named_distinct: "sorted_named ps \<Longrightarrow> distinct (map fst ps)"
  by (induction ps) (auto dest: name_less_asym)

lemma disjoint_by: "f ` A \<subseteq> {a} \<Longrightarrow> f ` B \<subseteq> {b} \<Longrightarrow> a \<noteq> b \<Longrightarrow> A \<inter> B = {}"
  by blast

lemma digits_val_zeros: "digits_val (replicate k (CHR ''0'')) 0 = 0"
  by (induction k) (simp_all add: char_digit_def)

lemma pad0_val: "digits_val (pad0 w (int n)) 0 = n"
  by (simp add: pad0_def to_string_nat digits_val_zeros Let_def)

lemma column_key_inj [simp]: "0 \<le> i \<Longrightarrow> 0 \<le> j \<Longrightarrow> column_key i = column_key j \<longleftrightarrow> i = j"
  using pad0_val [of 2 "nat i"] pad0_val [of 2 "nat j"] by (auto simp: column_key_def)

lemma column_members_keys:
  "0 \<le> n \<Longrightarrow> i < n \<Longrightarrow> 0 \<le> i \<Longrightarrow> column_key i \<notin> fst ` set (column_members cols n)"
  by (induction cols arbitrary: n) auto

lemma column_members_distinct: "0 \<le> n \<Longrightarrow> distinct (map fst (column_members cols n))"
  by (induction cols arbitrary: n) (auto simp: column_members_keys)

lemma distinct_members:
  assumes "schema_ok s"
  shows "distinct (map fst (schema_members s))"
proof -
  have cols: "distinct (map fst (column_members (sc_column s) 0))"
    by (rule column_members_distinct) simp
  have ndx: "distinct (map ix_name (sc_index s))" and fgn: "distinct (map fg_name (sc_foreign s))"
    using assms sorted_named_distinct [OF named_sorted(1)] sorted_named_distinct [OF named_sorted(2)]
    by (auto simp: schema_ok_def o_def)
  let ?C = "fst ` set (column_members (sc_column s) 0)" and ?I = "ix_name ` set (sc_index s)"
    and ?F = "fg_name ` set (sc_foreign s)"
  have I: "take 4 ` ?I \<subseteq> {''NDX_''}" and F: "take 4 ` ?F \<subseteq> {''FGN_''}"
    using assms by (auto simp: schema_ok_def index_ok_def foreign_ok_def list_all_iff)
  have C: "take 4 ` ?C \<subseteq> {''colu''}" using column_members_fst take_prefix by blast
  have H: "take 4 ` {''header''} \<subseteq> {''head''}" by simp
  have "?C \<inter> ?I = {}" by (rule disjoint_by [OF C I]) simp
  moreover have "?C \<inter> ?F = {}" by (rule disjoint_by [OF C F]) simp
  moreover have "?I \<inter> ?F = {}" by (rule disjoint_by [OF I F]) simp
  moreover have "{''header''} \<inter> ?C = {}" by (rule disjoint_by [OF H C]) simp
  moreover have "{''header''} \<inter> ?I = {}" by (rule disjoint_by [OF H I]) simp
  moreover have "{''header''} \<inter> ?F = {}" by (rule disjoint_by [OF H F]) simp
  ultimately show ?thesis using cols ndx fgn
    by (simp add: schema_members_def o_def image_image Un_assoc Int_Un_distrib)
qed

section \<open>The document of a schema is well-formed\<close>

lemma plain_append [simp]: "plain (s @ t) \<longleftrightarrow> plain s \<and> plain t"
  by (simp add: plain_def)

lemma plain_Cons [simp]: "plain (c # s) \<longleftrightarrow> c \<noteq> CHR 0x00 \<and> (of_char c :: nat) < 128 \<and> plain s"
  by (auto simp: plain_def)

lemma plain_Nil [simp]: "plain []"
  by (simp add: plain_def)

lemma digit_char_ascii:
  assumes "d < 10"
  shows "digit_char d \<noteq> CHR 0x00 \<and> (of_char (digit_char d) :: nat) < 128"
proof -
  have "(of_char (digit_char d) :: nat) \<noteq> of_char (CHR 0x00)" using digit_code [OF assms] by simp
  then show ?thesis using digit_code [OF assms] assms by auto
qed

lemma plain_nat_str: "plain (nat_str n)"
  by (induction n rule: nat_str.induct) (subst nat_str.simps, simp add: digit_char_ascii)

lemma plain_replicate: "plain (replicate n (CHR ''0''))"
  by (induction n) simp_all

lemma plain_column_key:
  assumes "0 \<le> i"
  shows "plain (column_key i)"
proof -
  obtain n where "i = int n" using assms zero_le_imp_eq_int by blast
  then show ?thesis
    by (simp add: column_key_def pad0_def to_string_nat Let_def plain_nat_str plain_replicate)
qed

lemma wf_doc_int [simp]: "in64 i \<Longrightarrow> wf_doc (JInt i)"
  by (simp add: in64_def)

declare wf_doc.simps(1) [simp del]

lemma wf_reference: "reference_ok x \<Longrightarrow> wf_doc (reference_doc x)"
  by (simp add: reference_ok_def reference_doc_def)

lemma wf_column: "column_ok x \<Longrightarrow> wf_doc (column_doc x)"
  using wf_reference by (auto simp: column_ok_def column_doc_def in32_in64 list_all_iff)

lemma wf_header: "header_ok x \<Longrightarrow> wf_doc (header_doc x)"
  by (simp add: header_ok_def header_doc_def in32_in64)

lemma wf_index: "index_ok x \<Longrightarrow> wf_doc (index_doc x)"
  by (simp add: index_ok_def index_doc_def in32_in64 list_all_iff)

lemma wf_foreign: "foreign_ok x \<Longrightarrow> wf_doc (foreign_doc x)"
  by (simp add: foreign_ok_def foreign_doc_def list_all_iff)

lemma wf_columns:
  "list_all column_ok cols \<Longrightarrow> 0 \<le> n \<Longrightarrow>
    list_all (\<lambda>(k, d). plain k \<and> wf_doc d) (map (apsnd column_doc) (column_members cols n))"
  by (induction cols arbitrary: n) (auto intro: plain_column_key wf_column)

lemma wf_schema:
  assumes "schema_ok s"
  shows "wf_doc (JObj (schema_members s))"
proof -
  have "list_all (\<lambda>(k, d). plain k \<and> wf_doc d) (schema_members s)"
    using assms wf_columns [of "sc_column s" 0] wf_header [of "sc_header s"]
    by (auto simp: schema_members_def schema_ok_def list_all_iff intro: wf_index wf_foreign)
       (auto simp: index_ok_def foreign_ok_def)
  with distinct_members [OF assms] show ?thesis by simp
qed

section \<open>Loading what was saved\<close>

lemma load_saved:
  assumes "schema_ok s" "reads J n (JObj (schema_members s))"
  shows "foldl (load_member J mem) (h, [], [], []) (object_members J n)
    = (sc_header s,
       map (\<lambda>(nm, node). (nm, column_from_json J node column_default))
         (filter (\<lambda>(nm, _). take 6 nm = ''column'') (object_members J n)),
       map (\<lambda>(nm, node). (nm, index_from_json J node (index_default mem)))
         (filter (\<lambda>(nm, _). take 4 nm = ''NDX_'') (object_members J n)),
       map (\<lambda>(nm, node). (nm, foreign_from_json J node foreign_default))
         (filter (\<lambda>(nm, _). take 4 nm = ''FGN_'') (object_members J n)))"
proof -
  from assms(2) obtain ns where ns: "mset (object_members J n) = mset ns" "map fst ns = map fst (schema_members s)"
    "list_all2 (reads J) (map snd ns) (map snd (schema_members s))" by (auto elim: reads_objE)
  obtain node ns' where node: "ns = (''header'', node) # ns'" "reads J node (header_doc (sc_header s))"
    using ns(2,3) by (cases ns) (auto simp: schema_members_def)
  have "header_from_json J node h = sc_header s"
    using header_reads [OF node(2)] assms(1) by (simp add: schema_ok_def)
  moreover have "distinct (map fst (object_members J n))"
    using ns(1,2) distinct_members [OF assms(1)] by (metis mset_map mset_eq_imp_distinct_iff)
  moreover have "(''header'', node) \<in> set (object_members J n)"
    using ns(1) node(1) by (metis list.set_intros(1) mset_eq_setD)
  ultimately show ?thesis by (simp add: load_fold header_fold)
qed

lemma load_sorted:
  assumes "mset ms = mset ns" "map (\<lambda>(nm, node). (nm, f node)) (filter (\<lambda>(nm, _). P nm) ns) = xs" "distinct (map fst xs)"
  shows "sort_named (map (\<lambda>(nm, node). (nm, f node)) (filter (\<lambda>(nm, _). P nm) ms)) = sort_named xs"
proof (rule sort_named_perm)
  show "sorted_named (sort_named xs)" by (rule sorted_sort_named [OF assms(3)])
  show "mset (map (\<lambda>(nm, node). (nm, f node)) (filter (\<lambda>(nm, _). P nm) ms)) = mset (sort_named xs)"
    using assms(1,2) by (metis mset_filter mset_map mset_sort_named)
qed

lemma sort_named_id: "sorted_named xs \<Longrightarrow> sort_named xs = xs"
  by (rule sort_named_perm) simp_all

lemma load_saved_schema:
  assumes "json_laws J" "schema_ok sch" "save_schema J sch m = (Inr (), m')"
  defines "sch' \<equiv> sch \<lparr> sc_column := map snd (sort_named (column_members (sc_column sch) 0)) \<rparr>"
  shows "load_schema J mem_hdr mem_ndx (schema_name sch) m'
    = (Inr (Some sch'), m' \<lparr> mg_schema := map_put (schema_name sch) (Some sch') (mg_schema m') \<rparr>)"
proof -
  let ?p = "c_str (schema_path (mg_path m) (schema_name sch))"
  have doc: "schema_doc sch = JObj (schema_members sch)" by (simp add: schema_doc_def schema_members_def)
  obtain fs where fs: "generator_to_file J (calls_of (JObj (schema_members sch))) ?p (mg_fs m) = (True, fs)"
    and m': "m' = m \<lparr> mg_fs := fs \<rparr>"
    using assms(3) schema_calls [OF assms(2)] doc
    by (auto simp: save_schema_def split: prod.splits if_splits)
  from assms(1) fs wf_schema [OF assms(2)] obtain n where
    ld: "stat_ok J ?p fs" "parser_load J ?p fs = Some n" and n: "reads J n (JObj (schema_members sch))"
    unfolding json_laws_def by blast
  from n obtain ns where obj: "node_holds_object J n" and ns: "mset (object_members J n) = mset ns"
    "map fst ns = map fst (schema_members sch)" "list_all2 (reads J) (map snd ns) (map snd (schema_members sch))"
    by (auto elim: reads_objE)
  have ok: "list_all column_ok (sc_column sch)" "list_all index_ok (sc_index sch)"
    "sorted_wrt name_less (map ix_name (sc_index sch))"
    "sorted_wrt name_less (map fg_name (sc_foreign sch))" using assms(2) by (auto simp: schema_ok_def)
  have colin: "column_ok x" if "(k, x) \<in> set (column_members (sc_column sch) 0)" for k x
    using that ok(1) column_members_snd [of "sc_column sch" 0] by (metis list_all_iff image_eqI set_map snd_conv)
  note rd = read_members [OF ns(3,2)]
  have "sort_named (map (\<lambda>(nm, node). (nm, column_from_json J node column_default))
      (filter (\<lambda>(nm, _). take 6 nm = ''column'') (object_members J n)))
      = sort_named (column_members (sc_column sch) 0)"
  proof (rule load_sorted [OF ns(1) _ column_members_distinct])
    show "map (\<lambda>(nm, node). (nm, column_from_json J node column_default))
       (filter (\<lambda>(nm, _). take 6 nm = ''column'') ns) = column_members (sc_column sch) 0"
      by (rule rd [OF schema_filters(1) [OF assms(2)]], rule column_reads, assumption, erule colin)
  qed simp
  moreover have "sort_named (map (\<lambda>(nm, node). (nm, index_from_json J node (index_default mem_ndx)))
      (filter (\<lambda>(nm, _). take 4 nm = ''NDX_'') (object_members J n))) = map named_index (sc_index sch)"
    by (subst sort_named_id [OF named_sorted(1) [OF ok(3)], symmetric], rule load_sorted [OF ns(1)], rule rd [OF schema_filters(2) [OF assms(2)]])
       (use ok sorted_named_distinct [OF named_sorted(1) [OF ok(3)]] in \<open>auto simp: list_all_iff o_def intro: index_reads\<close>)
  moreover have "sort_named (map (\<lambda>(nm, node). (nm, foreign_from_json J node foreign_default))
      (filter (\<lambda>(nm, _). take 4 nm = ''FGN_'') (object_members J n))) = map named_foreign (sc_foreign sch)"
    by (subst sort_named_id [OF named_sorted(2) [OF ok(4)], symmetric], rule load_sorted [OF ns(1)], rule rd [OF schema_filters(3) [OF assms(2)]])
       (use ok sorted_named_distinct [OF named_sorted(2) [OF ok(4)]] in \<open>auto simp: list_all_iff o_def intro: foreign_reads\<close>)
  moreover have "sch' = \<lparr> sc_header = sc_header sch, sc_column = map snd (sort_named (column_members (sc_column sch) 0)),
      sc_index = sc_index sch, sc_foreign = sc_foreign sch \<rparr>" by (simp add: sch'_def)
  ultimately show ?thesis
    using ld obj load_saved [OF assms(2) n] by (simp add: load_schema_def m' o_def Let_def)
qed

text \<open>
  A library that satisfies the laws: a file holds the builder calls, a node is a
  document, and a stack of open objects and arrays rebuilds the document from the calls.
\<close>

datatype frame = FObj "(string \<times> jdoc) list" "string option" | FArr "jdoc list"

fun emit :: "jdoc \<Rightarrow> frame list \<Rightarrow> frame list" where
  "emit d (FObj ms (Some k) # fs) = FObj (ms @ [(k, d)]) None # fs"
| "emit d (FArr ds # fs) = FArr (ds @ [d]) # fs"
| "emit d fs = fs"

fun step :: "jcall \<Rightarrow> frame list \<Rightarrow> frame list" where
  "step Begin_object fs = FObj [] None # fs"
| "step Begin_array fs = FArr [] # fs"
| "step (Member k) (FObj ms _ # fs) = FObj ms (Some k) # fs"
| "step (Int_value i) fs = emit (JInt i) fs"
| "step (String_value s) fs = emit (JStr s) fs"
| "step End_object (FObj ms _ # fs) = emit (JObj ms) fs"
| "step End_array (FArr ds # fs) = emit (JArr ds) fs"
| "step _ fs = fs"

definition decode :: "jcall list \<Rightarrow> jdoc option" where
  "decode cs = (case fold step cs [FArr []] of [FArr [d]] \<Rightarrow> Some d | _ \<Rightarrow> None)"

lemma fold_concat_map:
  "(\<And>x s. x \<in> set xs \<Longrightarrow> fold g (f x) (h s) = h (s @ [k x])) \<Longrightarrow>
    fold g (concat (map f xs)) (h s) = h (s @ map k xs)"
  by (induction xs arbitrary: s) auto

lemma fold_calls: "fold step (calls_of d) fs = emit d fs"
proof (induction d arbitrary: fs)
  case (JArr ds)
  have "fold step (concat (map calls_of ds)) (FArr [] # fs) = FArr ([] @ map (\<lambda>d. d) ds) # fs"
    using JArr by (intro fold_concat_map [where h = "\<lambda>s. FArr s # fs"]) simp
  then show ?case by simp
next
  case (JObj ms)
  have "fold step (concat (map (\<lambda>(k, d). Member k # calls_of d) ms)) (FObj [] None # fs)
      = FObj ([] @ map (\<lambda>p. p) ms) None # fs"
    using JObj by (intro fold_concat_map [where h = "\<lambda>s. FObj s None # fs"]) (auto simp: snds.simps)
  then show ?case by simp
qed auto

lemma decode_calls: "decode (calls_of d) = Some d"
  by (simp add: decode_def fold_calls)

definition doc_lib :: "(string \<rightharpoonup> jdoc, jdoc) json_lib" where
  "doc_lib = \<lparr>
     generator_to_file = (\<lambda>cs path fs. case decode cs of Some d \<Rightarrow> (True, fs(path \<mapsto> d)) | None \<Rightarrow> (False, fs)),
     stat_ok = (\<lambda>path fs. fs path \<noteq> None),
     parser_load = (\<lambda>path fs. fs path),
     node_holds_object = (\<lambda>n. case n of JObj _ \<Rightarrow> True | _ \<Rightarrow> False),
     object_members = (\<lambda>n. case n of JObj ms \<Rightarrow> ms | _ \<Rightarrow> []),
     get_int_member = (\<lambda>n k. case n of JObj ms \<Rightarrow> (case map_of ms k of Some (JInt i) \<Rightarrow> i | _ \<Rightarrow> 0) | _ \<Rightarrow> 0),
     get_string_member = (\<lambda>n k. case n of JObj ms \<Rightarrow> (case map_of ms k of Some (JStr s) \<Rightarrow> Some s | _ \<Rightarrow> None) | _ \<Rightarrow> None),
     get_array_member = (\<lambda>n k. case n of JObj ms \<Rightarrow> (case map_of ms k of Some (JArr ds) \<Rightarrow> ds | _ \<Rightarrow> []) | _ \<Rightarrow> []),
     string_element = (\<lambda>n. case n of JStr s \<Rightarrow> s | _ \<Rightarrow> []) \<rparr>"

lemma doc_lib_reads: "reads doc_lib d d \<and> (\<forall>ds. d = JArr ds \<longrightarrow> list_all2 (reads doc_lib) ds ds)"
proof (induction d)
  case (JObj ms)
  have "reads doc_lib (JObj ms) (JObj ms)"
  proof (rule reads.obj [where ns = ms])
    fix k ds assume k: "map_of ms k = Some (JArr ds)"
    with JObj [of "(k, JArr ds)" "JArr ds"] show "list_all2 (reads doc_lib) (get_array_member doc_lib (JObj ms) k) ds"
      by (auto simp: doc_lib_def snds.simps dest: map_of_SomeD)
  next
    show "list_all2 (reads doc_lib) (map snd ms) (map snd ms)"
      using JObj by (force simp: list_all2_same snds.simps)
  qed (use JObj in \<open>auto simp: doc_lib_def\<close>)
  then show ?case by simp
qed (auto intro: reads.intros simp: doc_lib_def list_all2_same)

lemma doc_lib_laws: "json_laws doc_lib"
  unfolding json_laws_def
proof (intro allI impI)
  fix d path and fs fs' :: "string \<rightharpoonup> jdoc"
  assume "generator_to_file doc_lib (calls_of d) path fs = (True, fs')"
  then have "fs' = fs(path \<mapsto> d)" by (simp add: doc_lib_def decode_calls)
  then have "stat_ok doc_lib path fs'" "parser_load doc_lib path fs' = Some d" by (auto simp: doc_lib_def)
  with doc_lib_reads [of d] show "stat_ok doc_lib path fs' \<and> (\<exists>n. parser_load doc_lib path fs' = Some n \<and> reads doc_lib n d)"
    by blast
qed

definition demo_schema :: schema where
  "demo_schema = \<lparr> sc_header = header_new ''db'' ''emp'' 0 32768 1 1 2 0 (-1) (-1),
     sc_column = [column_sized (FLAG_AUTO_INC + FLAG_PRIMARY) 8 TYPE_INT ''id'', column_float 0 2 10 TYPE_FLOAT ''pay''],
     sc_index = [index_new FLAG_PRIMARY 2046 8 PK_NDX [''id'']],
     sc_foreign = [foreign_new ''FGN_000'' ''db'' ''dept'' [''pay'']] \<rparr>"

lemma column_members_length [simp]: "length (column_members cols n) = length cols"
  by (induction cols arbitrary: n) auto

lemma column_members_nth: "i < length cols \<Longrightarrow> column_members cols n ! i = (column_key (n + int i), cols ! i)"
proof (induction cols arbitrary: n i)
  case (Cons col cols)
  then show ?case by (cases i) (simp_all add: algebra_simps)
qed simp

lemma distinct_snd_unique:
  assumes "mset xs = mset ys" "map snd xs = map snd ys" "distinct (map snd ys)"
  shows "xs = ys"
proof (rule nth_equalityI)
  show len: "length xs = length ys" using assms(1) by (rule mset_eq_length)
  fix i assume i: "i < length xs"
  have "xs ! i \<in> set ys" using i assms(1) by (metis mset_eq_setD nth_mem)
  then obtain j where j: "j < length ys" "xs ! i = ys ! j" by (metis in_set_conv_nth)
  have "snd (ys ! j) = snd (ys ! i)" using i j len assms(2) by (metis nth_map)
  then have "j = i" using assms(3) i j len by (auto simp: distinct_conv_nth)
  then show "xs ! i = ys ! i" using j by simp
qed

section \<open>Properties\<close>




text \<open>
  C34. With more than one hundred columns, all different, the order is lost: the
  member names are compared as strings, so the column with number 100 comes
  before the column with number 11 when the schema is loaded.
\<close>

theorem column_order_lost:
  assumes "json_laws J" "schema_ok sch" "100 < length (sc_column sch)" "distinct (sc_column sch)"
    and "save_schema J sch m = (Inr (), m')"
  shows "\<exists>sch' m''. load_schema J mem_hdr mem_ndx (schema_name sch) m' = (Inr (Some sch'), m'')
    \<and> sc_column sch' \<noteq> sc_column sch \<and> mset (sc_column sch') = mset (sc_column sch)"
proof -
  let ?cm = "column_members (sc_column sch) 0"
  have "map snd (sort_named ?cm) \<noteq> sc_column sch"
  proof
    assume eq: "map snd (sort_named ?cm) = sc_column sch"
    then have "sort_named ?cm = ?cm"
      using assms(4) by (intro distinct_snd_unique) (simp_all add: column_members_snd)
    moreover have "sorted_named (sort_named ?cm)" by (rule sorted_sort_named [OF column_members_distinct]) simp
    ultimately have "sorted_named ?cm" by simp
    then have "name_less (fst (?cm ! 99)) (fst (?cm ! 100))"
      using assms(3) by (auto simp: sorted_wrt_iff_nth_less)
    then have "name_less (column_key 99) (column_key 100)" using assms(3) by (simp add: column_members_nth)
    moreover have "\<not> name_less (column_key 99) (column_key 100)" by code_simp
    ultimately show False by simp
  qed
  moreover have "mset (map snd (sort_named ?cm)) = mset (sc_column sch)"
    by (metis column_members_snd mset_map mset_sort_named)
  ultimately show ?thesis
    using load_saved_schema [OF assms(1,2,5)] by simp
qed

theorem column_order_lost_witness:
  "let cols = map (\<lambda>i. column_sized 0 8 TYPE_INT (nat_str i)) [0..<101];
       sch = demo_schema \<lparr> sc_column := cols \<rparr>;
       m' = snd (save_schema doc_lib sch \<lparr> mg_path = ''/r'', mg_schema = [], mg_fs = (\<lambda>_. None) \<rparr>)
   in \<exists>sch' m''. load_schema doc_lib (sc_header sch) (index_new 0 0 0 [] []) ''db.emp'' m' = (Inr (Some sch'), m'')
        \<and> sc_column sch' \<noteq> cols \<and> mset (sc_column sch') = mset cols"
proof -
  let ?cols = "map (\<lambda>i. column_sized 0 8 TYPE_INT (nat_str i)) [0..<101]"
  let ?sch = "demo_schema \<lparr> sc_column := ?cols \<rparr>"
  let ?m = "\<lparr> mg_path = ''/r'', mg_schema = [], mg_fs = (\<lambda>_. None) \<rparr> :: (string \<rightharpoonup> jdoc) manager"
  have cols: "list_all column_ok ?cols"
    by (simp add: list_all_iff column_ok_def column_sized_def column_default_def in32_def plain_nat_str del: upt_conv_Cons_Cons upt_rec_numeral)
  have ok: "schema_ok ?sch"
    using cols by (simp add: demo_schema_def schema_ok_def header_ok_def header_new_def
        index_ok_def index_new_def foreign_ok_def foreign_new_def in32_def in64_def del: upt_rec_numeral)
  have dist: "distinct ?cols"
    by (simp add: distinct_map inj_on_def column_sized_def column_default_def del: upt_rec_numeral)
  have nm: "schema_name ?sch = ''db.emp''"
    by (simp add: demo_schema_def schema_name_def header_new_def del: upt_rec_numeral)
  have sv: "save_schema doc_lib ?sch ?m = (Inr (), snd (save_schema doc_lib ?sch ?m))"
    using decode_calls [of "schema_doc ?sch"]
    by (simp add: save_schema_def doc_lib_def schema_calls [OF ok, symmetric] del: upt_rec_numeral)
  have len: "100 < length (sc_column ?sch)" by (simp del: upt_rec_numeral)
  have dist': "distinct (sc_column ?sch)" using dist by (simp del: upt_rec_numeral)
  from column_order_lost [OF doc_lib_laws ok len dist' sv] nm show ?thesis
    by (simp add: Let_def del: upt_rec_numeral)
qed

section \<open>Generated names and searches\<close>

lemma make_name_loop_None:
  "make_name_loop n i prefix nms = None \<Longrightarrow> (\<lambda>j. prefix @ pad0 3 j) ` {i..<i + int n} \<subseteq> set nms"
proof (induction n arbitrary: i)
  case (Suc n)
  then have "prefix @ pad0 3 i \<in> set nms" "make_name_loop n (i + 1) prefix nms = None"
    by (auto simp: Let_def split: if_splits)
  moreover have "{i..<i + int (Suc n)} = insert i {i + 1..<(i + 1) + int n}" by auto
  ultimately show ?case using Suc.IH [of "i + 1"] by simp
qed simp

lemma make_name_loop_Some:
  "make_name_loop n i prefix nms = Some nm \<Longrightarrow> nm \<notin> set nms
    \<and> (\<exists>k \<ge> i. nm = prefix @ pad0 3 k \<and> (\<lambda>j. prefix @ pad0 3 j) ` {i..<k} \<subseteq> set nms)"
proof (induction n arbitrary: i)
  case (Suc n)
  show ?case
  proof (cases "prefix @ pad0 3 i \<in> set nms")
    case True
    with Suc obtain k where k: "nm \<notin> set nms" "k \<ge> i + 1" "nm = prefix @ pad0 3 k"
      "(\<lambda>j. prefix @ pad0 3 j) ` {i + 1..<k} \<subseteq> set nms" by (auto simp: Let_def)
    have "{i..<k} = insert i {i + 1..<k}" using k(2) by auto
    with k True show ?thesis by (intro conjI exI [of _ k]) auto
  next
    case False
    with Suc.prems show ?thesis by (auto simp: Let_def intro: exI [of _ i])
  qed
qed simp

lemma pad0_inj: "inj_on (\<lambda>j. prefix @ pad0 w j) {0..}"
  by (rule inj_onI) (metis append_same_eq pad0_val same_append_eq atLeast_iff zero_le_imp_eq_int)

text \<open>
  C22. \<open>name<T>::make\<close> always ends with a name that no entry of the list has: the
  prefix with the smallest number that is free.
\<close>

theorem make_name_fresh:
  "\<exists>k \<ge> 0. make_name prefix nms = Some (prefix @ pad0 3 k) \<and> prefix @ pad0 3 k \<notin> set nms
     \<and> (\<lambda>j. prefix @ pad0 3 j) ` {0..<k} \<subseteq> set nms"
proof (cases "make_name prefix nms")
  case None
  let ?f = "\<lambda>j. prefix @ pad0 3 j" and ?I = "{0..<int (Suc (length nms))}"
  have "?f ` ?I \<subseteq> set nms"
    using make_name_loop_None [OF None [unfolded make_name_def]] by simp
  then have "card (?f ` ?I) \<le> card (set nms)" by (rule card_mono [OF finite_set])
  also have "card (set nms) \<le> length nms" by (rule card_length)
  finally have "card (?f ` ?I) \<le> length nms" .
  moreover have "inj_on ?f ?I" by (rule inj_on_subset [OF pad0_inj]) auto
  then have "card (?f ` ?I) = Suc (length nms)" by (simp add: card_image)
  ultimately show ?thesis by simp
next
  case (Some nm)
  from make_name_loop_Some [OF this [unfolded make_name_def]] Some show ?thesis by auto
qed

lemma find_pos_Some: "find_pos f nm xs = Some i \<Longrightarrow> i < length xs \<and> f (xs ! i) = nm"
  by (induction xs arbitrary: i) (auto split: if_splits)

lemma find_pos_None: "find_pos f nm xs = None \<longleftrightarrow> nm \<notin> f ` set xs"
  by (induction xs) auto

lemma lookup_by_name:
  "distinct (map f xs) \<Longrightarrow> map_option (nth xs) (find_pos f nm xs) = map_of (map (\<lambda>x. (f x, x)) xs) nm"
  by (induction xs) (auto simp: map_option.compositionality o_def)

text \<open>
  C24. Dropping an index that is not the primary one makes its name unknown and
  leaves every other index as it is; the count in the header goes down by one
  exactly when there was such an index. The primary index is never dropped.
\<close>

theorem remove_index_lookup:
  assumes "distinct (map ix_name (sc_index s))"
  shows "get_index (remove_index nm s) k =
      (if k = nm \<and> nm \<noteq> PK_NDX then Inl (Runtime ERRNO_INDEX_ERROR) else get_index s k)
    \<and> hd_index_count (sc_header (remove_index nm s)) - int (length (sc_index (remove_index nm s)))
      = hd_index_count (sc_header s) - int (length (sc_index s))"
proof (cases "nm = PK_NDX \<or> find_pos ix_name nm (sc_index s) = None")
  case True
  then have "remove_index nm s = s" by (auto simp: remove_index_def)
  with True show ?thesis by (auto simp: get_index_def)
next
  case False
  then obtain i where i: "find_pos ix_name nm (sc_index s) = Some i" by auto
  let ?xs = "sc_index s" and ?ys = "take i (sc_index s) @ drop (Suc i) (sc_index s)"
  have lt: "i < length ?xs" "ix_name (?xs ! i) = nm" using find_pos_Some [OF i] by auto
  have split: "?xs = take i ?xs @ ?xs ! i # drop (Suc i) ?xs" by (rule id_take_nth_drop [OF lt(1)])
  have "distinct (map ix_name (take i ?xs @ ?xs ! i # drop (Suc i) ?xs))" using assms split by simp
  then have d: "distinct (map ix_name ?ys)" "nm \<notin> ix_name ` set ?ys" using lt(2) by auto
  let ?tab = "\<lambda>xs. map_of (map (\<lambda>x. (ix_name x, x)) xs)"
  have "?tab (take i ?xs @ ?xs ! i # drop (Suc i) ?xs) k = (if k = nm then Some (?xs ! i) else ?tab ?ys k)"
  proof (cases "k = nm")
    case True
    have "?tab (take i ?xs) nm = None" using d(2) by (auto simp: map_of_eq_None_iff)
    with True lt(2) show ?thesis by (simp add: map_add_def)
  qed (use lt(2) in \<open>simp add: map_add_def split: option.split\<close>)
  then have tab: "?tab ?xs k = (if k = nm then Some (?xs ! i) else ?tab ?ys k)" using split by simp
  have get: "get_index t k = (case ?tab (sc_index t) k of None \<Rightarrow> Inl (Runtime ERRNO_INDEX_ERROR) | Some x \<Rightarrow> Inr x)"
    if "distinct (map ix_name (sc_index t))" for t
    unfolding lookup_by_name [OF that, of k, symmetric] by (simp add: get_index_def split: option.split)
  have rm: "sc_index (remove_index nm s) = ?ys" using False i by (simp add: remove_index_def)
  have none: "?tab ?ys nm = None" using d(2) by (auto simp: map_of_eq_None_iff)
  show ?thesis
    using False i lt get [OF assms] get [of "remove_index nm s"] rm d(1) tab none
    by (auto simp: remove_index_def split: option.splits)
qed

theorem remove_index_lookup_witness:
  "get_index (remove_index ''NDX_001'' (demo_schema \<lparr> sc_index := sc_index demo_schema @ [index_new 0 4 8 ''NDX_001'' []] \<rparr>)) ''NDX_001''
     = Inl (Runtime ERRNO_INDEX_ERROR)"
  using remove_index_lookup [of "demo_schema \<lparr> sc_index := sc_index demo_schema @ [index_new 0 4 8 ''NDX_001'' []] \<rparr>" "''NDX_001''" "''NDX_001''"]
  by (simp add: demo_schema_def index_new_def)

end
