(* ===== verification/Buffer.thy ===== *)
theory Buffer
  imports Eno
begin

text \<open>
  The byte buffer of \<open>src/buffer\<close>, on which every other component reads and
  writes its bytes: class \<open>bits\<close> (composition of integers from bytes), class
  \<open>bbuffer\<close> (size, bound and index) and class \<open>buffer\<close> (typed access). The
  little-endian branch of the conditional compilation is modelled. Machine
  integers are words of their width; \<open>mutate\<close> reinterprets the bits of a value,
  so that the signed and the unsigned integers of a width share one word type
  and a \<open>float\<close> or \<open>double\<close> is its bit pattern. Positions are \<open>int\<close>: the code
  keeps them in \<open>int32_t\<close>, and the invariant bounds them by the size, itself
  an \<open>int32_t\<close>. Each buffer owns its bytes; two buffer objects that share one
  backing array through copying are outside the model.
\<close>

section \<open>Class bits\<close>

datatype byte_order = NONE | BIG_END | LITTLE_END

text \<open>The first byte in memory of \<open>0x01000004\<close> on the modelled host.\<close>

definition native_byte_order :: "32 word \<Rightarrow> byte_order" where
  "native_byte_order x = (let b = ucast x :: byte in
     if b = 0x01 then BIG_END else if b = 0x04 then LITTLE_END else NONE)"

abbreviation (input) MASK_16_BYTE_0 :: "16 word" where "MASK_16_BYTE_0 \<equiv> 0x00FF"
abbreviation (input) MASK_16_BYTE_1 :: "16 word" where "MASK_16_BYTE_1 \<equiv> 0xFF00"

abbreviation (input) MASK_32_BYTE_0 :: "32 word" where "MASK_32_BYTE_0 \<equiv> 0x000000FF"
abbreviation (input) MASK_32_BYTE_1 :: "32 word" where "MASK_32_BYTE_1 \<equiv> 0x0000FF00"
abbreviation (input) MASK_32_BYTE_2 :: "32 word" where "MASK_32_BYTE_2 \<equiv> 0x00FF0000"
abbreviation (input) MASK_32_BYTE_3 :: "32 word" where "MASK_32_BYTE_3 \<equiv> 0xFF000000"

abbreviation (input) MASK_64_BYTE_0 :: "64 word" where "MASK_64_BYTE_0 \<equiv> 0x00000000000000FF"
abbreviation (input) MASK_64_BYTE_1 :: "64 word" where "MASK_64_BYTE_1 \<equiv> 0x000000000000FF00"
abbreviation (input) MASK_64_BYTE_2 :: "64 word" where "MASK_64_BYTE_2 \<equiv> 0x0000000000FF0000"
abbreviation (input) MASK_64_BYTE_3 :: "64 word" where "MASK_64_BYTE_3 \<equiv> 0x00000000FF000000"
abbreviation (input) MASK_64_BYTE_4 :: "64 word" where "MASK_64_BYTE_4 \<equiv> 0x000000FF00000000"
abbreviation (input) MASK_64_BYTE_5 :: "64 word" where "MASK_64_BYTE_5 \<equiv> 0x0000FF0000000000"
abbreviation (input) MASK_64_BYTE_6 :: "64 word" where "MASK_64_BYTE_6 \<equiv> 0x00FF000000000000"
abbreviation (input) MASK_64_BYTE_7 :: "64 word" where "MASK_64_BYTE_7 \<equiv> 0xFF00000000000000"

definition shift_right :: "nat \<Rightarrow> 'a::len word \<Rightarrow> 'a word \<Rightarrow> byte" where
  "shift_right SHIFT value msk = ucast (drop_bit SHIFT (value AND msk))"

definition shift_left :: "nat \<Rightarrow> byte \<Rightarrow> 'a::len word" where
  "shift_left SHIFT value = push_bit SHIFT (ucast value)"

definition to_uint16 :: "byte \<Rightarrow> byte \<Rightarrow> 16 word" where
  "to_uint16 b0 b1 = shift_left 8 b1 OR shift_left 0 b0"

definition to_uint32 :: "byte \<Rightarrow> byte \<Rightarrow> byte \<Rightarrow> byte \<Rightarrow> 32 word" where
  "to_uint32 b0 b1 b2 b3 =
     shift_left 24 b3 OR shift_left 16 b2 OR shift_left 8 b1 OR shift_left 0 b0"

definition to_uint64 ::
  "byte \<Rightarrow> byte \<Rightarrow> byte \<Rightarrow> byte \<Rightarrow> byte \<Rightarrow> byte \<Rightarrow> byte \<Rightarrow> byte \<Rightarrow> 64 word" where
  "to_uint64 b0 b1 b2 b3 b4 b5 b6 b7 =
     shift_left 56 b7 OR shift_left 48 b6 OR shift_left 40 b5 OR shift_left 32 b4
     OR shift_left 24 b3 OR shift_left 16 b2 OR shift_left 8 b1 OR shift_left 0 b0"

text \<open>The signed and floating readings keep the bits.\<close>

definition to_int16 :: "byte \<Rightarrow> byte \<Rightarrow> 16 word" where
  "to_int16 b0 b1 = to_uint16 b0 b1"

definition to_int32 :: "byte \<Rightarrow> byte \<Rightarrow> byte \<Rightarrow> byte \<Rightarrow> 32 word" where
  "to_int32 b0 b1 b2 b3 = to_uint32 b0 b1 b2 b3"

definition to_int64 ::
  "byte \<Rightarrow> byte \<Rightarrow> byte \<Rightarrow> byte \<Rightarrow> byte \<Rightarrow> byte \<Rightarrow> byte \<Rightarrow> byte \<Rightarrow> 64 word" where
  "to_int64 b0 b1 b2 b3 b4 b5 b6 b7 = to_uint64 b0 b1 b2 b3 b4 b5 b6 b7"

definition to_float :: "byte \<Rightarrow> byte \<Rightarrow> byte \<Rightarrow> byte \<Rightarrow> 32 word" where
  "to_float b0 b1 b2 b3 = to_uint32 b0 b1 b2 b3"

definition to_double ::
  "byte \<Rightarrow> byte \<Rightarrow> byte \<Rightarrow> byte \<Rightarrow> byte \<Rightarrow> byte \<Rightarrow> byte \<Rightarrow> byte \<Rightarrow> 64 word" where
  "to_double b0 b1 b2 b3 b4 b5 b6 b7 = to_uint64 b0 b1 b2 b3 b4 b5 b6 b7"

section \<open>Classes bbuffer and buffer\<close>

record buffer =
  m_size :: int
  m_bound :: int
  m_index :: int
  m_cb_commit :: "nat option"
  m_buffer :: "byte list"

type_synonym 'a bufm = "(error, buffer, 'a) exn"

text \<open>
  The constructor with a backing array; the one that allocates leaves the
  bytes uninitialised, which is any array of that length.
\<close>

definition new_buffer :: "int \<Rightarrow> byte list \<Rightarrow> buffer" where
  "new_buffer sz mem =
     \<lparr> m_size = sz, m_bound = sz, m_index = 0, m_cb_commit = None, m_buffer = mem \<rparr>"

definition bbuffer_assign :: "buffer \<Rightarrow> buffer \<Rightarrow> buffer" where
  "bbuffer_assign this other =
     this \<lparr> m_size := m_size other, m_bound := m_bound other, m_index := m_index other \<rparr>"

definition remaining :: "buffer \<Rightarrow> int" where
  "remaining b = m_bound b - m_index b"

definition has_more :: "buffer \<Rightarrow> bool" where
  "has_more b = (m_bound b > m_index b)"

definition set_bound :: "int \<Rightarrow> unit bufm" where
  "set_bound bound = (\<lambda>b.
     if bound < 0 \<or> bound > m_size b then (Inl (Runtime ERRNO_BUF_BOUND_ERROR), b)
     else (Inr (), b \<lparr> m_bound := bound,
                       m_index := (if m_index b > bound then bound else m_index b) \<rparr>))"

definition clear :: "unit bufm" where
  "clear = modify (\<lambda>b. b \<lparr> m_bound := m_size b, m_index := 0 \<rparr>)"

definition set_index :: "int \<Rightarrow> unit bufm" where
  "set_index value = (\<lambda>b.
     if value < 0 \<or> value > m_bound b then (Inl (Runtime ERRNO_BUF_INDEX_ERROR), b)
     else (Inr (), b \<lparr> m_index := value \<rparr>))"

definition reset :: "unit bufm" where
  "reset = modify (\<lambda>b. b \<lparr> m_bound := m_size b, m_index := 0 \<rparr>)"

definition rewind :: "unit bufm" where
  "rewind = modify (\<lambda>b. b \<lparr> m_index := 0 \<rparr>)"

definition trip :: "unit bufm" where
  "trip = modify (\<lambda>b. b \<lparr> m_bound := m_index b, m_index := 0 \<rparr>)"

text \<open>
  Assignment of buffers: only the callback and the backing array are taken
  over, the position of the target stays.
\<close>

definition buffer_assign :: "buffer \<Rightarrow> unit bufm" where
  "buffer_assign other = (\<lambda>this.
     if m_size this \<noteq> m_size other then (Inl (Runtime ERRNO_BUF_SIZE_ERROR), this)
     else (Inr (), this \<lparr> m_cb_commit := m_cb_commit other, m_buffer := m_buffer other \<rparr>))"

definition set_commit_cb :: "nat option \<Rightarrow> unit bufm" where
  "set_commit_cb cb = modify (\<lambda>b. b \<lparr> m_cb_commit := cb \<rparr>)"

subsection \<open>Reading\<close>

text \<open>
  \<open>get()\<close> reads the byte first and moves the index afterwards: at the bound
  the read value is dropped by the exception of \<open>index\<close>.
\<close>

definition get :: "byte bufm" where
  "get = bnd (gets (\<lambda>b. m_buffer b ! nat (m_index b))) (\<lambda>v.
         bnd (gets m_index) (\<lambda>i.
         sq (set_index (i + 1)) (ret v)))"

definition get_at :: "int \<Rightarrow> byte bufm" where
  "get_at n = sq (set_index n) get"

definition get_char :: "char bufm" where
  "get_char = bnd get (\<lambda>v. ret (char_of (unat v)))"

definition get_char_at :: "int \<Rightarrow> char bufm" where
  "get_char_at n = bnd (get_at n) (\<lambda>v. ret (char_of (unat v)))"

definition get_double :: "64 word bufm" where
  "get_double = bnd (gets m_index) (\<lambda>i.
     bnd (get_at (i + 7)) (\<lambda>b0. bnd (get_at (i + 6)) (\<lambda>b1.
     bnd (get_at (i + 5)) (\<lambda>b2. bnd (get_at (i + 4)) (\<lambda>b3.
     bnd (get_at (i + 3)) (\<lambda>b4. bnd (get_at (i + 2)) (\<lambda>b5.
     bnd (get_at (i + 1)) (\<lambda>b6. bnd (get_at i) (\<lambda>b7.
     sq (set_index (i + 8)) (ret (to_double b0 b1 b2 b3 b4 b5 b6 b7)))))))))))"

definition get_double_at :: "int \<Rightarrow> 64 word bufm" where
  "get_double_at n = sq (set_index n) get_double"

definition get_float :: "32 word bufm" where
  "get_float = bnd (gets m_index) (\<lambda>i.
     bnd (get_at (i + 3)) (\<lambda>b0. bnd (get_at (i + 2)) (\<lambda>b1.
     bnd (get_at (i + 1)) (\<lambda>b2. bnd (get_at i) (\<lambda>b3.
     sq (set_index (i + 4)) (ret (to_float b0 b1 b2 b3)))))))"

definition get_float_at :: "int \<Rightarrow> 32 word bufm" where
  "get_float_at n = sq (set_index n) get_float"

definition get_int16 :: "16 word bufm" where
  "get_int16 = bnd (gets m_index) (\<lambda>i.
     bnd (get_at (i + 1)) (\<lambda>b0. bnd (get_at i) (\<lambda>b1.
     sq (set_index (i + 2)) (ret (to_int16 b0 b1)))))"

definition get_int16_at :: "int \<Rightarrow> 16 word bufm" where
  "get_int16_at n = sq (set_index n) get_int16"

definition get_int32 :: "32 word bufm" where
  "get_int32 = bnd (gets m_index) (\<lambda>i.
     bnd (get_at (i + 3)) (\<lambda>b0. bnd (get_at (i + 2)) (\<lambda>b1.
     bnd (get_at (i + 1)) (\<lambda>b2. bnd (get_at i) (\<lambda>b3.
     sq (set_index (i + 4)) (ret (to_int32 b0 b1 b2 b3)))))))"

definition get_int32_at :: "int \<Rightarrow> 32 word bufm" where
  "get_int32_at n = sq (set_index n) get_int32"

definition get_int64 :: "64 word bufm" where
  "get_int64 = bnd (gets m_index) (\<lambda>i.
     bnd (get_at (i + 7)) (\<lambda>b0. bnd (get_at (i + 6)) (\<lambda>b1.
     bnd (get_at (i + 5)) (\<lambda>b2. bnd (get_at (i + 4)) (\<lambda>b3.
     bnd (get_at (i + 3)) (\<lambda>b4. bnd (get_at (i + 2)) (\<lambda>b5.
     bnd (get_at (i + 1)) (\<lambda>b6. bnd (get_at i) (\<lambda>b7.
     sq (set_index (i + 8)) (ret (to_int64 b0 b1 b2 b3 b4 b5 b6 b7)))))))))))"

definition get_int64_at :: "int \<Rightarrow> 64 word bufm" where
  "get_int64_at n = sq (set_index n) get_int64"

text \<open>\<open>while (size-- > 0) s += get_char()\<close>.\<close>

fun get_varchar_loop :: "nat \<Rightarrow> string \<Rightarrow> string bufm" where
  "get_varchar_loop 0 s = ret s"
| "get_varchar_loop (Suc n) s = bnd get_char (\<lambda>c. get_varchar_loop n (s @ [c]))"

definition get_varchar :: "int \<Rightarrow> string bufm" where
  "get_varchar sz = get_varchar_loop (nat sz) []"

definition get_varchar_at :: "int \<Rightarrow> int \<Rightarrow> string bufm" where
  "get_varchar_at n sz = sq (set_index n) (get_varchar sz)"

subsection \<open>Writing\<close>

definition put :: "byte \<Rightarrow> unit bufm" where
  "put value = bnd (gets remaining) (\<lambda>r.
     if r = 0 then throw (Runtime ERRNO_BUF_REMAINING_ERROR)
     else sq (modify (\<lambda>b. b \<lparr> m_buffer := (m_buffer b)[nat (m_index b) := value] \<rparr>))
         (bnd (gets m_index) (\<lambda>i. set_index (i + 1))))"

definition put_at :: "int \<Rightarrow> byte \<Rightarrow> unit bufm" where
  "put_at n value = sq (set_index n) (put value)"

definition put_char :: "char \<Rightarrow> unit bufm" where
  "put_char value = put (of_nat (of_char value))"

definition put_char_at :: "int \<Rightarrow> char \<Rightarrow> unit bufm" where
  "put_char_at n value = put_at n (of_nat (of_char value))"

definition put_double :: "64 word \<Rightarrow> unit bufm" where
  "put_double ui64 =
     sq (put (shift_right 56 ui64 MASK_64_BYTE_7)) (
     sq (put (shift_right 48 ui64 MASK_64_BYTE_6)) (
     sq (put (shift_right 40 ui64 MASK_64_BYTE_5)) (
     sq (put (shift_right 32 ui64 MASK_64_BYTE_4)) (
     sq (put (shift_right 24 ui64 MASK_64_BYTE_3)) (
     sq (put (shift_right 16 ui64 MASK_64_BYTE_2)) (
     sq (put (shift_right 8 ui64 MASK_64_BYTE_1))
        (put (shift_right 0 ui64 MASK_64_BYTE_0))))))))"

definition put_double_at :: "int \<Rightarrow> 64 word \<Rightarrow> unit bufm" where
  "put_double_at n value = sq (set_index n) (put_double value)"

definition put_float :: "32 word \<Rightarrow> unit bufm" where
  "put_float ui32 =
     sq (put (shift_right 24 ui32 MASK_32_BYTE_3)) (
     sq (put (shift_right 16 ui32 MASK_32_BYTE_2)) (
     sq (put (shift_right 8 ui32 MASK_32_BYTE_1))
        (put (shift_right 0 ui32 MASK_32_BYTE_0))))"

definition put_float_at :: "int \<Rightarrow> 32 word \<Rightarrow> unit bufm" where
  "put_float_at n value = sq (set_index n) (put_float value)"

definition put_int16 :: "16 word \<Rightarrow> unit bufm" where
  "put_int16 ui16 =
     sq (put (shift_right 8 ui16 MASK_16_BYTE_1))
        (put (shift_right 0 ui16 MASK_16_BYTE_0))"

definition put_int16_at :: "int \<Rightarrow> 16 word \<Rightarrow> unit bufm" where
  "put_int16_at n value = sq (set_index n) (put_int16 value)"

definition put_int32 :: "32 word \<Rightarrow> unit bufm" where
  "put_int32 ui32 =
     sq (put (shift_right 24 ui32 MASK_32_BYTE_3)) (
     sq (put (shift_right 16 ui32 MASK_32_BYTE_2)) (
     sq (put (shift_right 8 ui32 MASK_32_BYTE_1))
        (put (shift_right 0 ui32 MASK_32_BYTE_0))))"

definition put_int32_at :: "int \<Rightarrow> 32 word \<Rightarrow> unit bufm" where
  "put_int32_at n value = sq (set_index n) (put_int32 value)"

definition put_int64 :: "64 word \<Rightarrow> unit bufm" where
  "put_int64 ui64 =
     sq (put (shift_right 56 ui64 MASK_64_BYTE_7)) (
     sq (put (shift_right 48 ui64 MASK_64_BYTE_6)) (
     sq (put (shift_right 40 ui64 MASK_64_BYTE_5)) (
     sq (put (shift_right 32 ui64 MASK_64_BYTE_4)) (
     sq (put (shift_right 24 ui64 MASK_64_BYTE_3)) (
     sq (put (shift_right 16 ui64 MASK_64_BYTE_2)) (
     sq (put (shift_right 8 ui64 MASK_64_BYTE_1))
        (put (shift_right 0 ui64 MASK_64_BYTE_0))))))))"

definition put_int64_at :: "int \<Rightarrow> 64 word \<Rightarrow> unit bufm" where
  "put_int64_at n value = sq (set_index n) (put_int64 value)"

fun put_varchar :: "string \<Rightarrow> unit bufm" where
  "put_varchar [] = ret ()"
| "put_varchar (c # cs) = sq (put_char c) (put_varchar cs)"

definition put_varchar_at :: "int \<Rightarrow> string \<Rightarrow> unit bufm" where
  "put_varchar_at n value = sq (set_index n) (put_varchar value)"

subsection \<open>Copying between two buffers\<close>

text \<open>
  The state is the pair of this buffer and the buffer \<open>b\<close>. The loops
  \<open>while (size-- > 0)\<close> run a given number of times; the loops on
  \<open>remaining() > 0\<close> end because each \<open>get\<close> takes a byte away.
\<close>

definition move_byte :: "(error, buffer \<times> buffer, unit) exn" where
  "move_byte = bnd (on_fst get) (\<lambda>v. on_snd (put v))"

fun get_n_loop :: "nat \<Rightarrow> (error, buffer \<times> buffer, unit) exn" where
  "get_n_loop 0 = ret ()"
| "get_n_loop (Suc n) = sq move_byte (get_n_loop n)"

lemma get_run:
  "get b = (if m_index b + 1 < 0 \<or> m_bound b < m_index b + 1
            then (Inl (Runtime ERRNO_BUF_INDEX_ERROR), b)
            else (Inr (m_buffer b ! nat (m_index b)), b \<lparr> m_index := m_index b + 1 \<rparr>))"
  by (simp add: get_def bnd_run sq_run set_index_def)

function get_all_loop :: "buffer \<times> buffer \<Rightarrow> (error + unit) \<times> (buffer \<times> buffer)" where
  "get_all_loop (this, b) =
     (if remaining this > 0
      then (case get this of
              (Inl e, this') \<Rightarrow> (Inl e, (this', b))
            | (Inr v, this') \<Rightarrow> (case put v b of
                (Inl e, b') \<Rightarrow> (Inl e, (this', b'))
              | (Inr _, b') \<Rightarrow> get_all_loop (this', b')))
      else (Inr (), (this, b)))"
  by pat_completeness auto
termination
  by (relation "measure (\<lambda>(this, b). nat (remaining this))")
     (auto simp: get_run remaining_def split: if_splits)

definition get_buffer :: "(error, buffer \<times> buffer, unit) exn" where
  "get_buffer = (\<lambda>(this, b).
     if remaining this > remaining b then (Inl (Runtime ERRNO_BUF_REMAINING_ERROR), (this, b))
     else get_all_loop (this, b))"

definition get_buffer_at :: "int \<Rightarrow> (error, buffer \<times> buffer, unit) exn" where
  "get_buffer_at n = sq (on_fst (set_index n)) get_buffer"

definition get_buffer_n :: "int \<Rightarrow> int \<Rightarrow> (error, buffer \<times> buffer, unit) exn" where
  "get_buffer_n n sz = sq (on_fst (set_index n)) (\<lambda>(this, b).
     if sz > remaining this \<and> sz > remaining b
     then (Inl (Runtime ERRNO_BUF_REMAINING_ERROR), (this, b))
     else get_n_loop (nat sz) (this, b))"

text \<open>\<open>put\<close> is the same traffic in the other direction: the bytes come from \<open>b\<close>.\<close>

definition swap_bufs :: "(error, buffer \<times> buffer, unit) exn \<Rightarrow> (error, buffer \<times> buffer, unit) exn" where
  "swap_bufs m = (\<lambda>(this, b). case m (b, this) of (r, (b', this')) \<Rightarrow> (r, (this', b')))"

definition put_buffer :: "(error, buffer \<times> buffer, unit) exn" where
  "put_buffer = (\<lambda>(this, b).
     if remaining b > remaining this then (Inl (Runtime ERRNO_BUF_REMAINING_ERROR), (this, b))
     else swap_bufs get_all_loop (this, b))"

definition put_buffer_at :: "int \<Rightarrow> (error, buffer \<times> buffer, unit) exn" where
  "put_buffer_at n = sq (on_fst (set_index n)) put_buffer"

definition put_buffer_n :: "int \<Rightarrow> int \<Rightarrow> (error, buffer \<times> buffer, unit) exn" where
  "put_buffer_n n sz = sq (on_fst (set_index n)) (\<lambda>(this, b).
     if sz > remaining this \<and> sz > remaining b
     then (Inl (Runtime ERRNO_BUF_REMAINING_ERROR), (this, b))
     else swap_bufs (get_n_loop (nat sz)) (this, b))"

section \<open>Bytes of an integer\<close>

lemma mask_eqs:
  "(0x00FF :: 16 word) = push_bit 0 (mask 8)" "(0xFF00 :: 16 word) = push_bit 8 (mask 8)"
  "(0x000000FF :: 32 word) = push_bit 0 (mask 8)" "(0x0000FF00 :: 32 word) = push_bit 8 (mask 8)"
  "(0x00FF0000 :: 32 word) = push_bit 16 (mask 8)" "(0xFF000000 :: 32 word) = push_bit 24 (mask 8)"
  "(0x00000000000000FF :: 64 word) = push_bit 0 (mask 8)"
  "(0x000000000000FF00 :: 64 word) = push_bit 8 (mask 8)"
  "(0x0000000000FF0000 :: 64 word) = push_bit 16 (mask 8)"
  "(0x00000000FF000000 :: 64 word) = push_bit 24 (mask 8)"
  "(0x000000FF00000000 :: 64 word) = push_bit 32 (mask 8)"
  "(0x0000FF0000000000 :: 64 word) = push_bit 40 (mask 8)"
  "(0x00FF000000000000 :: 64 word) = push_bit 48 (mask 8)"
  "(0xFF00000000000000 :: 64 word) = push_bit 56 (mask 8)"
  by (simp_all add: mask_eq_exp_minus_1)

lemma bit_shift_right:
  "msk = push_bit k (mask 8) \<Longrightarrow> bit (shift_right k (v::'a::len word) msk) n \<longleftrightarrow> n < 8 \<and> bit v (k + n)"
  by (auto simp: shift_right_def bit_simps add.commute dest: bit_imp_le_length)

lemma bit_shift_left:
  "bit (shift_left k b :: 'a::len word) n \<longleftrightarrow> n < LENGTH('a) \<and> k \<le> n \<and> bit b (n - k)"
  by (auto simp: shift_left_def bit_simps dest: bit_imp_le_length)

lemma bit_byte_in_place:
  assumes "msk = push_bit k (mask 8)"
  shows "bit (shift_left k (shift_right k (v :: 'a::len word) msk) :: 'a word) n \<longleftrightarrow> k \<le> n \<and> n < k + 8 \<and> bit v n"
  using bit_imp_le_length [of v n] by (auto simp: bit_shift_left bit_shift_right [OF assms])

lemmas byte_bits = bit_or_iff mask_eqs [THEN bit_byte_in_place]

definition bytes16 :: "16 word \<Rightarrow> byte list" where
  "bytes16 v = [shift_right 8 v MASK_16_BYTE_1, shift_right 0 v MASK_16_BYTE_0]"

definition bytes32 :: "32 word \<Rightarrow> byte list" where
  "bytes32 v = [shift_right 24 v MASK_32_BYTE_3, shift_right 16 v MASK_32_BYTE_2,
                shift_right 8 v MASK_32_BYTE_1, shift_right 0 v MASK_32_BYTE_0]"

definition bytes64 :: "64 word \<Rightarrow> byte list" where
  "bytes64 v = [shift_right 56 v MASK_64_BYTE_7, shift_right 48 v MASK_64_BYTE_6,
                shift_right 40 v MASK_64_BYTE_5, shift_right 32 v MASK_64_BYTE_4,
                shift_right 24 v MASK_64_BYTE_3, shift_right 16 v MASK_64_BYTE_2,
                shift_right 8 v MASK_64_BYTE_1, shift_right 0 v MASK_64_BYTE_0]"

definition word16_of :: "byte list \<Rightarrow> 16 word" where
  "word16_of bs = to_uint16 (bs ! 1) (bs ! 0)"

definition word32_of :: "byte list \<Rightarrow> 32 word" where
  "word32_of bs = to_uint32 (bs ! 3) (bs ! 2) (bs ! 1) (bs ! 0)"

definition word64_of :: "byte list \<Rightarrow> 64 word" where
  "word64_of bs = to_uint64 (bs ! 7) (bs ! 6) (bs ! 5) (bs ! 4) (bs ! 3) (bs ! 2) (bs ! 1) (bs ! 0)"

lemma word16_of_bytes16 [simp]: "word16_of (bytes16 v) = v"
proof (rule bit_word_eqI)
  fix n assume "n < LENGTH(16)"
  then have "n < 16" by simp
  then show "bit (word16_of (bytes16 v)) n = bit v n"
    unfolding word16_of_def bytes16_def to_uint16_def nth_Cons_numeral nth_Cons_0 byte_bits
    by (simp add: byte_bits del: bit_push_bit_iff) arith
qed

lemma word32_of_bytes32 [simp]: "word32_of (bytes32 v) = v"
proof (rule bit_word_eqI)
  fix n assume "n < LENGTH(32)"
  then have "n < 32" by simp
  then show "bit (word32_of (bytes32 v)) n = bit v n"
    unfolding word32_of_def bytes32_def to_uint32_def nth_Cons_numeral nth_Cons_0 byte_bits
    by (simp add: byte_bits del: bit_push_bit_iff) arith
qed

lemma word64_of_bytes64 [simp]: "word64_of (bytes64 v) = v"
proof (rule bit_word_eqI)
  fix n assume "n < LENGTH(64)"
  then have "n < 64" by simp
  then show "bit (word64_of (bytes64 v)) n = bit v n"
    unfolding word64_of_def bytes64_def to_uint64_def nth_Cons_numeral nth_Cons_0 byte_bits
    by (simp add: byte_bits del: bit_push_bit_iff) arith
qed

lemma bytes_length [simp]:
  "length (bytes16 v) = 2" "length (bytes32 w) = 4" "length (bytes64 x) = 8"
  by (simp_all add: bytes16_def bytes32_def bytes64_def)

section \<open>Reading and writing runs of bytes\<close>

definition buf_inv :: "buffer \<Rightarrow> bool" where
  "buf_inv b \<longleftrightarrow> 0 \<le> m_index b \<and> m_index b \<le> m_bound b \<and> m_bound b \<le> m_size b
     \<and> int (length (m_buffer b)) = m_size b"

definition splice :: "nat \<Rightarrow> 'a list \<Rightarrow> 'a list \<Rightarrow> 'a list" where
  "splice i bs mem = take i mem @ bs @ drop (i + length bs) mem"

definition write_bytes :: "byte list \<Rightarrow> buffer \<Rightarrow> buffer" where
  "write_bytes bs b = b \<lparr> m_buffer := splice (nat (m_index b)) bs (m_buffer b),
                          m_index := m_index b + int (length bs) \<rparr>"

definition read_bytes :: "nat \<Rightarrow> buffer \<Rightarrow> byte list" where
  "read_bytes n b = take n (drop (nat (m_index b)) (m_buffer b))"

definition advance :: "nat \<Rightarrow> buffer \<Rightarrow> buffer" where
  "advance n b = b \<lparr> m_index := m_index b + int n \<rparr>"

fun put_bytes :: "byte list \<Rightarrow> unit bufm" where
  "put_bytes [] = ret ()"
| "put_bytes (v # vs) = sq (put v) (put_bytes vs)"

lemma buf_invI [intro]:
  "0 \<le> m_index b \<Longrightarrow> m_index b \<le> m_bound b \<Longrightarrow> m_bound b \<le> m_size b
    \<Longrightarrow> int (length (m_buffer b)) = m_size b \<Longrightarrow> buf_inv b"
  by (simp add: buf_inv_def)

lemma splice_length [simp]: "i + length bs \<le> length mem \<Longrightarrow> length (splice i bs mem) = length mem"
  by (simp add: splice_def)

lemma splice_Nil [simp]: "splice i [] mem = mem"
  by (simp add: splice_def)

lemma splice_single: "i < length mem \<Longrightarrow> mem[i := v] = splice i [v] mem"
  by (simp add: splice_def upd_conv_take_nth_drop)

lemma splice_splice:
  "i + length xs + length ys \<le> length mem \<Longrightarrow>
     splice (i + length xs) ys (splice i xs mem) = splice i (xs @ ys) mem"
  by (simp add: splice_def min_absorb2 ac_simps)

lemma splice_read:
  "i + length bs \<le> length mem \<Longrightarrow> take (length bs) (drop i (splice i bs mem)) = bs"
  by (simp add: splice_def)

lemma splice_frame:
  "i + length bs \<le> length mem \<Longrightarrow> j < i \<or> i + length bs \<le> j \<Longrightarrow> splice i bs mem ! j = mem ! j"
  by (auto simp: splice_def nth_append min_absorb2)

lemma write_bytes_inv:
  assumes "buf_inv b" "int (length bs) \<le> remaining b"
  shows "buf_inv (write_bytes bs b)"
proof -
  have "nat (m_index b) + length bs \<le> length (m_buffer b)"
    using assms by (simp add: buf_inv_def remaining_def) linarith
  with assms show ?thesis by (simp add: buf_inv_def write_bytes_def remaining_def)
qed

lemma write_bytes_remaining [simp]:
  "remaining (write_bytes bs b) = remaining b - int (length bs)"
  by (simp add: remaining_def write_bytes_def)

lemma put_run:
  assumes "buf_inv b"
  shows "put v b = (if remaining b = 0 then (Inl (Runtime ERRNO_BUF_REMAINING_ERROR), b)
                    else (Inr (), write_bytes [v] b))"
proof -
  have "remaining b \<noteq> 0 \<Longrightarrow> nat (m_index b) < length (m_buffer b)"
    using assms by (simp add: buf_inv_def remaining_def) linarith
  with assms show ?thesis
    by (auto simp: put_def exn_simps set_index_def write_bytes_def splice_single buf_inv_def
        remaining_def)
qed

lemma write_bytes_append:
  assumes "buf_inv b" "int (length xs + length ys) \<le> remaining b"
  shows "write_bytes ys (write_bytes xs b) = write_bytes (xs @ ys) b"
proof -
  have *: "nat (m_index b) + length xs + length ys \<le> length (m_buffer b)"
    using assms by (simp add: buf_inv_def remaining_def) linarith
  moreover have "nat (m_index b + int (length xs)) = nat (m_index b) + length xs"
    using assms by (simp add: buf_inv_def nat_add_distrib)
  ultimately show ?thesis by (simp add: write_bytes_def splice_splice)
qed

lemma put_bytes_run:
  assumes "buf_inv b"
  shows "put_bytes bs b =
    (if int (length bs) \<le> remaining b then (Inr (), write_bytes bs b)
     else (Inl (Runtime ERRNO_BUF_REMAINING_ERROR), write_bytes (take (nat (remaining b)) bs) b))"
  using assms
proof (induction bs arbitrary: b)
  case Nil
  then show ?case by (simp add: write_bytes_def buf_inv_def remaining_def)
next
  case (Cons v vs)
  show ?case
  proof (cases "remaining b = 0")
    case True
    with Cons.prems show ?thesis
      by (simp add: exn_simps put_run write_bytes_def)
  next
    case False
    with Cons.prems have rem: "1 \<le> remaining b"
      by (simp add: buf_inv_def remaining_def)
    then have inv: "buf_inv (write_bytes [v] b)"
      using Cons.prems by (intro write_bytes_inv) simp_all
    have take_eq: "take (nat (remaining b)) (v # vs) = v # take (nat (remaining b - 1)) vs"
      using rem by (cases "nat (remaining b)") (auto simp: nat_diff_distrib)
    have app: "int (length ws) \<le> remaining b - 1 \<Longrightarrow> write_bytes ws (write_bytes [v] b) = write_bytes (v # ws) b" for ws
      using write_bytes_append [OF Cons.prems, of "[v]" ws] by simp
    show ?thesis
      using Cons.IH [OF inv] False Cons.prems rem app [of vs] app [of "take (nat (remaining b - 1)) vs"]
      by (auto simp: exn_simps put_run take_eq min_def)
  qed
qed

lemma set_index_run:
  "set_index n b = (if 0 \<le> n \<and> n \<le> m_bound b then (Inr (), b \<lparr> m_index := n \<rparr>)
                    else (Inl (Runtime ERRNO_BUF_INDEX_ERROR), b))"
  by (simp add: set_index_def)

lemma get_at_run:
  assumes "buf_inv b"
  shows "get_at k b =
    (if 0 \<le> k \<and> k < m_bound b then (Inr (m_buffer b ! nat k), b \<lparr> m_index := k + 1 \<rparr>)
     else if k = m_bound b then (Inl (Runtime ERRNO_BUF_INDEX_ERROR), b \<lparr> m_index := k \<rparr>)
     else (Inl (Runtime ERRNO_BUF_INDEX_ERROR), b))"
  using assms by (auto simp: get_at_def exn_simps set_index_run get_run buf_inv_def)

lemma get_at_ok:
  "0 \<le> k \<Longrightarrow> k < m_bound b \<Longrightarrow> get_at k b = (Inr (m_buffer b ! nat k), b \<lparr> m_index := k + 1 \<rparr>)"
  by (auto simp: get_at_def exn_simps set_index_run get_run)

lemma fits: "buf_inv b \<Longrightarrow> int n \<le> remaining b \<Longrightarrow> nat (m_index b) + n \<le> length (m_buffer b)"
  by (simp add: buf_inv_def remaining_def) linarith

lemma read_bytes_nth:
  assumes "buf_inv b" "int n \<le> remaining b" "j < n"
  shows "read_bytes n b ! j = m_buffer b ! nat (m_index b + int j)"
  using fits [OF assms(1,2)] assms by (simp add: read_bytes_def buf_inv_def nat_add_distrib)

lemma read_bytes_length [simp]:
  "buf_inv b \<Longrightarrow> int n \<le> remaining b \<Longrightarrow> length (read_bytes n b) = n"
  using fits [of b n] by (simp add: read_bytes_def)

lemma advance_inv: "buf_inv b \<Longrightarrow> int n \<le> remaining b \<Longrightarrow> buf_inv (advance n b)"
  by (simp add: buf_inv_def advance_def remaining_def)

lemma set_index_inv: "buf_inv b \<Longrightarrow> buf_inv (snd (set_index n b))"
  by (auto simp: set_index_run buf_inv_def)

lemma get_at_inv: "buf_inv b \<Longrightarrow> buf_inv (snd (get_at k b))"
  by (auto simp: get_at_run buf_inv_def)

text \<open>
  The interface of a typed field of a buffer: a fixed number of bytes, an
  encoding that can be decoded, a \<open>put\<close> that writes exactly the encoding and a
  \<open>get\<close> that decodes the bytes at the index or fails with the index error.
\<close>

locale codec =
  fixes enc :: "'v \<Rightarrow> byte list"
    and dec :: "byte list \<Rightarrow> 'v"
    and width :: nat
    and put_v :: "'v \<Rightarrow> unit bufm"
    and get_v :: "'v bufm"
  assumes enc_length [simp]: "length (enc v) = width"
    and dec_enc [simp]: "dec (enc v) = v"
    and put_v_eq: "put_v v = put_bytes (enc v)"
    and get_v_run: "buf_inv b \<Longrightarrow> int width \<le> remaining b
      \<Longrightarrow> get_v b = (Inr (dec (read_bytes width b)), advance width b)"
    and get_v_short: "buf_inv b \<Longrightarrow> remaining b < int width
      \<Longrightarrow> fst (get_v b) = Inl (Runtime ERRNO_BUF_INDEX_ERROR) \<and> buf_inv (snd (get_v b))"
begin

lemma put_v_ok:
  "buf_inv b \<Longrightarrow> int width \<le> remaining b \<Longrightarrow> put_v v b = (Inr (), write_bytes (enc v) b)"
  by (simp add: put_v_eq put_bytes_run)

lemma put_v_full:
  "buf_inv b \<Longrightarrow> remaining b < int width
    \<Longrightarrow> put_v v b = (Inl (Runtime ERRNO_BUF_REMAINING_ERROR),
                    write_bytes (take (nat (remaining b)) (enc v)) b)"
  by (simp add: put_v_eq put_bytes_run)

lemma put_v_inv: "buf_inv b \<Longrightarrow> buf_inv (snd (put_v v b))"
  by (cases "int width \<le> remaining b")
     (auto simp: put_v_ok put_v_full intro!: write_bytes_inv, simp_all add: buf_inv_def remaining_def)

lemma get_v_inv: "buf_inv b \<Longrightarrow> buf_inv (snd (get_v b))"
  by (cases "int width \<le> remaining b")
     (auto simp: get_v_run get_v_short advance_inv)

lemma read_back:
  assumes "buf_inv b" "int width \<le> remaining b"
  shows "read_bytes width ((write_bytes (enc v) b) \<lparr> m_index := m_index b \<rparr>) = enc v"
proof -
  have "nat (m_index b) + length (enc v) \<le> length (m_buffer b)"
    using fits [OF assms] by simp
  from splice_read [OF this] show ?thesis
    by (simp add: read_bytes_def write_bytes_def)
qed

lemma put_get:
  assumes "buf_inv b" "0 \<le> n" "n + int width \<le> m_bound b"
  shows "sq (set_index n) (sq (put_v v) (sq (set_index n) get_v)) b
    = (Inr v, advance width
        ((write_bytes (enc v) (b \<lparr> m_index := n \<rparr>)) \<lparr> m_index := n \<rparr>))"
proof -
  let ?b = "b \<lparr> m_index := n \<rparr>"
  have inv: "buf_inv ?b" and rem: "int width \<le> remaining ?b"
    using assms by (auto simp: buf_inv_def remaining_def)
  have idx: "set_index n b = (Inr (), ?b)"
    using assms by (simp add: set_index_run)
  let ?w = "(write_bytes (enc v) ?b) \<lparr> m_index := n \<rparr>"
  have winv: "buf_inv ?w" "int width \<le> remaining ?w"
    using write_bytes_inv [OF inv, of "enc v"] rem assms
    by (auto simp: buf_inv_def remaining_def write_bytes_def)
  have at_n: "set_index n (write_bytes (enc v) ?b) = (Inr (), ?w)"
    using assms by (simp add: set_index_run write_bytes_def)
  have "read_bytes width ?w = enc v"
    using read_back [OF inv rem, of v] by simp
  then show ?thesis
    using put_v_ok [OF inv rem] get_v_run [OF winv] by (simp add: exn_simps idx at_n)
qed

lemma put_frame:
  assumes "buf_inv b" "int width \<le> remaining b"
    and "int j < m_index b \<or> m_index b + int width \<le> int j"
  shows "m_buffer (snd (put_v v b)) ! j = m_buffer b ! j"
proof -
  have "nat (m_index b) + length (enc v) \<le> length (m_buffer b)"
    using fits [OF assms(1,2)] by simp
  moreover have "j < nat (m_index b) \<or> nat (m_index b) + length (enc v) \<le> j"
    using assms by (auto simp: buf_inv_def)
  ultimately show ?thesis
    using assms by (simp add: put_v_ok write_bytes_def splice_frame)
qed

end

lemmas typed_defs =
  get_int16_def get_int32_def get_int64_def get_float_def get_double_def
  to_int16_def to_int32_def to_int64_def to_float_def to_double_def

lemma get_int16_ok:
  "buf_inv b \<Longrightarrow> 2 \<le> remaining b \<Longrightarrow> get_int16 b = (Inr (word16_of (read_bytes 2 b)), advance 2 b)"
  by (simp add: typed_defs exn_simps get_at_ok set_index_run remaining_def word16_of_def
      read_bytes_nth advance_def buf_inv_def)

lemma get_int32_ok:
  "buf_inv b \<Longrightarrow> 4 \<le> remaining b \<Longrightarrow> get_int32 b = (Inr (word32_of (read_bytes 4 b)), advance 4 b)"
  by (simp add: typed_defs exn_simps get_at_ok set_index_run remaining_def word32_of_def
      read_bytes_nth advance_def buf_inv_def)

lemma get_int64_ok:
  "buf_inv b \<Longrightarrow> 8 \<le> remaining b \<Longrightarrow> get_int64 b = (Inr (word64_of (read_bytes 8 b)), advance 8 b)"
  by (simp add: typed_defs exn_simps get_at_ok set_index_run remaining_def word64_of_def
      read_bytes_nth advance_def buf_inv_def)

lemma get_float_eq: "get_float = get_int32"
  by (simp add: typed_defs)

lemma get_double_eq: "get_double = get_int64"
  by (simp add: typed_defs)

lemma bnd_fst_Inl: "fst (m s) = Inl e \<Longrightarrow> bnd m f s = (Inl e, snd (m s))"
  by (cases "m s") simp

lemma get_at_short:
  "buf_inv b \<Longrightarrow> m_bound b \<le> k
    \<Longrightarrow> fst (get_at k b) = Inl (Runtime ERRNO_BUF_INDEX_ERROR) \<and> buf_inv (snd (get_at k b))"
  by (auto simp: get_at_run buf_inv_def)

lemma get_short:
  assumes "buf_inv b" "m_bound b \<le> m_index b + k"
  shows "fst (bnd (gets m_index) (\<lambda>i. bnd (get_at (i + k)) (f i)) b) = Inl (Runtime ERRNO_BUF_INDEX_ERROR)
    \<and> buf_inv (snd (bnd (gets m_index) (\<lambda>i. bnd (get_at (i + k)) (f i)) b))"
  using get_at_short [OF assms] by (simp add: bnd_fst_Inl)

lemma get_int_short:
  "buf_inv b \<Longrightarrow> remaining b < 2 \<Longrightarrow> fst (get_int16 b) = Inl (Runtime ERRNO_BUF_INDEX_ERROR) \<and> buf_inv (snd (get_int16 b))"
  "buf_inv b \<Longrightarrow> remaining b < 4 \<Longrightarrow> fst (get_int32 b) = Inl (Runtime ERRNO_BUF_INDEX_ERROR) \<and> buf_inv (snd (get_int32 b))"
  "buf_inv b \<Longrightarrow> remaining b < 8 \<Longrightarrow> fst (get_int64 b) = Inl (Runtime ERRNO_BUF_INDEX_ERROR) \<and> buf_inv (snd (get_int64 b))"
  unfolding get_int16_def get_int32_def get_int64_def
  by (rule get_short; simp add: remaining_def)+

lemma get_ok:
  "buf_inv b \<Longrightarrow> 1 \<le> remaining b \<Longrightarrow> get b = (Inr (hd (read_bytes 1 b)), advance 1 b)"
proof -
  assume b: "buf_inv b" "1 \<le> remaining b"
  then have "length (read_bytes 1 b) = 1" by (intro read_bytes_length) simp_all
  then have "read_bytes 1 b \<noteq> []" by force
  then have "hd (read_bytes 1 b) = m_buffer b ! nat (m_index b)"
    using b read_bytes_nth [of b 1 0] by (simp add: hd_conv_nth)
  with b show ?thesis by (simp add: get_run buf_inv_def remaining_def advance_def)
qed

lemma get_end:
  "buf_inv b \<Longrightarrow> remaining b < 1 \<Longrightarrow> get b = (Inl (Runtime ERRNO_BUF_INDEX_ERROR), b)"
  by (simp add: get_run buf_inv_def remaining_def)

interpretation u8: codec "\<lambda>v. [v]" hd 1 put get
  by unfold_locales (auto simp: get_ok get_end put_def sq_def exn_simps fun_eq_iff split: prod.splits sum.splits)

lemma put_int_eq:
  "put_int16 v = put_bytes (bytes16 v)" "put_int32 w = put_bytes (bytes32 w)"
  "put_int64 x = put_bytes (bytes64 x)" "put_float w = put_bytes (bytes32 w)"
  "put_double x = put_bytes (bytes64 x)"
  by (simp_all add: put_int16_def put_int32_def put_int64_def put_float_def put_double_def
      bytes16_def bytes32_def bytes64_def sq_def)

interpretation i16: codec bytes16 word16_of 2 put_int16 get_int16
  by unfold_locales (simp_all add: get_int16_ok get_int_short put_int_eq)

interpretation i32: codec bytes32 word32_of 4 put_int32 get_int32
  by unfold_locales (simp_all add: get_int32_ok get_int_short put_int_eq)

interpretation i64: codec bytes64 word64_of 8 put_int64 get_int64
  by unfold_locales (simp_all add: get_int64_ok get_int_short put_int_eq)

interpretation f32: codec bytes32 word32_of 4 put_float get_float
  by unfold_locales (simp_all add: get_float_eq get_int32_ok get_int_short put_int_eq)

interpretation f64: codec bytes64 word64_of 8 put_double get_double
  by unfold_locales (simp_all add: get_double_eq get_int64_ok get_int_short put_int_eq)

definition byte_of_char :: "char \<Rightarrow> byte" where
  "byte_of_char c = of_nat (of_char c)"

definition char_of_byte :: "byte \<Rightarrow> char" where
  "char_of_byte v = char_of (unat v)"

lemma char_of_byte_of_char [simp]: "char_of_byte (byte_of_char c) = c"
  by (simp add: char_of_byte_def byte_of_char_def unat_of_nat)

interpretation ch: codec "\<lambda>c. [byte_of_char c]" "\<lambda>bs. char_of_byte (hd bs)" 1 put_char get_char
proof
  show "put_char c = put_bytes [byte_of_char c]" for c
    using u8.put_v_eq by (simp add: put_char_def byte_of_char_def)
  show "get_char b = (Inr (char_of_byte (hd (read_bytes 1 b))), advance 1 b)"
    if "buf_inv b" "int 1 \<le> remaining b" for b
    using that by (simp add: get_char_def get_ok char_of_byte_def)
  show "fst (get_char b) = Inl (Runtime ERRNO_BUF_INDEX_ERROR) \<and> buf_inv (snd (get_char b))"
    if "buf_inv b" "remaining b < int 1" for b
    using that by (simp add: get_char_def get_end)
qed simp_all

section \<open>Character strings\<close>

lemma put_varchar_eq: "put_varchar s = put_bytes (map byte_of_char s)"
proof (induction s)
  case (Cons c s)
  have "put_char c = put (byte_of_char c)"
    by (simp add: put_char_def byte_of_char_def)
  with Cons show ?case by simp
qed simp

lemma get_varchar_loop_run:
  "buf_inv b \<Longrightarrow> int n \<le> remaining b
    \<Longrightarrow> get_varchar_loop n s b = (Inr (s @ map char_of_byte (read_bytes n b)), advance n b)"
proof (induction n arbitrary: s b)
  case 0
  then show ?case by (simp add: read_bytes_def advance_def)
next
  case (Suc n)
  let ?b = "advance 1 b"
  have r: "int 1 \<le> remaining b" using Suc.prems by simp
  have inv: "buf_inv ?b" using Suc.prems r by (blast intro: advance_inv)
  have rem: "int n \<le> remaining ?b" using Suc.prems by (simp add: remaining_def advance_def)
  have lt: "nat (m_index b) < length (m_buffer b)"
    using fits [OF Suc.prems(1) r] by simp
  have nxt: "nat (m_index b + 1) = Suc (nat (m_index b))"
    using Suc.prems by (simp add: buf_inv_def nat_add_distrib)
  have "read_bytes (Suc n) b = hd (read_bytes 1 b) # read_bytes n ?b"
    using lt by (simp add: read_bytes_def advance_def nxt Cons_nth_drop_Suc [symmetric])
  moreover have "advance n ?b = advance (Suc n) b" by (simp add: advance_def)
  ultimately show ?case
    using Suc.IH [OF inv rem] ch.get_v_run [OF Suc.prems(1) r] by simp
qed

lemma get_varchar_loop_short:
  "buf_inv b \<Longrightarrow> remaining b < int n
    \<Longrightarrow> fst (get_varchar_loop n s b) = Inl (Runtime ERRNO_BUF_INDEX_ERROR)
      \<and> buf_inv (snd (get_varchar_loop n s b))"
proof (induction n arbitrary: s b)
  case 0
  then show ?case by (simp add: buf_inv_def remaining_def)
next
  case (Suc n)
  show ?case
  proof (cases "1 \<le> remaining b")
    case True
    then have "buf_inv (advance 1 b)" using Suc.prems by (intro advance_inv) auto
    moreover have "remaining (advance 1 b) < int n"
      using Suc.prems by (simp add: remaining_def advance_def)
    ultimately show ?thesis
      using Suc.IH ch.get_v_run [of b] Suc.prems True by simp
  next
    case False
    then show ?thesis using ch.get_v_short [of b] Suc.prems by (simp add: bnd_fst_Inl)
  qed
qed

lemma get_varchar_inv: "buf_inv b \<Longrightarrow> buf_inv (snd (get_varchar n b))"
  using get_varchar_loop_run [of b "nat n" "[]"] get_varchar_loop_short [of b "nat n" "[]"]
  by (cases "int (nat n) \<le> remaining b") (auto simp: get_varchar_def intro: advance_inv)

lemma put_bytes_inv: "buf_inv b \<Longrightarrow> buf_inv (snd (put_bytes bs b))"
  by (auto simp: put_bytes_run intro!: write_bytes_inv) (simp add: buf_inv_def remaining_def)

lemma put_varchar_get_varchar:
  assumes "buf_inv b" "0 \<le> n" "n + int (length s) \<le> m_bound b"
  shows "fst (sq (put_varchar_at n s) (get_varchar_at n (int (length s))) b) = Inr s"
proof -
  let ?b = "b \<lparr> m_index := n \<rparr>" and ?bs = "map byte_of_char s"
  have inv: "buf_inv ?b" and rem: "int (length ?bs) \<le> remaining ?b"
    using assms by (auto simp: buf_inv_def remaining_def)
  let ?w = "(write_bytes ?bs ?b) \<lparr> m_index := n \<rparr>"
  have winv: "buf_inv ?w" "int (length s) \<le> remaining ?w"
    using write_bytes_inv [OF inv rem] assms
    by (auto simp: buf_inv_def remaining_def write_bytes_def)
  have idx: "set_index n b = (Inr (), ?b)" "set_index n (write_bytes ?bs ?b) = (Inr (), ?w)"
    using assms by (simp_all add: set_index_run write_bytes_def)
  have "read_bytes (length s) ?w = ?bs"
    using fits [OF inv rem] splice_read [of "nat n" ?bs "m_buffer b"]
    by (simp add: read_bytes_def write_bytes_def)
  then show ?thesis
    using idx rem get_varchar_loop_run [OF winv]
    by (simp add: put_varchar_at_def get_varchar_at_def get_varchar_def put_varchar_eq exn_simps
        put_bytes_run [OF inv] o_def map_idI)
qed

section \<open>Copying\<close>

lemma move_byte_ok:
  assumes "buf_inv a" "buf_inv b" "1 \<le> remaining a" "1 \<le> remaining b"
  shows "move_byte (a, b) = (Inr (), (advance 1 a, write_bytes (read_bytes 1 a) b))"
proof -
  have "length (read_bytes 1 a) = 1" using assms by (intro read_bytes_length) simp_all
  then have "read_bytes 1 a = [hd (read_bytes 1 a)]" by (cases "read_bytes 1 a") auto
  then show ?thesis
    using assms get_ok [of a] put_run [of b "hd (read_bytes 1 a)"] by (simp add: move_byte_def)
qed

lemma read_bytes_Suc:
  assumes "buf_inv a" "int (Suc n) \<le> remaining a"
  shows "read_bytes (Suc n) a = read_bytes 1 a @ read_bytes n (advance 1 a)"
proof -
  have "nat (m_index a) < length (m_buffer a)" using fits [OF assms] by simp
  moreover have "nat (m_index a + 1) = Suc (nat (m_index a))"
    using assms by (simp add: buf_inv_def nat_add_distrib)
  ultimately show ?thesis
    by (simp add: read_bytes_def advance_def Cons_nth_drop_Suc [symmetric])
qed

lemma get_n_loop_ok:
  "buf_inv a \<Longrightarrow> buf_inv b \<Longrightarrow> int n \<le> remaining a \<Longrightarrow> int n \<le> remaining b
    \<Longrightarrow> get_n_loop n (a, b) = (Inr (), (advance n a, write_bytes (read_bytes n a) b))"
proof (induction n arbitrary: a b)
  case 0
  then show ?case by (simp add: advance_def write_bytes_def read_bytes_def)
next
  case (Suc n)
  let ?a = "advance 1 a" and ?b = "write_bytes (read_bytes 1 a) b"
  have len: "length (read_bytes 1 a) = 1" using Suc.prems by (intro read_bytes_length) simp_all
  have inv: "buf_inv ?a" "buf_inv ?b"
    using Suc.prems len by (auto intro!: advance_inv write_bytes_inv)
  have rem: "int n \<le> remaining ?a" "int n \<le> remaining ?b"
    using Suc.prems len by (simp_all add: remaining_def advance_def write_bytes_def)
  have "write_bytes (read_bytes n ?a) ?b = write_bytes (read_bytes (Suc n) a) b"
    using write_bytes_append [OF Suc.prems(2), of "read_bytes 1 a" "read_bytes n ?a"]
      read_bytes_Suc [OF Suc.prems(1,3)] read_bytes_length [OF inv(1) rem(1)] len Suc.prems by simp
  moreover have "advance n ?a = advance (Suc n) a" by (simp add: advance_def)
  ultimately show ?case
    using move_byte_ok [of a b] Suc.prems Suc.IH [OF inv rem] by simp
qed

lemma get_all_loop_eq:
  "buf_inv a \<Longrightarrow> remaining a \<le> remaining b \<Longrightarrow> buf_inv b
    \<Longrightarrow> get_all_loop (a, b) = get_n_loop (nat (remaining a)) (a, b)"
proof (induction "nat (remaining a)" arbitrary: a b)
  case 0
  then show ?case by simp
next
  case (Suc n)
  then have rem: "1 \<le> remaining a" "1 \<le> remaining b" by linarith+
  let ?a = "advance 1 a" and ?b = "write_bytes (read_bytes 1 a) b"
  have len: "length (read_bytes 1 a) = 1" using Suc.prems rem by (intro read_bytes_length) simp_all
  have inv: "buf_inv ?a" "buf_inv ?b"
    using Suc.prems len rem by (auto intro!: advance_inv write_bytes_inv)
  have ra: "remaining ?a = remaining a - 1" "remaining ?b = remaining b - 1"
    using len by (simp_all add: remaining_def advance_def write_bytes_def)
  have n: "n = nat (remaining ?a)" using Suc.hyps(2) ra rem by simp
  have single: "read_bytes 1 a = [hd (read_bytes 1 a)]" using len by (cases "read_bytes 1 a") auto
  have step: "get_all_loop (a, b) = get_all_loop (?a, ?b)"
    using rem get_ok [of a] Suc.prems put_run [of b "hd (read_bytes 1 a)"] single
    by simp
  have "get_all_loop (?a, ?b) = get_n_loop n (?a, ?b)"
    using Suc.hyps(1) [OF n inv(1) _ inv(2)] ra Suc.prems n by simp
  moreover have "get_n_loop (Suc n) (a, b) = get_n_loop n (?a, ?b)"
    using move_byte_ok [of a b] Suc.prems rem by simp
  ultimately show ?case using step Suc.hyps(2) by simp
qed

section \<open>The invariant under every operation\<close>

lemma sq_inv:
  "buf_inv (snd (m b)) \<Longrightarrow> (\<And>b'. buf_inv b' \<Longrightarrow> buf_inv (snd (k b'))) \<Longrightarrow> buf_inv (snd (sq m k b))"
  by (auto simp: sq_run split: prod.splits sum.splits)

lemma at_inv:
  "(\<And>b. buf_inv b \<Longrightarrow> buf_inv (snd (k b))) \<Longrightarrow> buf_inv b \<Longrightarrow> buf_inv (snd (sq (set_index n) k b))"
  by (intro sq_inv set_index_inv)

inductive buf_step :: "buffer \<Rightarrow> buffer \<Rightarrow> bool" where
  bound: "buf_step b (snd (set_bound n b))"
| clear: "buf_step b (snd (clear b))"
| index: "buf_step b (snd (set_index n b))"
| reset: "buf_step b (snd (reset b))"
| rewind: "buf_step b (snd (rewind b))"
| trip: "buf_step b (snd (trip b))"
| commit: "buf_step b (snd (set_commit_cb cb b))"
| assign: "buf_inv other \<Longrightarrow> buf_step b (snd (buffer_assign other b))"
| get: "buf_step b (snd (get b))"
| get_at: "buf_step b (snd (get_at n b))"
| get_char: "buf_step b (snd (get_char b))"
| get_char_at: "buf_step b (snd (get_char_at n b))"
| get_int16: "buf_step b (snd (get_int16 b))"
| get_int16_at: "buf_step b (snd (get_int16_at n b))"
| get_int32: "buf_step b (snd (get_int32 b))"
| get_int32_at: "buf_step b (snd (get_int32_at n b))"
| get_int64: "buf_step b (snd (get_int64 b))"
| get_int64_at: "buf_step b (snd (get_int64_at n b))"
| get_float: "buf_step b (snd (get_float b))"
| get_float_at: "buf_step b (snd (get_float_at n b))"
| get_double: "buf_step b (snd (get_double b))"
| get_double_at: "buf_step b (snd (get_double_at n b))"
| get_varchar: "buf_step b (snd (get_varchar sz b))"
| get_varchar_at: "buf_step b (snd (get_varchar_at n sz b))"
| put: "buf_step b (snd (put v8 b))"
| put_at: "buf_step b (snd (put_at n v8 b))"
| put_char: "buf_step b (snd (put_char c b))"
| put_char_at: "buf_step b (snd (put_char_at n c b))"
| put_int16: "buf_step b (snd (put_int16 v16 b))"
| put_int16_at: "buf_step b (snd (put_int16_at n v16 b))"
| put_int32: "buf_step b (snd (put_int32 v32 b))"
| put_int32_at: "buf_step b (snd (put_int32_at n v32 b))"
| put_int64: "buf_step b (snd (put_int64 v64 b))"
| put_int64_at: "buf_step b (snd (put_int64_at n v64 b))"
| put_float: "buf_step b (snd (put_float v32 b))"
| put_float_at: "buf_step b (snd (put_float_at n v32 b))"
| put_double: "buf_step b (snd (put_double v64 b))"
| put_double_at: "buf_step b (snd (put_double_at n v64 b))"
| put_varchar: "buf_step b (snd (put_varchar s b))"
| put_varchar_at: "buf_step b (snd (put_varchar_at n s b))"

inductive_simps buf_step_simps: "buf_step b b'"

lemmas field_inv =
  u8.put_v_inv u8.get_v_inv ch.put_v_inv ch.get_v_inv
  i16.put_v_inv i16.get_v_inv i32.put_v_inv i32.get_v_inv i64.put_v_inv i64.get_v_inv
  f32.put_v_inv f32.get_v_inv f64.put_v_inv f64.get_v_inv

lemma get_char_at_eq: "get_char_at n = sq (set_index n) get_char"
  by (rule ext) (simp add: get_char_at_def get_at_def get_char_def sq_def bnd_assoc)

lemmas at_defs =
  get_at_def get_char_at_eq get_int16_at_def get_int32_at_def get_int64_at_def get_float_at_def
  get_double_at_def get_varchar_at_def put_at_def put_int16_at_def put_int32_at_def
  put_int64_at_def put_float_at_def put_double_at_def put_varchar_at_def

lemma put_char_at_eq: "put_char_at n c = sq (set_index n) (put_char c)"
  by (simp add: put_char_at_def put_at_def put_char_def)

lemma put_varchar_inv: "buf_inv b \<Longrightarrow> buf_inv (snd (put_varchar s b))"
  by (simp add: put_varchar_eq put_bytes_inv)

lemma move_inv:
  "buf_inv b \<Longrightarrow> buf_inv (snd (set_bound n b))" "buf_inv b \<Longrightarrow> buf_inv (snd (clear b))"
  "buf_inv b \<Longrightarrow> buf_inv (snd (reset b))" "buf_inv b \<Longrightarrow> buf_inv (snd (rewind b))"
  "buf_inv b \<Longrightarrow> buf_inv (snd (trip b))" "buf_inv b \<Longrightarrow> buf_inv (snd (set_commit_cb cb b))"
  "buf_inv b \<Longrightarrow> buf_inv other \<Longrightarrow> buf_inv (snd (buffer_assign other b))"
  by (auto simp: buf_inv_def set_bound_def clear_def reset_def rewind_def trip_def
      set_commit_cb_def buffer_assign_def)

lemma buf_step_inv: "buf_step b b' \<Longrightarrow> buf_inv b \<Longrightarrow> buf_inv b'"
  by (induction rule: buf_step.induct)
     (auto simp: at_defs put_char_at_eq
       intro: move_inv field_inv set_index_inv get_varchar_inv put_varchar_inv at_inv)

lemma move_byte_inv:
  "buf_inv a \<Longrightarrow> buf_inv b \<Longrightarrow> move_byte (a, b) = (r, (a', b')) \<Longrightarrow> buf_inv a' \<and> buf_inv b'"
  using u8.get_v_inv [of a] u8.put_v_inv [of b]
  by (auto simp: move_byte_def bnd_run split: prod.splits sum.splits) (metis snd_conv)+

lemma get_n_loop_inv:
  "buf_inv a \<Longrightarrow> buf_inv b \<Longrightarrow> get_n_loop n (a, b) = (r, (a', b')) \<Longrightarrow> buf_inv a' \<and> buf_inv b'"
proof (induction n arbitrary: a b)
  case (Suc n)
  obtain r1 a1 b1 where mv: "move_byte (a, b) = (r1, (a1, b1))" by (metis prod.exhaust)
  then have "buf_inv a1 \<and> buf_inv b1" using move_byte_inv Suc.prems by blast
  with Suc mv show ?case by (cases r1) (auto simp: sq_run)
qed auto

lemma get_buffer_inv:
  assumes "buf_inv a" "buf_inv b" "get_buffer (a, b) = (r, (a', b'))"
  shows "buf_inv a' \<and> buf_inv b'"
proof (cases "remaining b < remaining a")
  case True
  with assms show ?thesis by (simp add: get_buffer_def)
next
  case False
  then have "get_n_loop (nat (remaining a)) (a, b) = (r, (a', b'))"
    using assms get_all_loop_eq [of a b] by (simp add: get_buffer_def del: get_all_loop.simps)
  with assms get_n_loop_inv show ?thesis by blast
qed

lemma reachable_inv: "buf_step\<^sup>*\<^sup>* b b' \<Longrightarrow> buf_inv b \<Longrightarrow> buf_inv b'"
  by (induction rule: rtranclp_induct) (auto intro: buf_step_inv)

lemma sq_assoc: "sq (sq m k) l = sq m (sq k l)"
  by (simp add: sq_def bnd_assoc)

lemma get_n_loop_Suc: "get_n_loop (Suc n) = sq (get_n_loop n) move_byte"
proof (induction n)
  case 0
  then show ?case by (auto simp: fun_eq_iff exn_simps split: prod.splits sum.splits)
next
  case (Suc n)
  then show ?case by (metis get_n_loop.simps(2) sq_assoc)
qed

section \<open>Properties\<close>





text \<open>
  C19. A 32 bit integer is stored with its most significant byte first and
  nothing else changes: the four bytes at the index are the value's bytes from
  bits 31..24 down to 7..0, every other byte, the bound and the size are kept, and
  the index moves by four.
\<close>

theorem put_int32_layout:
  assumes "buf_inv b" "4 \<le> remaining b"
  shows "put_int32 v b = (Inr (), b \<lparr> m_index := m_index b + 4,
     m_buffer := take (nat (m_index b)) (m_buffer b)
       @ map (\<lambda>k. ucast (drop_bit k v)) [24, 16, 8, 0]
       @ drop (nat (m_index b) + 4) (m_buffer b) \<rparr>)"
proof -
  have "shift_right k v (push_bit k (mask 8)) = (ucast (drop_bit k v) :: byte)" for k
    by (rule bit_word_eqI) (auto simp: bit_shift_right bit_simps)
  then have "bytes32 v = map (\<lambda>k. ucast (drop_bit k v)) [24, 16, 8, 0]"
    unfolding bytes32_def mask_eqs by (simp del: push_bit_0_id)
  moreover have "put_int32 v b = (Inr (), write_bytes (bytes32 v) b)"
    using assms by (intro i32.put_v_ok) simp_all
  moreover have "drop (nat (m_index b) + 4) (m_buffer b) = drop (Suc (Suc (Suc (Suc (nat (m_index b)))))) (m_buffer b)"
    by (rule arg_cong [where f = "\<lambda>i. drop i (m_buffer b)"]) simp
  ultimately show ?thesis
    by (simp add: write_bytes_def splice_def)
qed

theorem put_int32_layout_witness:
  "m_buffer (snd (put_int32 0x01020304 (new_buffer 5 [9,9,9,9,9]))) = [1,2,3,4,9]"
proof -
  have "buf_inv (new_buffer 5 [9,9,9,9,9])" "4 \<le> remaining (new_buffer 5 [9,9,9,9,9])"
    by (simp_all add: buf_inv_def new_buffer_def remaining_def)
  from put_int32_layout [OF this, of "0x01020304"] show ?thesis
    by (simp add: new_buffer_def)
qed

text \<open>
  C26. A character string that fits is read back unchanged by a read of its
  length at the same offset, whatever its length and its bytes.
\<close>

theorem varchar_round_trip:
  assumes "buf_inv b" "0 \<le> n" "n + int (length s) \<le> m_bound b"
  shows "fst (sq (put_varchar_at n s) (get_varchar_at n (int (length s))) b) = Inr s"
  using assms by (rule put_varchar_get_varchar)

theorem varchar_round_trip_witness:
  "fst (sq (put_varchar_at 3 ''abc'') (get_varchar_at 3 (int (length ''abc''))) (new_buffer 6 (replicate 6 0)))
    = Inr ''abc''"
  by (rule varchar_round_trip) (simp_all add: buf_inv_def new_buffer_def)

text \<open>
  C25. Copying a buffer into another one copies exactly the remaining bytes:
  when they fit, the target gets the source's bytes from index to bound at its
  own index and both indexes move behind them; when they do not fit, the
  remaining-error is thrown and neither buffer changes.
\<close>

theorem get_buffer_copies:
  assumes "buf_inv a" "buf_inv b"
  shows "get_buffer (a, b) =
    (if remaining a \<le> remaining b
     then (Inr (), (a \<lparr> m_index := m_bound a \<rparr>,
       b \<lparr> m_index := m_index b + remaining a,
           m_buffer := take (nat (m_index b)) (m_buffer b)
             @ take (nat (remaining a)) (drop (nat (m_index a)) (m_buffer a))
             @ drop (nat (m_index b + remaining a)) (m_buffer b) \<rparr>))
     else (Inl (Runtime ERRNO_BUF_REMAINING_ERROR), (a, b)))"
proof (cases "remaining a \<le> remaining b")
  case True
  have r: "0 \<le> remaining a" using assms(1) by (simp add: buf_inv_def remaining_def)
  have le: "int (nat (remaining a)) \<le> remaining a" using r by simp
  note len = read_bytes_length [OF assms(1) le]
  have "get_buffer (a, b) = get_n_loop (nat (remaining a)) (a, b)"
    using assms True by (simp add: get_buffer_def get_all_loop_eq del: get_all_loop.simps)
  also have "\<dots> = (Inr (), (advance (nat (remaining a)) a,
      write_bytes (read_bytes (nat (remaining a)) a) b))"
    using assms True r by (intro get_n_loop_ok) simp_all
  finally show ?thesis
    using True r len assms
    by (simp add: advance_def write_bytes_def splice_def read_bytes_def remaining_def buf_inv_def
        nat_add_distrib)
qed (use assms in \<open>simp add: get_buffer_def\<close>)

theorem get_buffer_copies_witness:
  "m_buffer (snd (snd (get_buffer (new_buffer 2 [1,2], new_buffer 3 [7,8,9])))) = [1,2,9]"
  by (subst get_buffer_copies) (simp_all add: buf_inv_def new_buffer_def remaining_def)

text \<open>
  The three-argument copy checks its size with a conjunction: with a size
  that exceeds the room in the target but not the bytes left in the source, the
  guard lets it through and the target is filled to the bound before the
  remaining-error is thrown, so the failing call has already changed both
  buffers.
\<close>

theorem get_buffer_n_partial:
  assumes "buf_inv a" "buf_inv b" "0 \<le> n" "n + int (Suc k) \<le> m_bound a" "remaining b = int k"
  shows "get_buffer_n n (int (Suc k)) (a, b) =
    (Inl (Runtime ERRNO_BUF_REMAINING_ERROR),
     (a \<lparr> m_index := n + int (Suc k) \<rparr>,
      b \<lparr> m_index := m_bound b,
          m_buffer := take (nat (m_index b)) (m_buffer b) @ take k (drop (nat n) (m_buffer a))
            @ drop (nat (m_bound b)) (m_buffer b) \<rparr>))"
proof -
  let ?a = "a \<lparr> m_index := n \<rparr>" and ?b = "write_bytes (read_bytes k (a \<lparr> m_index := n \<rparr>)) b"
  have a: "buf_inv ?a" "int k \<le> remaining ?a" "set_index n a = (Inr (), ?a)"
    using assms by (auto simp: buf_inv_def remaining_def set_index_run)
  have mv: "get_n_loop k (?a, b) = (Inr (), (advance k ?a, ?b))"
    using assms a by (intro get_n_loop_ok) simp_all
  have b: "remaining ?b = 0"
    using assms(5) read_bytes_length [OF a(1,2)] by (simp add: remaining_def write_bytes_def)
  have "get (advance k ?a) = (Inr (hd (read_bytes 1 (advance k ?a))), advance (Suc k) ?a)"
    using assms(3,4) get_ok [OF advance_inv [OF a(1,2)]]
    by (simp add: remaining_def advance_def algebra_simps)
  moreover have "put v ?b = (Inl (Runtime ERRNO_BUF_REMAINING_ERROR), ?b)" for v
    using b by (simp add: put_def exn_simps)
  ultimately have "move_byte (advance k ?a, ?b)
      = (Inl (Runtime ERRNO_BUF_REMAINING_ERROR), (advance (Suc k) ?a, ?b))"
    by (simp add: move_byte_def)
  then have "get_buffer_n n (int (Suc k)) (a, b)
      = (Inl (Runtime ERRNO_BUF_REMAINING_ERROR), (advance (Suc k) ?a, ?b))"
    using a(3) mv assms(4) nat_int [of "Suc k"]
    by (simp add: get_buffer_n_def exn_simps get_n_loop_Suc remaining_def
        del: get_n_loop.simps nat_int of_nat_Suc)
  moreover have "m_bound b = m_index b + int k" "nat (m_bound b) = nat (m_index b) + k"
    using assms(2,5) by (auto simp: remaining_def buf_inv_def)
  ultimately show ?thesis
    using assms(2) read_bytes_length [OF a(1,2)]
    by (simp add: advance_def write_bytes_def splice_def read_bytes_def remaining_def buf_inv_def
        nat_add_distrib)
qed

theorem get_buffer_n_partial_witness:
  "get_buffer_n 0 (int (Suc 1)) (new_buffer 3 [1,2,3], new_buffer 1 [7]) =
    (Inl (Runtime ERRNO_BUF_REMAINING_ERROR),
     ((new_buffer 3 [1,2,3]) \<lparr> m_index := 0 + int (Suc 1) \<rparr>,
      (new_buffer 1 [7]) \<lparr> m_index := m_bound (new_buffer 1 [7]),
        m_buffer := take (nat (m_index (new_buffer 1 [7]))) (m_buffer (new_buffer 1 [7]))
          @ take 1 (drop (nat 0) (m_buffer (new_buffer 3 [1,2,3])))
          @ drop (nat (m_bound (new_buffer 1 [7]))) (m_buffer (new_buffer 1 [7])) \<rparr>))"
  by (rule get_buffer_n_partial) (simp_all add: buf_inv_def new_buffer_def remaining_def)

end
