(* ===== verification/Dio.thy ===== *)
theory Dio
  imports Eno
begin

text \<open>
  Direct file I/O (\<open>src/dio\<close>). The system calls are not part of the program:
  they are the fields of the record \<open>sys\<close>, over a type of file-system states, and
  what they may do is stated where a property needs it. A transfer loop goes on
  until all bytes are moved; it has fuel, since nothing bounds how often a call
  may be interrupted.
\<close>

section \<open>System calls\<close>

text \<open>
  The outcome of \<open>pread\<close>: an error other than EINTR, an interruption, or some
  bytes, none at the end of the file. The outcome of \<open>pwrite\<close> has the number of
  bytes written.
\<close>

datatype 'a io_res = Io_error | Io_intr | Io_done 'a

record 'f sys =
  sys_pread :: "nat \<Rightarrow> int \<Rightarrow> 'f \<Rightarrow> byte list io_res \<times> 'f"
  sys_pwrite :: "byte list \<Rightarrow> int \<Rightarrow> 'f \<Rightarrow> nat io_res \<times> 'f"
  sys_page_size :: nat

record 'f dio =
  dio_sys :: "'f sys"
  dio_file :: 'f
  dio_flag :: bool

section \<open>Transfers\<close>

text \<open>
  The comparison that ends a loop casts the count to an unsigned type, so a
  negative count ends it.
\<close>

definition as_size :: "int \<Rightarrow> int" where
  "as_size n = n mod 2 ^ 64"

definition blit :: "nat \<Rightarrow> 'a list \<Rightarrow> 'a list \<Rightarrow> 'a list" where
  "blit i bs buf = take i buf @ bs @ drop (i + length bs) buf"

text \<open>
  \<open>io_pread\<close>: the result is the returned count with the buffer. After an
  interruption the code clears \<open>errno\<close> and then adds the result of the call, -1,
  to the count. At a negative position the buffer is addressed outside.
\<close>

fun io_pread_loop :: "nat \<Rightarrow> nat \<Rightarrow> int \<Rightarrow> int \<Rightarrow> byte list \<Rightarrow> (error, 'f dio, int \<times> byte list) exn" where
  "io_pread_loop 0 nbyte off nread buf = throw Fuel"
| "io_pread_loop (Suc fuel) nbyte off nread buf = (\<lambda>d.
     if nread < 0 then (Inl (Undefined ''buf''), d)
     else case sys_pread (dio_sys d) (nbyte - nat nread) (off + nread) (dio_file d) of
       (Io_error, f) \<Rightarrow> (Inr (-1, buf), d \<lparr> dio_file := f \<rparr>)
     | (Io_intr, f) \<Rightarrow>
         (if as_size (nread - 1) < int nbyte
          then io_pread_loop fuel nbyte off (nread - 1) buf (d \<lparr> dio_file := f \<rparr>)
          else (Inr (nread - 1, buf), d \<lparr> dio_file := f \<rparr>))
     | (Io_done bs, f) \<Rightarrow>
         (if bs = [] then (Inr (nread, buf), d \<lparr> dio_file := f \<rparr>)
          else let nread' = nread + int (length bs); buf' = blit (nat nread) bs buf in
            if as_size nread' < int nbyte
            then io_pread_loop fuel nbyte off nread' buf' (d \<lparr> dio_file := f \<rparr>)
            else (Inr (nread', buf'), d \<lparr> dio_file := f \<rparr>)))"

definition io_pread :: "nat \<Rightarrow> nat \<Rightarrow> int \<Rightarrow> byte list \<Rightarrow> (error, 'f dio, int \<times> byte list) exn" where
  "io_pread fuel nbyte off buf = io_pread_loop fuel nbyte off 0 buf"

fun io_pwrite_loop :: "nat \<Rightarrow> byte list \<Rightarrow> int \<Rightarrow> int \<Rightarrow> (error, 'f dio, int) exn" where
  "io_pwrite_loop 0 buf off nwritten = throw Fuel"
| "io_pwrite_loop (Suc fuel) buf off nwritten = (\<lambda>d.
     if nwritten < 0 then (Inl (Undefined ''buf''), d)
     else case sys_pwrite (dio_sys d) (drop (nat nwritten) buf) (off + nwritten) (dio_file d) of
       (Io_error, f) \<Rightarrow> (Inr (-1), d \<lparr> dio_file := f \<rparr>)
     | (Io_intr, f) \<Rightarrow>
         (if as_size (nwritten - 1) < int (length buf)
          then io_pwrite_loop fuel buf off (nwritten - 1) (d \<lparr> dio_file := f \<rparr>)
          else (Inr (nwritten - 1), d \<lparr> dio_file := f \<rparr>))
     | (Io_done n, f) \<Rightarrow>
         (let nwritten' = nwritten + int n in
          if as_size nwritten' < int (length buf)
          then io_pwrite_loop fuel buf off nwritten' (d \<lparr> dio_file := f \<rparr>)
          else (Inr nwritten', d \<lparr> dio_file := f \<rparr>)))"

definition io_pwrite :: "nat \<Rightarrow> byte list \<Rightarrow> int \<Rightarrow> (error, 'f dio, int) exn" where
  "io_pwrite fuel buf off = io_pwrite_loop fuel buf off 0"

section \<open>Properties\<close>

lemma as_size_nonneg [simp]: "0 \<le> n \<Longrightarrow> n < 2 ^ 64 \<Longrightarrow> as_size n = n"
  by (simp add: as_size_def)

text \<open>
  A file that holds the bytes \<open>bs\<close> from \<open>off\<close> on and is read without errors: a call
  that asks for at least one byte of them delivers some of them, in order, and leaves
  a file that holds them as well.
\<close>

definition delivers :: "'f sys \<Rightarrow> int \<Rightarrow> byte list \<Rightarrow> ('f \<Rightarrow> bool) \<Rightarrow> bool" where
  "delivers S off bs holds \<longleftrightarrow> (\<forall>f k i. holds f \<longrightarrow> k > 0 \<longrightarrow> i + k \<le> length bs \<longrightarrow>
     (\<exists>n f'. sys_pread S k (off + int i) f = (Io_done (take n (drop i bs)), f') \<and> 0 < n \<and> n \<le> k \<and> holds f'))"

lemma blit_next:
  assumes "i + n \<le> length bs" "length bs \<le> length buf"
  shows "blit i (take n (drop i bs)) (take i bs @ drop i buf) = take (i + n) bs @ drop (i + n) buf"
  using assms by (simp add: blit_def take_add add.commute)

lemma io_pread_delivers:
  assumes "delivers S off bs holds" "length bs \<le> length buf" "length bs < 2 ^ 64"
  shows "holds (dio_file d) \<Longrightarrow> dio_sys d = S \<Longrightarrow> i < length bs \<Longrightarrow> length bs \<le> i + fuel \<Longrightarrow>
    \<exists>f'. io_pread_loop fuel (length bs) off (int i) (take i bs @ drop i buf) d
      = (Inr (int (length bs), bs @ drop (length bs) buf), d \<lparr> dio_file := f' \<rparr>) \<and> holds f'"
proof (induction fuel arbitrary: i d)
  case (Suc fuel)
  let ?N = "length bs"
  from assms(1) Suc.prems obtain n f' where
    n: "sys_pread S (?N - i) (off + int i) (dio_file d) = (Io_done (take n (drop i bs)), f')"
      "0 < n" "n \<le> ?N - i" "holds f'"
    unfolding delivers_def by (metis add_diff_inverse_nat le_refl less_imp_le not_less zero_less_diff)
  have len: "length (take n (drop i bs)) = n" "take n (drop i bs) \<noteq> []" "i + n \<le> ?N" using n Suc.prems by auto
  have sz: "as_size (int i + int n) = int (i + n)" using len(3) assms(3) by simp
  show ?case
  proof (cases "i + n < ?N")
    case True
    from Suc.IH [of "d \<lparr> dio_file := f' \<rparr>" "i + n"] True Suc.prems n(2,4) obtain f'' where
      "io_pread_loop fuel ?N off (int (i + n)) (take (i + n) bs @ drop (i + n) buf) (d \<lparr> dio_file := f' \<rparr>)
        = (Inr (int ?N, bs @ drop ?N buf), d \<lparr> dio_file := f'' \<rparr>) \<and> holds f''" by auto
    then show ?thesis
      using True n(1) len sz Suc.prems blit_next [OF len(3) assms(2)] by (auto simp: Let_def)
  next
    case False
    then have "i + n = ?N" using len(3) by simp
    then show ?thesis
      using n(1,4) len sz Suc.prems blit_next [OF len(3) assms(2)] by (auto simp: Let_def)
  qed
qed simp

text \<open>
  C21. \<open>io_pread\<close> puts together the pieces in which the system delivers the bytes
  asked for: whatever the sizes of the pieces, it returns the full count and the
  buffer holds the bytes of the file in order, and nothing behind them is touched.
\<close>

theorem io_pread_complete:
  assumes "delivers (dio_sys d) off bs holds" "holds (dio_file d)" "bs \<noteq> []"
    and "length bs \<le> length buf" "length bs < 2 ^ 64" "length bs \<le> fuel"
  shows "\<exists>d'. io_pread fuel (length bs) off buf d = (Inr (int (length bs), bs @ drop (length bs) buf), d')"
  using io_pread_delivers [OF assms(1,4,5), of d 0 fuel] assms by (auto simp: io_pread_def)

theorem io_pread_complete_witness:
  "let S = \<lparr> sys_pread = (\<lambda>k off f. (Io_done (take 1 (drop (nat off) f)), f)),
             sys_pwrite = (\<lambda>bs off f. (Io_error, f)), sys_page_size = 4096 \<rparr>;
       d = \<lparr> dio_sys = S, dio_file = [1, 2, 3, 4, 5 :: byte], dio_flag = True \<rparr>
   in \<exists>d'. io_pread 3 3 1 [0, 0, 0, 9] d = (Inr (3, [2, 3, 4, 9]), d')"
proof -
  let ?S = "\<lparr> sys_pread = (\<lambda>k off f. (Io_done (take 1 (drop (nat off) f)), f)),
             sys_pwrite = (\<lambda>bs off f. (Io_error, f)), sys_page_size = 4096 \<rparr> :: byte list sys"
  let ?d = "\<lparr> dio_sys = ?S, dio_file = [1, 2, 3, 4, 5 :: byte], dio_flag = True \<rparr>"
  have "take (Suc 0) (drop (nat (1 + int i)) [1, 2, 3, 4, 5 :: byte]) = take 1 (drop i [2, 3, 4])"
    if "i < 3" for i :: nat
    using that by (cases i; cases "i - 1") (auto simp: nat_add_distrib)
  then have "delivers (dio_sys ?d) 1 [2, 3, 4] (\<lambda>f. f = [1, 2, 3, 4, 5])"
    by (auto simp: delivers_def intro!: exI [of _ 1])
  from io_pread_complete [OF this, of "[0, 0, 0, 9]" 3] show ?thesis by (simp add: Let_def numeral_3_eq_3)
qed

text \<open>
  A file system that takes at least one byte of each non-empty write; \<open>io_pwrite\<close>
  then writes everything.
\<close>

definition accepts :: "'f sys \<Rightarrow> bool" where
  "accepts S \<longleftrightarrow> (\<forall>bs off f. bs \<noteq> [] \<longrightarrow> length bs < 2 ^ 64 \<longrightarrow>
     (\<exists>n f'. sys_pwrite S bs off f = (Io_done n, f') \<and> 0 < n \<and> n \<le> length bs))"

lemma io_pwrite_accepts:
  assumes "accepts S" "length buf < 2 ^ 64"
  shows "dio_sys d = S \<Longrightarrow> i < length buf \<Longrightarrow> length buf \<le> i + fuel \<Longrightarrow>
    \<exists>f'. io_pwrite_loop fuel buf off (int i) d = (Inr (int (length buf)), d \<lparr> dio_file := f' \<rparr>)"
proof (induction fuel arbitrary: i d)
  case (Suc fuel)
  let ?N = "length buf"
  from assms Suc.prems obtain n f' where
    n: "sys_pwrite S (drop i buf) (off + int i) (dio_file d) = (Io_done n, f')" "0 < n" "n \<le> ?N - i"
    using assms [unfolded accepts_def] by (auto dest!: spec [of _ "drop i buf"] spec [of _ "off + int i"] spec [of _ "dio_file d"])
  have sz: "as_size (int i + int n) = int (i + n)" using n(3) Suc.prems assms(2) by simp
  show ?case
  proof (cases "i + n < ?N")
    case True
    from Suc.IH [of "d \<lparr> dio_file := f' \<rparr>" "i + n"] True Suc.prems n(2) obtain f'' where
      "io_pwrite_loop fuel buf off (int (i + n)) (d \<lparr> dio_file := f' \<rparr>)
        = (Inr (int ?N), d \<lparr> dio_file := f'' \<rparr>)" by auto
    then show ?thesis using True n(1) sz Suc.prems by (auto simp: Let_def)
  next
    case False
    then have "i + n = ?N" using n(3) Suc.prems by simp
    then show ?thesis using n(1) sz Suc.prems by (auto simp: Let_def)
  qed
qed simp

lemma io_pwrite_all:
  assumes "accepts (dio_sys d)" "buf \<noteq> []" "length buf < 2 ^ 64" "length buf \<le> fuel"
  shows "\<exists>f'. io_pwrite fuel buf off d = (Inr (int (length buf)), d \<lparr> dio_file := f' \<rparr>)"
  using io_pwrite_accepts [OF assms(1,3), of d 0 fuel off] assms by (auto simp: io_pwrite_def)

text \<open>
  C33. An interruption of the first call is not retried, although the code clears
  \<open>errno\<close> to go on: the count becomes -1, which as an unsigned number is not below
  the number of bytes wanted, and -1 is returned, the value that means an error. The
  same holds for writing.
\<close>

theorem interrupted_is_error:
  assumes "sys_pread (dio_sys d) nbyte off (dio_file d) = (Io_intr, f)" "nbyte < 2 ^ 64"
    and "sys_pwrite (dio_sys d) buf off (dio_file d) = (Io_intr, f')" "length buf < 2 ^ 64"
  shows "io_pread (Suc fuel) nbyte off mem d = (Inr (-1, mem), d \<lparr> dio_file := f \<rparr>)
    \<and> io_pwrite (Suc fuel) buf off d = (Inr (-1), d \<lparr> dio_file := f' \<rparr>)"
proof -
  have "as_size (-1) = 2 ^ 64 - 1" by (simp add: as_size_def)
  then show ?thesis using assms by (simp add: io_pread_def io_pwrite_def)
qed

theorem interrupted_is_error_witness:
  "let S = \<lparr> sys_pread = (\<lambda>k off f. (Io_intr, f)), sys_pwrite = (\<lambda>bs off f. (Io_intr, f)), sys_page_size = 4096 \<rparr>;
       d = \<lparr> dio_sys = S, dio_file = (), dio_flag = True \<rparr>
   in io_pread 9 4 0 [0, 0, 0, 0] d = (Inr (-1, [0, 0, 0, 0]), d) \<and> io_pwrite 9 [1, 2] 0 d = (Inr (-1), d)"
proof -
  let ?S = "\<lparr> sys_pread = (\<lambda>k off f. (Io_intr, f)), sys_pwrite = (\<lambda>bs off f. (Io_intr, f)),
    sys_page_size = 4096 \<rparr> :: unit sys"
  let ?d = "\<lparr> dio_sys = ?S, dio_file = (), dio_flag = True \<rparr>"
  have "io_pread (Suc 8) 4 0 [0, 0, 0, 0] ?d = (Inr (-1, [0, 0, 0, 0]), ?d \<lparr> dio_file := () \<rparr>)
      \<and> io_pwrite (Suc 8) [1, 2] 0 ?d = (Inr (-1), ?d \<lparr> dio_file := () \<rparr>)"
    by (rule interrupted_is_error) simp_all
  then show ?thesis by (simp add: Let_def)
qed

end
