(* ===== verification/Cache.thy ===== *)
theory Cache
  imports Bcalc Dio Schema
begin

text \<open>
  The block cache of a table (\<open>src/cache\<close>, class \<open>block_cache\<close>): the blocks of the
  data file that are in memory, by their offset, and the list of the offsets
  whose block has to be written. A block is moved in pages; reading a page at
  the end of the file makes no progress, and the loop that waits for the rest
  does not end, which the model shows as lack of fuel. Allocation is taken to
  succeed.
\<close>

record 'f block_cache =
  bc_dio :: "'f dio"
  bc_schema :: schema
  bc_cache :: "int \<Rightarrow> byte list option"
  bc_flush_list :: "int list"

type_synonym ('f, 'a) bcm = "(error, 'f block_cache, 'a) exn"

definition block_size :: "'f block_cache \<Rightarrow> int" where
  "block_size c = hd_block_size (sc_header (bc_schema c))"

definition on_dio :: "(error, 'f dio, 'a) exn \<Rightarrow> ('f, 'a) bcm" where
  "on_dio m = (\<lambda>c. case m (bc_dio c) of (r, d) \<Rightarrow> (r, c \<lparr> bc_dio := d \<rparr>))"

section \<open>Moving a block\<close>

fun read_block_loop :: "nat \<Rightarrow> byte list \<Rightarrow> int \<Rightarrow> nat \<Rightarrow> ('f, byte list option) bcm" where
  "read_block_loop 0 block off nread = throw Fuel"
| "read_block_loop (Suc fuel) block off nread = (\<lambda>c.
     let page = sys_page_size (dio_sys (bc_dio c)) in
     if \<not> int nread < block_size c then (Inr (Some block), c)
     else if nread + page > length block then (Inl (Undefined ''block''), c)
     else (case on_dio (io_pread (Suc page) page (off + int nread) (drop nread block)) c of
       (Inl e, c') \<Rightarrow> (Inl e, c')
     | (Inr (n, buf), c') \<Rightarrow>
         if n < 0 then (Inr None, c')
         else read_block_loop fuel (take nread block @ buf) off (nread + nat n) c'))"

definition read_block :: "byte list \<Rightarrow> int \<Rightarrow> ('f, byte list option) bcm" where
  "read_block block off = (\<lambda>c. read_block_loop (Suc (nat (block_size c))) block off 0 c)"

fun write_block_loop :: "nat \<Rightarrow> byte list \<Rightarrow> int \<Rightarrow> nat \<Rightarrow> ('f, bool) bcm" where
  "write_block_loop 0 block off nwritten = throw Fuel"
| "write_block_loop (Suc fuel) block off nwritten = (\<lambda>c.
     let page = sys_page_size (dio_sys (bc_dio c)) in
     if \<not> int nwritten < block_size c then (Inr True, c)
     else if nwritten + page > length block then (Inl (Undefined ''block''), c)
     else (case on_dio (io_pwrite (Suc page) (take page (drop nwritten block)) (off + int nwritten)) c of
       (Inl e, c') \<Rightarrow> (Inl e, c')
     | (Inr n, c') \<Rightarrow>
         if n < 0 then (Inr False, c') else write_block_loop fuel block off (nwritten + nat n) c'))"

definition write_block :: "byte list \<Rightarrow> int \<Rightarrow> ('f, bool) bcm" where
  "write_block block off = (\<lambda>c. if \<not> dio_flag (bc_dio c) then (Inr True, c)
     else write_block_loop (Suc (nat (block_size c))) block off 0 c)"

definition alloc_block :: "('f, byte list) bcm" where
  "alloc_block = gets (\<lambda>c. replicate (nat (block_size c)) 0)"

section \<open>The cache\<close>

definition drop_block :: "int \<Rightarrow> ('f, unit) bcm" where
  "drop_block off = modify (\<lambda>c. c \<lparr> bc_cache := (bc_cache c)(off := None) \<rparr>)"

definition flush_block :: "int \<Rightarrow> ('f, unit) bcm" where
  "flush_block off = modify (\<lambda>c. if off \<in> set (bc_flush_list c) then c
     else c \<lparr> bc_flush_list := bc_flush_list c @ [off] \<rparr>)"

fun flush_loop :: "int list \<Rightarrow> ('f, unit) bcm" where
  "flush_loop [] = ret ()"
| "flush_loop (off # offs) = sq (\<lambda>c. case bc_cache c off of
       Some block \<Rightarrow> sq (write_block block off) (ret ()) c | None \<Rightarrow> (Inr (), c)) (flush_loop offs)"

definition flush_cache :: "('f, unit) bcm" where
  "flush_cache = sq (bnd (gets bc_flush_list) flush_loop) (modify (\<lambda>c. c \<lparr> bc_flush_list := [] \<rparr>))"

definition load_block :: "int \<Rightarrow> ('f, byte list option) bcm" where
  "load_block off = (\<lambda>c.
     if off \<ge> hd_next_offset (sc_header (bc_schema c)) then (Inr None, c)
     else bnd alloc_block (\<lambda>block. bnd (read_block block off) (\<lambda>r. case r of
         None \<Rightarrow> ret None
       | Some block' \<Rightarrow> sq (modify (\<lambda>c. c \<lparr> bc_cache := (bc_cache c)(off \<mapsto> block') \<rparr>)) (ret (Some block')))) c)"

definition get_block :: "int \<Rightarrow> ('f, byte list option) bcm" where
  "get_block off = (\<lambda>c.
     if off < 0 \<or> off mod BUFFER_SZ \<noteq> 0 then (Inr None, c)
     else case bc_cache c off of Some block \<Rightarrow> (Inr (Some block), c) | None \<Rightarrow> load_block off c)"

definition new_block :: "int \<Rightarrow> ('f, byte list option) bcm" where
  "new_block off = bnd alloc_block (\<lambda>block. bnd (write_block block off) (\<lambda>ok.
     if \<not> ok then ret None
     else sq (modify (\<lambda>c. c \<lparr> bc_cache := (bc_cache c)(off \<mapsto> block) \<rparr>)) (ret (Some block))))"

section \<open>The cache serves what was stored\<close>

lemma on_dio_keeps:
  "on_dio m c = (r, c') \<Longrightarrow> bc_schema c' = bc_schema c \<and> bc_cache c' = bc_cache c \<and> bc_flush_list c' = bc_flush_list c"
  by (auto simp: on_dio_def split: prod.splits)

lemma write_block_keeps:
  "write_block block off c = (r, c') \<Longrightarrow>
    bc_schema c' = bc_schema c \<and> bc_cache c' = bc_cache c \<and> bc_flush_list c' = bc_flush_list c"
proof -
  have "write_block_loop fuel block off n c = (r, c') \<Longrightarrow>
    bc_schema c' = bc_schema c \<and> bc_cache c' = bc_cache c \<and> bc_flush_list c' = bc_flush_list c" for fuel n c r
  proof (induction fuel arbitrary: n c r)
    case (Suc fuel)
    from Suc.prems show ?case
      by (fastforce simp: Let_def split: if_splits prod.splits sum.splits dest!: on_dio_keeps Suc.IH)
  qed simp
  then show "write_block block off c = (r, c') \<Longrightarrow>
    bc_schema c' = bc_schema c \<and> bc_cache c' = bc_cache c \<and> bc_flush_list c' = bc_flush_list c"
    by (auto simp: write_block_def split: if_splits simp del: write_block_loop.simps)
qed

lemma new_block_cached:
  assumes "new_block off c = (Inr (Some block), c')"
  shows "block = replicate (nat (block_size c)) 0 \<and> bc_cache c' = (bc_cache c)(off \<mapsto> block)
    \<and> bc_schema c' = bc_schema c \<and> bc_flush_list c' = bc_flush_list c"
  using assms by (auto simp: new_block_def alloc_block_def exn_dest split: if_splits dest!: write_block_keeps)

text \<open>
  On a disk that takes writes, with a page size that divides the block size, making a
  block succeeds.
\<close>

definition disk_ok :: "'f block_cache \<Rightarrow> bool" where
  "disk_ok c \<longleftrightarrow> (let S = dio_sys (bc_dio c) in accepts S \<and> 0 < sys_page_size S \<and> sys_page_size S < 2 ^ 64
     \<and> int (sys_page_size S) dvd block_size c)"

lemma write_block_loop_ok:
  assumes "disk_ok c" "length block = nat (block_size c)"
  shows "n \<le> nat (block_size c) \<Longrightarrow> sys_page_size (dio_sys (bc_dio c)) dvd n \<Longrightarrow> nat (block_size c) < n + fuel \<Longrightarrow>
    \<exists>f'. write_block_loop fuel block off n c = (Inr True, c \<lparr> bc_dio := (bc_dio c) \<lparr> dio_file := f' \<rparr> \<rparr>)"
  using assms
proof (induction fuel arbitrary: n c)
  case (Suc fuel)
  let ?p = "sys_page_size (dio_sys (bc_dio c))" and ?N = "nat (block_size c)"
  show ?case
  proof (cases "int n < block_size c")
    case True
    have p: "accepts (dio_sys (bc_dio c))" "0 < ?p" "?p < 2 ^ 64" "?p dvd ?N"
      using Suc.prems(4) True by (auto simp: disk_ok_def Let_def int_dvd_int_iff [symmetric])
    obtain a b where ab: "n = ?p * a" "?N = ?p * b" using Suc.prems(2) p(4) by (auto elim!: dvdE)
    have "?p * a < ?p * b" using True ab Suc.prems(1) by (metis nat_less_iff of_nat_0_le_iff zless_nat_eq_int_zless)
    then have "Suc a \<le> b" by simp
    then have "?p * Suc a \<le> ?p * b" by (rule mult_le_mono2)
    then have le: "n + ?p \<le> ?N" using ab by (simp add: algebra_simps)
    have ln: "length (take ?p (drop n block)) = ?p" using le Suc.prems(5) by simp
    then have "take ?p (drop n block) \<noteq> []" using p(2) by auto
    then obtain f' where w: "io_pwrite (Suc ?p) (take ?p (drop n block)) (off + int n) (bc_dio c)
        = (Inr (int ?p), (bc_dio c) \<lparr> dio_file := f' \<rparr>)"
      using io_pwrite_all [OF p(1), of "take ?p (drop n block)" "Suc ?p"] ln p by auto
    let ?c = "c \<lparr> bc_dio := (bc_dio c) \<lparr> dio_file := f' \<rparr> \<rparr>"
    have same: "block_size ?c = block_size c" "disk_ok ?c" using Suc.prems(4) by (simp_all add: block_size_def disk_ok_def Let_def)
    from Suc.IH [of "n + ?p" ?c] same le Suc.prems p(2) obtain f'' where
      "write_block_loop fuel block off (n + ?p) ?c = (Inr True, ?c \<lparr> bc_dio := (bc_dio ?c) \<lparr> dio_file := f'' \<rparr> \<rparr>)" by auto
    then show ?thesis using True le w Suc.prems(5) by (auto simp: Let_def on_dio_def)
  next
    case False
    then show ?thesis by (auto simp: Let_def intro!: exI [of _ "dio_file (bc_dio c)"])
  qed
qed simp

lemma new_block_ok:
  assumes "disk_ok c"
  shows "\<exists>f'. new_block off c = (Inr (Some (replicate (nat (block_size c)) 0)),
    c \<lparr> bc_dio := (bc_dio c) \<lparr> dio_file := f' \<rparr>, bc_cache := (bc_cache c)(off \<mapsto> replicate (nat (block_size c)) 0) \<rparr>)"
proof -
  have "\<exists>f'. write_block (replicate (nat (block_size c)) 0) off c = (Inr True, c \<lparr> bc_dio := (bc_dio c) \<lparr> dio_file := f' \<rparr> \<rparr>)"
    using write_block_loop_ok [OF assms, of "replicate (nat (block_size c)) 0" 0 "Suc (nat (block_size c))" off]
    by (auto simp: write_block_def simp del: write_block_loop.simps intro!: exI [of _ "dio_file (bc_dio c)"])
  then show ?thesis by (auto simp: new_block_def alloc_block_def exn_simps)
qed

end
