(* ===== verification/Node.thy ===== *)
theory Node
  imports Buffer Cache
begin

text \<open>
  The nodes of an index (\<open>src/btree\<close>, classes \<open>element\<close>, \<open>node\<close> and the parts of
  \<open>tree\<close> that serve them). A node is a block of the data file with a header (leaf
  flag, number of keys, offsets of its neighbours) and a vector of elements: a
  leaf has the place of a row and a key in each, another node the offset of a
  child and a key, and one more child offset behind them. A node object keeps
  flag and number of keys outside of the block and commits them with each change.

  A node object is reached through the map \<open>m_node\<close> of the tree, so a pointer to it
  is its offset, and \<open>None\<close> is the null pointer; following that is the error
  \<open>Undefined\<close>. The buffer of a node has the block of the cache as its array: the
  bytes are kept in the cache, and a buffer operation works on them there.
  Recursions over the tree have fuel.
\<close>

section \<open>State\<close>

abbreviation (input) ROW_LIVE :: byte where "ROW_LIVE \<equiv> 0xFF"
abbreviation (input) ROW_DEAD :: byte where "ROW_DEAD \<equiv> 0x00"

record element =
  el_row_position :: int
  el_block_offset :: int
  el_ndx_name :: string
  el_key :: string

definition INVALID_ELEMENT :: element where
  "INVALID_ELEMENT = \<lparr> el_row_position = -1, el_block_offset = -1, el_ndx_name = [], el_key = [] \<rparr>"

definition is_valid :: "element \<Rightarrow> bool" where
  "is_valid e \<longleftrightarrow> \<not> (el_row_position e = el_row_position INVALID_ELEMENT
     \<or> el_block_offset e = el_block_offset INVALID_ELEMENT
     \<or> el_ndx_name e = el_ndx_name INVALID_ELEMENT
     \<or> el_key e = el_key INVALID_ELEMENT)"

abbreviation key_less :: "string \<Rightarrow> string \<Rightarrow> bool" where
  "key_less s t \<equiv> str_compare s t < 0"

definition elem_less :: "element \<Rightarrow> element \<Rightarrow> bool" where
  "elem_less a b \<longleftrightarrow> key_less (el_key a) (el_key b)"

definition elem_greater :: "element \<Rightarrow> element \<Rightarrow> bool" where
  "elem_greater a b \<longleftrightarrow> key_less (el_key b) (el_key a)"

record node =
  nd_leaf :: bool
  nd_dead :: bool
  nd_num_key :: int
  nd_ndx_name :: string
  nd_buffer :: buffer

record 'f tree =
  tr_cache :: "'f block_cache"
  tr_node :: "int \<Rightarrow> node option"

type_synonym ('f, 'a) trm = "(error, 'f tree, 'a) exn"

definition on_cache :: "('f, 'a) bcm \<Rightarrow> ('f, 'a) trm" where
  "on_cache m = (\<lambda>t. case m (tr_cache t) of (r, c) \<Rightarrow> (r, t \<lparr> tr_cache := c \<rparr>))"

abbreviation (input) t_schema :: "'f tree \<Rightarrow> schema" where "t_schema t \<equiv> bc_schema (tr_cache t)"
abbreviation (input) t_header :: "'f tree \<Rightarrow> header" where "t_header t \<equiv> sc_header (bc_schema (tr_cache t))"

definition upd_header :: "(header \<Rightarrow> header) \<Rightarrow> ('f, unit) trm" where
  "upd_header f = modify (\<lambda>t. t \<lparr> tr_cache := (tr_cache t) \<lparr> bc_schema := (t_schema t)
     \<lparr> sc_header := f (t_header t) \<rparr> \<rparr> \<rparr>)"

definition lift_sum :: "('f tree \<Rightarrow> error + 'a) \<Rightarrow> ('f, 'a) trm" where
  "lift_sum f = (\<lambda>t. (f t, t))"

definition tree_get_index :: "string \<Rightarrow> ('f, index) trm" where
  "tree_get_index nm = lift_sum (\<lambda>t. get_index (t_schema t) nm)"

text \<open>\<open>get_index(name).root(value)\<close>: the reference that \<open>get_index\<close> returns is written to.\<close>

definition set_root :: "string \<Rightarrow> int \<Rightarrow> ('f, unit) trm" where
  "set_root nm value = bnd (lift_sum (\<lambda>t. index_pos (t_schema t) nm)) (\<lambda>i.
     modify (\<lambda>t. t \<lparr> tr_cache := (tr_cache t) \<lparr> bc_schema := (t_schema t)
       \<lparr> sc_index := (sc_index (t_schema t))[i := (sc_index (t_schema t) ! i) \<lparr> ix_root := value \<rparr>] \<rparr> \<rparr> \<rparr>))"

section \<open>Node objects\<close>

definition deref :: "int option \<Rightarrow> ('f, int) trm" where
  "deref p = (case p of None \<Rightarrow> throw (Undefined ''nullptr'') | Some off \<Rightarrow> ret off)"

definition nd_get :: "int \<Rightarrow> (node \<Rightarrow> 'a) \<Rightarrow> ('f, 'a) trm" where
  "nd_get this f = (\<lambda>t. case tr_node t this of
     None \<Rightarrow> (Inl (Undefined ''node''), t) | Some n \<Rightarrow> (Inr (f n), t))"

definition nd_upd :: "int \<Rightarrow> (node \<Rightarrow> node) \<Rightarrow> ('f, unit) trm" where
  "nd_upd this f = (\<lambda>t. case tr_node t this of
     None \<Rightarrow> (Inl (Undefined ''node''), t)
   | Some n \<Rightarrow> (Inr (), t \<lparr> tr_node := (tr_node t)(this \<mapsto> f n) \<rparr>))"

text \<open>An operation of the buffer of a node, whose array is the block in the cache.\<close>

definition nd_buf :: "int \<Rightarrow> 'a bufm \<Rightarrow> ('f, 'a) trm" where
  "nd_buf this m = (\<lambda>t. case (tr_node t this, bc_cache (tr_cache t) this) of
     (Some n, Some mem) \<Rightarrow>
       (case m ((nd_buffer n) \<lparr> m_buffer := mem \<rparr>) of (r, b) \<Rightarrow>
         (r, t \<lparr> tr_node := (tr_node t)(this \<mapsto> n \<lparr> nd_buffer := b \<rparr>),
                 tr_cache := (tr_cache t) \<lparr> bc_cache := (bc_cache (tr_cache t))(this \<mapsto> m_buffer b) \<rparr> \<rparr>))
   | _ \<Rightarrow> (Inl (Undefined ''node''), t))"

definition node_commit :: "int \<Rightarrow> ('f, unit) trm" where
  "node_commit this =
     bnd (nd_get this nd_leaf) (\<lambda>leaf.
     sq (nd_buf this (put_at IS_LEAF_POS (of_bool leaf))) (
     bnd (nd_get this nd_num_key) (\<lambda>n.
     nd_buf this (put_int16_at NUM_KEY_POS (word_of_int n)))))"

definition node_flush :: "int \<Rightarrow> ('f, unit) trm" where
  "node_flush this = sq (node_commit this) (on_cache (flush_block this))"

definition set_num_key :: "int \<Rightarrow> int \<Rightarrow> ('f, unit) trm" where
  "set_num_key this n = sq (nd_upd this (\<lambda>x. x \<lparr> nd_num_key := n \<rparr>)) (node_flush this)"

definition inc_num_key :: "int \<Rightarrow> int \<Rightarrow> ('f, unit) trm" where
  "inc_num_key this n = sq (nd_upd this (\<lambda>x. x \<lparr> nd_num_key := nd_num_key x + n \<rparr>)) (node_flush this)"

definition dec_num_key :: "int \<Rightarrow> int \<Rightarrow> ('f, unit) trm" where
  "dec_num_key this n = sq (nd_upd this (\<lambda>x. x \<lparr> nd_num_key := nd_num_key x - n \<rparr>)) (node_flush this)"

text \<open>\<open>m_tree->get_index(m_ndx_name)\<close>.\<close>

definition node_index :: "int \<Rightarrow> ('f, index) trm" where
  "node_index this = bnd (nd_get this nd_ndx_name) tree_get_index"

section \<open>The element vector\<close>

definition get_child_offset :: "int \<Rightarrow> int \<Rightarrow> ('f, int) trm" where
  "get_child_offset this n = bnd (node_index this) (\<lambda>ix.
     let VECTOR_ELEMENT_SZ = CHILD_OFFSET_SZ + ix_key_size ix;
         position = ELEMENT_VECTOR_POS + n * VECTOR_ELEMENT_SZ
     in bnd (nd_buf this (get_int64_at position)) (\<lambda>w. ret (sint w)))"

definition put_child_offset :: "int \<Rightarrow> int \<Rightarrow> int \<Rightarrow> ('f, unit) trm" where
  "put_child_offset this n off = bnd (node_index this) (\<lambda>ix.
     let VECTOR_ELEMENT_SZ = CHILD_OFFSET_SZ + ix_key_size ix;
         position = ELEMENT_VECTOR_POS + n * VECTOR_ELEMENT_SZ
     in sq (nd_buf this (put_int64_at position (word_of_int off))) (node_flush this))"

definition get_element :: "int \<Rightarrow> int \<Rightarrow> ('f, element) trm" where
  "get_element this n =
     bnd (nd_get this nd_leaf) (\<lambda>leaf.
     bnd (node_index this) (\<lambda>ix.
     let VECTOR_ELEMENT_SZ = (if leaf then BLOCK_OFFSET_SZ else CHILD_OFFSET_SZ) + ix_key_size ix;
         position = ELEMENT_VECTOR_POS + n * VECTOR_ELEMENT_SZ;
         k_size = ix_key_size ix in
     bnd (nd_get this nd_ndx_name) (\<lambda>ndx.
     if leaf then
       bnd (nd_buf this (get_int64_at (position + BLOCK_OFFSET_POS))) (\<lambda>w.
       bnd (gets (\<lambda>t. hd_block_size (t_header t))) (\<lambda>bsz.
       let combined_offset = sint w;
           row_position = combined_offset smod bsz;
           block_offset = combined_offset - row_position in
       bnd (nd_buf this (get_varchar_at (position + KEY_POS) k_size)) (\<lambda>key.
       ret \<lparr> el_row_position = row_position, el_block_offset = block_offset,
             el_ndx_name = ndx, el_key = key \<rparr>)))
     else
       bnd (nd_buf this (get_varchar_at (position + KEY_POS) k_size)) (\<lambda>key.
       ret \<lparr> el_row_position = 0, el_block_offset = 0, el_ndx_name = ndx, el_key = key \<rparr>))))"

definition put_element :: "int \<Rightarrow> int \<Rightarrow> element \<Rightarrow> ('f, unit) trm" where
  "put_element this n elem =
     bnd (nd_get this nd_leaf) (\<lambda>leaf.
     bnd (node_index this) (\<lambda>ix.
     let VECTOR_ELEMENT_SZ = (if leaf then BLOCK_OFFSET_SZ else CHILD_OFFSET_SZ) + ix_key_size ix;
         position = ELEMENT_VECTOR_POS + n * VECTOR_ELEMENT_SZ in
     sq (if leaf then
           nd_buf this (put_int64_at (position + BLOCK_OFFSET_POS)
             (word_of_int (el_block_offset elem + el_row_position elem)))
         else ret ()) (
     sq (nd_buf this (put_varchar_at (position + KEY_POS) (el_key elem)))
        (node_flush this))))"

section \<open>Getting and making nodes\<close>

text \<open>
  The time of the last access is not kept. \<open>nd_new\<close> is the constructor of a node over a
  block of the cache.
\<close>

definition nd_new :: "bool \<Rightarrow> string \<Rightarrow> int \<Rightarrow> byte list \<Rightarrow> node" where
  "nd_new leaf ndx_name capacity mem =
     \<lparr> nd_leaf = leaf, nd_dead = False, nd_num_key = 0, nd_ndx_name = ndx_name, nd_buffer = new_buffer capacity mem \<rparr>"

definition load_node :: "string \<Rightarrow> int \<Rightarrow> ('f, int option) trm" where
  "load_node ndx_name off = bnd (on_cache (get_block off)) (\<lambda>blk. case blk of
     None \<Rightarrow> ret None
   | Some mem \<Rightarrow> (\<lambda>t. let n = nd_new True ndx_name (hd_block_size (t_header t)) mem in
       case bnd (get_at IS_LEAF_POS) (\<lambda>l. bnd (get_int16_at NUM_KEY_POS) (\<lambda>k. ret (l, k))) (nd_buffer n) of
         (Inl e, b) \<Rightarrow> (Inl e, t)
       | (Inr (l, k), b) \<Rightarrow> (Inr (Some off), t \<lparr> tr_node := (tr_node t)(off \<mapsto>
           n \<lparr> nd_buffer := b, nd_leaf := l \<noteq> 0, nd_num_key := sint k \<rparr>) \<rparr>)))"

definition get_node :: "string \<Rightarrow> int \<Rightarrow> ('f, int option) trm" where
  "get_node ndx_name off = (\<lambda>t.
     if off < 0 \<or> off mod BUFFER_SZ \<noteq> 0 then (Inr None, t)
     else case tr_node t off of Some _ \<Rightarrow> (Inr (Some off), t) | None \<Rightarrow> load_node ndx_name off t)"

definition new_node :: "bool \<Rightarrow> string \<Rightarrow> int \<Rightarrow> ('f, int option) trm" where
  "new_node leaf ndx_name off = bnd (on_cache (new_block off)) (\<lambda>blk. case blk of
     None \<Rightarrow> ret None
   | Some mem \<Rightarrow> (\<lambda>t. let n = nd_new leaf ndx_name (hd_block_size (t_header t)) mem in
       case sq (put_int64_at PREV_SIBLING_POS (word_of_int INVALID_SIBLING_REF))
              (put_int64_at NEXT_SIBLING_POS (word_of_int INVALID_SIBLING_REF)) (nd_buffer n) of
         (r, b) \<Rightarrow> (let t' = t \<lparr> tr_cache := (tr_cache t)
               \<lparr> bc_cache := (bc_cache (tr_cache t))(off \<mapsto> m_buffer b) \<rparr> \<rparr> in
           case r of Inl e \<Rightarrow> (Inl e, t')
           | Inr _ \<Rightarrow> (Inr (Some off), t' \<lparr> tr_node := (tr_node t')(off \<mapsto> n \<lparr> nd_buffer := b \<rparr>) \<rparr>))))"

definition child_at :: "int \<Rightarrow> int \<Rightarrow> ('f, int option) trm" where
  "child_at this n = bnd (nd_get this nd_ndx_name) (\<lambda>ndx. bnd (get_child_offset this n) (get_node ndx))"

definition child :: "int \<Rightarrow> int \<Rightarrow> ('f, int) trm" where
  "child this n = bnd (child_at this n) deref"

text \<open>
  \<open>get_offset\<close> takes the last block of the free list, or the end of the file when the
  list is empty; \<open>next_offset\<close> sets the end of the file behind the block it hands
  out, wherever that is.
\<close>

definition get_offset :: "('f, int) trm" where
  "get_offset = (\<lambda>t. let off = hd_free_tail (t_header t) in
     if off < 0 then (Inr (hd_next_offset (t_header t)), t)
     else bnd (on_cache (get_block off)) (\<lambda>blk. case blk of
         None \<Rightarrow> throw (Runtime ERRNO_SYSTEM_ERROR)
       | Some mem \<Rightarrow> (\<lambda>t. case get_int64_at PREV_SIBLING_POS (new_buffer (hd_block_size (t_header t)) mem) of
           (Inl e, _) \<Rightarrow> (Inl e, t)
         | (Inr tail_offset, _) \<Rightarrow>
             sq (if sint tail_offset = INVALID_SIBLING_REF
                 then upd_header (\<lambda>h. h \<lparr> hd_free_head := -1, hd_free_tail := -1 \<rparr>)
                 else upd_header (\<lambda>h. h \<lparr> hd_free_tail := sint tail_offset \<rparr>))
                (ret off) t)) t)"

definition next_offset :: "bool \<Rightarrow> ('f, int) trm" where
  "next_offset is_data_offset = bnd get_offset (\<lambda>off.
     sq (upd_header (\<lambda>h. h \<lparr> hd_next_offset := off + hd_block_size h \<rparr>)) (
     sq (if is_data_offset then upd_header (\<lambda>h. h \<lparr> hd_data_offset := off,
             hd_data_root := (if hd_data_root h < 0 then off else hd_data_root h) \<rparr>) else ret ())
        (ret off)))"

end
