(* ===== verification/Btree.thy ===== *)
theory Btree
  imports Node
begin

text \<open>
  The algorithms on the nodes of an index (\<open>src/btree/btree.cpp\<close>): search, insertion
  with the splitting of full nodes, removal with borrowing and merging, the links
  between neighbours, and the iterators over an index. Each loop over positions
  is a recursion on the number of steps it has left, and each descent has fuel.
\<close>

section \<open>Neighbours\<close>

definition get_prev_sibling_offset :: "int \<Rightarrow> ('f, int) trm" where
  "get_prev_sibling_offset n = bnd (nd_buf n (get_int64_at PREV_SIBLING_POS)) (\<lambda>w. ret (sint w))"

definition get_next_sibling_offset :: "int \<Rightarrow> ('f, int) trm" where
  "get_next_sibling_offset n = bnd (nd_buf n (get_int64_at NEXT_SIBLING_POS)) (\<lambda>w. ret (sint w))"

definition set_prev_sibling_offset :: "int \<Rightarrow> int \<Rightarrow> ('f, unit) trm" where
  "set_prev_sibling_offset n off = nd_buf n (put_int64_at PREV_SIBLING_POS (word_of_int off))"

definition set_next_sibling_offset :: "int \<Rightarrow> int \<Rightarrow> ('f, unit) trm" where
  "set_next_sibling_offset n off = nd_buf n (put_int64_at NEXT_SIBLING_POS (word_of_int off))"

definition get_next_sibling :: "int \<Rightarrow> ('f, int option) trm" where
  "get_next_sibling this = bnd (get_next_sibling_offset this) (\<lambda>off.
     if off = INVALID_SIBLING_REF then ret None
     else bnd (nd_get this nd_ndx_name) (\<lambda>ndx. get_node ndx off))"

definition get_prev_sibling :: "int \<Rightarrow> ('f, int option) trm" where
  "get_prev_sibling this = bnd (get_prev_sibling_offset this) (\<lambda>off.
     if off = INVALID_SIBLING_REF then ret None
     else bnd (nd_get this nd_ndx_name) (\<lambda>ndx. get_node ndx off))"

definition insert_sibling :: "int \<Rightarrow> int \<Rightarrow> ('f, unit) trm" where
  "insert_sibling prev new_nd =
     sq (set_prev_sibling_offset new_nd prev) (
     sq (bnd (get_next_sibling_offset prev) (set_next_sibling_offset new_nd)) (
     bnd (get_next_sibling prev) (\<lambda>nxt.
     sq (case nxt of None \<Rightarrow> ret ()
         | Some nx \<Rightarrow> sq (set_prev_sibling_offset nx new_nd) (node_flush nx))
        (set_next_sibling_offset prev new_nd))))"

section \<open>Search in a node\<close>

fun find_key_loop :: "nat \<Rightarrow> int \<Rightarrow> string \<Rightarrow> int \<Rightarrow> int \<Rightarrow> int \<Rightarrow> ('f, int) trm" where
  "find_key_loop 0 this key lo hi alt_mid = throw Fuel"
| "find_key_loop (Suc n) this key lo hi alt_mid =
     (if lo \<le> hi then
        let mid = (lo + hi) sdiv 2 in
        bnd (get_element this mid) (\<lambda>e.
        let cond = str_compare key (el_key e) in
        if cond < 0 then find_key_loop n this key lo (mid - 1) mid
        else if cond > 0 then find_key_loop n this key (mid + 1) hi alt_mid
        else ret mid)
      else ret alt_mid)"

definition find_key :: "int \<Rightarrow> string \<Rightarrow> ('f, int) trm" where
  "find_key this key = bnd (nd_get this nd_num_key) (\<lambda>k.
     find_key_loop (Suc (nat k)) this key 0 (k - 1) k)"

definition is_full :: "int \<Rightarrow> ('f, bool) trm" where
  "is_full this = bnd (nd_get this nd_num_key) (\<lambda>k. bnd (node_index this) (\<lambda>ix. ret (k \<ge> ix_order ix - 1)))"

definition node_min_degree :: "int \<Rightarrow> ('f, int) trm" where
  "node_min_degree this = bnd (node_index this) (\<lambda>ix. ret (ix_order ix sdiv 2))"

section \<open>Moving elements and child offsets\<close>

text \<open>Copy \<open>k\<close> elements, upwards: element \<open>j + i\<close> of one node to \<open>d + i\<close> of another.\<close>

fun copy_elems :: "nat \<Rightarrow> int \<Rightarrow> int \<Rightarrow> int \<Rightarrow> int \<Rightarrow> ('f, unit) trm" where
  "copy_elems 0 src j dst d = ret ()"
| "copy_elems (Suc k) src j dst d =
     sq (bnd (get_element src j) (put_element dst d)) (copy_elems k src (j + 1) dst (d + 1))"

fun copy_childs :: "nat \<Rightarrow> int \<Rightarrow> int \<Rightarrow> int \<Rightarrow> int \<Rightarrow> ('f, unit) trm" where
  "copy_childs 0 src j dst d = ret ()"
| "copy_childs (Suc k) src j dst d =
     sq (bnd (get_child_offset src j) (put_child_offset dst d)) (copy_childs k src (j + 1) dst (d + 1))"

text \<open>Make room: move elements \<open>i, i - 1, \<dots>\<close> one place up, \<open>k\<close> of them.\<close>

fun shift_elems :: "nat \<Rightarrow> int \<Rightarrow> int \<Rightarrow> ('f, unit) trm" where
  "shift_elems 0 this i = ret ()"
| "shift_elems (Suc k) this i =
     sq (bnd (get_element this i) (put_element this (i + 1))) (shift_elems k this (i - 1))"

fun shift_childs :: "nat \<Rightarrow> int \<Rightarrow> int \<Rightarrow> ('f, unit) trm" where
  "shift_childs 0 this i = ret ()"
| "shift_childs (Suc k) this i =
     sq (bnd (get_child_offset this i) (put_child_offset this (i + 1))) (shift_childs k this (i - 1))"

section \<open>Insertion\<close>

definition split_child :: "int \<Rightarrow> int \<Rightarrow> int \<Rightarrow> ('f, unit) trm" where
  "split_child this n prev =
     bnd (node_min_degree this) (\<lambda>min_degree.
     bnd (nd_get prev nd_leaf) (\<lambda>leaf.
     bnd (nd_get this nd_ndx_name) (\<lambda>ndx.
     bnd (next_offset False) (\<lambda>off.
     bnd (bnd (new_node leaf ndx off) deref) (\<lambda>new_nd.
     sq (set_num_key new_nd (min_degree - 1)) (
     sq (copy_elems (nat (min_degree - 1)) prev min_degree new_nd 0) (
     sq (if leaf then ret () else copy_childs (nat min_degree) prev min_degree new_nd 0) (
     sq (set_num_key prev (if leaf then min_degree else min_degree - 1)) (
     bnd (nd_get this nd_num_key) (\<lambda>k.
     sq (shift_childs (nat (k - n)) this k) (
     sq (put_child_offset this (n + 1) new_nd) (
     sq (shift_elems (nat (k - n)) this (k - 1)) (
     sq (bnd (get_element prev (min_degree - 1)) (put_element this n)) (
     sq (inc_num_key this 1) (
     sq (insert_sibling prev new_nd) (
     sq (node_flush prev)
        (node_flush new_nd)))))))))))))))))"

text \<open>The two loops of \<open>insert_non_full\<close>; the index is the number of elements still to look at.\<close>

fun insert_shift :: "nat \<Rightarrow> int \<Rightarrow> element \<Rightarrow> ('f, nat) trm" where
  "insert_shift 0 this elem = ret 0"
| "insert_shift (Suc i) this elem = bnd (get_element this (int i)) (\<lambda>e.
     if elem_greater e elem
     then sq (bnd (get_element this (int i)) (put_element this (int i + 1))) (insert_shift i this elem)
     else ret (Suc i))"

fun insert_pos :: "nat \<Rightarrow> int \<Rightarrow> element \<Rightarrow> ('f, nat) trm" where
  "insert_pos 0 this elem = ret 0"
| "insert_pos (Suc i) this elem = bnd (get_element this (int i)) (\<lambda>e.
     if elem_greater e elem then insert_pos i this elem else ret (Suc i))"

fun insert_non_full :: "nat \<Rightarrow> int \<Rightarrow> element \<Rightarrow> ('f, unit) trm" where
  "insert_non_full 0 this elem = throw Fuel"
| "insert_non_full (Suc fuel) this elem =
     bnd (nd_get this nd_num_key) (\<lambda>k.
     bnd (nd_get this nd_leaf) (\<lambda>leaf.
     if leaf then
       bnd (insert_shift (nat k) this elem) (\<lambda>i.
       sq (put_element this (int i) elem)
          (inc_num_key this 1))
     else
       bnd (insert_pos (nat k) this elem) (\<lambda>i.
       bnd (child this (int i)) (\<lambda>c.
       bnd (is_full c) (\<lambda>full.
       bnd (if full then
              sq (split_child this (int i) c) (
              bnd (get_element this (int i)) (\<lambda>e.
              ret (if elem_less e elem then i + 1 else i)))
            else ret i) (\<lambda>i'.
       bnd (child this (int i')) (\<lambda>c'.
       insert_non_full fuel c' elem)))))))"

definition tree_insert :: "nat \<Rightarrow> element \<Rightarrow> ('f, unit) trm" where
  "tree_insert fuel elem =
     bnd (tree_get_index (el_ndx_name elem)) (\<lambda>ix.
     if ix_root ix < 0 then
       bnd (next_offset False) (\<lambda>off.
       sq (set_root (el_ndx_name elem) off) (
       bnd (tree_get_index (el_ndx_name elem)) (\<lambda>ix'.
       bnd (bnd (new_node True (el_ndx_name elem) (ix_root ix')) deref) (\<lambda>root.
       sq (put_element root 0 elem)
          (set_num_key root 1)))))
     else
       bnd (bnd (get_node (el_ndx_name elem) (ix_root ix)) deref) (\<lambda>root.
       bnd (is_full root) (\<lambda>full.
       if full then
         bnd (next_offset False) (\<lambda>off.
         bnd (bnd (new_node False (el_ndx_name elem) off) deref) (\<lambda>new_root.
         sq (put_child_offset new_root 0 root) (
         sq (split_child new_root 0 root) (
         bnd (get_element new_root 0) (\<lambda>e.
         bnd (nd_get new_root nd_ndx_name) (\<lambda>ndx.
         bnd (get_child_offset new_root (if elem_less e elem then 1 else 0)) (\<lambda>coff.
         bnd (bnd (get_node ndx coff) deref) (\<lambda>c.
         sq (insert_non_full fuel c elem)
            (set_root (el_ndx_name elem) new_root)))))))))
       else insert_non_full fuel root elem)))"

section \<open>Removal\<close>

definition borrow_from_prev :: "int \<Rightarrow> int \<Rightarrow> ('f, unit) trm" where
  "borrow_from_prev this n =
     bnd (child this n) (\<lambda>ch.
     bnd (child this (n - 1)) (\<lambda>sibling.
     bnd (nd_get ch nd_num_key) (\<lambda>k.
     sq (shift_elems (nat k) ch (k - 1)) (
     sq (bnd (get_element this (n - 1)) (put_element ch 0)) (
     sq (inc_num_key ch 1) (
     bnd (nd_get ch nd_leaf) (\<lambda>leaf.
     sq (if leaf then ret () else
           bnd (nd_get ch nd_num_key) (\<lambda>k'.
           sq (shift_childs (Suc (nat k')) ch k') (
           bnd (nd_get sibling nd_num_key) (\<lambda>s.
           bnd (get_child_offset sibling s) (put_child_offset ch 0))))) (
     sq (bnd (nd_get sibling nd_num_key) (\<lambda>s.
           bnd (get_element sibling (s - 1)) (put_element this (n - 1))))
        (dec_num_key sibling 1)))))))))"

definition borrow_from_next :: "int \<Rightarrow> int \<Rightarrow> ('f, unit) trm" where
  "borrow_from_next this n =
     bnd (child this n) (\<lambda>ch.
     bnd (child this (n + 1)) (\<lambda>sibling.
     bnd (nd_get ch nd_num_key) (\<lambda>k.
     sq (bnd (get_element this n) (put_element ch k)) (
     bnd (nd_get ch nd_leaf) (\<lambda>leaf.
     sq (if leaf then ret () else bnd (get_child_offset sibling 0) (put_child_offset ch (k + 1))) (
     sq (bnd (get_element sibling 0) (put_element this n)) (
     bnd (nd_get sibling nd_num_key) (\<lambda>s.
     sq (copy_elems (nat (s - 1)) sibling 1 sibling 0) (
     bnd (nd_get sibling nd_leaf) (\<lambda>sleaf.
     sq (if sleaf then ret () else copy_childs (nat s) sibling 1 sibling 0) (
     sq (inc_num_key ch 1)
        (dec_num_key sibling 1))))))))))))"

definition merge :: "int \<Rightarrow> int \<Rightarrow> ('f, unit) trm" where
  "merge this n =
     bnd (child this n) (\<lambda>ch.
     bnd (child this (n + 1)) (\<lambda>sibling.
     bnd (node_min_degree this) (\<lambda>min_degree.
     sq (bnd (get_element this n) (put_element ch (min_degree - 1))) (
     bnd (nd_get this nd_num_key) (\<lambda>k.
     sq (copy_elems (nat (k - (n + 1))) this (n + 1) this n) (
     sq (copy_childs (nat (k - (n + 2))) this (n + 2) this (n + 1)) (
     bnd (nd_get sibling nd_num_key) (\<lambda>s.
     sq (copy_elems (nat s) sibling 0 ch min_degree) (
     bnd (nd_get ch nd_leaf) (\<lambda>leaf.
     sq (if leaf then ret () else copy_childs (Suc (nat s)) sibling 0 ch min_degree) (
     sq (inc_num_key ch (s + 1)) (
     sq (dec_num_key this 1) (
     sq (bnd (get_next_sibling_offset sibling) (set_next_sibling_offset ch))
        (nd_upd sibling (\<lambda>x. x \<lparr> nd_dead := True \<rparr>)))))))))))))))"

definition node_fill :: "int \<Rightarrow> int \<Rightarrow> ('f, unit) trm" where
  "node_fill this n =
     bnd (node_min_degree this) (\<lambda>min_degree.
     bnd (if n \<noteq> 0 then bnd (child this (n - 1)) (\<lambda>c. bnd (nd_get c nd_num_key) (\<lambda>k. ret (k \<ge> min_degree)))
          else ret False) (\<lambda>prev_ok.
     if prev_ok then borrow_from_prev this n
     else
       bnd (nd_get this nd_num_key) (\<lambda>k.
       bnd (if n \<noteq> k then bnd (child this (n + 1)) (\<lambda>c. bnd (nd_get c nd_num_key) (\<lambda>k. ret (k \<ge> min_degree)))
            else ret False) (\<lambda>next_ok.
       if next_ok then borrow_from_next this n
       else if n \<noteq> k then merge this n
       else merge this (n - 1)))))"

text \<open>
  \<open>get_next_element\<close> and \<open>get_prev_element\<close> start at a child and mean to walk down to a
  leaf; in both loops the next node is taken from this node again, not from the child.
\<close>

fun next_element_loop :: "nat \<Rightarrow> int \<Rightarrow> int \<Rightarrow> ('f, int) trm" where
  "next_element_loop 0 this ch = throw Fuel"
| "next_element_loop (Suc fuel) this ch = bnd (nd_get ch nd_leaf) (\<lambda>leaf.
     if leaf then ret ch else bnd (child this 0) (next_element_loop fuel this))"

definition get_next_element :: "nat \<Rightarrow> int \<Rightarrow> int \<Rightarrow> ('f, element) trm" where
  "get_next_element fuel this n = bnd (child this (n + 1)) (\<lambda>c.
     bnd (next_element_loop fuel this c) (\<lambda>ch. get_element ch 0))"

fun prev_element_loop :: "nat \<Rightarrow> int \<Rightarrow> int \<Rightarrow> ('f, int) trm" where
  "prev_element_loop 0 this ch = throw Fuel"
| "prev_element_loop (Suc fuel) this ch = bnd (nd_get ch nd_leaf) (\<lambda>leaf.
     if leaf then ret ch
     else bnd (nd_get ch nd_num_key) (\<lambda>k. bnd (child this k) (prev_element_loop fuel this)))"

definition get_prev_element :: "nat \<Rightarrow> int \<Rightarrow> int \<Rightarrow> ('f, element) trm" where
  "get_prev_element fuel this n = bnd (child this n) (\<lambda>c.
     bnd (prev_element_loop fuel this c) (\<lambda>ch.
     bnd (nd_get ch nd_num_key) (\<lambda>k. get_element ch (k - 2))))"

definition remove_from_leaf :: "int \<Rightarrow> int \<Rightarrow> ('f, element) trm" where
  "remove_from_leaf this n =
     bnd (get_element this n) (\<lambda>rt.
     bnd (nd_get this nd_num_key) (\<lambda>k.
     sq (copy_elems (nat (k - (n + 1))) this (n + 1) this n) (
     sq (dec_num_key this 1)
        (ret rt))))"

text \<open>
  \<open>remove\<close> with \<open>remove_from_non_leaf\<close> in place; the reference parameter that receives the
  removed element is threaded through.
\<close>

fun node_remove :: "nat \<Rightarrow> int \<Rightarrow> element \<Rightarrow> string \<Rightarrow> ('f, element) trm" where
  "node_remove 0 this rt key = throw Fuel"
| "node_remove (Suc fuel) this rt key =
     bnd (find_key this key) (\<lambda>n.
     bnd (nd_get this nd_num_key) (\<lambda>k.
     bnd (nd_get this nd_leaf) (\<lambda>leaf.
     bnd (if n < k then bnd (get_element this n) (\<lambda>e. ret (el_key e = key)) else ret False) (\<lambda>found.
     if found then
       (if leaf then remove_from_leaf this n
        else
          bnd (get_element this n) (\<lambda>elem.
          bnd (node_min_degree this) (\<lambda>min_degree.
          bnd (bnd (child this n) (\<lambda>c. nd_get c nd_num_key)) (\<lambda>k0.
          if k0 \<ge> min_degree then
            bnd (get_prev_element fuel this n) (\<lambda>prev.
            sq (put_element this n prev) (
            bnd (child this n) (\<lambda>c. node_remove fuel c rt (el_key elem))))
          else
            bnd (bnd (child this (n + 1)) (\<lambda>c. nd_get c nd_num_key)) (\<lambda>k1.
            if k1 \<ge> min_degree then
              bnd (get_next_element fuel this n) (\<lambda>nxt.
              sq (put_element this n nxt) (
              bnd (child this (n + 1)) (\<lambda>c. node_remove fuel c rt (el_key elem))))
            else
              sq (merge this n) (
              bnd (child this n) (\<lambda>c. node_remove fuel c rt (el_key elem))))))))
     else if leaf then ret rt
     else
       bnd (node_min_degree this) (\<lambda>min_degree.
       bnd (bnd (child this n) (\<lambda>c. nd_get c nd_num_key)) (\<lambda>k0.
       sq (if k0 < min_degree then node_fill this n else ret ()) (
       bnd (nd_get this nd_num_key) (\<lambda>k'.
       if n = k \<and> n > k' then bnd (child this (n - 1)) (\<lambda>c. node_remove fuel c rt key)
       else bnd (child this n) (\<lambda>c. node_remove fuel c rt key)))))))))"

definition tree_remove :: "nat \<Rightarrow> element \<Rightarrow> string \<Rightarrow> string \<Rightarrow> ('f, element) trm" where
  "tree_remove fuel elem ndx_name key =
     bnd (tree_get_index ndx_name) (\<lambda>ix.
     if ix_root ix < 0 then ret elem
     else
       bnd (bnd (get_node ndx_name (ix_root ix)) deref) (\<lambda>root.
       bnd (node_remove fuel root elem key) (\<lambda>e.
       bnd (nd_get root nd_num_key) (\<lambda>k.
       if k = 0 then
         bnd (nd_get root nd_leaf) (\<lambda>leaf.
         sq (if leaf then set_root ndx_name (-1)
             else bnd (get_child_offset root 0) (set_root ndx_name)) (
         sq (nd_upd root (\<lambda>x. x \<lparr> nd_dead := True \<rparr>))
            (ret e)))
       else ret e))))"

section \<open>Iterators over an index\<close>

record iterator =
  it_index :: int
  it_offset :: int
  it_ndx_name :: string

definition tree_empty :: "string \<Rightarrow> ('f, bool) trm" where
  "tree_empty ndx_name = bnd (tree_get_index ndx_name) (\<lambda>ix. ret (ix_root ix < 0))"

fun first_leaf :: "nat \<Rightarrow> int \<Rightarrow> ('f, int) trm" where
  "first_leaf 0 n = throw Fuel"
| "first_leaf (Suc fuel) n = bnd (nd_get n nd_leaf) (\<lambda>leaf.
     if leaf then ret n else bnd (child n 0) (first_leaf fuel))"

fun last_leaf :: "nat \<Rightarrow> int \<Rightarrow> ('f, int) trm" where
  "last_leaf 0 n = throw Fuel"
| "last_leaf (Suc fuel) n = bnd (nd_get n nd_leaf) (\<lambda>leaf.
     if leaf then ret n else bnd (nd_get n nd_num_key) (\<lambda>k. bnd (child n k) (last_leaf fuel)))"

definition invalid_iterator :: "string \<Rightarrow> iterator" where
  "invalid_iterator ndx_name = \<lparr> it_index = 0, it_offset = INVALID_SIBLING_REF, it_ndx_name = ndx_name \<rparr>"

definition tree_begin :: "nat \<Rightarrow> string \<Rightarrow> ('f, iterator) trm" where
  "tree_begin fuel ndx_name = bnd (tree_get_index ndx_name) (\<lambda>ix.
     if ix_root ix < 0 then ret (invalid_iterator ndx_name)
     else bnd (bnd (get_node ndx_name (ix_root ix)) deref) (\<lambda>root.
       bnd (first_leaf fuel root) (\<lambda>n.
       ret \<lparr> it_index = 0, it_offset = n, it_ndx_name = ndx_name \<rparr>)))"

definition tree_end :: "nat \<Rightarrow> string \<Rightarrow> ('f, iterator) trm" where
  "tree_end fuel ndx_name = bnd (tree_get_index ndx_name) (\<lambda>ix.
     if ix_root ix < 0 then ret (invalid_iterator ndx_name)
     else bnd (bnd (get_node ndx_name (ix_root ix)) deref) (\<lambda>root.
       bnd (last_leaf fuel root) (\<lambda>n.
       bnd (nd_get n nd_num_key) (\<lambda>k.
       ret \<lparr> it_index = k, it_offset = n, it_ndx_name = ndx_name \<rparr>))))"

fun node_find :: "nat \<Rightarrow> int \<Rightarrow> string \<Rightarrow> ('f, iterator) trm" where
  "node_find 0 this key = throw Fuel"
| "node_find (Suc fuel) this key =
     bnd (find_key this key) (\<lambda>i.
     bnd (get_element this i) (\<lambda>e.
     bnd (nd_get this nd_ndx_name) (\<lambda>ndx.
     if el_key e = key then ret \<lparr> it_index = i, it_offset = this, it_ndx_name = ndx \<rparr>
     else bnd (nd_get this nd_leaf) (\<lambda>leaf.
       if leaf then tree_end (Suc fuel) ndx
       else bnd (child this i) (\<lambda>c. node_find fuel c key)))))"

definition tree_find :: "nat \<Rightarrow> string \<Rightarrow> string \<Rightarrow> ('f, iterator) trm" where
  "tree_find fuel ndx_name key = bnd (tree_get_index ndx_name) (\<lambda>ix.
     if ix_root ix < 0 then ret (invalid_iterator ndx_name)
     else bnd (bnd (get_node ndx_name (ix_root ix)) deref) (\<lambda>root. node_find fuel root key))"

definition iterator_eq :: "iterator \<Rightarrow> iterator \<Rightarrow> bool" where
  "iterator_eq a b \<longleftrightarrow> it_offset a = it_offset b \<and> it_index a = it_index b"

definition iterator_inc :: "iterator \<Rightarrow> ('f, iterator) trm" where
  "iterator_inc it = bnd (bnd (get_node (it_ndx_name it) (it_offset it)) deref) (\<lambda>n.
     bnd (nd_get n nd_num_key) (\<lambda>k.
     let it = (if it_index it < k then it \<lparr> it_index := it_index it + 1 \<rparr> else it) in
     if it_index it = k then
       bnd (get_next_sibling_offset n) (\<lambda>off.
       ret (if off \<noteq> INVALID_SIBLING_REF then it \<lparr> it_offset := off, it_index := 0 \<rparr> else it))
     else ret it))"

definition iterator_dec :: "iterator \<Rightarrow> ('f, iterator) trm" where
  "iterator_dec it =
     bnd (if it_index it = 0 then
            bnd (bnd (get_node (it_ndx_name it) (it_offset it)) deref) (\<lambda>n.
            bnd (get_prev_sibling_offset n) (\<lambda>off.
            if off \<noteq> INVALID_SIBLING_REF then
              bnd (bnd (get_node (it_ndx_name it) off) deref) (\<lambda>p.
              bnd (nd_get p nd_num_key) (\<lambda>k. ret (it \<lparr> it_offset := off, it_index := k \<rparr>)))
            else ret it))
          else ret it) (\<lambda>it.
     ret (if it_index it > 0 then it \<lparr> it_index := it_index it - 1 \<rparr> else it))"

end
