(* ===== verification/BufferFields.thy ===== *)
theory BufferFields
  imports Buffer
begin

text \<open>
  Fields at fixed offsets of a buffer, in terms of its bytes: what writing and reading a
  typed field or a character string at an offset does, for the code that lays out
  records in a buffer (the nodes of the index and the rows).
\<close>

section \<open>Fields of a block\<close>

definition bytes_at :: "nat \<Rightarrow> nat \<Rightarrow> byte list \<Rightarrow> byte list" where
  "bytes_at p n mem = take n (drop p mem)"

lemma bytes_at_splice_same [simp]:
  "p + length bs \<le> length mem \<Longrightarrow> n = length bs \<Longrightarrow> bytes_at p n (splice p bs mem) = bs"
  by (simp add: bytes_at_def splice_read)

lemma bytes_at_splice_other:
  assumes "p + length bs \<le> length mem" "q + n \<le> p \<or> p + length bs \<le> q"
  shows "bytes_at q n (splice p bs mem) = bytes_at q n mem"
proof (rule nth_equalityI)
  show "length (bytes_at q n (splice p bs mem)) = length (bytes_at q n mem)"
    using assms by (simp add: bytes_at_def)
  fix i assume "i < length (bytes_at q n (splice p bs mem))"
  then show "bytes_at q n (splice p bs mem) ! i = bytes_at q n mem ! i"
    using assms by (auto simp: bytes_at_def intro!: splice_frame)
qed

context codec
begin

lemma put_field_run:
  assumes "buf_inv b" "int (p + width) \<le> m_bound b"
  shows "sq (set_index (int p)) (put_v v) b
    = (Inr (), b \<lparr> m_index := int (p + width), m_buffer := splice p (enc v) (m_buffer b) \<rparr>)"
proof -
  let ?b = "b \<lparr> m_index := int p \<rparr>"
  have "buf_inv ?b" "int width \<le> remaining ?b" using assms by (auto simp: buf_inv_def remaining_def)
  then show ?thesis using assms by (simp add: exn_simps set_index_run put_v_ok write_bytes_def)
qed

lemma get_field_run:
  assumes "buf_inv b" "int (p + width) \<le> m_bound b"
  shows "sq (set_index (int p)) get_v b
    = (Inr (dec (bytes_at p width (m_buffer b))), b \<lparr> m_index := int (p + width) \<rparr>)"
proof -
  let ?b = "b \<lparr> m_index := int p \<rparr>"
  have "buf_inv ?b" "int width \<le> remaining ?b" using assms by (auto simp: buf_inv_def remaining_def)
  then show ?thesis
    using assms by (simp add: exn_simps set_index_run get_v_run read_bytes_def advance_def bytes_at_def)
qed

end

lemma get_varchar_at_run:
  assumes "buf_inv b" "int (p + n) \<le> m_bound b"
  shows "get_varchar_at (int p) (int n) b
    = (Inr (map char_of_byte (bytes_at p n (m_buffer b))), b \<lparr> m_index := int (p + n) \<rparr>)"
proof -
  let ?b = "b \<lparr> m_index := int p \<rparr>"
  have "buf_inv ?b" "int n \<le> remaining ?b" using assms by (auto simp: buf_inv_def remaining_def)
  then show ?thesis
    using assms by (simp add: get_varchar_at_def get_varchar_def exn_simps set_index_run get_varchar_loop_run
        read_bytes_def advance_def bytes_at_def)
qed

lemma put_varchar_at_run:
  assumes "buf_inv b" "int (p + length s) \<le> m_bound b"
  shows "put_varchar_at (int p) s b
    = (Inr (), b \<lparr> m_index := int (p + length s), m_buffer := splice p (map byte_of_char s) (m_buffer b) \<rparr>)"
proof -
  let ?b = "b \<lparr> m_index := int p \<rparr>"
  have "buf_inv ?b" "int (length s) \<le> remaining ?b" using assms by (auto simp: buf_inv_def remaining_def)
  then show ?thesis
    using assms by (simp add: put_varchar_at_def exn_simps set_index_run put_varchar_eq put_bytes_run write_bytes_def)
qed

lemmas field_runs =
  i64.put_field_run [folded put_int64_at_def] i64.get_field_run [folded get_int64_at_def]
  i16.put_field_run [folded put_int16_at_def] i16.get_field_run [folded get_int16_at_def]
  u8.put_field_run [folded put_at_def] u8.get_field_run [folded get_at_def]
  get_varchar_at_run put_varchar_at_run

lemma map_char_bytes [simp]: "map char_of_byte (map byte_of_char s) = s"
  by (simp add: o_def map_idI)

end
