(* ===== verification/NodeLayout.thy ===== *)
theory NodeLayout
  imports Btree BufferFields
begin

text \<open>
  The layout of a node, and what the operations on nodes do in terms of it. The bytes
  of a block are read as the view of a node: for each slot a number and a key. A
  concrete state of the tree is abstracted to the views of the nodes of one index, and
  \<open>does\<close> states that an operation succeeds on all concrete states of an abstract
  one and what it leaves behind; its rules for the single operations are the basis of the
  proofs about the algorithms, which no longer see bytes, buffers or the cache.
\<close>

section \<open>The view of a node\<close>

text \<open>
  What a node holds, apart from where its bytes are: for each slot the number in it (the
  place of a row, or the offset of a child) and the key. The geometry of an index is
  its name, its key size and its order.
\<close>

record geo =
  gx :: string
  gks :: nat
  gord :: nat

record nview =
  nleaf :: bool
  nnum :: int
  nnxt :: int
  nval :: "nat \<Rightarrow> int"
  nkey :: "nat \<Rightarrow> string"

definition slot :: "geo \<Rightarrow> nat \<Rightarrow> nat" where
  "slot g i = 24 + i * (8 + gks g)"

definition mem_int :: "nat \<Rightarrow> byte list \<Rightarrow> int" where
  "mem_int p mem = sint (word64_of (bytes_at p 8 mem))"

definition mem_str :: "nat \<Rightarrow> nat \<Rightarrow> byte list \<Rightarrow> string" where
  "mem_str p n mem = map char_of_byte (bytes_at p n mem)"

definition view :: "geo \<Rightarrow> node \<Rightarrow> byte list \<Rightarrow> nview" where
  "view g n mem = \<lparr> nleaf = nd_leaf n, nnum = nd_num_key n, nnxt = mem_int 12 mem,
     nval = (\<lambda>i. if i < gord g then mem_int (slot g i) mem else 0),
     nkey = (\<lambda>i. if i < gord g then mem_str (slot g i + 8) (gks g) mem else []) \<rparr>"

definition geo_ok :: "geo \<Rightarrow> bool" where
  "geo_ok g \<longleftrightarrow> slot g (gord g) \<le> 32768"

definition node_ok :: "node \<Rightarrow> byte list \<Rightarrow> bool" where
  "node_ok n mem \<longleftrightarrow> length mem = 32768 \<and> m_size (nd_buffer n) = 32768 \<and> m_bound (nd_buffer n) = 32768
     \<and> 0 \<le> m_index (nd_buffer n) \<and> m_index (nd_buffer n) \<le> 32768"

lemma slot_step: "i < j \<Longrightarrow> slot g i + (8 + gks g) \<le> slot g j"
  using mult_le_mono1 [of "Suc i" j "8 + gks g"] by (simp add: slot_def)

lemma slot_fits: "geo_ok g \<Longrightarrow> i < gord g \<Longrightarrow> slot g i + (8 + gks g) \<le> 32768"
  using slot_step [of i "gord g" g] by (simp add: geo_ok_def)

lemma slot_ge: "24 \<le> slot g i"
  by (simp add: slot_def)

text \<open>Where a write lands, and what it leaves alone.\<close>

lemma mem_int_splice [simp]:
  "p + 8 \<le> length mem \<Longrightarrow> mem_int p (splice p (bytes64 w) mem) = sint w"
  by (simp add: mem_int_def)

lemma mem_int_other:
  "p + length bs \<le> length mem \<Longrightarrow> q + 8 \<le> p \<or> p + length bs \<le> q \<Longrightarrow> mem_int q (splice p bs mem) = mem_int q mem"
  by (simp add: mem_int_def bytes_at_splice_other)

lemma mem_str_splice [simp]:
  "p + length s \<le> length mem \<Longrightarrow> n = length s \<Longrightarrow> mem_str p n (splice p (map byte_of_char s) mem) = s"
  by (simp add: mem_str_def del: map_map)

lemma mem_str_other:
  "p + length bs \<le> length mem \<Longrightarrow> q + n \<le> p \<or> p + length bs \<le> q \<Longrightarrow> mem_str q n (splice p bs mem) = mem_str q n mem"
  by (simp add: mem_str_def bytes_at_splice_other)

lemma slots_apart:
  "i \<noteq> j \<Longrightarrow> slot g i + (8 + gks g) \<le> slot g j \<or> slot g j + (8 + gks g) \<le> slot g i"
  using slot_step [of i j g] slot_step [of j i g] by (cases i j rule: linorder_cases) auto

lemma view_put_int:
  assumes "geo_ok g" "length mem = 32768" "i < gord g"
  shows "view g n (splice (slot g i) (bytes64 w) mem) = (view g n mem) \<lparr> nval := (nval (view g n mem))(i := sint w) \<rparr>"
proof -
  have b: "slot g i + length (bytes64 w) \<le> length mem" using slot_fits [OF assms(1,3)] assms(2) by simp
  have v: "mem_int (slot g j) (splice (slot g i) (bytes64 w) mem) = (if j = i then sint w else mem_int (slot g j) mem)" for j
    using b slots_apart [of i j g] mem_int_other [OF b, of "slot g j"] by auto
  have k: "mem_str (slot g j + 8) (gks g) (splice (slot g i) (bytes64 w) mem) = mem_str (slot g j + 8) (gks g) mem" for j
    using slots_apart [of i j g] mem_str_other [OF b, of "slot g j + 8" "gks g"] by (cases "i = j") auto
  have "mem_int 12 (splice (slot g i) (bytes64 w) mem) = mem_int 12 mem"
    using slot_ge [of g i] by (intro mem_int_other [OF b]) simp
  with v k assms(3) show ?thesis by (auto simp: view_def)
qed

lemma view_put_str:
  assumes "geo_ok g" "length mem = 32768" "i < gord g" "length s = gks g"
  shows "view g n (splice (slot g i + 8) (map byte_of_char s) mem)
    = (view g n mem) \<lparr> nkey := (nkey (view g n mem))(i := s) \<rparr>"
proof -
  let ?bs = "map byte_of_char s"
  have b: "slot g i + 8 + length ?bs \<le> length mem" using slot_fits [OF assms(1,3)] assms by simp
  have v: "mem_int (slot g j) (splice (slot g i + 8) ?bs mem) = mem_int (slot g j) mem" for j
    using slots_apart [of i j g] mem_int_other [OF b, of "slot g j"] assms(4) by (cases "i = j") auto
  have k: "mem_str (slot g j + 8) (gks g) (splice (slot g i + 8) ?bs mem)
      = (if j = i then s else mem_str (slot g j + 8) (gks g) mem)" for j
    using b slots_apart [of i j g] mem_str_other [OF b, of "slot g j + 8" "gks g"] assms(4) by auto
  have "mem_int 12 (splice (slot g i + 8) ?bs mem) = mem_int 12 mem"
    using slot_ge [of g i] by (intro mem_int_other [OF b]) simp
  with v k assms(3) show ?thesis by (auto simp: view_def)
qed

lemma slots_untouched:
  assumes "length mem = 32768" "p + length bs \<le> 24"
  shows "mem_int (slot g i) (splice p bs mem) = mem_int (slot g i) mem"
    "mem_str (slot g i + 8) n (splice p bs mem) = mem_str (slot g i + 8) n mem"
  using assms slot_ge [of g i] by (auto intro!: mem_int_other mem_str_other)

lemma view_put_next:
  "length mem = 32768 \<Longrightarrow> view g n (splice 12 (bytes64 w) mem) = (view g n mem) \<lparr> nnxt := sint w \<rparr>"
  by (simp add: view_def slots_untouched cong: if_cong)

lemma view_put_low:
  "length mem = 32768 \<Longrightarrow> p + length bs \<le> 12 \<Longrightarrow> view g n (splice p bs mem) = view g n mem"
  by (simp add: view_def slots_untouched mem_int_other cong: if_cong)

section \<open>The state of an index\<close>

text \<open>
  The abstract state: the nodes of the index by their offset, the end of the file and the
  root. \<open>tr_ok\<close> says that a concrete state is in order: each node of the index has a
  whole block in the cache, at a block boundary below the end of the file, the schema
  knows the index with this geometry, the free list is empty and the disk takes writes.
\<close>

record ast =
  ah :: "int \<Rightarrow> nview option"
  anext :: int
  aroot :: int

definition heap :: "geo \<Rightarrow> 'f tree \<Rightarrow> int \<Rightarrow> nview option" where
  "heap g t off = (case (tr_node t off, bc_cache (tr_cache t) off) of
     (Some n, Some mem) \<Rightarrow> if nd_ndx_name n = gx g then Some (view g n mem) else None | _ \<Rightarrow> None)"

definition the_index :: "geo \<Rightarrow> 'f tree \<Rightarrow> index" where
  "the_index g t = projr (get_index (t_schema t) (gx g))"

definition abst :: "geo \<Rightarrow> 'f tree \<Rightarrow> ast" where
  "abst g t = \<lparr> ah = heap g t, anext = hd_next_offset (t_header t), aroot = ix_root (the_index g t) \<rparr>"

definition tr_ok :: "geo \<Rightarrow> 'f tree \<Rightarrow> bool" where
  "tr_ok g t \<longleftrightarrow> geo_ok g \<and> disk_ok (tr_cache t) \<and> hd_block_size (t_header t) = 32768 \<and> hd_free_tail (t_header t) < 0
     \<and> 0 \<le> hd_next_offset (t_header t) \<and> hd_next_offset (t_header t) mod 32768 = 0
     \<and> (\<exists>ix. get_index (t_schema t) (gx g) = Inr ix \<and> ix_key_size ix = int (gks g) \<and> ix_order ix = int (gord g))
     \<and> (\<forall>off n. tr_node t off = Some n \<longrightarrow> nd_ndx_name n = gx g \<longrightarrow>
          0 \<le> off \<and> off < hd_next_offset (t_header t) \<and> off mod 32768 = 0
          \<and> (\<exists>mem. bc_cache (tr_cache t) off = Some mem \<and> node_ok n mem))"

definition wf_ast :: "geo \<Rightarrow> ast \<Rightarrow> bool" where
  "wf_ast g A \<longleftrightarrow> geo_ok g \<and> 0 \<le> anext A \<and> anext A mod 32768 = 0
     \<and> (\<forall>off v. ah A off = Some v \<longrightarrow> 0 \<le> off \<and> off < anext A \<and> off mod 32768 = 0
          \<and> - (2 ^ 63) \<le> nnxt v \<and> nnxt v < 2 ^ 63
          \<and> (\<forall>i < gord g. length (nkey v i) = gks g \<and> - (2 ^ 63) \<le> nval v i \<and> nval v i < 2 ^ 63))"

lemma heap_Some:
  "tr_ok g t \<Longrightarrow> heap g t off = Some v \<longleftrightarrow>
    (\<exists>n mem. tr_node t off = Some n \<and> nd_ndx_name n = gx g \<and> bc_cache (tr_cache t) off = Some mem
      \<and> node_ok n mem \<and> v = view g n mem)"
  unfolding heap_def tr_ok_def by (auto split: option.splits) fastforce

lemma view_wf:
  assumes "geo_ok g" "node_ok n mem" "i < gord g"
  shows "length (nkey (view g n mem) i) = gks g" "- (2 ^ 63) \<le> nval (view g n mem) i" "nval (view g n mem) i < 2 ^ 63"
  using assms slot_fits [OF assms(1,3)]
    sint_range_size [of "word64_of (bytes_at (slot g i) 8 mem)"]
  by (auto simp: view_def mem_str_def mem_int_def bytes_at_def node_ok_def word_size)

lemma mem_int_range: "- (2 ^ 63) \<le> mem_int p mem" "mem_int p mem < 2 ^ 63"
  using sint_range_size [of "word64_of (bytes_at p 8 mem)"] by (auto simp: mem_int_def word_size)

lemma abst_wf: "tr_ok g t \<Longrightarrow> wf_ast g (abst g t)"
  unfolding wf_ast_def abst_def
  using view_wf mem_int_range [of 12] by (auto simp: heap_Some simp: tr_ok_def view_def [of g, THEN arg_cong [of _ _ nnxt]])

text \<open>
  \<open>does g m A r A'\<close>: on every concrete state of \<open>A\<close> the operation succeeds with \<open>r\<close>, in a state
  of \<open>A'\<close>, and all it touches are nodes of this index.
\<close>

definition frame :: "ast \<Rightarrow> 'f tree \<Rightarrow> 'f tree \<Rightarrow> bool" where
  "frame A' t t' \<longleftrightarrow> (\<forall>off. ah A' off = None \<longrightarrow> tr_node t' off = tr_node t off
     \<and> bc_cache (tr_cache t') off = bc_cache (tr_cache t) off)"

definition does :: "geo \<Rightarrow> ('f, 'a) trm \<Rightarrow> ast \<Rightarrow> 'a \<Rightarrow> ast \<Rightarrow> bool" where
  "does g m A r A' \<longleftrightarrow> dom (ah A) \<subseteq> dom (ah A') \<and> (\<forall>t. tr_ok g t \<longrightarrow> abst g t = A \<longrightarrow>
     (\<exists>t'. m t = (Inr r, t') \<and> tr_ok g t' \<and> abst g t' = A' \<and> frame A' t t'))"

named_theorems does_rules \<open>what the operations on a node do\<close>

lemma doesI:
  "dom (ah A) \<subseteq> dom (ah A') \<Longrightarrow> (\<And>t. tr_ok g t \<Longrightarrow> abst g t = A \<Longrightarrow>
     \<exists>t'. m t = (Inr r, t') \<and> tr_ok g t' \<and> abst g t' = A' \<and> frame A' t t') \<Longrightarrow> does g m A r A'"
  by (simp add: does_def)

lemma frame_trans: "frame A1 s t \<Longrightarrow> frame A2 t u \<Longrightarrow> dom (ah A1) \<subseteq> dom (ah A2) \<Longrightarrow> frame A2 s u"
  unfolding frame_def by (metis domIff subset_iff)

lemma does_bnd:
  fixes m :: "('f, 'x) trm"
  assumes "does g m A x A1" "does g (f x) A1 r A2"
  shows "does g (bnd m f) A r A2"
proof (rule doesI)
  show "dom (ah A) \<subseteq> dom (ah A2)" using assms unfolding does_def by (meson subset_trans)
  fix t :: "'f tree"
  assume "tr_ok g t" "abst g t = A"
  with assms(1) obtain t1 where 1: "m t = (Inr x, t1)" "tr_ok g t1" "abst g t1 = A1" "frame A1 t t1" by (auto simp: does_def)
  with assms(2) obtain t2 where "f x t1 = (Inr r, t2)" "tr_ok g t2" "abst g t2 = A2" "frame A2 t1 t2" by (auto simp: does_def)
  with 1 show "\<exists>t'. bnd m f t = (Inr r, t') \<and> tr_ok g t' \<and> abst g t' = A2 \<and> frame A2 t t'"
    using assms(2) frame_trans [OF 1(4)] by (auto simp: does_def)
qed

lemma does_sq: "does g m A x A1 \<Longrightarrow> does g k A1 r A2 \<Longrightarrow> does g (sq m k) A r A2"
  unfolding sq_def by (rule does_bnd)

lemma does_ret: "does g (ret x) A x A"
  by (auto simp: does_def frame_def)

lemma does_ret_eq: "x = r \<Longrightarrow> does g (ret x) A r A"
  by (simp add: does_ret)

lemma does_pure:
  "(\<And>t. tr_ok g t \<Longrightarrow> abst g t = A \<Longrightarrow> m t = (Inr r, t)) \<Longrightarrow> does g m A r A"
  by (auto simp: does_def frame_def)

lemma does_wf: "(wf_ast g A \<Longrightarrow> does g m A r A') \<Longrightarrow> dom (ah A) \<subseteq> dom (ah A') \<Longrightarrow> does g m A r A'"
  using abst_wf by (force simp: does_def)

lemma does_cong: "does g m A r A' \<Longrightarrow> r = r' \<Longrightarrow> A' = B \<Longrightarrow> does g m A r' B"
  by simp

section \<open>What the operations on a node do\<close>

abbreviation ah_put :: "int \<Rightarrow> nview \<Rightarrow> ast \<Rightarrow> ast" where
  "ah_put off v A \<equiv> A \<lparr> ah := (ah A)(off \<mapsto> v) \<rparr>"

definition set_nd :: "int \<Rightarrow> node \<Rightarrow> byte list \<Rightarrow> 'f tree \<Rightarrow> 'f tree" where
  "set_nd off n mem t = t \<lparr> tr_node := (tr_node t)(off \<mapsto> n),
     tr_cache := (tr_cache t) \<lparr> bc_cache := (bc_cache (tr_cache t))(off \<mapsto> mem) \<rparr> \<rparr>"

lemma set_nd_ok:
  assumes "tr_ok g t" "heap g t off = Some v" "node_ok n mem" "nd_ndx_name n = gx g"
  shows "tr_ok g (set_nd off n mem t) \<and> abst g (set_nd off n mem t) = ah_put off (view g n mem) (abst g t)
    \<and> frame (ah_put off (view g n mem) (abst g t)) t (set_nd off n mem t)"
proof (intro conjI)
  from assms(1,2) show "tr_ok g (set_nd off n mem t)"
    using assms(3,4) by (auto simp: heap_Some tr_ok_def set_nd_def disk_ok_def block_size_def Let_def)
  show "abst g (set_nd off n mem t) = ah_put off (view g n mem) (abst g t)"
    using assms(4) by (auto simp: abst_def set_nd_def heap_def the_index_def fun_eq_iff)
  show "frame (ah_put off (view g n mem) (abst g t)) t (set_nd off n mem t)"
    by (auto simp: frame_def set_nd_def)
qed

lemma does_nd_buf:
  assumes "ah A off = Some v"
    and "\<And>n mem. geo_ok g \<Longrightarrow> node_ok n mem \<Longrightarrow> view g n mem = v \<Longrightarrow>
      \<exists>b. m ((nd_buffer n) \<lparr> m_buffer := mem \<rparr>) = (Inr r, b) \<and> node_ok (n \<lparr> nd_buffer := b \<rparr>) (m_buffer b)
        \<and> view g (n \<lparr> nd_buffer := b \<rparr>) (m_buffer b) = v'"
  shows "does g (nd_buf off m) A r (ah_put off v' A)"
proof (rule doesI)
  fix t assume t: "tr_ok g t" "abst g t = A"
  then have h: "heap g t off = Some v" using assms(1) by (auto simp: abst_def)
  then obtain n mem where n: "tr_node t off = Some n" "nd_ndx_name n = gx g" "bc_cache (tr_cache t) off = Some mem"
    "node_ok n mem" "v = view g n mem" using t(1) by (auto simp: heap_Some)
  from assms(2) [OF _ n(4)] t(1) n(5) obtain b where
    b: "m ((nd_buffer n) \<lparr> m_buffer := mem \<rparr>) = (Inr r, b)" "node_ok (n \<lparr> nd_buffer := b \<rparr>) (m_buffer b)"
      "view g (n \<lparr> nd_buffer := b \<rparr>) (m_buffer b) = v'" by (auto simp: tr_ok_def)
  have "nd_buf off m t = (Inr r, set_nd off (n \<lparr> nd_buffer := b \<rparr>) (m_buffer b) t)"
    using n b by (simp add: nd_buf_def set_nd_def)
  then show "\<exists>t'. nd_buf off m t = (Inr r, t') \<and> tr_ok g t' \<and> abst g t' = ah_put off v' A \<and> frame (ah_put off v' A) t t'"
    using set_nd_ok [OF t(1) h b(2)] n(2) b(3) t(2) by auto
qed auto

lemma node_ok_inv: "node_ok n mem \<Longrightarrow> buf_inv ((nd_buffer n) \<lparr> m_buffer := mem \<rparr>)"
  by (simp add: node_ok_def buf_inv_def)

lemma view_nd_buffer [simp]: "view g (n \<lparr> nd_buffer := b \<rparr>) mem = view g n mem"
  by (simp add: view_def)

lemma ah_put_same: "ah A off = Some v \<Longrightarrow> ah_put off v A = A"
  by (cases A) (auto simp: fun_upd_idem)

lemma does_read:
  assumes "ah A off = Some v"
    and "\<And>n mem. geo_ok g \<Longrightarrow> node_ok n mem \<Longrightarrow> view g n mem = v \<Longrightarrow>
      \<exists>i. m ((nd_buffer n) \<lparr> m_buffer := mem \<rparr>) = (Inr r, (nd_buffer n) \<lparr> m_buffer := mem, m_index := i \<rparr>) \<and> 0 \<le> i \<and> i \<le> 32768"
  shows "does g (nd_buf off m) A r A"
proof -
  have "does g (nd_buf off m) A r (ah_put off v A)"
  proof (rule does_nd_buf [OF assms(1)])
    fix n mem assume n: "geo_ok g" "node_ok n mem" "view g n mem = v"
    from assms(2) [OF this] show "\<exists>b. m ((nd_buffer n) \<lparr> m_buffer := mem \<rparr>) = (Inr r, b) \<and>
      node_ok (n \<lparr> nd_buffer := b \<rparr>) (m_buffer b) \<and> view g (n \<lparr> nd_buffer := b \<rparr>) (m_buffer b) = v"
      using n by (auto simp: node_ok_def)
  qed
  then show ?thesis using assms(1) by (simp add: ah_put_same)
qed

lemma does_write:
  assumes "ah A off = Some v"
    and "\<And>b. buf_inv b \<Longrightarrow> m_bound b = 32768 \<Longrightarrow> geo_ok g \<Longrightarrow>
      m b = (Inr r, b \<lparr> m_index := i, m_buffer := splice p bs (m_buffer b) \<rparr>)"
    and "geo_ok g \<Longrightarrow> p + length bs \<le> 32768 \<and> 0 \<le> i \<and> i \<le> 32768"
    and "\<And>n mem. geo_ok g \<Longrightarrow> length mem = 32768 \<Longrightarrow> view g n mem = v \<Longrightarrow> view g n (splice p bs mem) = v'"
  shows "does g (nd_buf off m) A r (ah_put off v' A)"
proof (rule does_nd_buf [OF assms(1)])
  fix n mem assume n: "geo_ok g" "node_ok n mem" "view g n mem = v"
  have "m ((nd_buffer n) \<lparr> m_buffer := mem \<rparr>) = (Inr r, (nd_buffer n) \<lparr> m_buffer := splice p bs mem, m_index := i \<rparr>)"
    using assms(2) [OF node_ok_inv [OF n(2)] _ n(1)] n(2) by (simp add: node_ok_def)
  then show "\<exists>b. m ((nd_buffer n) \<lparr> m_buffer := mem \<rparr>) = (Inr r, b) \<and>
      node_ok (n \<lparr> nd_buffer := b \<rparr>) (m_buffer b) \<and> view g (n \<lparr> nd_buffer := b \<rparr>) (m_buffer b) = v'"
    using n assms(3) [OF n(1)] assms(4) [OF n(1) _ n(3)] by (auto simp: node_ok_def)
qed

lemma sint_i64 [simp]: "- (2 ^ 63) \<le> x \<Longrightarrow> x < 2 ^ 63 \<Longrightarrow> sint (word_of_int x :: 64 word) = x"
  by (simp add: sint_sbintrunc' signed_take_bit_int_eq_self)

lemma does_nd_get:
  assumes "ah A off = Some v" "\<And>n mem. nd_ndx_name n = gx g \<Longrightarrow> view g n mem = v \<Longrightarrow> f n = r"
  shows "does g (nd_get off f) A r A"
  using assms by (intro does_pure) (auto simp: abst_def heap_Some nd_get_def)

lemma does_nd_leaf [does_rules]: "ah A off = Some v \<Longrightarrow> does g (nd_get off nd_leaf) A (nleaf v) A"
  by (erule does_nd_get) (auto simp: view_def)

lemma does_nd_num_key [does_rules]: "ah A off = Some v \<Longrightarrow> does g (nd_get off nd_num_key) A (nnum v) A"
  by (erule does_nd_get) (auto simp: view_def)

lemma does_nd_ndx_name [does_rules]: "ah A off = Some v \<Longrightarrow> does g (nd_get off nd_ndx_name) A (gx g) A"
  by (erule does_nd_get) auto

lemma does_tree_get_index:
  assumes "\<And>ix. ix_key_size ix = int (gks g) \<Longrightarrow> ix_order ix = int (gord g) \<Longrightarrow> ix_root ix = aroot A
      \<Longrightarrow> does g (f ix) A r A'" "dom (ah A) \<subseteq> dom (ah A')"
  shows "does g (bnd (tree_get_index (gx g)) f) A r A'"
proof (rule doesI [OF assms(2)])
  fix t :: "'a tree" assume t: "tr_ok g t" "abst g t = A"
  then obtain ix where ix: "get_index (t_schema t) (gx g) = Inr ix" "ix_key_size ix = int (gks g)" "ix_order ix = int (gord g)"
    by (auto simp: tr_ok_def)
  then have "does g (f ix) A r A'" using t(2) by (intro assms(1)) (auto simp: abst_def the_index_def)
  then show "\<exists>t'. bnd (tree_get_index (gx g)) f t = (Inr r, t') \<and> tr_ok g t' \<and> abst g t' = A' \<and> frame A' t t'"
    using t ix(1) by (auto simp: does_def tree_get_index_def lift_sum_def exn_simps)
qed

lemma does_node_index:
  assumes "ah A off = Some v" "dom (ah A) \<subseteq> dom (ah A')"
    and "\<And>ix. ix_key_size ix = int (gks g) \<Longrightarrow> ix_order ix = int (gord g) \<Longrightarrow> does g (f ix) A r A'"
  shows "does g (bnd (node_index off) f) A r A'"
  unfolding node_index_def bnd_assoc
  by (rule does_bnd [OF does_nd_ndx_name [OF assms(1)]], rule does_tree_get_index) (simp_all add: assms)

lemma does_flush_block [does_rules]: "does g (on_cache (flush_block off)) A () A"
proof (rule doesI)
  fix t :: "'a tree"
  define t' where "t' = t \<lparr> tr_cache := snd (flush_block off (tr_cache t)) \<rparr>"
  assume "tr_ok g t" "abst g t = A"
  then have "on_cache (flush_block off) t = (Inr (), t') \<and> tr_ok g t' \<and> abst g t' = A \<and> frame A t t'"
    by (auto simp: t'_def on_cache_def flush_block_def abst_def heap_def the_index_def frame_def tr_ok_def
        disk_ok_def block_size_def Let_def fun_eq_iff)
  then show "\<exists>t'. on_cache (flush_block off) t = (Inr (), t') \<and> tr_ok g t' \<and> abst g t' = A \<and> frame A t t'" by blast
qed simp

lemma does_commit [does_rules]:
  assumes "ah A off = Some v"
  shows "does g (node_commit off) A () A"
proof -
  have low: "does g (nd_buf off m) A () A"
    if "\<And>b. buf_inv b \<Longrightarrow> m_bound b = 32768 \<Longrightarrow> m b = (Inr (), b \<lparr> m_index := i, m_buffer := splice p bs (m_buffer b) \<rparr>)"
      "p + length bs \<le> 12" "0 \<le> i" "i \<le> 32768" for m i p bs
    using does_write [OF assms, where m = m and r = "()" and i = i and p = p and bs = bs and v' = v and g = g] that assms by (simp add: view_put_low ah_put_same)
  have l: "does g (nd_buf off (put_at 0 x)) A () A" for x
    by (rule low [of _ 0 "[x]" 1]) (use field_runs(5) [of _ 0] in simp_all)
  have k: "does g (nd_buf off (put_int16_at 2 y)) A () A" for y
    by (rule low [of _ 2 "bytes16 y" 4]) (use field_runs(3) [of _ 2] in simp_all)
  show ?thesis unfolding node_commit_def
    by (rule does_bnd [OF does_nd_leaf [OF assms]], rule does_sq [OF l],
        rule does_bnd [OF does_nd_num_key [OF assms]], rule k)
qed

lemma does_flush [does_rules]: "ah A off = Some v \<Longrightarrow> does g (node_flush off) A () A"
  unfolding node_flush_def by (rule does_sq, erule does_commit, rule does_flush_block)

lemma does_nd_upd:
  assumes "ah A off = Some v"
    and "\<And>n mem. node_ok n mem \<Longrightarrow> view g n mem = v \<Longrightarrow> node_ok (f n) mem \<and> nd_ndx_name (f n) = nd_ndx_name n \<and> view g (f n) mem = v'"
  shows "does g (nd_upd off f) A () (ah_put off v' A)"
proof (rule doesI)
  fix t :: "'a tree" assume t: "tr_ok g t" "abst g t = A"
  then have h: "heap g t off = Some v" using assms(1) by (auto simp: abst_def)
  then obtain n mem where n: "tr_node t off = Some n" "nd_ndx_name n = gx g" "bc_cache (tr_cache t) off = Some mem"
    "node_ok n mem" "v = view g n mem" using t(1) by (auto simp: heap_Some)
  have "nd_upd off f t = (Inr (), set_nd off (f n) mem t)"
    using n by (simp add: nd_upd_def set_nd_def fun_upd_idem)
  then show "\<exists>t'. nd_upd off f t = (Inr (), t') \<and> tr_ok g t' \<and> abst g t' = ah_put off v' A \<and> frame (ah_put off v' A) t t'"
    using set_nd_ok [OF t(1) h, of "f n" mem] n assms(2) [OF n(4)] t(2) by auto
qed auto

lemma does_set_num_key [does_rules]:
  "ah A off = Some v \<Longrightarrow> does g (set_num_key off k) A () (ah_put off (v \<lparr> nnum := k \<rparr>) A)"
  unfolding set_num_key_def
  by (rule does_sq, rule does_nd_upd [where v' = "v \<lparr> nnum := k \<rparr>"], assumption)
    (auto simp: node_ok_def view_def intro: does_flush)

lemma does_inc_num_key [does_rules]:
  "ah A off = Some v \<Longrightarrow> does g (inc_num_key off k) A () (ah_put off (v \<lparr> nnum := nnum v + k \<rparr>) A)"
  unfolding inc_num_key_def
  by (rule does_sq, rule does_nd_upd [where v' = "v \<lparr> nnum := nnum v + k \<rparr>"], assumption)
    (auto simp: node_ok_def view_def intro: does_flush)

subsection \<open>Slots\<close>

lemma slot_int:
  "24 + int i * (8 + int (gks g)) = int (slot g i)"
  by (simp add: slot_def)

lemma does_read_int:
  assumes "ah A off = Some v" "geo_ok g \<Longrightarrow> p + 8 \<le> 32768" "\<And>n mem. view g n mem = v \<Longrightarrow> mem_int p mem = x"
  shows "does g (nd_buf off (get_int64_at (int p))) A (word_of_int x) A"
proof (rule does_read [OF assms(1)])
  fix n mem assume n: "geo_ok g" "node_ok n mem" "view g n mem = v"
  have "word_of_int x = word64_of (bytes_at p 8 mem)" using assms(3) [OF n(3)] by (auto simp: mem_int_def)
  then show "\<exists>i. get_int64_at (int p) ((nd_buffer n) \<lparr> m_buffer := mem \<rparr>)
      = (Inr (word_of_int x), (nd_buffer n) \<lparr> m_buffer := mem, m_index := i \<rparr>) \<and> 0 \<le> i \<and> i \<le> 32768"
    using field_runs(2) [OF node_ok_inv [OF n(2)], of p] assms(2) [OF n(1)] n(2)
    by (auto simp: node_ok_def intro!: exI [of _ "int p + 8"])
qed

lemma does_put_int:
  assumes "ah A off = Some v" "i < gord g"
  shows "does g (nd_buf off (put_int64_at (int (slot g i)) w)) A () (ah_put off (v \<lparr> nval := (nval v)(i := sint w) \<rparr>) A)"
  by (rule does_write [OF assms(1), where i = "int (slot g i + 8)" and p = "slot g i" and bs = "bytes64 w"])
    (use field_runs(1) [of _ "slot g i"] slot_fits [of g i] assms in \<open>auto simp: view_put_int\<close>)

lemma does_put_str:
  assumes "ah A off = Some v" "i < gord g" "length s = gks g"
  shows "does g (nd_buf off (put_varchar_at (int (slot g i) + 8) s)) A () (ah_put off (v \<lparr> nkey := (nkey v)(i := s) \<rparr>) A)"
  by (rule does_write [OF assms(1), where i = "int (slot g i + 8 + gks g)" and p = "slot g i + 8" and bs = "map byte_of_char s"])
    (use field_runs(8) [of _ "slot g i + 8" s] slot_fits [of g i] assms in \<open>auto simp: view_put_str\<close>)

lemma does_get_child_offset [does_rules]:
  assumes "ah A off = Some v" "i < gord g"
  shows "does g (get_child_offset off (int i)) A (nval v i) A"
proof (rule does_wf)
  assume "wf_ast g A"
  then have r: "sint (word_of_int (nval v i) :: 64 word) = nval v i" using assms by (simp add: wf_ast_def)
  have "does g (nd_buf off (get_int64_at (int (slot g i)))) A (word_of_int (nval v i)) A"
    by (rule does_read_int [OF assms(1)]) (use slot_fits [of g i] assms(2) in \<open>auto simp: view_def\<close>)
  then have "does g (bnd (nd_buf off (get_int64_at (int (slot g i)))) (\<lambda>w. ret (sint w))) A (nval v i) A"
    by (rule does_bnd) (rule does_ret_eq [OF r])
  then show "does g (get_child_offset off (int i)) A (nval v i) A"
    unfolding get_child_offset_def
    by (intro does_node_index [OF assms(1)]) (simp_all add: Let_def slot_int)
qed simp

lemma does_put_child_offset [does_rules]:
  assumes "ah A off = Some v" "i < gord g" "- (2 ^ 63) \<le> x" "x < 2 ^ 63"
  shows "does g (put_child_offset off (int i) x) A () (ah_put off (v \<lparr> nval := (nval v)(i := x) \<rparr>) A)"
  unfolding put_child_offset_def
  by (rule does_node_index [OF assms(1)])
    (use does_put_int [OF assms(1,2), of "word_of_int x"] assms(3,4) in
      \<open>auto simp: Let_def slot_int intro!: does_sq [OF _ does_flush]\<close>)

lemma does_read_str:
  assumes "ah A off = Some v" "i < gord g"
  shows "does g (nd_buf off (get_varchar_at (int (slot g i) + 8) (int (gks g)))) A (nkey v i) A"
proof (rule does_read [OF assms(1)])
  fix n mem assume n: "geo_ok g" "node_ok n mem" "view g n mem = v"
  have "nkey v i = map char_of_byte (bytes_at (slot g i + 8) (gks g) mem)" using n(3) assms(2) by (auto simp: view_def mem_str_def)
  then show "\<exists>j. get_varchar_at (int (slot g i) + 8) (int (gks g)) ((nd_buffer n) \<lparr> m_buffer := mem \<rparr>)
      = (Inr (nkey v i), (nd_buffer n) \<lparr> m_buffer := mem, m_index := j \<rparr>) \<and> 0 \<le> j \<and> j \<le> 32768"
    using field_runs(7) [OF node_ok_inv [OF n(2)], of "slot g i + 8" "gks g"] slot_fits [OF n(1) assms(2)] n(2)
    by (auto simp: node_ok_def intro!: exI [of _ "int (slot g i + 8 + gks g)"])
qed

definition elem_of :: "geo \<Rightarrow> nview \<Rightarrow> nat \<Rightarrow> element" where
  "elem_of g v i = \<lparr> el_row_position = (if nleaf v then nval v i smod 32768 else 0),
     el_block_offset = (if nleaf v then nval v i - nval v i smod 32768 else 0),
     el_ndx_name = gx g, el_key = nkey v i \<rparr>"

definition el_val :: "element \<Rightarrow> int" where
  "el_val e = el_block_offset e + el_row_position e"

lemma el_of [simp]:
  "el_key (elem_of g v i) = nkey v i" "nleaf v \<Longrightarrow> el_val (elem_of g v i) = nval v i" "el_ndx_name (elem_of g v i) = gx g"
  by (simp_all add: elem_of_def el_val_def)

lemma does_block_size [does_rules]: "does g (gets (\<lambda>t. hd_block_size (t_header t))) A 32768 A"
  by (rule does_pure) (simp add: tr_ok_def)

lemma does_get_element [does_rules]:
  assumes "ah A off = Some v" "i < gord g"
  shows "does g (get_element off (int i)) A (elem_of g v i) A"
proof (rule does_wf)
  assume "wf_ast g A"
  then have r: "sint (word_of_int (nval v i) :: 64 word) = nval v i" using assms by (simp add: wf_ast_def)
  have w: "does g (nd_buf off (get_int64_at (int (slot g i)))) A (word_of_int (nval v i)) A"
    by (rule does_read_int [OF assms(1)]) (use slot_fits [of g i] assms(2) in \<open>auto simp: view_def\<close>)
  note k = does_read_str [OF assms]
  show "does g (get_element off (int i)) A (elem_of g v i) A"
    unfolding get_element_def
    apply (rule does_bnd [OF does_nd_leaf [OF assms(1)]])
    apply (rule does_node_index [OF assms(1) subset_refl])
    unfolding Let_def
    apply (rule does_bnd [OF does_nd_ndx_name [OF assms(1)]])
    apply (cases "nleaf v")
     apply (simp add: slot_int del: of_nat_add of_nat_mult)
     apply (rule does_bnd [OF w], rule does_bnd [OF does_block_size], rule does_bnd [OF k], rule does_ret_eq)
     apply (simp add: elem_of_def r)
    apply (simp add: slot_int del: of_nat_add of_nat_mult)
    apply (rule does_bnd [OF k], rule does_ret_eq)
    apply (simp add: elem_of_def)
    done
qed simp

lemma does_put_element [does_rules]:
  assumes "ah A off = Some v" "i < gord g" "length (el_key e) = gks g" "- (2 ^ 63) \<le> el_val e" "el_val e < 2 ^ 63"
  shows "does g (put_element off (int i) e) A () (ah_put off (v \<lparr> nval := (if nleaf v then (nval v)(i := el_val e) else nval v),
    nkey := (nkey v)(i := el_key e) \<rparr>) A)"
proof -
  let ?v = "v \<lparr> nval := (if nleaf v then (nval v)(i := el_val e) else nval v) \<rparr>"
  have w: "does g (if nleaf v then nd_buf off (put_int64_at (int (slot g i)) (word_of_int (el_val e))) else ret ()) A () (ah_put off ?v A)"
    by (cases "nleaf v") (use assms in \<open>auto simp: ah_put_same intro: does_cong [OF does_put_int [OF assms(1,2)]] does_ret_eq\<close>)
  have k: "does g (nd_buf off (put_varchar_at (int (slot g i) + 8) (el_key e))) (ah_put off ?v A) ()
      (ah_put off (?v \<lparr> nkey := (nkey v)(i := el_key e) \<rparr>) A)"
    by (rule does_cong [OF does_put_str [of _ off ?v]]) (simp_all add: assms)
  show ?thesis
    unfolding put_element_def
    apply (rule does_bnd [OF does_nd_leaf [OF assms(1)]])
    apply (rule does_node_index [OF assms(1)])
     apply (simp add: subset_insertI)
    apply (simp only: Let_def if_cancel slot_int add_0_right el_val_def [symmetric])
    apply (rule does_sq [OF w], rule does_sq)
     apply (rule k)
    apply (rule does_flush, simp)
    done
qed

subsection \<open>Neighbours, new nodes\<close>

lemma does_get_next [does_rules]:
  assumes "ah A off = Some v"
  shows "does g (get_next_sibling_offset off) A (nnxt v) A"
proof (rule does_wf)
  assume "wf_ast g A"
  then have r: "sint (word_of_int (nnxt v) :: 64 word) = nnxt v" using assms by (simp add: wf_ast_def)
  have "does g (nd_buf off (get_int64_at (int 12))) A (word_of_int (nnxt v)) A"
    by (rule does_read_int [OF assms]) (auto simp: view_def)
  then have "does g (bnd (nd_buf off (get_int64_at (int 12))) (\<lambda>w. ret (sint w))) A (nnxt v) A"
    by (rule does_bnd) (rule does_ret_eq [OF r])
  then show "does g (get_next_sibling_offset off) A (nnxt v) A"
    by (simp add: get_next_sibling_offset_def)
qed simp

lemma does_set_next [does_rules]:
  assumes "ah A off = Some v" "- (2 ^ 63) \<le> x" "x < 2 ^ 63"
  shows "does g (set_next_sibling_offset off x) A () (ah_put off (v \<lparr> nnxt := x \<rparr>) A)"
  unfolding set_next_sibling_offset_def
  by (rule does_write [OF assms(1), where i = 20 and p = 12 and bs = "bytes64 (word_of_int x)"])
    (use field_runs(1) [of _ 12] assms in \<open>auto simp: view_put_next\<close>)

lemma does_set_prev [does_rules]:
  assumes "ah A off = Some v"
  shows "does g (set_prev_sibling_offset off x) A () A"
proof -
  have "does g (set_prev_sibling_offset off x) A () (ah_put off v A)"
    unfolding set_prev_sibling_offset_def
    by (rule does_write [OF assms(1), where i = 12 and p = 4 and bs = "bytes64 (word_of_int x)"])
      (use field_runs(1) [of _ 4] in \<open>auto simp: view_put_low\<close>)
  then show ?thesis using assms by (simp add: ah_put_same)
qed

lemma does_get_node [does_rules]:
  assumes "ah A off = Some v"
  shows "does g (get_node nm off) A (Some off) A"
proof (rule does_pure)
  fix t :: "'a tree" assume t: "tr_ok g t" "abst g t = A"
  then obtain n where n: "tr_node t off = Some n" "nd_ndx_name n = gx g" using assms by (auto simp: abst_def heap_Some)
  then have "0 \<le> off" "off mod 32768 = 0" using t(1) by (auto simp: tr_ok_def)
  then show "get_node nm off t = (Inr (Some off), t)" using n by (auto simp: get_node_def)
qed

lemma does_deref [does_rules]: "does g (deref (Some off)) A off A"
  by (simp add: deref_def does_ret)

lemma does_child [does_rules]:
  assumes "ah A off = Some v" "i < gord g" "nval v i = c" "ah A c = Some w"
  shows "does g (child off (int i)) A c A"
  unfolding child_def child_at_def
  by (rule does_bnd, rule does_bnd [OF does_nd_ndx_name [OF assms(1)]], rule does_bnd [OF does_get_child_offset [OF assms(1,2)]])
    (auto intro: does_get_node does_deref assms simp: assms)

text \<open>A change of the schema that keeps the geometry of the index.\<close>

definition with_schema :: "schema \<Rightarrow> 'f tree \<Rightarrow> 'f tree" where
  "with_schema S t = t \<lparr> tr_cache := (tr_cache t) \<lparr> bc_schema := S \<rparr> \<rparr>"

lemma with_schema_ok:
  assumes "tr_ok g t" "hd_block_size (sc_header S) = 32768" "hd_free_tail (sc_header S) < 0"
    and "hd_next_offset (t_header t) \<le> hd_next_offset (sc_header S)" "hd_next_offset (sc_header S) mod 32768 = 0"
    and "get_index S (gx g) = Inr ix" "ix_key_size ix = int (gks g)" "ix_order ix = int (gord g)"
  shows "tr_ok g (with_schema S t)"
    and "abst g (with_schema S t) = \<lparr> ah = heap g t, anext = hd_next_offset (sc_header S), aroot = ix_root ix \<rparr>"
    and "frame A (t :: 'f tree) (with_schema S t)"
proof -
  have ge: "off < hd_next_offset (sc_header S)" if "tr_node t off = Some n" "nd_ndx_name n = gx g" for off n
    using that assms(1,4) unfolding tr_ok_def by (meson less_le_trans)
  have "0 \<le> hd_next_offset (sc_header S)" using assms(1,4) by (auto simp: tr_ok_def)
  then show "tr_ok g (with_schema S t)"
    using assms ge unfolding tr_ok_def by (auto simp: with_schema_def disk_ok_def block_size_def Let_def)
  show "abst g (with_schema S t) = \<lparr> ah = heap g t, anext = hd_next_offset (sc_header S), aroot = ix_root ix \<rparr>"
    using assms(6) by (auto simp: abst_def with_schema_def heap_def the_index_def fun_eq_iff)
  show "frame A (t :: 'f tree) (with_schema S t)" by (simp add: frame_def with_schema_def)
qed

lemma does_next_offset [does_rules]:
  "does g (next_offset False) A (anext A) (A \<lparr> anext := anext A + 32768 \<rparr>)"
proof (rule doesI)
  fix t :: "'a tree" assume t: "tr_ok g t" "abst g t = A"
  define S where "S = (t_schema t) \<lparr> sc_header := (t_header t) \<lparr> hd_next_offset := hd_next_offset (t_header t) + 32768 \<rparr> \<rparr>"
  obtain ix where ix: "get_index (t_schema t) (gx g) = Inr ix" "ix_key_size ix = int (gks g)" "ix_order ix = int (gord g)"
    using t(1) by (auto simp: tr_ok_def)
  then have ix': "get_index S (gx g) = Inr ix" by (auto simp: S_def get_index_def split: option.splits)
  have run: "next_offset False t = (Inr (anext A), with_schema S t)"
    using t by (auto simp: next_offset_def get_offset_def upd_header_def exn_simps tr_ok_def abst_def S_def with_schema_def)
  have hd: "hd_block_size (sc_header S) = 32768" "hd_free_tail (sc_header S) < 0"
    "hd_next_offset (t_header t) \<le> hd_next_offset (sc_header S)" "hd_next_offset (sc_header S) mod 32768 = 0"
    using t(1) by (simp_all add: tr_ok_def S_def)
  have A: "A = \<lparr> ah = heap g t, anext = hd_next_offset (t_header t), aroot = ix_root ix \<rparr>"
    using t(2) ix(1) by (auto simp: abst_def the_index_def)
  from with_schema_ok [OF t(1) hd ix' ix(2,3)] run
  show "\<exists>t'. next_offset False t = (Inr (anext A), t') \<and> tr_ok g t' \<and> abst g t' = A \<lparr> anext := anext A + 32768 \<rparr>
      \<and> frame (A \<lparr> anext := anext A + 32768 \<rparr>) t t'" by (auto simp: A S_def)
qed simp

lemma find_pos_upd:
  "find_pos f nm xs = Some i \<Longrightarrow> f y = f (xs ! i) \<Longrightarrow> i < length xs \<and> find_pos f nm (xs[i := y]) = Some i"
  by (induction xs arbitrary: i) (auto split: if_splits)

lemma does_set_root [does_rules]: "does g (set_root (gx g) x) A () (A \<lparr> aroot := x \<rparr>)"
proof (rule doesI)
  fix t :: "'a tree" assume t: "tr_ok g t" "abst g t = A"
  obtain ix i where ix: "get_index (t_schema t) (gx g) = Inr ix" "ix_key_size ix = int (gks g)" "ix_order ix = int (gord g)"
    "find_pos ix_name (gx g) (sc_index (t_schema t)) = Some i" "ix = sc_index (t_schema t) ! i"
    using t(1) by (auto simp: tr_ok_def get_index_def split: option.splits)
  define S where "S = (t_schema t) \<lparr> sc_index := (sc_index (t_schema t))[i := ix \<lparr> ix_root := x \<rparr>] \<rparr>"
  have ix': "get_index S (gx g) = Inr (ix \<lparr> ix_root := x \<rparr>)"
    using find_pos_upd [OF ix(4), of "ix \<lparr> ix_root := x \<rparr>"] ix(5) by (simp add: S_def get_index_def)
  have run: "set_root (gx g) x t = (Inr (), with_schema S t)"
    using ix by (auto simp: set_root_def lift_sum_def index_pos_def exn_simps S_def with_schema_def)
  have hd: "hd_block_size (sc_header S) = 32768" "hd_free_tail (sc_header S) < 0"
    "hd_next_offset (t_header t) \<le> hd_next_offset (sc_header S)" "hd_next_offset (sc_header S) mod 32768 = 0"
    using t(1) by (simp_all add: tr_ok_def S_def)
  have A: "A = \<lparr> ah = heap g t, anext = hd_next_offset (t_header t), aroot = ix_root ix \<rparr>"
    using t(2) ix(1) by (auto simp: abst_def the_index_def)
  from with_schema_ok [OF t(1) hd ix'] run ix(2,3)
  show "\<exists>t'. set_root (gx g) x t = (Inr (), t') \<and> tr_ok g t' \<and> abst g t' = A \<lparr> aroot := x \<rparr>
      \<and> frame (A \<lparr> aroot := x \<rparr>) t t'" by (auto simp: A S_def)
qed simp

text \<open>A new node has no keys, no next neighbour, and zeros in its slots.\<close>

definition new_view :: "geo \<Rightarrow> bool \<Rightarrow> nview" where
  "new_view g leaf = \<lparr> nleaf = leaf, nnum = 0, nnxt = INVALID_SIBLING_REF, nval = (\<lambda>i. 0),
     nkey = (\<lambda>i. if i < gord g then replicate (gks g) (CHR 0x00) else []) \<rparr>"

lemma view_zero:
  assumes "geo_ok g" "nd_leaf n = leaf" "nd_num_key n = 0"
  shows "view g n (replicate 32768 0) = (new_view g leaf) \<lparr> nnxt := 0 \<rparr>"
proof -
  have z: "bytes_at p k (replicate 32768 0) = replicate k 0" if "p + k \<le> 32768" for p k
    using that by (simp add: bytes_at_def)
  have w: "word64_of (replicate 8 0) = 0" by (simp add: word64_of_def to_uint64_def shift_left_def eval_nat_numeral)
  have c: "char_of_byte 0 = CHR 0x00" by (simp add: char_of_byte_def char_of_def)
  have s: "slot g i + 8 + gks g \<le> 32768" "slot g i + 8 \<le> 32768" if "i < gord g" for i
    using slot_fits [OF assms(1) that] by simp_all
  show ?thesis using assms(2,3) s
    by (auto simp: view_def new_view_def mem_int_def mem_str_def z w c fun_eq_iff)
qed

lemma does_new_node [does_rules]:
  assumes "a = anext A - 32768" "ah A a = None" "0 \<le> a"
  shows "does g (new_node leaf (gx g) a) A (Some a) (ah_put a (new_view g leaf) A)"
proof (rule doesI)
  fix t :: "'a tree" assume t: "tr_ok g t" "abst g t = A"
  let ?w = "word_of_int INVALID_SIBLING_REF :: 64 word"
  let ?z = "replicate 32768 0 :: byte list" and ?n = "nd_new leaf (gx g) 32768 (replicate 32768 0)"
  from t(1) have bs: "block_size (tr_cache t) = 32768" and g: "geo_ok g" by (simp_all add: tr_ok_def block_size_def)
  then obtain f where nb: "new_block a (tr_cache t) = (Inr (Some ?z), (tr_cache t)
      \<lparr> bc_dio := (bc_dio (tr_cache t)) \<lparr> dio_file := f \<rparr>, bc_cache := (bc_cache (tr_cache t))(a \<mapsto> ?z) \<rparr>)"
    using new_block_ok [of "tr_cache t" a] t(1) by (auto simp: tr_ok_def)
  let ?m1 = "splice 4 (bytes64 ?w) ?z"
  let ?m2 = "splice 12 (bytes64 ?w) ?m1"
  have "node_ok ?n ?z" by (simp add: node_ok_def nd_new_def new_buffer_def)
  then have inv: "buf_inv (new_buffer 32768 ?z)" by (simp add: buf_inv_def new_buffer_def)
  have p1: "put_int64_at 4 ?w (new_buffer 32768 ?z) = (Inr (), (new_buffer 32768 ?z) \<lparr> m_index := 12, m_buffer := ?m1 \<rparr>)"
    using field_runs(1) [OF inv, of 4 ?w] by (simp add: new_buffer_def)
  have inv1: "buf_inv ((new_buffer 32768 ?z) \<lparr> m_index := 12, m_buffer := ?m1 \<rparr>)" by (simp add: buf_inv_def new_buffer_def)
  define b where "b = (new_buffer 32768 ?z) \<lparr> m_index := 20, m_buffer := ?m2 \<rparr>"
  have p2: "put_int64_at 12 ?w ((new_buffer 32768 ?z) \<lparr> m_index := 12, m_buffer := ?m1 \<rparr>) = (Inr (), b)"
    using field_runs(1) [OF inv1, of 12 ?w] by (simp add: new_buffer_def b_def)
  define t0 where "t0 = t \<lparr> tr_cache := (tr_cache t) \<lparr> bc_dio := (bc_dio (tr_cache t)) \<lparr> dio_file := f \<rparr> \<rparr> \<rparr>"
  define n' where "n' = ?n \<lparr> nd_buffer := b \<rparr>"
  define t1 where "t1 = t0 \<lparr> tr_cache := (tr_cache t0) \<lparr> bc_cache := (bc_cache (tr_cache t))(a \<mapsto> ?z) \<rparr> \<rparr>"
  have nb1: "on_cache (new_block a) t = (Inr (Some ?z), t1)" using nb by (simp add: on_cache_def t1_def t0_def)
  have h1: "hd_block_size (t_header t1) = 32768" using t(1) by (simp add: t1_def t0_def tr_ok_def)
  have "new_node leaf (gx g) a t = (Inr (Some a), set_nd a n' ?m2 t1)"
    using p1 p2 by (simp add: new_node_def nb1 h1 Let_def nd_new_def set_nd_def n'_def b_def)
  moreover have "set_nd a n' ?m2 t1 = set_nd a n' ?m2 t0" by (simp add: set_nd_def t1_def t0_def)
  ultimately have run: "new_node leaf (gx g) a t = (Inr (Some a), set_nd a n' ?m2 t0)" by simp
  have ok: "node_ok n' ?m2" "nd_ndx_name n' = gx g" by (simp_all add: node_ok_def n'_def b_def nd_new_def new_buffer_def)
  have v: "view g n' ?m2 = new_view g leaf"
    using view_zero [OF g, of n' leaf] by (simp add: view_put_next view_put_low n'_def nd_new_def new_view_def)
  have "a mod 32768 = 0" using t assms(1) by (auto simp: tr_ok_def abst_def mod_diff_eq [symmetric])
  moreover have "a < hd_next_offset (t_header t)" using t assms(1) by (auto simp: abst_def)
  ultimately have "tr_ok g (set_nd a n' ?m2 t0)"
    using t(1) ok assms(3) by (auto simp: tr_ok_def set_nd_def t0_def disk_ok_def block_size_def Let_def)
  moreover have "abst g (set_nd a n' ?m2 t0) = ah_put a (new_view g leaf) A"
    using v ok(2) t(2) by (auto simp: abst_def set_nd_def t0_def heap_def the_index_def fun_eq_iff)
  moreover have "frame (ah_put a (new_view g leaf) A) t (set_nd a n' ?m2 t0)" by (auto simp: frame_def set_nd_def t0_def)
  ultimately show "\<exists>t'. new_node leaf (gx g) a t = (Inr (Some a), t') \<and> tr_ok g t'
      \<and> abst g t' = ah_put a (new_view g leaf) A \<and> frame (ah_put a (new_view g leaf) A) t t'" using run by blast
qed auto

end
