(* ===== verification/BtreeSplit.thy ===== *)
theory BtreeSplit
  imports NodeLayout
begin

text \<open>
  What the loops over the slots of a node and \<open>split_child\<close> do, as changes of the views of
  nodes: \<open>cp\<close> copies slots between nodes, \<open>up\<close> moves slots one place up, and \<open>left_part\<close>,
  \<open>right_part\<close> and \<open>parent_part\<close> are the three nodes a split leaves. \<open>scan\<close> is the place
  that the search from the right finds.
\<close>

section \<open>Loops\<close>

definition cp :: "nat \<Rightarrow> nat \<Rightarrow> nat \<Rightarrow> (nat \<Rightarrow> 'a) \<Rightarrow> (nat \<Rightarrow> 'a) \<Rightarrow> nat \<Rightarrow> 'a" where
  "cp k j d f f' = (\<lambda>i. if d \<le> i \<and> i < d + k then f (j + (i - d)) else f' i)"

definition up :: "nat \<Rightarrow> nat \<Rightarrow> (nat \<Rightarrow> 'a) \<Rightarrow> nat \<Rightarrow> 'a" where
  "up n m f = (\<lambda>x. if n < x \<and> x \<le> m then f (x - 1) else f x)"

lemma cp_0 [simp]: "cp 0 j d f f' = f'"
  by (auto simp: cp_def fun_eq_iff)

lemma cp_Suc: "cp (Suc k) j d f f' = cp k (Suc j) (Suc d) f (f'(d := f j))"
  by (auto simp: cp_def fun_eq_iff Suc_diff_le intro: arg_cong [of _ _ f])

lemma up_same [simp]: "up n n f = f"
  by (auto simp: up_def fun_eq_iff)

lemma up_Suc: "n \<le> m \<Longrightarrow> up n (Suc m) f = up n m (f(Suc m := f m))"
  by (auto simp: up_def fun_eq_iff)

lemma does_ret_id: "ah A off = Some v \<Longrightarrow> v' = v \<Longrightarrow> does g (ret x) A x (ah_put off v' A)"
  by (simp only: ah_put_same does_ret)

lemma el_val_of: "el_val (elem_of g v i) = (if nleaf v then nval v i else 0)"
  by (simp add: elem_of_def el_val_def)

lemma does_copy1 [does_rules]:
  assumes "ah A src = Some s" "ah A dst = Some v" "j < gord g" "d < gord g"
  shows "does g (bnd (get_element src (int j)) (put_element dst (int d))) A ()
    (ah_put dst (v \<lparr> nval := (if nleaf v then (nval v)(d := (if nleaf s then nval s j else 0)) else nval v),
      nkey := (nkey v)(d := nkey s j) \<rparr>) A)"
proof (rule does_wf)
  assume "wf_ast g A"
  then have "length (nkey s j) = gks g" "- (2 ^ 63) \<le> nval s j" "nval s j < 2 ^ 63" using assms by (simp_all add: wf_ast_def)
  then show "does g (bnd (get_element src (int j)) (put_element dst (int d))) A ()
      (ah_put dst (v \<lparr> nval := (if nleaf v then (nval v)(d := (if nleaf s then nval s j else 0)) else nval v),
        nkey := (nkey v)(d := nkey s j) \<rparr>) A)"
    by (intro does_bnd [OF does_get_element [OF assms(1,3)]] does_cong [OF does_put_element [OF assms(2,4)]])
      (simp_all add: el_val_of)
qed (auto simp: assms)

lemma ah_put_twice: "ah_put off v (ah_put off w A) = ah_put off v A"
  by simp

lemma does_sq_put:
  "does g m A x (ah_put off w A) \<Longrightarrow> does g k (ah_put off w A) r (ah_put off v (ah_put off w A)) \<Longrightarrow> does g (sq m k) A r (ah_put off v A)"
  unfolding ah_put_twice by (rule does_sq)

lemma does_put_cong: "does g m A r (ah_put off w B) \<Longrightarrow> w = v \<Longrightarrow> does g m A r (ah_put off v B)"
  by simp

lemma does_copy_elems:
  assumes "src \<noteq> dst" "ah A src = Some s" "ah A dst = Some v" "nleaf s = nleaf v" "j + k \<le> gord g" "d + k \<le> gord g"
  shows "does g (copy_elems k src (int j) dst (int d) :: ('f, unit) trm) A () (ah_put dst
    (v \<lparr> nval := (if nleaf v then cp k j d (nval s) (nval v) else nval v), nkey := cp k j d (nkey s) (nkey v) \<rparr>) A)"
  using assms
proof (induction k arbitrary: j d v A)
  case 0
  then show ?case unfolding copy_elems.simps by (intro does_ret_id) auto
next
  case (Suc k)
  let ?v = "v \<lparr> nval := (if nleaf v then (nval v)(d := (if nleaf s then nval s j else 0)) else nval v),
    nkey := (nkey v)(d := nkey s j) \<rparr>"
  have 1: "does g (bnd (get_element src (int j)) (put_element dst (int d)) :: ('f, unit) trm) A () (ah_put dst ?v A)"
    by (rule does_copy1) (use Suc.prems in auto)
  have i: "int j + 1 = int (Suc j)" "int d + 1 = int (Suc d)" by simp_all
  show ?case unfolding copy_elems.simps i
    by (rule does_put_cong, rule does_sq_put [OF 1], rule Suc.IH [where v = ?v])
      (use Suc.prems in \<open>auto simp: cp_Suc fun_upd_def\<close>)
qed

lemma does_copy_child1:
  assumes "ah A src = Some s" "ah A dst = Some v" "j < gord g" "d < gord g"
  shows "does g (bnd (get_child_offset src (int j)) (put_child_offset dst (int d))) A ()
    (ah_put dst (v \<lparr> nval := (nval v)(d := nval s j) \<rparr>) A)"
proof (rule does_wf)
  assume "wf_ast g A"
  then have "- (2 ^ 63) \<le> nval s j" "nval s j < 2 ^ 63" using assms by (simp_all add: wf_ast_def)
  then show "does g (bnd (get_child_offset src (int j)) (put_child_offset dst (int d))) A ()
      (ah_put dst (v \<lparr> nval := (nval v)(d := nval s j) \<rparr>) A)"
    by (intro does_bnd [OF does_get_child_offset [OF assms(1,3)]] does_put_child_offset [OF assms(2,4)])
qed (auto simp: assms)

lemma does_copy_childs:
  assumes "src \<noteq> dst" "ah A src = Some s" "ah A dst = Some v" "j + k \<le> gord g" "d + k \<le> gord g"
  shows "does g (copy_childs k src (int j) dst (int d) :: ('f, unit) trm) A () (ah_put dst (v \<lparr> nval := cp k j d (nval s) (nval v) \<rparr>) A)"
  using assms
proof (induction k arbitrary: j d v A)
  case 0
  then show ?case unfolding copy_childs.simps by (intro does_ret_id) auto
next
  case (Suc k)
  let ?v = "v \<lparr> nval := (nval v)(d := nval s j) \<rparr>"
  have 1: "does g (bnd (get_child_offset src (int j)) (put_child_offset dst (int d)) :: ('f, unit) trm) A () (ah_put dst ?v A)"
    by (rule does_copy_child1) (use Suc.prems in auto)
  have i: "int j + 1 = int (Suc j)" "int d + 1 = int (Suc d)" by simp_all
  show ?case unfolding copy_childs.simps i
    by (rule does_put_cong, rule does_sq_put [OF 1], rule Suc.IH [where v = ?v])
      (use Suc.prems in \<open>auto simp: cp_Suc fun_upd_def\<close>)
qed

lemma does_shift_elems:
  assumes "ah A this = Some v" "\<not> nleaf v" "n \<le> m" "m < gord g"
  shows "does g (shift_elems (m - n) this (int m - 1) :: ('f, unit) trm) A () (ah_put this (v \<lparr> nkey := up n m (nkey v) \<rparr>) A)"
  using assms(3,1,2,4)
proof (induction m arbitrary: v A rule: dec_induct)
  case base
  then show ?case unfolding diff_self_eq_0 shift_elems.simps by (intro does_ret_id) auto
next
  case (step m)
  let ?v = "v \<lparr> nkey := (nkey v)(Suc m := nkey v m) \<rparr>"
  have 1: "does g (bnd (get_element this (int m)) (put_element this (int (Suc m))) :: ('f, unit) trm) A () (ah_put this ?v A)"
    by (rule does_put_cong [OF does_copy1]) (use step.prems in auto)
  have s: "Suc m - n = Suc (m - n)" using step.hyps by simp
  have i: "int (Suc m) - 1 = int m" "int m + 1 = int (Suc m)" by simp_all
  show ?case unfolding s shift_elems.simps i
    by (rule does_put_cong, rule does_sq_put [OF 1], rule step.IH [where v = ?v])
      (use step.prems step.hyps(1) in \<open>auto simp: up_Suc fun_upd_def\<close>)
qed

lemma does_shift_childs:
  assumes "ah A this = Some v" "n \<le> m" "m + 1 < gord g"
  shows "does g (shift_childs (m - n) this (int m) :: ('f, unit) trm) A () (ah_put this (v \<lparr> nval := up (Suc n) (Suc m) (nval v) \<rparr>) A)"
  using assms(2,1,3)
proof (induction m arbitrary: v A rule: dec_induct)
  case base
  then show ?case unfolding diff_self_eq_0 shift_childs.simps by (intro does_ret_id) auto
next
  case (step m)
  let ?v = "v \<lparr> nval := (nval v)(Suc (Suc m) := nval v (Suc m)) \<rparr>"
  have 1: "does g (bnd (get_child_offset this (int (Suc m))) (put_child_offset this (int (Suc (Suc m)))) :: ('f, unit) trm) A () (ah_put this ?v A)"
    by (rule does_put_cong [OF does_copy_child1]) (use step.prems in auto)
  have s: "Suc m - n = Suc (m - n)" using step.hyps by simp
  have i: "int (Suc m) + 1 = int (Suc (Suc m))" "int (Suc m) - 1 = int m" by simp_all
  show ?case unfolding s shift_childs.simps i
    by (rule does_put_cong, rule does_sq_put [OF 1], rule step.IH [where v = ?v])
      (use step.prems step.hyps(1) in \<open>auto simp: up_Suc fun_upd_def\<close>)
qed

section \<open>Splitting a full child\<close>

lemma wf_astD:
  "wf_ast g A \<Longrightarrow> ah A off = Some v \<Longrightarrow> 0 \<le> off \<and> off < anext A"
  "wf_ast g A \<Longrightarrow> ah A (anext A) = None" "wf_ast g A \<Longrightarrow> 0 \<le> anext A"
  unfolding wf_ast_def by (blast, metis less_irrefl not_Some_eq, blast)

lemma does_is_full [does_rules]:
  "ah A off = Some v \<Longrightarrow> does g (is_full off) A (nnum v \<ge> int (gord g) - 1) A"
  unfolding is_full_def
  by (rule does_bnd, erule does_nd_num_key, erule does_node_index, simp) (rule does_ret_eq, simp)

lemma does_min_degree [does_rules]:
  assumes "ah A off = Some v" "gord g = 2 * d"
  shows "does g (node_min_degree off) A (int d) A"
  unfolding node_min_degree_def
  by (rule does_node_index [OF assms(1)], simp) (rule does_ret_eq, use assms(2) in \<open>simp add: signed_divide_int_def sgn_if\<close>)

lemma does_insert_sibling:
  assumes "ah A prev = Some c" "ah A new = Some w" "new \<noteq> prev" "0 \<le> new" "new < 2 ^ 63" "0 \<le> prev"
    and "nnxt c = INVALID_SIBLING_REF \<or> (\<exists>x. ah A (nnxt c) = Some x)"
  shows "does g (insert_sibling prev new) A () (ah_put prev (c \<lparr> nnxt := new \<rparr>) (ah_put new (w \<lparr> nnxt := nnxt c \<rparr>) A))"
proof (rule does_wf)
  assume wf: "wf_ast g A"
  let ?B = "ah_put new (w \<lparr> nnxt := nnxt c \<rparr>) A"
  have r: "- (2 ^ 63) \<le> nnxt c" "nnxt c < 2 ^ 63" using wf assms(1) by (auto simp: wf_ast_def)
  have prev: "ah ?B prev = Some c" using assms by simp
  have ex: "\<exists>y. ah ?B (nnxt c) = Some y" if "nnxt c \<noteq> INVALID_SIBLING_REF" using assms(7) that by auto
  have nx: "does g (get_next_sibling prev) ?B (if nnxt c = INVALID_SIBLING_REF then None else Some (nnxt c)) ?B"
  proof (cases "nnxt c = INVALID_SIBLING_REF")
    case True
    then show ?thesis unfolding get_next_sibling_def
      by (intro does_bnd [OF does_get_next [OF prev]]) (simp add: does_ret)
  next
    case False
    then obtain y where y: "ah ?B (nnxt c) = Some y" using ex by blast
    show ?thesis unfolding get_next_sibling_def if_not_P [OF False]
      by (rule does_bnd [OF does_get_next [OF prev]], unfold if_not_P [OF False],
          rule does_bnd [OF does_nd_ndx_name [OF prev]], rule does_get_node [OF y])
  qed
  have bk: "does g (case (if nnxt c = INVALID_SIBLING_REF then None else Some (nnxt c)) of None \<Rightarrow> ret ()
      | Some nx \<Rightarrow> sq (set_prev_sibling_offset nx new) (node_flush nx)) ?B () ?B"
    using ex by (cases "nnxt c = INVALID_SIBLING_REF")
      (auto intro: does_ret_eq does_sq [OF does_set_prev does_flush] simp del: fun_upd_apply)
  show "does g (insert_sibling prev new) A () (ah_put prev (c \<lparr> nnxt := new \<rparr>) ?B)"
    unfolding insert_sibling_def
    apply (rule does_sq [OF does_set_prev [OF assms(2)]])
    apply (rule does_sq, rule does_bnd [OF does_get_next [OF assms(1)]], rule does_set_next [OF assms(2) r])
    apply (rule does_bnd [OF nx], rule does_sq [OF bk])
    apply (rule does_set_next [OF prev])
    using assms(4,5) by simp_all
qed (use assms in auto)

definition left_part :: "nat \<Rightarrow> int \<Rightarrow> nview \<Rightarrow> nview" where
  "left_part d a c = c \<lparr> nnum := (if nleaf c then int d else int d - 1), nnxt := a \<rparr>"

definition right_part :: "geo \<Rightarrow> nat \<Rightarrow> nview \<Rightarrow> nview" where
  "right_part g d c = \<lparr> nleaf = nleaf c, nnum = int d - 1, nnxt = nnxt c,
     nval = (if nleaf c then cp (d - 1) d 0 (nval c) (\<lambda>i. 0) else cp d d 0 (nval c) (\<lambda>i. 0)),
     nkey = cp (d - 1) d 0 (nkey c) (nkey (new_view g (nleaf c))) \<rparr>"

definition parent_part :: "nat \<Rightarrow> nat \<Rightarrow> nat \<Rightarrow> int \<Rightarrow> nview \<Rightarrow> nview \<Rightarrow> nview" where
  "parent_part d n m a c p = p \<lparr> nnum := int m + 1, nval := (up (Suc n) (Suc m) (nval p))(Suc n := a),
     nkey := (up n m (nkey p))(n := nkey c (d - 1)) \<rparr>"

lemma does_split_child:
  assumes "ah A this = Some p" "ah A prev = Some c" "this \<noteq> prev" "\<not> nleaf p" "nnum p = int m" "n \<le> m" "m + 1 < gord g"
    and d: "gord g = 2 * d" "0 < d" and sp: "anext A < 2 ^ 63"
    and nx: "nnxt c = INVALID_SIBLING_REF \<or> (\<exists>x. ah A (nnxt c) = Some x)"
  shows "does g (split_child this (int n) prev :: ('f, unit) trm) A ()
    (ah_put this (parent_part d n m (anext A) c p) (ah_put prev (left_part d (anext A) c)
      (ah_put (anext A) (right_part g d c) (A \<lparr> anext := anext A + 32768 \<rparr>))))"
proof (rule does_wf)
  assume wf: "wf_ast g A"
  let ?a = "anext A" and ?A1 = "A \<lparr> anext := anext A + 32768 \<rparr>"
  have fresh: "ah A ?a = None" "?a \<noteq> this" "?a \<noteq> prev" "0 \<le> ?a" "0 \<le> prev"
    using wf_astD [OF wf] assms(1,2) by fastforce+
  let ?w0 = "new_view g (nleaf c)"
  let ?w1 = "?w0 \<lparr> nnum := int d - 1 \<rparr>"
  let ?w2 = "?w1 \<lparr> nval := (if nleaf c then cp (d - 1) d 0 (nval c) (nval ?w1) else nval ?w1), nkey := cp (d - 1) d 0 (nkey c) (nkey ?w1) \<rparr>"
  let ?w3 = "?w2 \<lparr> nval := (if nleaf c then nval ?w2 else cp d d 0 (nval c) (nval ?w2)) \<rparr>"
  let ?c1 = "c \<lparr> nnum := (if nleaf c then int d else int d - 1) \<rparr>"
  let ?B2 = "ah_put ?a ?w3 ?A1"
  let ?B3 = "ah_put prev ?c1 ?B2"
  let ?p1 = "p \<lparr> nval := up (Suc n) (Suc m) (nval p) \<rparr>"
  let ?p2 = "?p1 \<lparr> nval := (nval ?p1)(Suc n := ?a) \<rparr>"
  let ?p3 = "?p2 \<lparr> nkey := up n m (nkey ?p2) \<rparr>"
  let ?p4 = "?p3 \<lparr> nkey := (nkey ?p3)(n := nkey c (d - 1)) \<rparr>"
  let ?p5 = "?p4 \<lparr> nnum := nnum ?p4 + 1 \<rparr>"
  let ?B4 = "ah_put this ?p5 ?B3"
  have nd: "int d - 1 = int (d - 1)" "nat (int (d - 1)) = d - 1" "nat (int d) = d" using d(2) by simp_all
  have s1: "does g (bnd (new_node (nleaf c) (gx g) ?a) deref) ?A1 ?a (ah_put ?a ?w0 ?A1)"
    by (rule does_bnd, rule does_new_node, use fresh in auto) (rule does_deref)
  have s2: "does g (set_num_key ?a (int d - 1)) (ah_put ?a ?w0 ?A1) () (ah_put ?a ?w1 ?A1)"
    by (rule does_cong [OF does_set_num_key [of _ _ ?w0]]) auto
  have n1: "nat (int d - 1) = d - 1" "nat (int d) = d" using d(2) by simp_all
  have s3: "does g (copy_elems (nat (int d - 1)) prev (int d) ?a 0) (ah_put ?a ?w1 ?A1) () (ah_put ?a ?w2 ?A1)"
    unfolding n1 by (rule does_cong [OF does_copy_elems [where d = 0 and s = c and v = ?w1, simplified]])
      (use assms fresh d in \<open>auto simp: new_view_def\<close>)
  have s4: "does g (if nleaf c then ret () else copy_childs (nat (int d)) prev (int d) ?a 0) (ah_put ?a ?w2 ?A1) () ?B2"
  proof (cases "nleaf c")
    case True
    show ?thesis unfolding if_P [OF True] by (rule does_cong [OF does_ret]) (use True in \<open>simp_all add: new_view_def\<close>)
  next
    case False
    show ?thesis unfolding if_not_P [OF False] n1
      by (rule does_cong [OF does_copy_childs [where d = 0 and s = c and v = ?w2, simplified]])
        (use assms fresh False in \<open>auto simp: new_view_def\<close>)
  qed
  have s5: "does g (set_num_key prev (if nleaf c then int d else int d - 1)) ?B2 () ?B3"
    by (rule does_cong [OF does_set_num_key [of _ _ c]]) (use assms fresh in auto)
  have kn: "nat (nnum p - int n) = m - n" using assms(5,6) by simp
  have s6: "does g (shift_childs (m - n) this (int m) :: ('f, unit) trm) ?B3 () (ah_put this ?p1 ?B3)"
    by (rule does_shift_childs) (use assms fresh in auto)
  have i7: "int n + 1 = int (Suc n)" by simp
  have s7: "does g (put_child_offset this (int (Suc n)) ?a :: ('f, unit) trm) (ah_put this ?p1 ?B3) () (ah_put this ?p2 ?B3)"
    by (rule does_cong [OF does_put_child_offset [of _ _ ?p1]]) (use assms fresh in auto)
  have s8: "does g (shift_elems (m - n) this (int m - 1) :: ('f, unit) trm) (ah_put this ?p2 ?B3) () (ah_put this ?p3 ?B3)"
    by (rule does_cong [OF does_shift_elems [of _ _ ?p2]]) (use assms fresh in auto)
  have i9: "get_element prev (int d - 1) = get_element prev (int (d - 1))" using d(2) by simp
  have s9: "does g (bnd (get_element prev (int d - 1)) (put_element this (int n)) :: ('f, unit) trm) (ah_put this ?p3 ?B3) () (ah_put this ?p4 ?B3)"
    unfolding i9 by (rule does_cong [OF does_copy1 [of _ _ ?c1 _ ?p3]]) (use assms fresh in auto)
  have s10: "does g (inc_num_key this 1 :: ('f, unit) trm) (ah_put this ?p4 ?B3) () ?B4"
    by (rule does_cong [OF does_inc_num_key [of _ _ ?p4]]) (use assms fresh in auto)
  let ?B5 = "ah_put prev (?c1 \<lparr> nnxt := ?a \<rparr>) (ah_put ?a (?w3 \<lparr> nnxt := nnxt ?c1 \<rparr>) ?B4)"
  have s11: "does g (insert_sibling prev ?a :: ('f, unit) trm) ?B4 () ?B5"
    by (rule does_insert_sibling) (use assms fresh in auto)
  have fin: "?B5 = ah_put this (parent_part d n m ?a c p) (ah_put prev (left_part d ?a c) (ah_put ?a (right_part g d c) ?A1))"
    using fresh assms(3,5) by (auto simp: parent_part_def left_part_def right_part_def new_view_def fun_eq_iff)
  have k: "nat (int m - int n) = m - n" by simp
  have this3: "ah ?B3 this = Some p" using assms fresh by simp
  show "does g (split_child this (int n) prev :: ('f, unit) trm) A ()
    (ah_put this (parent_part d n m (anext A) c p) (ah_put prev (left_part d (anext A) c)
      (ah_put (anext A) (right_part g d c) (A \<lparr> anext := anext A + 32768 \<rparr>))))"
    unfolding split_child_def fin [symmetric]
    apply (rule does_bnd [OF does_min_degree [OF assms(1) d(1)]])
    apply (rule does_bnd [OF does_nd_leaf [OF assms(2)]], rule does_bnd [OF does_nd_ndx_name [OF assms(1)]])
    apply (rule does_bnd [OF does_next_offset], rule does_bnd [OF s1], rule does_sq [OF s2])
    apply (rule does_sq [OF s3], rule does_sq [OF s4], rule does_sq [OF s5])
    apply (rule does_bnd [OF does_nd_num_key [OF this3]], unfold assms(5) k i7)
    apply (rule does_sq [OF s6], rule does_sq [OF s7], rule does_sq [OF s8])
    apply (rule does_sq [OF s9], rule does_sq [OF s10], rule does_sq [OF s11])
    apply (rule does_sq, rule does_flush, simp, rule does_flush)
    using fresh by simp
qed (use assms in auto)

section \<open>Finding the place of a key\<close>

fun scan :: "(nat \<Rightarrow> bool) \<Rightarrow> nat \<Rightarrow> nat" where
  "scan P 0 = 0"
| "scan P (Suc i) = (if P i then scan P i else Suc i)"

lemma scan_le: "scan P m \<le> m"
  by (induction m) auto

lemma scan_above: "scan P m \<le> i \<Longrightarrow> i < m \<Longrightarrow> P i"
  by (induction m) (auto simp: less_Suc_eq split: if_splits)

lemma scan_below: "0 < scan P m \<Longrightarrow> \<not> P (scan P m - 1)"
  by (induction m) auto

lemma scan_cong: "(\<And>i. i < m \<Longrightarrow> P i = Q i) \<Longrightarrow> scan P m = scan Q m"
  by (induction m) auto

lemma does_insert_pos:
  assumes "ah A this = Some v" "m < gord g"
  shows "does g (insert_pos m this e) A (scan (\<lambda>i. key_less (el_key e) (nkey v i)) m) A"
  using assms(2)
proof (induction m)
  case (Suc m)
  have 1: "does g (get_element this (int m)) A (elem_of g v m) A" by (rule does_get_element [OF assms(1)]) (use Suc.prems in simp)
  show ?case unfolding insert_pos.simps
    by (rule does_bnd [OF 1]) (use Suc in \<open>auto simp: elem_greater_def intro: does_ret_eq\<close>)
qed (auto intro: does_ret_eq)

lemma does_insert_shift:
  assumes "ah A this = Some v" "nleaf v" "m < gord g"
  shows "does g (insert_shift m this e :: ('f, nat) trm) A (scan (\<lambda>i. key_less (el_key e) (nkey v i)) m)
    (ah_put this (v \<lparr> nval := up (scan (\<lambda>i. key_less (el_key e) (nkey v i)) m) m (nval v),
      nkey := up (scan (\<lambda>i. key_less (el_key e) (nkey v i)) m) m (nkey v) \<rparr>) A)"
  using assms
proof (induction m arbitrary: v A)
  case 0
  then show ?case unfolding insert_shift.simps scan.simps by (intro does_ret_id) auto
next
  case (Suc m)
  have 1: "does g (get_element this (int m)) A (elem_of g v m) A" by (rule does_get_element) (use Suc.prems in auto)
  show ?case
  proof (cases "key_less (el_key e) (nkey v m)")
    case False
    then have p: "scan (\<lambda>i. key_less (el_key e) (nkey v i)) (Suc m) = Suc m" and "\<not> elem_greater (elem_of g v m) e"
      by (simp_all add: elem_greater_def)
    then show ?thesis unfolding insert_shift.simps p up_same
      by (intro does_bnd [OF 1]) (simp only: if_False, intro does_ret_id, use Suc.prems in auto)
  next
    case True
    let ?v = "v \<lparr> nval := (nval v)(Suc m := nval v m), nkey := (nkey v)(Suc m := nkey v m) \<rparr>"
    let ?p = "scan (\<lambda>i. key_less (el_key e) (nkey v i)) m"
    have i: "int m + 1 = int (Suc m)" by simp
    have 2: "does g (bnd (get_element this (int m)) (put_element this (int (Suc m))) :: ('f, unit) trm) A () (ah_put this ?v A)"
      by (rule does_put_cong [OF does_copy1 [of _ _ v _ v]]) (use Suc.prems in auto)
    have p: "scan (\<lambda>i. key_less (el_key e) (nkey ?v i)) m = ?p" by (rule scan_cong) simp
    have 3: "does g (insert_shift m this e :: ('f, nat) trm) (ah_put this ?v A) ?p
      (ah_put this (?v \<lparr> nval := up ?p m (nval ?v), nkey := up ?p m (nkey ?v) \<rparr>) (ah_put this ?v A))"
      by (rule Suc.IH [of "ah_put this ?v A" ?v, unfolded p]) (use Suc.prems in auto)
    have "does g (sq (bnd (get_element this (int m)) (put_element this (int (Suc m)))) (insert_shift m this e) :: ('f, nat) trm) A ?p
      (ah_put this (v \<lparr> nval := up ?p (Suc m) (nval v), nkey := up ?p (Suc m) (nkey v) \<rparr>) A)"
      by (rule does_put_cong [OF does_sq_put [OF 2 3]]) (simp add: up_Suc scan_le)
    moreover have "scan (\<lambda>i. key_less (el_key e) (nkey v i)) (Suc m) = ?p" "elem_greater (elem_of g v m) e"
      using True by (simp_all add: elem_greater_def)
    ultimately show ?thesis unfolding insert_shift.simps i
      by (intro does_bnd [OF 1]) (simp only: if_True)
  qed
qed

end
