(* ===== verification/BtreeTree.thy ===== *)
theory BtreeTree
  imports BtreeSplit "HOL-Library.Multiset" "HOL-Library.List_Lexorder" "HOL-Library.Char_ord"
begin

text \<open>
  The trees that the nodes of an index represent: leaves with their entries, which link a
  number (the place of a row) to a key, and inner nodes with separating keys. \<open>ino\<close> lists
  all keys and separators from left to right, so that a tree is in order when this list
  is sorted; \<open>bal\<close> bounds the sizes of the nodes and puts all leaves at one depth; \<open>rep\<close>
  and \<open>linked\<close> tie a tree to the views of its nodes and to the links between the leaves.
  \<open>grows\<close> is what an insertion may do, with the lemmas that build it up from its steps.
\<close>

section \<open>Keys\<close>

lemma key_less_iff: "key_less s t \<longleftrightarrow> s < (t :: string)"
proof (induction s t rule: str_compare.induct)
  case (4 a as b bs)
  then show ?case by (auto simp: less_char_def)
qed auto

section \<open>Trees\<close>

datatype bt = Lf int "(int \<times> string) list" | Nd int "string list" "bt list"

primrec addr :: "bt \<Rightarrow> int" where
  "addr (Lf a es) = a"
| "addr (Nd a ks cs) = a"

fun addrs :: "bt \<Rightarrow> int list" where
  "addrs (Lf a es) = [a]"
| "addrs (Nd a ks cs) = a # concat (map addrs cs)"

fun ents :: "bt \<Rightarrow> (int \<times> string) list" where
  "ents (Lf a es) = es"
| "ents (Nd a ks cs) = concat (map ents cs)"

fun leaves :: "bt \<Rightarrow> int list" where
  "leaves (Lf a es) = [a]"
| "leaves (Nd a ks cs) = concat (map leaves cs)"

fun weave :: "'a list list \<Rightarrow> 'a list \<Rightarrow> 'a list" where
  "weave (xs # xss) (k # ks) = xs @ k # weave xss ks"
| "weave (xs # xss) [] = xs @ concat xss"
| "weave [] ks = []"

fun ino :: "bt \<Rightarrow> string list" where
  "ino (Lf a es) = map snd es"
| "ino (Nd a ks cs) = weave (map ino cs) ks"

primrec nkeys :: "bt \<Rightarrow> nat" where
  "nkeys (Lf a es) = length es"
| "nkeys (Nd a ks cs) = length ks"

fun bal :: "nat \<Rightarrow> nat \<Rightarrow> nat \<Rightarrow> bt \<Rightarrow> bool" where
  "bal t lo d (Lf a es) \<longleftrightarrow> d = 0 \<and> lo \<le> length es \<and> length es \<le> 2 * t - 1"
| "bal t lo d (Nd a ks cs) \<longleftrightarrow> 0 < d \<and> lo \<le> length ks \<and> length ks \<le> 2 * t - 1 \<and> length cs = Suc (length ks)
     \<and> (\<forall>c \<in> set cs. bal t (t - 1) (d - 1) c)"

fun rep :: "(int \<Rightarrow> nview option) \<Rightarrow> bt \<Rightarrow> bool" where
  "rep h (Lf a es) \<longleftrightarrow> (\<exists>v. h a = Some v \<and> nleaf v \<and> nnum v = int (length es)
     \<and> es = map (\<lambda>i. (nval v i, nkey v i)) [0..<length es])"
| "rep h (Nd a ks cs) \<longleftrightarrow> (\<exists>v. h a = Some v \<and> \<not> nleaf v \<and> nnum v = int (length ks)
     \<and> ks = map (nkey v) [0..<length ks] \<and> map addr cs = map (nval v) [0..<Suc (length ks)])
     \<and> (\<forall>c \<in> set cs. rep h c)"

primrec linked :: "(int \<Rightarrow> nview option) \<Rightarrow> int list \<Rightarrow> int \<Rightarrow> bool" where
  "linked h [] nx \<longleftrightarrow> True"
| "linked h (a # as) nx \<longleftrightarrow> (\<exists>v. h a = Some v \<and> nnxt v = hd (as @ [nx])) \<and> linked h as nx"

definition closed :: "ast \<Rightarrow> bool" where
  "closed A \<longleftrightarrow> (\<forall>off v. ah A off = Some v \<longrightarrow> nnxt v = INVALID_SIBLING_REF \<or> (\<exists>w. ah A (nnxt v) = Some w))"

lemma rep_cong: "(\<And>a. a \<in> set (addrs T) \<Longrightarrow> h' a = h a) \<Longrightarrow> rep h' T = rep h T"
  by (induction T) auto

lemma linked_cong: "(\<And>a. a \<in> set as \<Longrightarrow> h' a = h a) \<Longrightarrow> linked h' as nx = linked h as nx"
  by (induction as) auto

lemma linked_append: "linked h (as @ bs) nx \<longleftrightarrow> linked h as (hd (bs @ [nx])) \<and> linked h bs nx"
proof (induction as)
  case (Cons a as)
  then show ?case by (cases as) auto
qed simp

lemma addr_in: "addr T \<in> set (addrs T)"
  by (cases T) auto

lemma rep_dom: "rep h T \<Longrightarrow> a \<in> set (addrs T) \<Longrightarrow> \<exists>v. h a = Some v"
  by (induction T) auto

lemma leaves_addrs: "set (leaves T) \<subseteq> set (addrs T)"
  by (induction T) auto

lemma bal_leaves: "bal t lo d T \<Longrightarrow> leaves T \<noteq> []"
proof (induction T arbitrary: lo d)
  case (Nd a ks cs)
  then obtain c cs' where "cs = c # cs'" by (cases cs) auto
  with Nd show ?case by auto
qed simp

lemma weave_split:
  "length xss = length ks \<Longrightarrow>
    weave (xss @ x # yss) (ks @ ls) = concat (map2 (\<lambda>xs k. xs @ [k]) xss ks) @ weave (x # yss) ls"
proof (induction xss ks rule: list_induct2)
  case (Cons x xs y ys)
  then show ?case by (cases xs) auto
qed simp

lemma weave_hd: "length yss = length ls \<Longrightarrow> weave (x # yss) ls = x @ concat (map2 (\<lambda>k ys. k # ys) ls yss)"
proof (induction yss ls arbitrary: x rule: list_induct2)
  case (Cons y ys z zs)
  then show ?case by (cases zs) auto
qed simp

lemma weave_at:
  "length xss = length ks \<Longrightarrow> length yss = length ls \<Longrightarrow>
    weave (xss @ x # yss) (ks @ ls) = concat (map2 (\<lambda>xs k. xs @ [k]) xss ks) @ x @ concat (map2 (\<lambda>k ys. k # ys) ls yss)"
  by (simp add: weave_split weave_hd)

section \<open>Slots as lists\<close>

lemma map_up_insert:
  assumes "p \<le> m"
  shows "map ((up p m f)(p := x)) [0..<Suc m] = take p (map f [0..<m]) @ x # drop p (map f [0..<m])"
  using assms by (intro nth_equalityI) (auto simp: up_def nth_append nth_Cons' simp del: upt_Suc)

lemma map_cp_drop: "map (cp k j 0 f z) [0..<k] = drop j (map f [0..<j + k])"
  by (rule nth_equalityI) (auto simp: cp_def)

section \<open>Splitting a tree\<close>

fun split_bt :: "nat \<Rightarrow> int \<Rightarrow> bt \<Rightarrow> bt \<times> string \<times> bt" where
  "split_bt t a (Lf b es) = (Lf b (take t es), snd (es ! (t - 1)), Lf a (drop t es))"
| "split_bt t a (Nd b ks cs) = (Nd b (take (t - 1) ks) (take t cs), ks ! (t - 1), Nd a (drop t ks) (drop t cs))"

lemma split_addr: "split_bt t a c = (l, m, r) \<Longrightarrow> addr l = addr c \<and> addr r = a"
  by (cases c) auto

lemma concat_take_drop: "concat (map f (take t xs)) @ concat (map f (drop t xs)) = concat (map f xs)"
  by (simp flip: concat_append map_append)

lemma split_ents: "split_bt t a c = (l, m, r) \<Longrightarrow> ents l @ ents r = ents c"
  by (cases c) (auto simp: concat_take_drop)

lemma split_addrs:
  assumes "split_bt t a c = (l, m, r)"
  shows "mset (addrs l) + mset (addrs r) = add_mset a (mset (addrs c))"
proof (cases c)
  case (Nd b ks cs)
  have "mset (concat (map addrs (take t cs))) + mset (concat (map addrs (drop t cs))) = mset (concat (map addrs cs))"
    by (metis concat_take_drop mset_append)
  with Nd assms show ?thesis by auto
qed (use assms in auto)

lemma split_leaves:
  assumes "split_bt t a c = (l, m, r)"
  shows "leaves l @ leaves r = (case c of Lf b es \<Rightarrow> [b, a] | Nd b ks cs \<Rightarrow> leaves c)"
  using assms by (cases c) (auto simp: concat_take_drop)

lemma split_hd:
  assumes "split_bt t a c = (l, m, r)" "leaves l \<noteq> []"
  shows "hd (leaves l) = hd (leaves c)"
proof (cases c)
  case (Nd b ks cs)
  then have "leaves c = leaves l @ leaves r" using split_leaves [OF assms(1)] by simp
  then show ?thesis using assms(2) by simp
qed (use assms in auto)

lemma split_bal:
  assumes "split_bt t a c = (l, m, r)" "bal t lo d c" "nkeys c = 2 * t - 1" "2 \<le> t"
  shows "bal t (t - 1) d l" "bal t (t - 1) d r" "nkeys l < 2 * t - 1" "nkeys r < 2 * t - 1"
  using assms by (cases c, auto dest: in_set_takeD in_set_dropD)+

lemma split_ino:
  assumes "split_bt t a c = (l, m, r)" "bal t lo d c" "nkeys c = 2 * t - 1" "2 \<le> t"
  shows "sorted (ino c) \<Longrightarrow> sorted (ino l @ m # ino r)" "set (ino l @ m # ino r) = set (ino c)"
proof -
  have "(sorted (ino c) \<longrightarrow> sorted (ino l @ m # ino r)) \<and> set (ino l @ m # ino r) = set (ino c)"
  proof (cases c)
    case (Lf b es)
    with assms have t: "t - 1 < length es" "t \<le> length es" and lmr: "ino l = take t (map snd es)" "m = map snd es ! (t - 1)"
      "ino r = drop t (map snd es)" by (auto simp: take_map drop_map)
    have l: "take t (map snd es) = take (t - 1) (map snd es) @ [m]"
      using t assms(4) lmr(2) take_Suc_conv_app_nth [of "t - 1" "map snd es"] by simp
    have "ino c = take (t - 1) (map snd es) @ m # drop t (map snd es)"
      using Lf l append_take_drop_id [of t "map snd es"] by simp
    then show ?thesis unfolding lmr(1) l lmr(3) by (auto simp: sorted_append)
  next
    case (Nd b ks cs)
    with assms have n: "length ks = 2 * t - 1" "length cs = 2 * t" by auto
    have ks: "ks = take (t - 1) ks @ ks ! (t - 1) # drop t ks"
      using n(1) assms(4) id_take_nth_drop [of "t - 1" ks] by simp
    have tc: "take t cs = take (t - 1) cs @ [cs ! (t - 1)]"
      using n(2) assms(4) take_Suc_conv_app_nth [of "t - 1" cs] by simp
    obtain c1 cs1 where dc: "drop t cs = c1 # cs1" using n(2) assms(4) by (cases "drop t cs") auto
    have cs: "cs = (take (t - 1) cs @ [cs ! (t - 1)]) @ c1 # cs1" using tc dc append_take_drop_id [of t cs] by simp
    have len: "length (take (t - 1) cs) = length (take (t - 1) ks)" "length cs1 = length (drop t ks)"
      using n assms(4) arg_cong [OF dc, of length] by simp_all
    let ?pre = "concat (map2 (\<lambda>xs k. xs @ [k]) (map ino (take (t - 1) cs)) (take (t - 1) ks))"
    have il: "ino l = ?pre @ ino (cs ! (t - 1))"
      using assms(1) Nd tc weave_split [of "map ino (take (t - 1) cs)" "take (t - 1) ks" "ino (cs ! (t - 1))" "[]" "[]"] len by auto
    have ir: "ino r = weave (ino c1 # map ino cs1) (drop t ks)" and m: "m = ks ! (t - 1)" using assms(1) Nd dc by auto
    have "ino c = weave (map ino (take (t - 1) cs) @ ino (cs ! (t - 1)) # ino c1 # map ino cs1) (take (t - 1) ks @ ks ! (t - 1) # drop t ks)"
      using Nd cs ks by (metis (no_types, opaque_lifting) append_Cons append_Nil append_assoc ino.simps(2) list.simps(9) map_append)
    also have "\<dots> = ino l @ m # ino r"
      using len by (simp add: weave_split il ir m)
    finally show ?thesis by simp
  qed
  then show "sorted (ino c) \<Longrightarrow> sorted (ino l @ m # ino r)" "set (ino l @ m # ino r) = set (ino c)" by blast+
qed

lemma mid_upt: "2 \<le> t \<Longrightarrow> [0..<2 * t - Suc 0] ! (t - Suc 0) = t - Suc 0"
  by (subst nth_upt) auto

lemma split_rep:
  assumes "split_bt t a c = (l, m, r)" "bal t lo d c" "nkeys c = 2 * t - 1" "2 \<le> t"
    and "rep h c" "h (addr c) = Some v" "a \<notin> set (addrs c)" "distinct (addrs c)"
    and h': "h' (addr c) = Some (left_part t a v)" "h' a = Some (right_part g t v)"
    "\<And>x. x \<in> set (addrs c) \<Longrightarrow> x \<noteq> addr c \<Longrightarrow> h' x = h x"
  shows "rep h' l \<and> rep h' r \<and> m = nkey v (t - 1)"
proof (cases c)
  case (Lf b es)
  let ?f = "\<lambda>i. (nval v i, nkey v i)"
  from Lf assms have es: "es = map ?f [0..<2 * t - 1]" "nleaf v" by auto
  have t: "take t [0..<2 * t - 1] = [0..<t]" using assms(4) by simp
  have "map (\<lambda>i. (cp (t - 1) t 0 (nval v) z i, cp (t - 1) t 0 (nkey v) y i)) [0..<t - 1] = drop t es" for z y
    unfolding es(1) using assms(4) by (intro nth_equalityI) (auto simp: cp_def)
  moreover have "es ! (t - 1) = ?f (t - 1)" using assms(4) mid_upt [of t] by (simp add: es(1))
  ultimately show ?thesis using Lf assms(1,4) es h'
    by (auto simp: left_part_def right_part_def take_map t)
next
  case (Nd b ks cs)
  from Nd assms have n: "length ks = 2 * t - 1" "length cs = 2 * t" by auto
  from Nd assms n have v: "ks = map (nkey v) [0..<2 * t - 1]" "map addr cs = map (nval v) [0..<2 * t]" "\<not> nleaf v" by auto
  have t: "take (t - 1) [0..<2 * t - 1] = [0..<t - 1]" "take t [0..<2 * t] = [0..<t]" using assms(4) by simp_all
  have sub: "x \<in> set (addrs c') \<Longrightarrow> c' \<in> set cs \<Longrightarrow> h' x = h x" for x c'
    using Nd assms(8) by (intro h'(3)) auto
  have ch: "rep h' c'" if "c' \<in> set cs" for c'
    using that Nd assms(5) rep_cong [of c' h' h] sub by auto
  have kr: "map (cp (t - 1) t 0 (nkey v) z) [0..<t - 1] = drop t ks" for z
    unfolding v(1) using assms(4) by (intro nth_equalityI) (auto simp: cp_def)
  have cr: "map (cp t t 0 (nval v) z) [0..<t] = map addr (drop t cs)" for z
    unfolding drop_map [symmetric] v(2) using assms(4) by (intro nth_equalityI) (auto simp: cp_def)
  have cl: "map addr (take t cs) = map (nval v) [0..<t]" unfolding take_map [symmetric] v(2) by (simp add: take_map t)
  have kl: "take (t - 1) ks = map (nkey v) [0..<t - 1]" by (simp add: v(1) take_map t)
  have m: "ks ! (t - 1) = nkey v (t - 1)" using assms(4) mid_upt [of t] by (simp add: v(1))
  have st: "Suc (t - 1) = t" "length ks - t = t - 1" "2 * t - Suc t = t - 1" using n assms(4) by simp_all
  have "rep h' l" using Nd assms(1) h'(1) v(3) n kl cl st ch in_set_takeD [of _ t cs] assms(4)
    by (auto simp: left_part_def simp del: upt_Suc)
  moreover have "rep h' r" using Nd assms(1) h'(2) v(3) n kr cr st ch in_set_dropD [of _ t cs] assms(4)
    by (auto simp: right_part_def simp del: upt_Suc)
  ultimately show ?thesis using m Nd assms(1) by auto
qed

section \<open>Growth of a tree\<close>

text \<open>
  \<open>grows A T X A' T'\<close>: the abstract state \<open>A'\<close> holds the tree \<open>T'\<close>, which has grown from \<open>T\<close> by the
  entries \<open>X\<close>: same root address and first leaf, new nodes only at the end of the file,
  other nodes unchanged, the leaves linked as before, the order kept.
\<close>

definition grows :: "ast \<Rightarrow> bt \<Rightarrow> (int \<times> string) list \<Rightarrow> ast \<Rightarrow> bt \<Rightarrow> bool" where
  "grows A T X A' T' \<longleftrightarrow> rep (ah A') T' \<and> addr T' = addr T \<and> distinct (addrs T') \<and> anext A \<le> anext A'
     \<and> set (addrs T') \<subseteq> set (addrs T) \<union> {anext A..<anext A'}
     \<and> (\<forall>off. off \<notin> set (addrs T) \<longrightarrow> off < anext A \<longrightarrow> ah A' off = ah A off)
     \<and> closed A' \<and> aroot A' = aroot A \<and> leaves T' \<noteq> [] \<and> hd (leaves T') = hd (leaves T)
     \<and> (\<forall>nx. linked (ah A) (leaves T) nx \<longrightarrow> linked (ah A') (leaves T') nx)
     \<and> mset (ents T') = mset (ents T) + mset X
     \<and> (sorted (ino T) \<longrightarrow> sorted (ino T')) \<and> set (ino T') = set (ino T) \<union> snd ` set X"

lemma growsD:
  assumes "grows A T X A' T'"
  shows "rep (ah A') T'" "addr T' = addr T" "distinct (addrs T')" "anext A \<le> anext A'"
    "set (addrs T') \<subseteq> set (addrs T) \<union> {anext A..<anext A'}"
    "off \<notin> set (addrs T) \<Longrightarrow> off < anext A \<Longrightarrow> ah A' off = ah A off"
    "closed A'" "aroot A' = aroot A" "leaves T' \<noteq> []" "hd (leaves T') = hd (leaves T)"
    "linked (ah A) (leaves T) nx \<Longrightarrow> linked (ah A') (leaves T') nx"
    "mset (ents T') = mset (ents T) + mset X"
    "sorted (ino T) \<Longrightarrow> sorted (ino T')" "set (ino T') = set (ino T) \<union> snd ` set X"
  using assms by (auto simp: grows_def)

lemma grows_trans:
  assumes 1: "grows A T X A1 T1" and 2: "grows A1 T1 Y A2 T2"
  shows "grows A T (X @ Y) A2 T2"
proof -
  have "ah A2 off = ah A off" if "off \<notin> set (addrs T)" "off < anext A" for off
  proof -
    have "off \<notin> set (addrs T1)" using growsD(5) [OF 1] that by auto
    then show ?thesis using growsD(6) [OF 1 that] growsD(6) [OF 2, of off] growsD(4) [OF 1] that by simp
  qed
  moreover have "set (addrs T2) \<subseteq> set (addrs T) \<union> {anext A..<anext A2}"
    using growsD(4,5) [OF 1] growsD(4,5) [OF 2] by fastforce
  ultimately show ?thesis
    using 1 2 unfolding grows_def by (auto simp: image_Un ac_simps)
qed

lemma grows_child:
  assumes g: "grows A c X A' c'" and rep: "rep (ah A) (Nd a (ks1 @ ks2) (xs @ c # ys))"
    and dist: "distinct (addrs (Nd a (ks1 @ ks2) (xs @ c # ys)))"
    and below: "\<And>x. x \<in> set (addrs (Nd a (ks1 @ ks2) (xs @ c # ys))) \<Longrightarrow> x < anext A"
    and len: "length xs = length ks1" "length ys = length ks2" and lv: "leaves c \<noteq> []"
    and pos: "\<And>k z. sorted (ino (Nd a (ks1 @ ks2) (xs @ c # ys))) \<Longrightarrow> k \<in> snd ` set X \<Longrightarrow>
      (z \<in> set (concat (map2 (\<lambda>xs k. xs @ [k]) (map ino xs) ks1)) \<longrightarrow> z \<le> k)
      \<and> (z \<in> set (concat (map2 (\<lambda>k ys. k # ys) ks2 (map ino ys))) \<longrightarrow> k \<le> z)"
  shows "grows A (Nd a (ks1 @ ks2) (xs @ c # ys)) X A' (Nd a (ks1 @ ks2) (xs @ c' # ys))"
proof -
  let ?T = "Nd a (ks1 @ ks2) (xs @ c # ys)" and ?T' = "Nd a (ks1 @ ks2) (xs @ c' # ys)"
  note G = growsD [OF g]
  have c'sub: "x \<in> set (addrs c') \<Longrightarrow> x \<in> set (addrs c) \<or> anext A \<le> x" for x using G(5) by auto
  have same: "ah A' x = ah A x" if "x \<notin> set (addrs c)" "x \<in> set (addrs ?T)" for x
    using G(6) that below by auto
  have "ah A' a = ah A a" using dist by (intro same) auto
  moreover have "rep (ah A') d" if "d \<in> set xs \<union> set ys" for d
  proof -
    have "ah A' x = ah A x" if "x \<in> set (addrs d)" for x
      using dist that \<open>d \<in> set xs \<union> set ys\<close> by (intro same) auto
    moreover have "rep (ah A) d" using rep that by auto
    ultimately show ?thesis using rep_cong [of d "ah A'" "ah A"] by simp
  qed
  ultimately have "rep (ah A') ?T'" using rep G(1,2) by (auto simp del: upt_Suc)
  moreover have "distinct (addrs ?T')"
    using dist G(3) c'sub below by fastforce
  moreover have "set (addrs ?T') \<subseteq> set (addrs ?T) \<union> {anext A..<anext A'}" using G(5) by auto
  moreover have "ah A' off = ah A off" if "off \<notin> set (addrs ?T)" "off < anext A" for off using G(6) that by auto
  moreover have "linked (ah A') (leaves ?T') nx" if "linked (ah A) (leaves ?T) nx" for nx
  proof -
    have "linked (ah A') (concat (map leaves zs)) n = linked (ah A) (concat (map leaves zs)) n"
      if zs: "set zs \<subseteq> set xs \<union> set ys" for zs n
    proof (rule linked_cong)
      fix x assume "x \<in> set (concat (map leaves zs))"
      then obtain z where z: "z \<in> set xs \<union> set ys" "x \<in> set (addrs z)" using zs leaves_addrs by fastforce
      then show "ah A' x = ah A x" using dist by (intro same) auto
    qed
    from this [of xs] this [of ys] show ?thesis using that G(9,10,11) lv by (simp add: linked_append)
  qed
  moreover have "hd (leaves ?T') = hd (leaves ?T)" using G(9,10) lv by (simp add: hd_append del: concat_eq_Nil_conv)
  moreover have ino: "ino ?T = concat (map2 (\<lambda>xs k. xs @ [k]) (map ino xs) ks1) @ ino c @ concat (map2 (\<lambda>k ys. k # ys) ks2 (map ino ys))"
    "ino ?T' = concat (map2 (\<lambda>xs k. xs @ [k]) (map ino xs) ks1) @ ino c' @ concat (map2 (\<lambda>k ys. k # ys) ks2 (map ino ys))"
    using len weave_at [of "map ino xs" ks1 "map ino ys" ks2] by simp_all
  moreover have "sorted (ino ?T')" if s: "sorted (ino ?T)"
    using s pos [OF s] G(13,14) unfolding ino by (auto simp only: sorted_append set_append Un_iff)
  ultimately show ?thesis using G(4,7,8,9,12,14) unfolding grows_def by (auto simp del: upt_Suc)
qed

lemma nth_split:
  "p < length xs \<Longrightarrow> xs = take p xs @ xs ! p # drop (Suc p) xs"
  by (rule id_take_nth_drop)

lemma closed_split:
  assumes "closed A" "ah A b = Some cv" "ah A a = Some pv" "a \<noteq> b" "nnxt pv' = nnxt pv" "nnxt l = n" "nnxt r = nnxt cv"
  shows "closed (ah_put a pv' (ah_put b l (ah_put n r (A \<lparr> anext := x \<rparr>))))"
  unfolding closed_def
proof (intro allI impI)
  let ?B = "ah_put a pv' (ah_put b l (ah_put n r (A \<lparr> anext := x \<rparr>)))"
  fix off v assume off: "ah ?B off = Some v"
  have ex: "\<exists>w. ah ?B y = Some w" if "ah A y = Some w" for y w using that by auto
  have old: "nnxt w = INVALID_SIBLING_REF \<or> (\<exists>w'. ah ?B (nnxt w) = Some w')" if "ah A y = Some w" for y w
    using assms(1) ex that unfolding closed_def by blast
  have "off = a \<and> v = pv' \<or> off = b \<and> v = l \<or> off = n \<and> v = r \<or> ah A off = Some v"
    using off by (auto split: if_splits)
  then show "nnxt v = INVALID_SIBLING_REF \<or> (\<exists>w. ah ?B (nnxt v) = Some w)"
    using old [OF assms(3)] old [OF assms(2)] old [of off v] assms(5-7) by (elim disjE conjE) simp_all
qed

lemma grows_split:
  assumes rep: "rep (ah A) (Nd a ks cs)" and dist: "distinct (addrs (Nd a ks cs))"
    and below: "\<And>x. x \<in> set (addrs (Nd a ks cs)) \<Longrightarrow> x < anext A"
    and bal: "bal t lo d (Nd a ks cs)" and p: "p \<le> length ks" and full: "nkeys (cs ! p) = 2 * t - 1" and t: "2 \<le> t"
    and clo: "closed A" and pv: "ah A a = Some pv" and cv: "ah A (addr (cs ! p)) = Some cv"
    and sp: "split_bt t (anext A) (cs ! p) = (l, m, r)"
  shows "grows A (Nd a ks cs) [] (ah_put a (parent_part t p (length ks) (anext A) cv pv)
      (ah_put (addr (cs ! p)) (left_part t (anext A) cv) (ah_put (anext A) (right_part g t cv) (A \<lparr> anext := anext A + 32768 \<rparr>))))
    (Nd a (take p ks @ m # drop p ks) (take p cs @ l # r # drop (Suc p) cs))"
    (is "grows A ?T [] ?A' ?T'")
proof -
  let ?c = "cs ! p" and ?n = "anext A"
  have n: "length cs = Suc (length ks)" using bal by simp
  have c: "?c \<in> set cs" and cs: "cs = take p cs @ ?c # drop (Suc p) cs" using p n by (auto intro: nth_split)
  obtain d' where bc: "bal t (t - 1) d' ?c" using bal c by auto
  have a: "a \<notin> set (addrs ?c)" "distinct (addrs ?c)" "a \<noteq> addr ?c"
    using dist c addr_in [of ?c] by (auto simp: distinct_concat_iff)
  have nn: "?n \<notin> set (addrs ?T)" using below by blast
  have other: "set (addrs e) \<inter> set (addrs ?c) = {}" if "e \<in> set (take p cs) \<union> set (drop (Suc p) cs)" for e
  proof -
    have "distinct (concat (map addrs (take p cs @ ?c # drop (Suc p) cs)))" using dist cs by simp
    then show ?thesis using that by auto
  qed
  have hold: "ah ?A' x = ah A x" if "x \<noteq> a" "x \<noteq> addr ?c" "x \<noteq> ?n" for x using that by simp
  have lr: "rep (ah ?A') l \<and> rep (ah ?A') r \<and> m = nkey cv (t - 1)"
  proof (rule split_rep [OF sp bc full t, where h = "ah A"])
    show "ah A (addr ?c) = Some cv" by (rule cv)
    show "rep (ah A) ?c" using rep c by simp
    show "?n \<notin> set (addrs ?c)" using nn c by auto
    show "ah ?A' ?n = Some (right_part g t cv)" using nn c addr_in [of ?c] by auto
    show "ah ?A' x = ah A x" if "x \<in> set (addrs ?c)" "x \<noteq> addr ?c" for x
      using that a nn c by (intro hold) auto
  qed (use a in auto)
  have reps: "rep (ah ?A') e" if e: "e \<in> set (take p cs) \<union> set (drop (Suc p) cs)" for e
  proof -
    have "e \<in> set cs" using e by (auto dest: in_set_takeD in_set_dropD)
    then have "rep (ah A) e" "a \<notin> set (addrs e)" "?n \<notin> set (addrs e)" using rep dist nn by auto
    moreover have "addr ?c \<notin> set (addrs e)" using other [OF e] addr_in [of ?c] by auto
    ultimately show ?thesis using rep_cong [of e "ah ?A'" "ah A"] hold by (metis (no_types, lifting))
  qed
  have pk: "ks = map (nkey pv) [0..<length ks]" "map addr cs = map (nval pv) [0..<Suc (length ks)]" "\<not> nleaf pv"
    using rep pv by (auto simp del: upt_Suc)
  have ks': "map (nkey (parent_part t p (length ks) ?n cv pv)) [0..<Suc (length ks)] = take p ks @ m # drop p ks"
    using map_up_insert [OF p, of "nkey pv" "nkey cv (t - 1)"] lr pk(1) by (simp add: parent_part_def del: upt_Suc)
  have "map (nval (parent_part t p (length ks) ?n cv pv)) [0..<Suc (Suc (length ks))]
      = take (Suc p) (map addr cs) @ ?n # drop (Suc p) (map addr cs)"
    using map_up_insert [of "Suc p" "Suc (length ks)" "nval pv" ?n] p by (simp add: parent_part_def pk(2) del: upt_Suc)
  also have "\<dots> = map addr (take p cs @ l # r # drop (Suc p) cs)"
    using split_addr [OF sp] p n by (simp add: take_map drop_map take_Suc_conv_app_nth)
  finally have cs': "map addr (take p cs @ l # r # drop (Suc p) cs)
      = map (nval (parent_part t p (length ks) ?n cv pv)) [0..<Suc (Suc (length ks))]" ..
  have len: "length (take p ks @ m # drop p ks) = Suc (length ks)" using p by simp
  have 1: "rep (ah ?A') ?T'"
    using lr reps ks' cs' pk(3) unfolding rep.simps len
    by (auto simp: parent_part_def simp del: upt_Suc map_append list.map)
  have am: "mset (addrs ?T') = mset (?n # addrs ?T)"
    using split_addrs [OF sp] by (subst (2) cs) (simp add: ac_simps)
  have 2: "distinct (addrs ?T')" "set (addrs ?T') = insert ?n (set (addrs ?T))"
    using mset_eq_imp_distinct_iff [OF am] mset_eq_setD [OF am] dist nn by simp_all
  have L: "leaves ?T = concat (map leaves (take p cs)) @ leaves ?c @ concat (map leaves (drop (Suc p) cs))"
    by (subst cs) simp
  have hl: "leaves l \<noteq> []" "leaves ?c \<noteq> []" "hd (leaves l) = hd (leaves ?c)"
    using bal_leaves [OF split_bal(1) [OF sp bc full t]] bal_leaves [OF bc] split_hd [OF sp] by simp_all
  have out: "linked (ah ?A') (concat (map leaves zs)) q = linked (ah A) (concat (map leaves zs)) q"
    if zs: "set zs \<subseteq> set (take p cs) \<union> set (drop (Suc p) cs)" for zs q
  proof (rule linked_cong)
    fix x assume "x \<in> set (concat (map leaves zs))"
    then obtain z where z: "z \<in> set (take p cs) \<union> set (drop (Suc p) cs)" "x \<in> set (addrs z)" using zs leaves_addrs by fastforce
    then have "z \<in> set cs" by (auto dest: in_set_takeD in_set_dropD)
    then have "x \<noteq> a" "x \<noteq> ?n" "x \<noteq> addr ?c" using z other [OF z(1)] dist nn addr_in [of ?c] by auto
    then show "ah ?A' x = ah A x" by simp
  qed
  have mid: "linked (ah ?A') (leaves l @ leaves r) q" if ch: "linked (ah A) (leaves ?c) q" for q
  proof (cases ?c)
    case (Lf b es)
    then show ?thesis using ch split_leaves [OF sp] cv a nn c addr_in [of ?c]
      by (auto simp: left_part_def right_part_def)
  next
    case (Nd b kk dd)
    have "b \<notin> set (leaves ?c)" using a(2) Nd leaves_addrs by fastforce
    moreover have "a \<notin> set (leaves ?c)" "?n \<notin> set (leaves ?c)" using a(1) nn c leaves_addrs by fastforce+
    ultimately have "linked (ah ?A') (leaves ?c) q = linked (ah A) (leaves ?c) q"
      using Nd by (intro linked_cong) (auto simp del: leaves.simps)
    then show ?thesis using ch split_leaves [OF sp] Nd by simp
  qed
  have 3: "linked (ah ?A') (leaves ?T') nx" if "linked (ah A) (leaves ?T) nx" for nx
  proof -
    let ?L1 = "concat (map leaves (take p cs))" and ?L2 = "concat (map leaves (drop (Suc p) cs))"
    have q: "hd (((leaves l @ leaves r) @ ?L2) @ [nx]) = hd ((leaves ?c @ ?L2) @ [nx])" using hl by simp
    have "linked (ah A) (?L1 @ leaves ?c @ ?L2) nx" using that L by simp
    then have "linked (ah A) ?L1 (hd ((leaves ?c @ ?L2) @ [nx]))" "linked (ah A) (leaves ?c) (hd (?L2 @ [nx]))" "linked (ah A) ?L2 nx"
      unfolding linked_append by blast+
    then have "linked (ah ?A') (?L1 @ (leaves l @ leaves r) @ ?L2) nx"
      unfolding linked_append [of _ ?L1] linked_append [of _ "leaves l @ leaves r"] q using mid out by simp
    moreover have "leaves ?T' = ?L1 @ (leaves l @ leaves r) @ ?L2" by simp
    ultimately show ?thesis by simp
  qed
  have lens: "length (map ino (take p cs)) = length (take p ks)" "length (map ino (drop (Suc p) cs)) = length (drop p ks)"
    using n p by simp_all
  let ?pre = "concat (map2 (\<lambda>xs k. xs @ [k]) (map ino (take p cs)) (take p ks))"
  let ?post = "concat (map2 (\<lambda>k ys. k # ys) (drop p ks) (map ino (drop (Suc p) cs)))"
  have "ino ?T = weave (map ino (take p cs) @ ino ?c # map ino (drop (Suc p) cs)) (take p ks @ drop p ks)"
    by (subst cs) simp
  then have i1: "ino ?T = ?pre @ ino ?c @ ?post" using weave_at [OF lens] by simp
  have i2: "ino ?T' = ?pre @ (ino l @ m # ino r) @ ?post"
    using lens by (simp add: weave_split weave_hd)
  have 4: "set (ino ?T') = set (ino ?T)" "sorted (ino ?T) \<Longrightarrow> sorted (ino ?T')"
    using split_ino [OF sp bc full t] unfolding i1 i2 by (auto simp only: sorted_append set_append Un_iff)
  have 5: "mset (ents ?T') = mset (ents ?T)"
    using arg_cong [OF split_ents [OF sp], of mset] by (subst (3) cs) (simp add: ac_simps)
  have 6: "closed ?A'"
    by (rule closed_split [OF clo cv pv a(3)]) (simp_all add: parent_part_def left_part_def right_part_def)
  have 7: "hd (leaves ?T') = hd (leaves ?T)" "leaves ?T' \<noteq> []"
    using hl unfolding L by (simp_all add: hd_append del: concat_eq_Nil_conv)
  have 8: "ah ?A' off = ah A off" if "off \<notin> set (addrs ?T)" "off < anext A" for off
  proof -
    have "a \<in> set (addrs ?T)" "addr ?c \<in> set (addrs ?T)" using c addr_in [of ?c] by auto
    then have "off \<noteq> a" "off \<noteq> addr ?c" "off \<noteq> ?n" using that by blast+
    then show ?thesis by simp
  qed
  have 9: "addr ?T' = addr ?T" "anext A \<le> anext ?A'" "aroot ?A' = aroot A"
    "set (addrs ?T') \<subseteq> set (addrs ?T) \<union> {anext A..<anext ?A'}" unfolding 2(2) by auto
  show ?thesis unfolding grows_def
    by (intro conjI allI impI 1 2(1) 6 7 9 3 8 4(2)) (simp_all only: not_False_eq_True 5 4(1) image_empty list.set mset.simps Un_empty_right add_0_right)
qed

end
