(* ===== verification/BtreeInsert.thy ===== *)
theory BtreeInsert
  imports BtreeTree
begin

text \<open>
  Insertion into an index keeps the B-tree and adds exactly the new entry. The steps of
  the code (\<open>insert_non_full\<close>, \<open>split_child\<close>, the new root of \<open>insert\<close>) are followed on the
  abstract states of \<open>NodeLayout\<close>; \<open>is_index\<close> states on the concrete state what an index is.
\<close>

section \<open>States that exist\<close>

definition real :: "'f itself \<Rightarrow> geo \<Rightarrow> ast \<Rightarrow> bool" where
  "real F g A \<longleftrightarrow> (\<exists>t :: 'f tree. tr_ok g t \<and> abst g t = A)"

lemma real_wf: "real F g A \<Longrightarrow> wf_ast g A"
  by (auto simp: real_def abst_wf)

lemma does_real: "does g (m :: ('f, 'a) trm) A r A' \<Longrightarrow> real TYPE('f) g A \<Longrightarrow> real TYPE('f) g A'"
  unfolding real_def does_def by blast

lemma rep_below: "wf_ast g A \<Longrightarrow> rep (ah A) T \<Longrightarrow> x \<in> set (addrs T) \<Longrightarrow> x < anext A"
  using rep_dom wf_astD(1) by blast

lemma bal_lo: "bal t lo d T \<Longrightarrow> lo' \<le> nkeys T \<Longrightarrow> bal t lo' d T"
  by (cases T) auto

lemma bal_max: "bal t lo d T \<Longrightarrow> nkeys T \<le> 2 * t - 1"
  by (cases T) auto

section \<open>Insertion into a leaf\<close>

lemma sorted_insert_at:
  assumes "sorted xs" "p \<le> length xs" "0 < p \<Longrightarrow> xs ! (p - 1) \<le> k" "\<And>i. p \<le> i \<Longrightarrow> i < length xs \<Longrightarrow> k \<le> xs ! i"
  shows "sorted (take p xs @ k # drop p xs)"
proof -
  have "x \<le> k" if "x \<in> set (take p xs)" for x
  proof -
    from that obtain i where i: "i < p" "x = xs ! i" "i < length xs" by (auto simp: in_set_conv_nth)
    then have "x \<le> xs ! (p - 1)" using assms(1,2) by (simp add: sorted_iff_nth_mono)
    then show ?thesis using assms(3) i by simp
  qed
  moreover have "k \<le> x" if "x \<in> set (drop p xs)" for x
    using that assms(4) by (auto simp: in_set_conv_nth)
  moreover have "sorted (take p xs)" "sorted (drop p xs)" "\<forall>x\<in>set (take p xs). \<forall>y\<in>set (drop p xs). x \<le> y"
    using assms(1) by (metis append_take_drop_id sorted_append)+
  ultimately show ?thesis by (auto simp: sorted_append)
qed

lemma closed_upd:
  assumes "closed A" "ah A a = Some v" "nnxt v' = nnxt v"
  shows "closed (ah_put a v' A)"
  unfolding closed_def
proof (intro allI impI)
  fix off w assume "ah (ah_put a v' A) off = Some w"
  then obtain w0 where w0: "ah A off = Some w0" "nnxt w = nnxt w0" using assms by (cases "off = a") auto
  then have "nnxt w0 = INVALID_SIBLING_REF \<or> (\<exists>y. ah A (nnxt w0) = Some y)" using assms(1) unfolding closed_def by blast
  then show "nnxt w = INVALID_SIBLING_REF \<or> (\<exists>y. ah (ah_put a v' A) (nnxt w) = Some y)" using w0(2) by auto
qed

lemma grows_leaf:
  assumes rep: "rep (ah A) (Lf a es)" and v: "ah A a = Some v" and clo: "closed A"
    and p: "p = scan (\<lambda>i. key_less k (nkey v i)) (length es)"
  shows "grows A (Lf a es) [(x, k)] (ah_put a (v \<lparr> nval := (up p (length es) (nval v))(p := x),
      nkey := (up p (length es) (nkey v))(p := k), nnum := int (length es) + 1 \<rparr>) A)
    (Lf a (take p es @ (x, k) # drop p es))" (is "grows A ?T ?X ?A' ?T'")
proof -
  let ?n = "length es"
  have pn: "p \<le> ?n" unfolding p by (rule scan_le)
  have es: "es = map (\<lambda>i. (nval v i, nkey v i)) [0..<?n]" "nleaf v" using rep v by auto
  have "map (\<lambda>i. (((up p ?n (nval v))(p := x)) i, ((up p ?n (nkey v))(p := k)) i)) [0..<Suc ?n]
      = map ((up p ?n (\<lambda>i. (nval v i, nkey v i)))(p := (x, k))) [0..<Suc ?n]"
    by (rule map_cong) (auto simp: up_def)
  also have "\<dots> = take p es @ (x, k) # drop p es"
    using map_up_insert [OF pn, of "\<lambda>i. (nval v i, nkey v i)" "(x, k)"] es(1) by simp
  finally have m: "map (\<lambda>i. (((up p ?n (nval v))(p := x)) i, ((up p ?n (nkey v))(p := k)) i)) [0..<Suc ?n]
    = take p es @ (x, k) # drop p es" .
  have len: "length (take p es @ (x, k) # drop p es) = Suc ?n" using pn by simp
  have 1: "rep (ah ?A') ?T'" unfolding rep.simps len using es(2) m by (auto simp del: upt_Suc)
  have 2: "closed ?A'" by (rule closed_upd [OF clo v]) simp
  have 3: "sorted (ino ?T')" if s: "sorted (ino ?T)"
  proof -
    have nth: "map snd es ! i = nkey v i" if "i < ?n" for i
      using that by (subst es(1)) simp
    have "sorted (take p (map snd es) @ k # drop p (map snd es))"
    proof (rule sorted_insert_at)
      show "map snd es ! (p - 1) \<le> k" if "0 < p"
      proof -
        have "\<not> key_less k (nkey v (p - 1))" using scan_below that unfolding p by blast
        then show ?thesis using nth [of "p - 1"] pn that by (simp add: key_less_iff)
      qed
      show "k \<le> map snd es ! i" if "p \<le> i" "i < length (map snd es)" for i
      proof -
        have "key_less k (nkey v i)" using that scan_above [of "\<lambda>i. key_less k (nkey v i)" ?n i] p by simp
        then show ?thesis using nth [of i] that by (simp add: key_less_iff)
      qed
    qed (use s pn in simp_all)
    then show ?thesis by (simp add: take_map drop_map)
  qed
  have "mset (ys @ (x, k) # zs) = mset (ys @ zs) + mset ?X" "set (map snd (ys @ (x, k) # zs)) = set (map snd (ys @ zs)) \<union> snd ` set ?X" for ys zs
    by auto
  from this [of "take p es" "drop p es"] have 4: "mset (ents ?T') = mset (ents ?T) + mset ?X" "set (ino ?T') = set (ino ?T) \<union> snd ` set ?X"
    by (simp_all only: append_take_drop_id ents.simps ino.simps)
  show ?thesis unfolding grows_def using 1 2 3 4 v by auto
qed

section \<open>Insertion below an inner node\<close>

lemma last_pre: "length xss = length ks \<Longrightarrow> ks \<noteq> [] \<Longrightarrow> last (concat (map2 (\<lambda>xs k. xs @ [k]) xss ks)) = last ks"
proof (induction xss ks rule: list_induct2)
  case (Cons x xs y ys)
  show ?case
  proof (cases ys)
    case (Cons z zs)
    with \<open>length xs = length ys\<close> obtain w ws where "xs = w # ws" by (cases xs) auto
    then show ?thesis using Cons Cons.IH \<open>length xs = length ys\<close> by simp
  qed (use Cons.hyps in simp)
qed simp

lemma sorted_last: "sorted (xs :: 'a :: linorder list) \<Longrightarrow> z \<in> set xs \<Longrightarrow> z \<le> last xs"
  by (induction xs) auto

lemma hd_post: "length yss = length ks \<Longrightarrow> ks \<noteq> [] \<Longrightarrow> hd (concat (map2 (\<lambda>k ys. k # ys) ks yss)) = hd ks"
  by (cases ks; cases yss) auto

lemma grows_child1:
  assumes g: "grows A c [(x, k)] A' c'" and rep: "rep (ah A) (Nd a (ks1 @ ks2) (xs @ c # ys))"
    and dist: "distinct (addrs (Nd a (ks1 @ ks2) (xs @ c # ys)))" and wf: "wf_ast g A"
    and len: "length xs = length ks1" "length ys = length ks2" and lv: "leaves c \<noteq> []"
    and lo: "ks1 \<noteq> [] \<Longrightarrow> last ks1 \<le> k" and hi: "ks2 \<noteq> [] \<Longrightarrow> k \<le> hd ks2"
  shows "grows A (Nd a (ks1 @ ks2) (xs @ c # ys)) [(x, k)] A' (Nd a (ks1 @ ks2) (xs @ c' # ys))"
proof (rule grows_child [OF g rep dist _ len lv])
  show "y < anext A" if "y \<in> set (addrs (Nd a (ks1 @ ks2) (xs @ c # ys)))" for y
    using rep_below [OF wf rep that] .
  let ?pre = "concat (map2 (\<lambda>xs k. xs @ [k]) (map ino xs) ks1)" and ?post = "concat (map2 (\<lambda>k ys. k # ys) ks2 (map ino ys))"
  fix q z
  assume s: "sorted (ino (Nd a (ks1 @ ks2) (xs @ c # ys)))" and q: "q \<in> snd ` set [(x, k)]"
  then have "sorted (?pre @ ino c @ ?post)" using len weave_at [of "map ino xs" ks1 "map ino ys" ks2 "ino c"] by simp
  then have sp: "sorted ?pre" "sorted ?post" by (simp_all add: sorted_append)
  have "z \<le> k" if z: "z \<in> set ?pre"
  proof -
    have n: "ks1 \<noteq> []" using z by auto
    have "z \<le> last ?pre" by (rule sorted_last [OF sp(1) z])
    then show ?thesis using lo [OF n] last_pre [of "map ino xs" ks1] len(1) n by simp
  qed
  moreover have "k \<le> z" if z: "z \<in> set ?post"
  proof -
    have n: "ks2 \<noteq> []" using z by auto
    have "hd xs \<le> z" if "sorted xs" "z \<in> set xs" for xs using that by (cases xs) auto
    from this [OF sp(2) z] have "hd ?post \<le> z" .
    then show ?thesis using hi [OF n] hd_post [of "map ino ys" ks2] len(2) n by simp
  qed
  ultimately show "(z \<in> set ?pre \<longrightarrow> z \<le> q) \<and> (z \<in> set ?post \<longrightarrow> q \<le> z)" using q by auto
qed

lemma split_then:
  assumes re: "real TYPE('f) g A" and t: "gord g = 2 * t" "2 \<le> t" and rep: "rep (ah A) (Nd a ks cs)"
    and dist: "distinct (addrs (Nd a ks cs))" and bal: "bal t lo d (Nd a ks cs)" and nk: "length ks < 2 * t - 1"
    and p: "p \<le> length ks" and full: "nkeys (cs ! p) = 2 * t - 1" and clo: "closed A" and sp: "anext A < 2 ^ 63"
    and below: "p \<noteq> 0 \<Longrightarrow> ks ! (p - 1) \<le> k" and above: "p < length ks \<Longrightarrow> k \<le> ks ! p"
  shows "\<exists>A1 ks1 ks2 xs ys c v. does g (split_child a (int p) (addr (cs ! p)) :: ('f, unit) trm) A () A1
    \<and> grows A (Nd a ks cs) [] A1 (Nd a (ks1 @ ks2) (xs @ c # ys)) \<and> bal t lo d (Nd a (ks1 @ ks2) (xs @ c # ys))
    \<and> length xs = length ks1 \<and> length ys = length ks2 \<and> nkeys c < 2 * t - 1 \<and> anext A1 = anext A + 32768
    \<and> ah A1 a = Some v \<and> length xs = (if key_less (nkey v p) k then Suc p else p)
    \<and> (ks1 \<noteq> [] \<longrightarrow> last ks1 \<le> k) \<and> (ks2 \<noteq> [] \<longrightarrow> k \<le> hd ks2) \<and> ks1 @ ks2 \<noteq> []"
proof -
  note wf = real_wf [OF re]
  let ?c = "cs ! p"
  have n: "length cs = Suc (length ks)" and c: "?c \<in> set cs" using bal p by auto
  obtain pv where pv: "ah A a = Some pv" "nnum pv = int (length ks)" "\<not> nleaf pv" using rep by (auto simp del: upt_Suc)
  obtain cv where cv: "ah A (addr ?c) = Some cv" using rep_dom [of "ah A" ?c "addr ?c"] rep c addr_in [of ?c] by auto
  obtain l m r where lmr: "split_bt t (anext A) ?c = (l, m, r)" by (cases "split_bt t (anext A) ?c")
  obtain d' where bc: "bal t (t - 1) d' ?c" "d' = d - 1" using bal c by auto
  have ne: "a \<noteq> addr ?c" using dist c addr_in [of ?c] by auto
  let ?A1 = "ah_put a (parent_part t p (length ks) (anext A) cv pv)
      (ah_put (addr ?c) (left_part t (anext A) cv) (ah_put (anext A) (right_part g t cv) (A \<lparr> anext := anext A + 32768 \<rparr>)))"
  have nx: "nnxt cv = INVALID_SIBLING_REF \<or> (\<exists>x. ah A (nnxt cv) = Some x)" using clo cv unfolding closed_def by blast
  have run: "does g (split_child a (int p) (addr ?c) :: ('f, unit) trm) A () ?A1"
    by (rule does_split_child [OF pv(1) cv ne pv(3,2) p _ t(1) _ sp nx]) (use nk t in auto)
  have bl: "x < anext A" if "x \<in> set (addrs (Nd a ks cs))" for x using rep_below [OF wf rep that] .
  have gr: "grows A (Nd a ks cs) [] ?A1 (Nd a (take p ks @ m # drop p ks) (take p cs @ l # r # drop (Suc p) cs))"
    by (rule grows_split [OF rep dist bl bal p full t(2) clo pv(1) cv lmr])
  note sb = split_bal [OF lmr bc(1) full t(2)]
  have b1: "bal t lo d (Nd a (take p ks @ m # drop p ks) (take p cs @ l # r # drop (Suc p) cs))"
    using bal sb(1,2) bc(2) p n nk by (auto dest: in_set_takeD in_set_dropD)
  have m: "m = nkey cv (t - 1)"
    using lmr rep c cv full t(2) by (cases ?c) (auto simp: nth_append dest!: bspec simp del: upt_Suc)
  let ?v = "parent_part t p (length ks) (anext A) cv pv"
  have v: "ah ?A1 a = Some ?v" "nkey ?v p = m" using m by (simp_all add: parent_part_def)
  have lst: "take p ks \<noteq> [] \<Longrightarrow> last (take p ks) \<le> k" using below p by (cases p) (auto simp: take_Suc_conv_app_nth)
  have hdd: "drop p ks \<noteq> [] \<Longrightarrow> k \<le> hd (drop p ks)" using above by (simp add: hd_drop_conv_nth)
  show ?thesis
  proof (cases "key_less m k")
    case True
    then have "m \<le> k" by (simp add: key_less_iff)
    then show ?thesis using run gr b1 v True sb(4) p n hdd
      by (intro exI [of _ ?A1] exI [of _ "take p ks @ [m]"] exI [of _ "drop p ks"] exI [of _ "take p cs @ [l]"]
          exI [of _ "drop (Suc p) cs"] exI [of _ r] exI [of _ ?v]) simp
  next
    case False
    then have "k \<le> m" by (simp add: key_less_iff)
    then show ?thesis using run gr b1 v False sb(3) p n lst
      by (intro exI [of _ ?A1] exI [of _ "take p ks"] exI [of _ "m # drop p ks"] exI [of _ "take p cs"]
          exI [of _ "r # drop (Suc p) cs"] exI [of _ l] exI [of _ ?v]) simp
  qed
qed

lemma rep_child:
  assumes "rep h (Nd a ks (xs @ c # ys))" "h a = Some v"
  shows "nval v (length xs) = addr c" "nleaf v = False" "nnum v = int (length ks)"
proof -
  have m: "map addr (xs @ c # ys) = map (nval v) [0..<Suc (length ks)]" using assms by (auto simp del: upt_Suc)
  then have "length (map addr (xs @ c # ys)) = Suc (length ks)" by (metis length_map length_upt diff_zero)
  then have "length xs < Suc (length ks)" by simp
  then show "nval v (length xs) = addr c" using arg_cong [OF m, of "\<lambda>zs. zs ! length xs"] by (simp add: nth_append del: upt_Suc)
  show "nleaf v = False" "nnum v = int (length ks)" using assms by auto
qed

lemma rep_node:
  "rep h T \<Longrightarrow> \<exists>v. h (addr T) = Some v \<and> nnum v = int (nkeys T)"
  by (cases T) auto

lemma bal_child: "bal t lo d (Nd a ks (xs @ c # ys)) \<Longrightarrow> bal t (t - 1) (d - 1) c"
  by simp

lemma bal_replace:
  "bal t lo d (Nd a ks (xs @ c # ys)) \<Longrightarrow> bal t (t - 1) (d - 1) c' \<Longrightarrow> bal t lo d (Nd a ks (xs @ c' # ys))"
  by auto

lemma insert_non_full_grows:
  assumes t: "gord g = 2 * t" "2 \<le> t" and e: "length (el_key e) = gks g" "- (2 ^ 63) \<le> el_val e" "el_val e < 2 ^ 63"
  shows "real TYPE('f) g A \<Longrightarrow> rep (ah A) T \<Longrightarrow> distinct (addrs T) \<Longrightarrow> bal t lo d T \<Longrightarrow> nkeys T < 2 * t - 1 \<Longrightarrow>
    closed A \<Longrightarrow> d < fuel \<Longrightarrow> anext A + 32768 * int d < 2 ^ 63 \<Longrightarrow>
    \<exists>A' T'. does g (insert_non_full fuel (addr T) e :: ('f, unit) trm) A () A'
      \<and> grows A T [(el_val e, el_key e)] A' T' \<and> bal t lo d T' \<and> anext A' \<le> anext A + 32768 * int d"
proof (induction fuel arbitrary: A T lo d)
  case (Suc fuel)
  let ?k = "el_key e"
  note wf = real_wf [OF Suc.prems(1)]
  show ?case
  proof (cases T)
    case (Lf a es)
    then obtain v where v: "ah A a = Some v" "nleaf v" "nnum v = int (length es)" using Suc.prems(2) by auto
    let ?n = "length es" and ?p = "scan (\<lambda>i. key_less ?k (nkey v i)) (length es)"
    have "?p \<le> ?n" by (rule scan_le)
    then have n: "?n < 2 * t - 1" "?n < gord g" "?p < gord g" using Suc.prems(5) Lf t by simp_all
    let ?v1 = "v \<lparr> nval := up ?p ?n (nval v), nkey := up ?p ?n (nkey v) \<rparr>"
    let ?v2 = "?v1 \<lparr> nval := (nval ?v1)(?p := el_val e), nkey := (nkey ?v1)(?p := ?k) \<rparr>"
    let ?v3 = "?v2 \<lparr> nnum := nnum ?v2 + 1 \<rparr>"
    have s1: "does g (insert_shift ?n a e :: ('f, nat) trm) A ?p (ah_put a ?v1 A)"
      by (rule does_insert_shift [OF v(1,2) n(2)])
    have s2: "does g (put_element a (int ?p) e :: ('f, unit) trm) (ah_put a ?v1 A) () (ah_put a ?v2 A)"
      by (rule does_cong [OF does_put_element [of _ _ ?v1]]) (use v n e in auto)
    have s3: "does g (inc_num_key a 1 :: ('f, unit) trm) (ah_put a ?v2 A) () (ah_put a ?v3 A)"
      by (rule does_cong [OF does_inc_num_key [of _ _ ?v2]]) auto
    have "does g (insert_non_full (Suc fuel) a e :: ('f, unit) trm) A () (ah_put a ?v3 A)"
      unfolding insert_non_full.simps
      by (rule does_bnd [OF does_nd_num_key [OF v(1)]], rule does_bnd [OF does_nd_leaf [OF v(1)]])
        (simp only: v(2,3) if_True nat_int, rule does_bnd [OF s1], rule does_sq [OF s2 s3])
    moreover have "ah_put a ?v3 A = ah_put a (v \<lparr> nval := (up ?p ?n (nval v))(?p := el_val e),
      nkey := (up ?p ?n (nkey v))(?p := ?k), nnum := int ?n + 1 \<rparr>) A" by (simp add: v(3))
    moreover have "rep (ah A) (Lf a es)" using Suc.prems(2) Lf by simp
    note grows_leaf [OF this v(1) Suc.prems(6) refl, of "el_val e" ?k]
    moreover have "bal t lo d (Lf a (take ?p es @ (el_val e, ?k) # drop ?p es))"
      using Suc.prems(4) Lf n(1) scan_le [of _ ?n] by auto
    ultimately show ?thesis using Lf by (auto intro!: exI)
  next
    case (Nd a ks cs)
    then obtain v where v: "ah A a = Some v" "\<not> nleaf v" "nnum v = int (length ks)" "ks = map (nkey v) [0..<length ks]"
      using Suc.prems(2) by auto
    let ?n = "length ks" and ?p = "scan (\<lambda>i. key_less ?k (nkey v i)) (length ks)"
    have n: "length cs = Suc ?n" "?p \<le> ?n" "?n < 2 * t - 1" "0 < d" using Suc.prems(4,5) Nd scan_le [of _ ?n] by auto
    have lo: "?p \<noteq> 0 \<Longrightarrow> ks ! (?p - 1) \<le> ?k"
      using scan_below [of "\<lambda>i. key_less ?k (nkey v i)" ?n] n(2) by (subst v(4)) (auto simp: key_less_iff)
    have hi: "?p < ?n \<Longrightarrow> ?k \<le> ks ! ?p"
      using scan_above [of "\<lambda>i. key_less ?k (nkey v i)" ?n ?p] by (subst v(4)) (auto simp: key_less_iff)
    let ?c = "cs ! ?p"
    have cs: "cs = take ?p cs @ ?c # drop (Suc ?p) cs" and lp: "length (take ?p cs) = ?p" "length (drop (Suc ?p) cs) = length (drop ?p ks)"
      using n by (auto intro: nth_split)
    have tail: "\<exists>A2 T2. does g (bnd (child a (int (length xs))) (\<lambda>c'. insert_non_full fuel c' e) :: ('f, unit) trm) A1 () A2
        \<and> grows A1 (Nd a (ks1 @ ks2) (xs @ c1 # ys)) [(el_val e, ?k)] A2 T2 \<and> bal t lo d T2 \<and> anext A2 \<le> anext A1 + 32768 * int (d - 1)"
      if re: "real TYPE('f) g A1" and rp: "rep (ah A1) (Nd a (ks1 @ ks2) (xs @ c1 # ys))"
        and di: "distinct (addrs (Nd a (ks1 @ ks2) (xs @ c1 # ys)))" and ba: "bal t lo d (Nd a (ks1 @ ks2) (xs @ c1 # ys))"
        and cl: "closed A1" and len: "length xs = length ks1" "length ys = length ks2" and nk: "nkeys c1 < 2 * t - 1"
        and an: "anext A1 + 32768 * int (d - 1) < 2 ^ 63"
        and pos: "ks1 \<noteq> [] \<longrightarrow> last ks1 \<le> ?k" "ks2 \<noteq> [] \<longrightarrow> ?k \<le> hd ks2" for A1 ks1 ks2 xs c1 ys
    proof -
      obtain v1 where v1: "ah A1 a = Some v1" using rp by auto
      have r1: "rep (ah A1) c1" "distinct (addrs c1)" using rp di by auto
      obtain w where w: "ah A1 (addr c1) = Some w" using rep_dom [OF r1(1) addr_in] by blast
      have "length (ks1 @ ks2) \<le> 2 * t - 1" using ba by simp
      then have i: "length xs < gord g" using len t by simp
      have ch: "does g (child a (int (length xs)) :: ('f, int) trm) A1 (addr c1) A1"
        by (rule does_child [OF v1 i rep_child(1) [OF rp v1] w])
      have dd: "d - 1 < fuel" using Suc.prems(7) n(4) by simp
      from Suc.IH [OF re r1 bal_child [OF ba] nk cl dd an]
      obtain A2 c2 where A2: "does g (insert_non_full fuel (addr c1) e :: ('f, unit) trm) A1 () A2"
        "grows A1 c1 [(el_val e, ?k)] A2 c2" "bal t (t - 1) (d - 1) c2" "anext A2 \<le> anext A1 + 32768 * int (d - 1)"
        by blast
      have "grows A1 (Nd a (ks1 @ ks2) (xs @ c1 # ys)) [(el_val e, ?k)] A2 (Nd a (ks1 @ ks2) (xs @ c2 # ys))"
        by (rule grows_child1 [OF A2(2) rp di real_wf [OF re] len bal_leaves [OF bal_child [OF ba]]]) (use pos in auto)
      moreover have "does g (bnd (child a (int (length xs))) (\<lambda>c'. insert_non_full fuel c' e) :: ('f, unit) trm) A1 () A2"
        by (rule does_bnd [OF ch]) (rule A2(1))
      ultimately show ?thesis using bal_replace [OF ba A2(3)] A2(4) by blast
    qed
    have T: "T = Nd a (take ?p ks @ drop ?p ks) (take ?p cs @ ?c # drop (Suc ?p) cs)" using Nd cs by simp
    have rT: "rep (ah A) (Nd a ks (take ?p cs @ ?c # drop (Suc ?p) cs))" using Suc.prems(2) Nd cs by simp
    have cin: "?c \<in> set cs" using n by simp
    then obtain w where w: "ah A (addr ?c) = Some w" "nnum w = int (nkeys ?c)" using rep_node [of "ah A" ?c] Suc.prems(2) Nd by auto
    have bc: "nkeys ?c \<le> 2 * t - 1" using Suc.prems(4) Nd cin bal_max by auto
    have pg: "?p < gord g" "?n < gord g" using n t by simp_all
    have ch: "does g (child a (int ?p) :: ('f, int) trm) A (addr ?c) A"
      by (rule does_child [OF v(1) pg(1) _ w(1)]) (use rep_child(1) [OF rT v(1)] lp(1) in simp)
    note ip = does_insert_pos [OF v(1) pg(2), of e]
    note fu = does_is_full [OF w(1), of g]
    let ?choose = "\<lambda>full. if full then sq (split_child a (int ?p) (addr ?c)) (bnd (get_element a (int ?p)) (\<lambda>e'.
        ret (if elem_less e' e then ?p + 1 else ?p))) else ret ?p :: ('f, nat) trm"
    have run: "does g (insert_non_full (Suc fuel) a e :: ('f, unit) trm) A () A2"
      if c: "does g (?choose (nnum w \<ge> int (gord g) - 1)) A i A1"
        and r: "does g (bnd (child a (int i)) (\<lambda>c'. insert_non_full fuel c' e) :: ('f, unit) trm) A1 () A2" for i A1 A2
      unfolding insert_non_full.simps
      by (rule does_bnd [OF does_nd_num_key [OF v(1)]], rule does_bnd [OF does_nd_leaf [OF v(1)]])
        (simp only: v(2,3) if_False nat_int, rule does_bnd [OF ip], rule does_bnd [OF ch], rule does_bnd [OF fu], rule does_bnd [OF c], rule r)
    have pos: "take ?p ks \<noteq> [] \<longrightarrow> last (take ?p ks) \<le> ?k" "drop ?p ks \<noteq> [] \<longrightarrow> ?k \<le> hd (drop ?p ks)"
      using lo hi n(2) by (cases ?p, auto simp: take_Suc_conv_app_nth hd_drop_conv_nth)
    show ?thesis
    proof (cases "nkeys ?c = 2 * t - 1")
      case False
      then have "\<not> nnum w \<ge> int (gord g) - 1" using w(2) bc t by auto
      then have c: "does g (?choose (nnum w \<ge> int (gord g) - 1)) A ?p A" by (simp add: does_ret)
      have "real TYPE('f) g A" "rep (ah A) T" "distinct (addrs T)" "bal t lo d T" by fact+
      note q = this [unfolded T]
      have nk: "nkeys ?c < 2 * t - 1" using False bc by simp
      have an: "anext A + 32768 * int (d - 1) < 2 ^ 63" using Suc.prems(8) n(4) by (simp add: of_nat_diff)
      have lt: "length (take ?p cs) = length (take ?p ks)" using lp(1) n(2) by simp
      from tail [OF q Suc.prems(6) lt lp(2) nk an pos] obtain A2 T2 where
        A2: "does g (bnd (child a (int ?p)) (\<lambda>c'. insert_non_full fuel c' e) :: ('f, unit) trm) A () A2"
        "grows A T [(el_val e, ?k)] A2 T2" "bal t lo d T2" "anext A2 \<le> anext A + 32768 * int (d - 1)"
        unfolding T [symmetric] lp(1) by blast
      moreover have "int (d - 1) \<le> int d" by simp
      ultimately have "anext A2 \<le> anext A + 32768 * int d" by linarith
      then show ?thesis using run [OF c A2(1)] A2(2,3) Nd by (auto intro!: exI [of _ A2] exI [of _ T2])
    next
      case True
      then have full: "nnum w \<ge> int (gord g) - 1" using w(2) t by auto
      have sp: "anext A < 2 ^ 63" using Suc.prems(8) by simp
      have q: "rep (ah A) (Nd a ks cs)" "distinct (addrs (Nd a ks cs))" "bal t lo d (Nd a ks cs)" using Suc.prems Nd by simp_all
      from split_then [OF Suc.prems(1) t q n(3,2) True Suc.prems(6) sp lo hi]
      obtain A1 ks1 ks2 xs ys c1 v1 where A1: "does g (split_child a (int ?p) (addr ?c) :: ('f, unit) trm) A () A1"
        "grows A (Nd a ks cs) [] A1 (Nd a (ks1 @ ks2) (xs @ c1 # ys))" "bal t lo d (Nd a (ks1 @ ks2) (xs @ c1 # ys))"
        "length xs = length ks1" "length ys = length ks2" "nkeys c1 < 2 * t - 1" "anext A1 = anext A + 32768"
        "ah A1 a = Some v1" "length xs = (if key_less (nkey v1 ?p) ?k then Suc ?p else ?p)"
        "ks1 \<noteq> [] \<longrightarrow> last ks1 \<le> ?k" "ks2 \<noteq> [] \<longrightarrow> ?k \<le> hd ks2" by blast
      have c: "does g (?choose (nnum w \<ge> int (gord g) - 1)) A (length xs) A1"
        by (simp only: full if_True, rule does_sq [OF A1(1)], rule does_bnd [OF does_get_element [OF A1(8) pg(1)]])
          (rule does_ret_eq, simp add: elem_less_def A1(9))
      have re: "real TYPE('f) g A1" by (rule does_real [OF A1(1) Suc.prems(1)])
      have an: "anext A1 + 32768 * int (d - 1) < 2 ^ 63" using Suc.prems(8) A1(7) n(4) by (simp add: of_nat_diff)
      obtain A2 T2 where A2: "does g (bnd (child a (int (length xs))) (\<lambda>c'. insert_non_full fuel c' e) :: ('f, unit) trm) A1 () A2"
        "grows A1 (Nd a (ks1 @ ks2) (xs @ c1 # ys)) [(el_val e, ?k)] A2 T2" "bal t lo d T2" "anext A2 \<le> anext A1 + 32768 * int (d - 1)"
        using tail [OF re growsD(1,3) [OF A1(2)] A1(3) growsD(7) [OF A1(2)] A1(4,5,6) an A1(10,11)] by blast
      have "grows A T [(el_val e, ?k)] A2 T2" using grows_trans [OF A1(2) A2(2)] Nd by simp
      moreover have "anext A2 \<le> anext A + 32768 * int d" using A2(4) A1(7) n(4) by (simp add: of_nat_diff)
      ultimately show ?thesis using run [OF c A2(1)] A2(3) Nd by (auto intro!: exI [of _ A2] exI [of _ T2])
    qed
  qed
qed simp

end
