(* ===== verification/Index.thy ===== *)
theory Index
  imports BtreeInsert
begin

text \<open>
  The index as a whole: \<open>is_index\<close> ties a state of the program to the tree it holds, and
  insertion, with a new root where the old one is full, keeps it.
\<close>

section \<open>The root\<close>

lemma does_get_deref: "ah A off = Some v \<Longrightarrow> does g (bnd (get_node nm off) deref) A off A"
  by (rule does_bnd, erule does_get_node, rule does_deref)

definition is_index :: "geo \<Rightarrow> nat \<Rightarrow> 'f tree \<Rightarrow> bt \<Rightarrow> bool" where
  "is_index g d t T \<longleftrightarrow> tr_ok g t \<and> even (gord g) \<and> 4 \<le> gord g \<and> aroot (abst g t) = addr T
     \<and> rep (heap g t) T \<and> distinct (addrs T) \<and> bal (gord g div 2) 1 d T \<and> closed (abst g t)
     \<and> linked (heap g t) (leaves T) INVALID_SIBLING_REF \<and> sorted (ino T)"

definition holds :: "geo \<Rightarrow> nat \<Rightarrow> ast \<Rightarrow> bt \<Rightarrow> bool" where
  "holds g d A T \<longleftrightarrow> aroot A = addr T \<and> rep (ah A) T \<and> distinct (addrs T) \<and> bal (gord g div 2) 1 d T \<and> closed A
     \<and> linked (ah A) (leaves T) INVALID_SIBLING_REF \<and> sorted (ino T)"

lemma is_index_holds:
  "is_index g d t T \<longleftrightarrow> tr_ok g t \<and> even (gord g) \<and> 4 \<le> gord g \<and> holds g d (abst g t) T"
  by (auto simp: is_index_def holds_def abst_def)

lemma grows_holds:
  assumes "holds g d A T" "grows A T X A' T'" "bal (gord g div 2) 1 d' T'"
  shows "holds g d' A' T'"
  using assms growsD [OF assms(2)] unfolding holds_def by auto

lemma insert_keeps_root:
  assumes re: "real TYPE('f) g A" and h: "holds g d A T" and ord: "even (gord g)" "4 \<le> gord g"
    and e: "el_ndx_name e = gx g" "length (el_key e) = gks g" "- (2 ^ 63) \<le> el_val e" "el_val e < 2 ^ 63"
    and fuel: "d < fuel" and sp: "anext A + 32768 * int (d + 2) < 2 ^ 63" and nf: "nkeys T < gord g - 1"
  shows "\<exists>A' T'. does g (tree_insert fuel e :: ('f, unit) trm) A () A' \<and> grows A T [(el_val e, el_key e)] A' T' \<and> holds g d A' T'"
proof -
  obtain t where t: "gord g = 2 * t" "2 \<le> t" using ord by (auto elim!: evenE)
  note wf = real_wf [OF re]
  have H: "rep (ah A) T" "distinct (addrs T)" "bal t 1 d T" "closed A" "aroot A = addr T" using h t by (auto simp: holds_def)
  have "nkeys T < 2 * t - 1" "anext A + 32768 * int d < 2 ^ 63" using nf sp t by auto
  from insert_non_full_grows [OF t e(2-4) re H(1-3) this(1) H(4) fuel this(2)]
  obtain A' T' where A': "does g (insert_non_full fuel (addr T) e :: ('f, unit) trm) A () A'"
    "grows A T [(el_val e, el_key e)] A' T'" "bal t 1 d T'" by blast
  obtain w where w: "ah A (addr T) = Some w" "nnum w = int (nkeys T)" using rep_node [OF H(1)] by blast
  have pos: "\<not> addr T < 0" using wf_astD(1) [OF wf w(1)] by simp
  have full: "(nnum w \<ge> int (gord g) - 1) = False" using w(2) nf t by auto
  have gr: "does g (bnd (get_node (gx g) (addr T)) deref) A (addr T) A"
    by (rule does_get_deref [OF w(1)])
  have sub: "dom (ah A) \<subseteq> dom (ah A')" using A'(1) by (simp add: does_def)
  have "does g (tree_insert fuel e :: ('f, unit) trm) A () A'"
    unfolding tree_insert_def e(1)
    by (rule does_tree_get_index [OF _ sub])
      (simp only: pos if_False H(5), rule does_bnd [OF gr], rule does_bnd [OF does_is_full [OF w(1)]],
        simp only: full if_False, rule A'(1))
  then show ?thesis using A' grows_holds [OF h A'(2)] t by auto
qed

lemma insert_splits_root:
  assumes re: "real TYPE('f) g A" and h: "holds g d A T" and ord: "even (gord g)" "4 \<le> gord g"
    and e: "el_ndx_name e = gx g" "length (el_key e) = gks g" "- (2 ^ 63) \<le> el_val e" "el_val e < 2 ^ 63"
    and fuel: "d < fuel" and sp: "anext A + 32768 * int (d + 2) < 2 ^ 63" and nf: "\<not> nkeys T < gord g - 1"
  shows "\<exists>A' T'. does g (tree_insert fuel e :: ('f, unit) trm) A () A' \<and> holds g (Suc d) A' T'
    \<and> mset (ents T') = add_mset (el_val e, el_key e) (mset (ents T)) \<and> anext A \<le> anext A'
    \<and> (\<forall>off. off \<notin> set (addrs T) \<longrightarrow> off < anext A \<longrightarrow> ah A' off = ah A off)"
proof -
  obtain t where t: "gord g = 2 * t" "2 \<le> t" using ord by (auto elim!: evenE)
  note wf = real_wf [OF re]
  have H: "rep (ah A) T" "distinct (addrs T)" "bal t 1 d T" "closed A" "aroot A = addr T"
    "linked (ah A) (leaves T) INVALID_SIBLING_REF" "sorted (ino T)" using h t by (auto simp: holds_def)
  let ?k = "el_key e" and ?a = "anext A"
  obtain w where w: "ah A (addr T) = Some w" "nnum w = int (nkeys T)" using rep_node [OF H(1)] by blast
  have ad: "0 \<le> addr T" "addr T < 2 ^ 63" using wf_astD(1) [OF wf w(1)] sp by auto
  have nk: "nkeys T = 2 * t - 1" using nf bal_max [OF H(3)] t by simp
  have fr: "ah A ?a = None" "0 \<le> ?a" using wf_astD(2,3) [OF wf] by auto
  let ?nv = "new_view g False"
  let ?v0 = "?nv \<lparr> nval := (nval ?nv)(0 := addr T) \<rparr>"
  let ?A1 = "A \<lparr> anext := ?a + 32768 \<rparr>"
  let ?A0 = "ah_put ?a ?v0 ?A1"
  let ?T0 = "Nd ?a [] [T]"
  have s1: "does g (next_offset False :: ('f, int) trm) A ?a ?A1" by (rule does_next_offset)
  have s2: "does g (bnd (new_node False (gx g) ?a) deref :: ('f, int) trm) ?A1 ?a (ah_put ?a ?nv ?A1)"
    by (rule does_bnd, rule does_new_node, use fr in auto) (rule does_deref)
  have s3: "does g (put_child_offset ?a 0 (addr T) :: ('f, unit) trm) (ah_put ?a ?nv ?A1) () ?A0"
    by (rule does_cong [OF does_put_child_offset [where i = 0 and v = ?nv, simplified]]) (use ad t in auto)
  have tn: "?a \<notin> set (addrs T)" using rep_below [OF wf H(1)] by blast
  have re0: "real TYPE('f) g ?A0" by (rule does_real [OF s3 does_real [OF s2 does_real [OF s1 re]]])
  have hs: "ah ?A0 x = ah A x" if "x \<in> set (addrs T)" for x using that tn by auto
  have "rep (ah ?A0) T" using rep_cong [of T "ah ?A0" "ah A"] hs H(1) by blast
  then have r0: "rep (ah ?A0) ?T0" by (auto simp: new_view_def)
  have d0: "distinct (addrs ?T0)" using H(2) tn by simp
  have b0: "bal t 0 (Suc d) ?T0" using bal_lo [OF H(3), of "t - 1"] nk by simp
  have ex: "\<exists>y. ah ?A0 z = Some y" if "ah A z = Some y" for z y using that by auto
  have c0: "closed ?A0" unfolding closed_def
  proof (intro allI impI)
    fix off v assume "ah ?A0 off = Some v"
    then have "off = ?a \<and> v = ?v0 \<or> ah A off = Some v" by (auto split: if_splits)
    then show "nnxt v = INVALID_SIBLING_REF \<or> (\<exists>y. ah ?A0 (nnxt v) = Some y)"
      using H(4) ex unfolding closed_def by (elim disjE) (simp add: new_view_def, blast)
  qed
  have sp0: "anext ?A0 < 2 ^ 63" using sp by simp
  have t0: "length [] < 2 * t - 1" "0 \<le> length []" "nkeys ([T] ! 0) = 2 * t - 1" using t(2) nk by simp_all
  from split_then [OF re0 t r0 d0 b0 t0 c0 sp0, of ?k]
  obtain A1 ks1 ks2 xs ys c1 v1 where A1': "does g (split_child ?a (int 0) (addr ([T] ! 0)) :: ('f, unit) trm) ?A0 () A1"
    and A1'': "grows ?A0 ?T0 [] A1 (Nd ?a (ks1 @ ks2) (xs @ c1 # ys))" "bal t 0 (Suc d) (Nd ?a (ks1 @ ks2) (xs @ c1 # ys))"
    "length xs = length ks1" "length ys = length ks2" "nkeys c1 < 2 * t - 1" "anext A1 = anext ?A0 + 32768"
    "ah A1 ?a = Some v1" "length xs = (if key_less (nkey v1 0) ?k then Suc 0 else 0)"
    "ks1 \<noteq> [] \<longrightarrow> last ks1 \<le> ?k" "ks2 \<noteq> [] \<longrightarrow> ?k \<le> hd ks2" "ks1 @ ks2 \<noteq> []"
    by blast
  have "does g (split_child ?a 0 (addr T) :: ('f, unit) trm) ?A0 () A1" using A1' by simp
  note A1 = this A1''
  note rp = growsD(1,3,7) [OF A1(2)]
  have r1: "rep (ah A1) c1" "distinct (addrs c1)" using rp by auto
  have re1: "real TYPE('f) g A1" by (rule does_real [OF A1(1) re0])
  obtain w1 where w1: "ah A1 (addr c1) = Some w1" using rep_dom [OF r1(1) addr_in] by blast
  have bc: "bal t (t - 1) d c1" using bal_child [OF A1(3)] by simp
  have an: "anext A1 + 32768 * int d < 2 ^ 63" using A1(7) sp by simp
  from insert_non_full_grows [OF t e(2-4) re1 r1 bc A1(6) rp(3) fuel an]
  obtain A2 c2 where A2: "does g (insert_non_full fuel (addr c1) e :: ('f, unit) trm) A1 () A2"
    "grows A1 c1 [(el_val e, ?k)] A2 c2" "bal t (t - 1) d c2" by blast
  have g2: "grows A1 (Nd ?a (ks1 @ ks2) (xs @ c1 # ys)) [(el_val e, ?k)] A2 (Nd ?a (ks1 @ ks2) (xs @ c2 # ys))"
    by (rule grows_child1 [OF A2(2) rp(1,2) real_wf [OF re1] A1(4,5) bal_leaves [OF bc]]) (use A1(10,11) in auto)
  let ?T2 = "Nd ?a (ks1 @ ks2) (xs @ c2 # ys)"
  have g3: "grows ?A0 ?T0 [(el_val e, ?k)] A2 ?T2" using grows_trans [OF A1(2) g2] by simp
  have b2: "bal t 0 (Suc d) ?T2" by (rule bal_replace [OF A1(3)]) (use A2(3) in simp)
  have "1 \<le> nkeys ?T2" using A1(12) by (cases ks1; cases ks2) auto
  then have b3: "bal t 1 (Suc d) ?T2" by (rule bal_lo [OF b2])
  let ?A3 = "A2 \<lparr> aroot := ?a \<rparr>"
  have gt0: "0 < gord g" "1 < gord g" using t by simp_all
  have len1: "length xs < gord g" using A1(9) gt0 by simp
  have g1: "does g (get_element ?a 0 :: ('f, element) trm) A1 (elem_of g v1 0) A1"
    using does_get_element [OF A1(8) gt0(1)] by simp
  have i1: "(if elem_less (elem_of g v1 0) e then 1 else 0) = int (length xs)" by (simp add: elem_less_def A1(9))
  have g4: "does g (get_child_offset ?a (int (length xs)) :: ('f, int) trm) A1 (addr c1) A1"
    by (rule does_cong [OF does_get_child_offset [OF A1(8) len1]]) (simp_all add: rep_child(1) [OF rp(1) A1(8)])
  have pos: "(addr T < 0) = False" and full: "(nnum w \<ge> int (gord g) - 1) = True" using ad w(2) nk t by simp_all
  have sub: "dom (ah A) \<subseteq> dom (ah ?A3)"
  proof -
    have "dom (ah A) \<subseteq> dom (ah ?A0)" by auto
    also have "\<dots> \<subseteq> dom (ah A1)" using A1(1) by (simp add: does_def)
    also have "\<dots> \<subseteq> dom (ah ?A3)" using A2(1) by (simp add: does_def)
    finally show ?thesis .
  qed
  have run: "does g (tree_insert fuel e :: ('f, unit) trm) A () ?A3"
    unfolding tree_insert_def e(1)
    apply (rule does_tree_get_index [OF _ sub])
    apply (simp only: H(5) pos if_False)
    apply (rule does_bnd [OF does_get_deref [OF w(1)]], rule does_bnd [OF does_is_full [OF w(1)]])
    apply (simp only: full if_True)
    apply (rule does_bnd [OF s1], rule does_bnd [OF s2], rule does_sq [OF s3], rule does_sq [OF A1(1)])
    apply (rule does_bnd [OF g1], rule does_bnd [OF does_nd_ndx_name [OF A1(8)]])
    apply (simp only: i1)
    apply (rule does_bnd [OF g4], rule does_bnd [OF does_get_deref [OF w1]], rule does_sq [OF A2(1)])
    apply (rule does_set_root)
    done
  have c3: "closed ?A3" using growsD(7) [OF g3] by (simp add: closed_def)
  have l0: "linked (ah ?A0) (leaves ?T0) INVALID_SIBLING_REF"
    using linked_cong [of "leaves T" "ah ?A0" "ah A"] hs leaves_addrs [of T] H(6) by (simp add: subset_iff)
  have i0: "ino ?T0 = ino T" "ents ?T0 = ents T" by simp_all
  have "holds g (Suc d) ?A3 ?T2"
    unfolding holds_def using growsD(1,3) [OF g3] growsD(11) [OF g3 l0] growsD(13) [OF g3] H(7) c3 b3 t i0 by simp
  moreover have "mset (ents ?T2) = add_mset (el_val e, ?k) (mset (ents T))" using growsD(12) [OF g3] i0 by simp
  moreover have "anext A \<le> anext ?A3" using growsD(4) [OF g3] by simp
  moreover have "ah ?A3 off = ah A off" if "off \<notin> set (addrs T)" "off < anext A" for off
    using growsD(6) [OF g3, of off] that by auto
  ultimately show ?thesis using run by blast
qed

lemma weave_sorted:
  "length xss = length yss \<Longrightarrow> \<forall>i < length xss. sorted (xss ! i) \<longrightarrow> sorted (yss ! i) \<and> set (yss ! i) \<subseteq> set (xss ! i) \<Longrightarrow>
    sorted (weave xss ks) \<Longrightarrow> sorted (concat yss) \<and> set (concat yss) \<subseteq> set (weave xss ks)"
proof (induction xss yss arbitrary: ks rule: list_induct2)
  case (Cons x xs y ys)
  have tl: "\<forall>i < length xs. sorted (xs ! i) \<longrightarrow> sorted (ys ! i) \<and> set (ys ! i) \<subseteq> set (xs ! i)" using Cons.prems(1) by fastforce
  have hd: "sorted x \<longrightarrow> sorted y \<and> set y \<subseteq> set x" using Cons.prems(1) by force
  have w: "weave xs [] = concat xs" by (cases xs) auto
  show ?case
  proof (cases ks)
    case Nil
    then show ?thesis using Cons.IH [OF tl, of "[]"] Cons.prems(2) hd w by (auto simp: sorted_append subset_iff)
  next
    case (Cons k ks')
    then show ?thesis using Cons.IH [OF tl, of ks'] Cons.prems(2) hd by (auto simp: sorted_append subset_iff)
  qed
qed simp

lemma sorted_ents: "sorted (ino T) \<Longrightarrow> sorted (map snd (ents T)) \<and> set (map snd (ents T)) \<subseteq> set (ino T)"
proof (induction T)
  case (Nd a ks cs)
  have "\<forall>i < length (map ino cs). sorted (map ino cs ! i) \<longrightarrow>
      sorted (map (map snd \<circ> ents) cs ! i) \<and> set (map (map snd \<circ> ents) cs ! i) \<subseteq> set (map ino cs ! i)"
    using Nd.IH by simp
  from weave_sorted [OF _ this, of ks] Nd.prems show ?case by (simp add: map_concat o_def)
qed simp

text \<open>A small table for the examples: one index without elements, and a disk that takes every write.\<close>

definition accept_all :: "unit sys" where
  "accept_all = \<lparr> sys_pread = (\<lambda>k off f. (Io_done [], f)), sys_pwrite = (\<lambda>bs off f. (Io_done (length bs), f)), sys_page_size = 4096 \<rparr>"

definition empty_table :: "unit tree" where
  "empty_table = \<lparr> tr_cache = \<lparr> bc_dio = \<lparr> dio_sys = accept_all, dio_file = (), dio_flag = True \<rparr>,
     bc_schema = \<lparr> sc_header = header_new ''db'' ''tbl'' 0 32768 1 0 0 0 0 (-1), sc_column = [],
       sc_index = [index_new 0 2728 4 ''PRIMARY'' []], sc_foreign = [] \<rparr>,
     bc_cache = (\<lambda>off. None), bc_flush_list = [] \<rparr>, tr_node = (\<lambda>off. None) \<rparr>"

abbreviation "geo4 \<equiv> \<lparr> gx = ''PRIMARY'', gks = 4, gord = 2728 \<rparr>"

abbreviation "elem4 k p \<equiv> \<lparr> el_row_position = p, el_block_offset = 65536, el_ndx_name = ''PRIMARY'', el_key = k \<rparr>"

lemma empty_table_ok: "tr_ok geo4 empty_table" "ix_root (the_index geo4 empty_table) < 0" "heap geo4 empty_table off = None"
  by (auto simp: empty_table_def tr_ok_def geo_ok_def slot_def disk_ok_def block_size_def accepts_def accept_all_def
      header_new_def index_new_def get_index_def the_index_def heap_def Let_def)

text \<open>The first element of an empty index makes its root, a leaf that holds this element.\<close>

lemma tree_insert_first:
  fixes t :: "'f tree"
  assumes "tr_ok g t" "ix_root (the_index g t) < 0" "even (gord g)" "4 \<le> gord g" "\<And>off. heap g t off = None"
    and "el_ndx_name e = gx g" "length (el_key e) = gks g" "- (2 ^ 63) \<le> el_val e" "el_val e < 2 ^ 63"
  shows "\<exists>t'. tree_insert fuel e t = (Inr (), t') \<and> is_index g 0 t' (Lf (hd_next_offset (t_header t)) [(el_val e, el_key e)])
    \<and> hd_next_offset (t_header t') = hd_next_offset (t_header t) + 32768
    \<and> (\<exists>v. heap g t' (hd_next_offset (t_header t)) = Some v \<and> nnum v = 1 \<and> nkey v 1 = nkey (new_view g True) 1)"
proof -
  let ?A = "abst g t" and ?a = "hd_next_offset (t_header t)" and ?k = "el_key e"
  have A: "ah ?A = (\<lambda>_. None)" "anext ?A = ?a" "aroot ?A < 0" using assms(2,5) by (auto simp: abst_def)
  have a0: "0 \<le> ?a" using assms(1) by (simp add: tr_ok_def)
  let ?A1 = "?A \<lparr> anext := ?a + 32768 \<rparr>" and ?nv = "new_view g True"
  let ?A2 = "?A1 \<lparr> aroot := ?a \<rparr>"
  let ?v1 = "?nv \<lparr> nval := (nval ?nv)(0 := el_val e), nkey := (nkey ?nv)(0 := ?k) \<rparr>"
  let ?v2 = "?v1 \<lparr> nnum := 1 \<rparr>"
  let ?A' = "ah_put ?a ?v2 ?A2"
  have s1: "does g (next_offset False :: ('f, int) trm) ?A ?a ?A1" using does_next_offset [of g ?A] A(2) by simp
  have s2: "does g (set_root (gx g) ?a :: ('f, unit) trm) ?A1 () ?A2" by (rule does_set_root)
  have s3: "does g (bnd (new_node True (gx g) ?a) deref :: ('f, int) trm) ?A2 ?a (ah_put ?a ?nv ?A2)"
    by (rule does_bnd, rule does_new_node, use A a0 in auto) (rule does_deref)
  have s4: "does g (put_element ?a 0 e :: ('f, unit) trm) (ah_put ?a ?nv ?A2) () (ah_put ?a ?v1 ?A2)"
    by (rule does_cong [OF does_put_element [where i = 0 and v = ?nv, simplified]]) (use assms in \<open>auto simp: new_view_def\<close>)
  have s5: "does g (set_num_key ?a 1 :: ('f, unit) trm) (ah_put ?a ?v1 ?A2) () ?A'"
    by (rule does_cong [OF does_set_num_key [of _ _ ?v1]]) auto
  have sub: "dom (ah ?A1) \<subseteq> dom (ah ?A')" "dom (ah ?A2) \<subseteq> dom (ah ?A')" "dom (ah ?A) \<subseteq> dom (ah ?A')" using A(1) by auto
  have neg: "(aroot ?A < 0) = True" "aroot ?A2 = ?a" using A(3) by simp_all
  have run: "does g (tree_insert fuel e :: ('f, unit) trm) ?A () ?A'"
    unfolding tree_insert_def assms(6)
    apply (rule does_tree_get_index [OF _ sub(3)])
    apply (simp only: neg(1) if_True)
    apply (rule does_bnd [OF s1], rule does_sq [OF s2], rule does_tree_get_index [OF _ sub(2)])
    apply (simp only: neg(2))
    apply (rule does_bnd [OF s3], rule does_sq [OF s4], rule s5)
    done
  have "holds g 0 ?A' (Lf ?a [(el_val e, ?k)])"
    using A(1) assms(4) by (auto simp: holds_def closed_def new_view_def)
  with run assms(1,3,4) show ?thesis unfolding does_def is_index_holds by (fastforce simp: abst_def)
qed



end
