(* ===== verification/BtreeFind.thy ===== *)
theory BtreeFind
  imports Index
begin

text \<open>
  Looking up a key in an index: \<open>tree::find\<close> finds every key of the index, and returns the
  end for every other one. But it stops at the first node with the key, which for a key that
  also separates two nodes is not a leaf.
\<close>

section \<open>Binary search in a node\<close>

lemma str_compare_pos: "0 < str_compare s t \<longleftrightarrow> t < (s :: string)"
proof (induction s t rule: str_compare.induct)
  case (4 a as b bs)
  then show ?case by (auto simp: less_char_def)
qed auto

definition place :: "nview \<Rightarrow> nat \<Rightarrow> string \<Rightarrow> nat \<Rightarrow> bool" where
  "place v m key r \<longleftrightarrow> r \<le> m \<and> (r < m \<and> nkey v r = key
     \<or> (\<forall>i < r. nkey v i < key) \<and> (\<forall>i. r \<le> i \<longrightarrow> i < m \<longrightarrow> key < nkey v i))"

lemma half: "(int l + (int h - 1)) sdiv 2 = int ((l + h - 1) div 2)" if "l < h"
proof -
  have "int l + (int h - 1) = int (l + h - 1)" using that by simp
  then show ?thesis using that by (auto simp: signed_divide_int_def zdiv_int sgn_if)
qed

lemma does_find_key_loop:
  assumes v: "ah A this = Some v" "m < gord g" and up: "\<And>i j. i \<le> j \<Longrightarrow> j < m \<Longrightarrow> nkey v i \<le> nkey v j"
  shows "l \<le> h \<Longrightarrow> h \<le> m \<Longrightarrow> h - l < n \<Longrightarrow> \<forall>i < l. nkey v i < key \<Longrightarrow> \<forall>i. h \<le> i \<longrightarrow> i < m \<longrightarrow> key < nkey v i
    \<Longrightarrow> \<exists>r. does g (find_key_loop n this key (int l) (int h - 1) (int h) :: ('f, int) trm) A (int r) A \<and> place v m key r"
proof (induction n arbitrary: l h)
  case (Suc n)
  show ?case
  proof (cases "l < h")
    case False
    then have "does g (find_key_loop (Suc n) this key (int l) (int h - 1) (int h) :: ('f, int) trm) A (int h) A" "place v m key h"
      using Suc.prems by (auto simp: does_ret place_def)
    then show ?thesis by blast
  next
    case True
    define q where "q = (l + h - 1) div 2"
    have q: "l \<le> q" "q < h" using True by (auto simp: q_def)
    have e: "does g (get_element this (int q) :: ('f, element) trm) A (elem_of g v q) A"
      by (rule does_get_element) (use v q Suc.prems in auto)
    have mid: "(int l + (int h - 1)) sdiv 2 = int q" and le: "(int l \<le> int h - 1) = True"
      using half [OF True] True by (simp_all add: q_def)
    let ?c = "str_compare key (nkey v q)"
    have step: "does g (find_key_loop (Suc n) this key (int l) (int h - 1) (int h) :: ('f, int) trm) A (int r) A"
      if "does g (if ?c < 0 then find_key_loop n this key (int l) (int q - 1) (int q)
          else if 0 < ?c then find_key_loop n this key (int q + 1) (int h - 1) (int h) else ret (int q) :: ('f, int) trm) A (int r) A" for r
      by (simp only: find_key_loop.simps Let_def mid le if_True) (rule does_bnd [OF e], simp only: el_of that)
    consider "?c < 0" | "0 < ?c" | "?c = 0" by linarith
    then show ?thesis
    proof cases
      case 1
      then have "key < nkey v q" by (simp add: key_less_iff)
      then have "\<forall>i. q \<le> i \<longrightarrow> i < m \<longrightarrow> key < nkey v i" using up [of q] by fastforce
      with Suc.IH [of l q] q Suc.prems 1 step show ?thesis by fastforce
    next
      case 2
      then have k: "nkey v q < key" by (simp add: str_compare_pos)
      have "nkey v i \<le> nkey v q" if "i < Suc q" for i using that up [of i q] q Suc.prems by simp
      then have "\<forall>i < Suc q. nkey v i < key" using k by fastforce
      moreover have "h - Suc q < n" using q Suc.prems(3) by linarith
      ultimately obtain r where
        "does g (find_key_loop n this key (int (Suc q)) (int h - 1) (int h) :: ('f, int) trm) A (int r) A" "place v m key r"
        using Suc.IH [of "Suc q" h] q Suc.prems by auto
      with 2 step [of r] show ?thesis by (auto simp: add.commute)
    next
      case 3
      then have "place v m key q" using q Suc.prems str_compare_zero by (auto simp: place_def)
      with 3 step [of q] show ?thesis by (auto simp: does_ret)
    qed
  qed
qed simp

lemma does_find_key:
  assumes "ah A this = Some v" "nnum v = int m" "m < gord g" "sorted (map (nkey v) [0..<m])"
  shows "\<exists>r. does g (find_key this key :: ('f, int) trm) A (int r) A \<and> place v m key r"
proof -
  have up: "nkey v i \<le> nkey v j" if "i \<le> j" "j < m" for i j
    using sorted_nth_mono [OF assms(4), of i j] that by simp
  from does_find_key_loop [OF assms(1,3) up, of 0 m "Suc m" key]
  obtain r where r: "does g (find_key_loop (Suc m) this key 0 (int m - 1) (int m) :: ('f, int) trm) A (int r) A" "place v m key r"
    by auto
  have "does g (find_key this key :: ('f, int) trm) A (int r) A"
    unfolding find_key_def by (rule does_bnd [OF does_nd_num_key [OF assms(1)]]) (simp only: assms(2) nat_int r(1))
  with r(2) show ?thesis by blast
qed

section \<open>The end of an index\<close>

fun last_of :: "bt \<Rightarrow> int \<times> nat" where
  "last_of (Lf a es) = (a, length es)"
| "last_of (Nd a ks cs) = last (map last_of cs)"

lemma does_last_leaf:
  "rep (ah A) T \<Longrightarrow> bal t lo d T \<Longrightarrow> gord g = 2 * t \<Longrightarrow> 0 < t \<Longrightarrow> d < fuel
    \<Longrightarrow> does g (last_leaf fuel (addr T) :: ('f, int) trm) A (fst (last_of T)) A
      \<and> (\<exists>v. ah A (fst (last_of T)) = Some v \<and> nnum v = int (snd (last_of T)))"
proof (induction fuel arbitrary: T lo d)
  case (Suc fuel)
  show ?case
  proof (cases T)
    case (Lf a es)
    then obtain v where v: "ah A a = Some v" "nleaf v" "nnum v = int (length es)" using Suc.prems(1) by auto
    have "does g (last_leaf (Suc fuel) a :: ('f, int) trm) A a A"
      unfolding last_leaf.simps by (rule does_bnd [OF does_nd_leaf [OF v(1)]]) (simp add: v(2) does_ret)
    with v Lf show ?thesis by auto
  next
    case (Nd a ks cs)
    then obtain v where v: "ah A a = Some v" "\<not> nleaf v" "nnum v = int (length ks)"
      using Suc.prems(1) by auto
    have n: "length cs = Suc (length ks)" "length ks < gord g" "0 < d" using Suc.prems Nd by auto
    have lo: "last_of T = last_of (last cs)" using Nd n(1) by (cases cs rule: rev_cases) auto
    have cs: "cs = take (length ks) cs @ [last cs]" using n(1) by (cases cs rule: rev_cases) auto
    have lc: "last cs \<in> set cs" using n(1) by (cases cs rule: rev_cases) auto
    then have c: "rep (ah A) (last cs)" "bal t (t - 1) (d - 1) (last cs)" using Suc.prems(1,2) Nd by simp_all
    have "rep (ah A) (Nd a ks (take (length ks) cs @ last cs # []))" using Suc.prems(1) Nd cs by simp
    from rep_child(1) [OF this v(1)] have "nval v (length ks) = addr (last cs)" using n(1) by simp
    then have ch: "does g (child a (int (length ks)) :: ('f, int) trm) A (addr (last cs)) A"
      using rep_node [OF c(1)] by (blast intro: does_child [OF v(1) n(2)])
    have IH: "does g (last_leaf fuel (addr (last cs)) :: ('f, int) trm) A (fst (last_of (last cs))) A
      \<and> (\<exists>v. ah A (fst (last_of (last cs))) = Some v \<and> nnum v = int (snd (last_of (last cs))))"
      by (rule Suc.IH [OF c Suc.prems(3,4)]) (use Suc.prems(5) n(3) in simp)
    have "does g (last_leaf (Suc fuel) a :: ('f, int) trm) A (fst (last_of (last cs))) A"
      unfolding last_leaf.simps
      by (rule does_bnd [OF does_nd_leaf [OF v(1)]])
        (simp only: v(2) if_False, rule does_bnd [OF does_nd_num_key [OF v(1)]], simp only: v(3), rule does_bnd [OF ch], rule conjunct1 [OF IH])
    with IH Nd lo show ?thesis by simp
  qed
qed simp

definition end_iterator :: "geo \<Rightarrow> bt \<Rightarrow> iterator" where
  "end_iterator g T = \<lparr> it_index = int (snd (last_of T)), it_offset = fst (last_of T), it_ndx_name = gx g \<rparr>"

lemma does_tree_end:
  assumes "wf_ast g A" "rep (ah A) T" "bal t lo d T" "gord g = 2 * t" "0 < t" "d < fuel" "aroot A = addr T"
  shows "does g (tree_end fuel (gx g) :: ('f, iterator) trm) A (end_iterator g T) A"
proof -
  obtain w where w: "ah A (addr T) = Some w" using rep_node [OF assms(2)] by blast
  have pos: "\<not> addr T < 0" using wf_astD(1) [OF assms(1) w] by simp
  from does_last_leaf [OF assms(2-6)] obtain v where
    v: "does g (last_leaf fuel (addr T) :: ('f, int) trm) A (fst (last_of T)) A" "ah A (fst (last_of T)) = Some v"
      "nnum v = int (snd (last_of T))" by blast
  show ?thesis
    unfolding tree_end_def
    by (rule does_tree_get_index [OF _ subset_refl])
      (simp only: assms(7) pos if_False, rule does_bnd [OF does_get_deref [OF w]], rule does_bnd [OF v(1)],
        rule does_bnd [OF does_nd_num_key [OF v(2)]], rule does_ret_eq, simp add: end_iterator_def v(3))
qed

section \<open>The way down\<close>

text \<open>
  The keys that separate nodes, and the nodes on the way to a key: below a node where the key is
  none of the keys it goes to the child between the smaller and the greater ones. The slot behind the last key of a
  node may hold an old key, one that was moved to another node or removed; the search looks at it when the key is
  greater than all keys of the node.
\<close>

fun seps :: "bt \<Rightarrow> string list" where
  "seps (Lf a es) = []"
| "seps (Nd a ks cs) = ks @ concat (map seps cs)"

inductive on_way :: "string \<Rightarrow> bt \<Rightarrow> bt \<Rightarrow> bool" for key where
  here: "on_way key T T"
| down: "length xs = length ks1 \<Longrightarrow> \<forall>k \<in> set ks1. k < key \<Longrightarrow> \<forall>k \<in> set ks2. key < k \<Longrightarrow> on_way key c S
    \<Longrightarrow> on_way key (Nd a (ks1 @ ks2) (xs @ c # ys)) S"

inductive_cases on_way_leaf: "on_way key (Lf a es) S"

definition no_old_key :: "(int \<Rightarrow> nview option) \<Rightarrow> string \<Rightarrow> bt \<Rightarrow> bool" where
  "no_old_key h key T \<longleftrightarrow> (\<forall>S v. on_way key T S \<longrightarrow> h (addr S) = Some v \<longrightarrow> nkey v (nat (nnum v)) \<noteq> key)"

text \<open>A slot with the key: of an inner node for a separating key, otherwise of a leaf, with an entry of the index.\<close>

definition hit :: "geo \<Rightarrow> ast \<Rightarrow> bt \<Rightarrow> string \<Rightarrow> iterator \<Rightarrow> bool" where
  "hit g A T key it \<longleftrightarrow> (\<exists>a i v. it = \<lparr> it_index = int i, it_offset = a, it_ndx_name = gx g \<rparr> \<and> ah A a = Some v \<and> i < gord g
     \<and> nkey v i = key \<and> nleaf v = (key \<notin> set (seps T)) \<and> (nleaf v \<longrightarrow> (nval v i, key) \<in> set (ents T)))"

lemma weave_set: "length xss = Suc (length ks) \<Longrightarrow> set (weave xss ks) = set ks \<union> \<Union> (set ` set xss)"
proof (induction xss ks rule: weave.induct)
  case (1 xs xss k ks)
  then show ?case by auto
qed auto

lemma weave_keys: "length xss = Suc (length ks) \<Longrightarrow> sorted (weave xss ks) \<Longrightarrow> sorted ks"
proof (induction xss ks rule: weave.induct)
  case (1 xs xss k ks)
  then show ?case by (auto simp: sorted_append weave_set)
qed auto

lemma seps_ino: "bal t lo d T \<Longrightarrow> set (seps T) \<subseteq> set (ino T)"
proof (induction T arbitrary: lo d)
  case (Nd a ks cs)
  then show ?case using weave_set [of "map ino cs" ks] by fastforce
qed simp

lemma ents_ino: "bal t lo d T \<Longrightarrow> snd ` set (ents T) \<subseteq> set (ino T)"
proof (induction T arbitrary: lo d)
  case (Nd a ks cs)
  then show ?case using weave_set [of "map ino cs" ks] by fastforce
qed simp

text \<open>A key between two separators is in the tree if it is in the child between them.\<close>

lemma in_concat: "xs \<in> set xss \<Longrightarrow> set xs \<subseteq> set (concat xss)"
  by auto

lemma child_of_key:
  assumes "bal t lo d (Nd a (ks1 @ ks2) (xs @ c # ys))" "length xs = length ks1" "length ys = length ks2"
    and "sorted (ino (Nd a (ks1 @ ks2) (xs @ c # ys)))" "\<forall>k \<in> set ks1. k < key" "\<forall>k \<in> set ks2. key < k"
  shows "sorted (ino c)" "key \<in> set (ino (Nd a (ks1 @ ks2) (xs @ c # ys))) \<longleftrightarrow> key \<in> set (ino c)"
    "key \<in> set (seps (Nd a (ks1 @ ks2) (xs @ c # ys))) \<longleftrightarrow> key \<in> set (seps c)"
proof -
  let ?pre = "concat (map2 (\<lambda>xs k. xs @ [k]) (map ino xs) ks1)" and ?post = "concat (map2 (\<lambda>k ys. k # ys) ks2 (map ino ys))"
  have ino: "ino (Nd a (ks1 @ ks2) (xs @ c # ys)) = ?pre @ ino c @ ?post"
    using assms(2,3) weave_at [of "map ino xs" ks1 "map ino ys" ks2] by simp
  have s: "sorted ?pre" "sorted ?post" "sorted (ino c)" using assms(4) unfolding ino by (auto simp: sorted_append)
  then show "sorted (ino c)" by simp
  have pre: "z < key" if z: "z \<in> set ?pre" for z
  proof -
    have "ks1 \<noteq> []" using z by auto
    then have "last ?pre = last ks1" using assms(2) by (intro last_pre) simp_all
    then have "z \<le> last ks1" using sorted_last [OF s(1) z] by simp
    then show ?thesis using assms(5) \<open>ks1 \<noteq> []\<close> by (meson last_in_set le_less_trans)
  qed
  have post: "key < z" if z: "z \<in> set ?post" for z
  proof -
    have "ks2 \<noteq> []" using z by auto
    then have "hd ?post = hd ks2" using assms(3) by (intro hd_post) simp_all
    moreover have "hd ?post \<le> z" using s(2) z by (cases ?post) auto
    ultimately show ?thesis using assms(6) \<open>ks2 \<noteq> []\<close> by (metis less_le_trans list.set_sel(1))
  qed
  show "key \<in> set (ino (Nd a (ks1 @ ks2) (xs @ c # ys))) \<longleftrightarrow> key \<in> set (ino c)"
    unfolding ino using pre post by (metis Un_iff less_irrefl set_append)
  have "key \<notin> set (seps c')" if c': "c' \<in> set xs \<union> set ys" for c'
  proof
    assume "key \<in> set (seps c')"
    moreover have "bal t (t - 1) (d - 1) c'" using assms(1) c' by auto
    ultimately have k: "key \<in> set (ino c')" using seps_ino by blast
    have sub: "set (ino c') \<subseteq> set ?pre \<union> set ?post"
    proof (cases "c' \<in> set xs")
      case True
      then obtain i where "i < length xs" "c' = xs ! i" by (auto simp: in_set_conv_nth)
      then have "ino c' @ [ks1 ! i] \<in> set (map2 (\<lambda>xs k. xs @ [k]) (map ino xs) ks1)"
        using assms(2) nth_mem [of i "map2 (\<lambda>xs k. xs @ [k]) (map ino xs) ks1"] by simp
      from in_concat [OF this] show ?thesis by (simp del: set_concat add: subset_iff)
    next
      case False
      then obtain i where "i < length ys" "c' = ys ! i" using c' by (auto simp: in_set_conv_nth)
      then have "ks2 ! i # ino c' \<in> set (map2 (\<lambda>k ys. k # ys) ks2 (map ino ys))"
        using assms(3) nth_mem [of i "map2 (\<lambda>k ys. k # ys) ks2 (map ino ys)"] by simp
      from in_concat [OF this] show ?thesis by (simp del: set_concat add: subset_iff)
    qed
    then show False using k pre post by blast
  qed
  then have "key \<notin> set (concat (map seps xs))" "key \<notin> set (concat (map seps ys))" by simp_all
  moreover have "key \<notin> set ks1" "key \<notin> set ks2" using assms(5,6) by blast+
  ultimately show "key \<in> set (seps (Nd a (ks1 @ ks2) (xs @ c # ys))) \<longleftrightarrow> key \<in> set (seps c)"
    by (simp del: set_concat)
qed

lemma rep_keys:
  assumes "rep h T" "h (addr T) = Some v"
  shows "map (nkey v) [0..<nkeys T] = (case T of Lf a es \<Rightarrow> map snd es | Nd a ks cs \<Rightarrow> ks)"
    "nleaf v = (case T of Lf a es \<Rightarrow> True | Nd a ks cs \<Rightarrow> False)"
proof -
  have "map (nkey v) [0..<nkeys T] = (case T of Lf a es \<Rightarrow> map snd es | Nd a ks cs \<Rightarrow> ks)
    \<and> nleaf v = (case T of Lf a es \<Rightarrow> True | Nd a ks cs \<Rightarrow> False)"
  proof (cases T)
    case (Lf a es)
    then have es: "es = map (\<lambda>i. (nval v i, nkey v i)) [0..<length es]" and l: "nleaf v" using assms by auto
    have "map snd es = map (nkey v) [0..<length es]" by (subst es) (simp add: o_def)
    then show ?thesis using Lf l by simp
  next
    case (Nd a ks cs)
    then have "ks = map (nkey v) [0..<length ks]" "\<not> nleaf v" using assms by auto
    then show ?thesis using Nd by simp
  qed
  then show "map (nkey v) [0..<nkeys T] = (case T of Lf a es \<Rightarrow> map snd es | Nd a ks cs \<Rightarrow> ks)"
    "nleaf v = (case T of Lf a es \<Rightarrow> True | Nd a ks cs \<Rightarrow> False)" by blast+
qed

lemma node_find_does:
  assumes t: "gord g = 2 * t" "0 < t"
  shows "rep (ah A) T \<Longrightarrow> bal t lo d T \<Longrightarrow> no_old_key (ah A) key T \<Longrightarrow> sorted (ino T) \<Longrightarrow> D + d < fuel
    \<Longrightarrow> (\<And>n. D < n \<Longrightarrow> does g (tree_end n (gx g) :: ('f, iterator) trm) A e A)
    \<Longrightarrow> \<exists>it. does g (node_find fuel (addr T) key :: ('f, iterator) trm) A it A
      \<and> (if key \<in> set (ino T) then hit g A T key it else it = e)"
proof (induction fuel arbitrary: T lo d)
  case (Suc fuel)
  obtain v where v: "ah A (addr T) = Some v" "nnum v = int (nkeys T)" using rep_node [OF Suc.prems(1)] by blast
  let ?m = "nkeys T"
  note keys = rep_keys(1) [OF Suc.prems(1) v(1)] and leaf = rep_keys(2) [OF Suc.prems(1) v(1)]
  have so: "sorted (map (nkey v) [0..<?m])"
    using Suc.prems(2,4) weave_keys [of "map ino cs" ks for cs ks] unfolding keys by (cases T) (simp, metis bal.simps(2) bt.simps(6) ino.simps(2) length_map)
  have m: "?m < gord g" using bal_max [OF Suc.prems(2)] t by simp
  from does_find_key [OF v(1,2) m so] obtain r where
    r: "does g (find_key (addr T) key :: ('f, int) trm) A (int r) A" "place v ?m key r" by blast
  have rm: "r < gord g" using r(2) m by (simp add: place_def)
  note el = does_get_element [OF v(1) rm]
  let ?it = "\<lparr> it_index = int r, it_offset = addr T, it_ndx_name = gx g \<rparr>"
  let ?rest = "if nleaf v then tree_end (Suc fuel) (gx g) else bnd (child (addr T) (int r)) (\<lambda>c. node_find fuel c key) :: ('f, iterator) trm"
  have step: "does g (node_find (Suc fuel) (addr T) key :: ('f, iterator) trm) A it A"
    if "if nkey v r = key then it = ?it else does g ?rest A it A" for it
    unfolding node_find.simps
    apply (rule does_bnd [OF r(1)], rule does_bnd [OF el], rule does_bnd [OF does_nd_ndx_name [OF v(1)]])
    apply (simp only: el_of)
    using that apply (cases "nkey v r = key")
     apply (simp add: does_ret)
    apply (simp only: if_False)
    apply (rule does_bnd [OF does_nd_leaf [OF v(1)]])
    apply simp
    done
  show ?case
  proof (cases "nkey v r = key")
    case True
    have lt: "r < ?m"
    proof (rule ccontr)
      assume "\<not> r < ?m"
      then have "r = ?m" using r(2) by (simp add: place_def)
      then show False using True Suc.prems(3) v by (auto simp: no_old_key_def intro: here)
    qed
    then have key: "key = map (nkey v) [0..<?m] ! r" using True by simp
    have "key \<in> set (ino T) \<and> hit g A T key ?it"
    proof (cases T)
      case (Lf a es)
      then have "es = map (\<lambda>i. (nval v i, nkey v i)) [0..<length es]" using Suc.prems(1) v by auto
      moreover have "(nval v r, key) \<in> set (map (\<lambda>i. (nval v i, nkey v i)) [0..<length es])"
        using True lt Lf by (auto intro!: image_eqI [of _ _ r])
      ultimately have "(nval v r, key) \<in> set es" by simp
      then show ?thesis using Lf v leaf rm True by (force simp: hit_def)
    next
      case (Nd a ks cs)
      then have "key \<in> set ks" using key keys lt by simp
      moreover have "set ks \<subseteq> set (ino T)" using seps_ino [OF Suc.prems(2)] Nd by simp
      ultimately show ?thesis using Nd v leaf rm True by (auto simp: hit_def)
    qed
    then show ?thesis using step [of ?it] True by auto
  next
    case False
    then have lo: "\<forall>i < r. nkey v i < key" "\<forall>i. r \<le> i \<longrightarrow> i < ?m \<longrightarrow> key < nkey v i" "r \<le> ?m" using r(2) by (auto simp: place_def)
    show ?thesis
    proof (cases T)
      case (Lf a es)
      have "nkey v i \<noteq> key" if "i < ?m" for i using lo that by (metis less_irrefl not_le_imp_less)
      then have "key \<notin> nkey v ` {0..<?m}" by fastforce
      then have "key \<notin> set (map (nkey v) [0..<?m])" by (simp only: set_map set_upt not_False_eq_True)
      then have "key \<notin> set (ino T)" unfolding keys using Lf by simp
      moreover have "does g ?rest A e A" using Suc.prems(5,6) leaf Lf by simp
      ultimately show ?thesis using step [of e] False by auto
    next
      case (Nd a ks cs)
      define ks1 ks2 xs c ys where "ks1 = take r ks" and "ks2 = drop r ks" and "xs = take r cs" and "c = cs ! r" and "ys = drop (Suc r) cs"
      have n: "length cs = Suc (length ks)" "length ks = ?m" "0 < d" using Suc.prems(2) Nd by auto
      have "cs = xs @ c # ys" unfolding xs_def c_def ys_def by (rule nth_split) (use n lo(3) in simp)
      then have T: "T = Nd a (ks1 @ ks2) (xs @ c # ys)" by (simp add: Nd ks1_def ks2_def)
      have len: "length xs = length ks1" "length ys = length ks2" "length xs = r"
        using n lo(3) by (simp_all add: ks1_def ks2_def xs_def ys_def)
      have kk: "map (nkey v) [0..<?m] = ks" using keys Nd by simp
      have ks: "ks ! i = nkey v i" if "i < ?m" for i
        using arg_cong [OF kk, of "\<lambda>zs. zs ! i"] that by (simp add: nth_map)
      have k1: "\<forall>k \<in> set ks1. k < key" using lo ks n(2) by (auto simp: ks1_def in_set_conv_nth)
      have k2: "\<forall>k \<in> set ks2. key < k" using lo ks n(2) by (auto simp: ks2_def in_set_conv_nth)
      note C = child_of_key [OF Suc.prems(2) [unfolded T] len(1,2) Suc.prems(4) [unfolded T] k1 k2]
      have "no_old_key (ah A) key c"
        using Suc.prems(3) down [OF len(1) k1 k2] unfolding T no_old_key_def by blast
      moreover have "rep (ah A) c" "bal t (t - 1) (d - 1) c" using Suc.prems(1,2) unfolding T by auto
      ultimately have c: "rep (ah A) c" "bal t (t - 1) (d - 1) c" "no_old_key (ah A) key c" by blast+
      have dd: "D + (d - 1) < fuel" using Suc.prems(5) n(3) by linarith
      obtain it where it: "does g (node_find fuel (addr c) key :: ('f, iterator) trm) A it A"
        "if key \<in> set (ino c) then hit g A c key it else it = e"
        using Suc.IH [OF c C(1) dd Suc.prems(6)] by blast
      have "nval v r = addr c" using rep_child(1) [OF Suc.prems(1) [unfolded T]] v(1) T len(3) by simp
      then have "does g (child a (int r) :: ('f, int) trm) A (addr c) A"
        using rep_node [OF c(1)] v(1) Nd rm by (auto intro: does_child)
      then have "does g ?rest A it A" using leaf Nd it(1) by (auto intro: does_bnd)
      moreover have "hit g A T key it" if "hit g A c key it"
        using that C(3) unfolding hit_def T by (auto 0 3)
      ultimately show ?thesis using step [of it] False it(2) C(2) T by auto
    qed
  qed
qed simp

section \<open>Looking up a key\<close>

lemma does_tree_find:
  assumes "wf_ast g A" "holds g d A T" "even (gord g)" "4 \<le> gord g" "2 * d < fuel" "no_old_key (ah A) key T"
  shows "\<exists>it. does g (tree_find fuel (gx g) key :: ('f, iterator) trm) A it A
    \<and> (if key \<in> set (ino T) then hit g A T key it else it = end_iterator g T)"
proof -
  obtain k where k: "gord g = 2 * k" "0 < k" using assms(3,4) by (auto elim!: evenE)
  have h: "rep (ah A) T" "bal k 1 d T" "aroot A = addr T" "sorted (ino T)" using assms(2) k by (auto simp: holds_def)
  obtain w where w: "ah A (addr T) = Some w" using rep_node [OF h(1)] by blast
  have pos: "\<not> addr T < 0" using wf_astD(1) [OF assms(1) w] by simp
  have e: "d < n \<Longrightarrow> does g (tree_end n (gx g) :: ('f, iterator) trm) A (end_iterator g T) A" for n
    by (rule does_tree_end [OF assms(1) h(1,2) k _ h(3)])
  have "d + d < fuel" using assms(5) by simp
  from node_find_does [OF k h(1,2) assms(6) h(4) this e] obtain it where
    it: "does g (node_find fuel (addr T) key :: ('f, iterator) trm) A it A"
      "if key \<in> set (ino T) then hit g A T key it else it = end_iterator g T" by blast
  have "does g (tree_find fuel (gx g) key :: ('f, iterator) trm) A it A"
    unfolding tree_find_def
    by (rule does_tree_get_index [OF _ subset_refl])
      (simp only: h(3) pos if_False, rule does_bnd [OF does_get_deref [OF w]], rule it(1))
  with it(2) show ?thesis by blast
qed



end
