(* ===== verification/Float32.thy ===== *)
theory Float32
  imports Prelude
begin

text \<open>
  The type \<open>float\<close> and what the program uses of the standard library for it: the
  arithmetic and the comparisons of IEEE binary32 with rounding to the nearest
  value (ties to even), \<open>std::stof\<close>, and the renderings of a value by
  \<open>std::to_string\<close>, by a stream in its default format and by a stream with
  \<open>std::fixed\<close> and \<open>std::setprecision\<close>. All of it is exact arithmetic on numerators
  and denominators, so that it can be evaluated.

  A finite value is a sign (\<open>True\<close> is minus), a mantissa from 0 to below 2 to the
  24 and an exponent of two of at least -149. The sign of a NaN is the one x86-64
  gives it, because the streams print it.
\<close>

section \<open>Values and rounding\<close>

datatype fl32 = Fin bool int int | Inf bool | NaN bool

definition zero_f32 :: "bool \<Rightarrow> fl32" where
  "zero_f32 s = Fin s 0 (-149)"

text \<open>The number of binary digits of a number that is not negative.\<close>

function blen :: "int \<Rightarrow> int" where
  "blen n = (if n \<le> 0 then 0 else 1 + blen (n div 2))"
  by pat_completeness auto
termination by (relation "measure nat") auto

declare blen.simps [simp del]

text \<open>The quotient rounded to the nearest integer, ties to even.\<close>

definition rdiv :: "int \<Rightarrow> int \<Rightarrow> int" where
  "rdiv n d = (let q = n div d; r = n mod d
     in if 2 * r < d \<or> 2 * r = d \<and> even q then q else q + 1)"

text \<open>The fraction \<open>n / d\<close> divided by two to the \<open>e\<close>.\<close>

definition scale2 :: "int \<Rightarrow> int \<Rightarrow> int \<Rightarrow> int \<times> int" where
  "scale2 e n d = (if 0 \<le> e then (n, d * 2 ^ nat e) else (n * 2 ^ nat (- e), d))"

definition round_exp :: "int \<Rightarrow> int \<Rightarrow> int" where
  "round_exp n d = (let e = blen n - blen d - 24; (n', d') = scale2 e n d
     in max (-149) (if 2 ^ 24 * d' \<le> n' then e + 1 else e))"

text \<open>The value nearest to the fraction \<open>n / d\<close>, where \<open>n\<close> is not negative and \<open>d\<close> is positive.\<close>

definition round_f32 :: "bool \<Rightarrow> int \<Rightarrow> int \<Rightarrow> fl32" where
  "round_f32 s n d = (if n = 0 then zero_f32 s else
     let e = round_exp n d; (n', d') = scale2 e n d; m = rdiv n' d'
     in if m = 2 ^ 24 then (if 104 \<le> e then Inf s else Fin s (2 ^ 23) (e + 1))
        else if 104 < e then Inf s else Fin s m e)"

text \<open>Whether the conversion of a text reports a range error.\<close>

definition range_error :: "int \<Rightarrow> int \<Rightarrow> bool" where
  "range_error n d = (n \<noteq> 0 \<and> (case round_f32 False n d of
       Fin _ m e \<Rightarrow> (let (n', d') = scale2 e n d in m < 2 ^ 23 \<and> m * d' \<noteq> n')
     | _ \<Rightarrow> True))"

section \<open>Arithmetic\<close>

text \<open>A finite value as an integer times two to the \<open>e\<close>, for an \<open>e\<close> not above its exponent.\<close>

definition at_exp :: "int \<Rightarrow> bool \<Rightarrow> int \<Rightarrow> int \<Rightarrow> int" where
  "at_exp e s m e' = (if s then - m else m) * 2 ^ nat (e' - e)"

definition of_dyadic :: "bool \<Rightarrow> int \<Rightarrow> int \<Rightarrow> fl32" where
  "of_dyadic s n e = (let (n', d') = scale2 (- e) n 1 in round_f32 s n' d')"

fun fneg :: "fl32 \<Rightarrow> fl32" where
  "fneg (Fin s m e) = Fin (\<not> s) m e"
| "fneg (Inf s) = Inf (\<not> s)"
| "fneg (NaN s) = NaN (\<not> s)"

fun fadd :: "fl32 \<Rightarrow> fl32 \<Rightarrow> fl32" where
  "fadd (NaN s) b = NaN s"
| "fadd a (NaN s) = NaN s"
| "fadd (Inf s) (Inf t) = (if s = t then Inf s else NaN True)"
| "fadd (Inf s) b = Inf s"
| "fadd a (Inf t) = Inf t"
| "fadd (Fin s m e) (Fin t n f) = (let g = min e f; z = at_exp g s m e + at_exp g t n f
     in if z = 0 then zero_f32 (s \<and> t) else of_dyadic (z < 0) \<bar>z\<bar> g)"

fun fsub :: "fl32 \<Rightarrow> fl32 \<Rightarrow> fl32" where
  "fsub (NaN s) b = NaN s"
| "fsub a (NaN s) = NaN s"
| "fsub a b = fadd a (fneg b)"

fun fmul :: "fl32 \<Rightarrow> fl32 \<Rightarrow> fl32" where
  "fmul (NaN s) b = NaN s"
| "fmul a (NaN s) = NaN s"
| "fmul (Inf s) (Inf t) = Inf (s \<noteq> t)"
| "fmul (Inf s) (Fin t n f) = (if n = 0 then NaN True else Inf (s \<noteq> t))"
| "fmul (Fin s m e) (Inf t) = (if m = 0 then NaN True else Inf (s \<noteq> t))"
| "fmul (Fin s m e) (Fin t n f) = of_dyadic (s \<noteq> t) (m * n) (e + f)"

fun fdiv :: "fl32 \<Rightarrow> fl32 \<Rightarrow> fl32" where
  "fdiv (NaN s) b = NaN s"
| "fdiv a (NaN s) = NaN s"
| "fdiv (Inf s) (Inf t) = NaN True"
| "fdiv (Inf s) (Fin t n f) = Inf (s \<noteq> t)"
| "fdiv (Fin s m e) (Inf t) = zero_f32 (s \<noteq> t)"
| "fdiv (Fin s m e) (Fin t n f) = (if n = 0 then if m = 0 then NaN True else Inf (s \<noteq> t)
     else let (m', n') = scale2 (f - e) m n in round_f32 (s \<noteq> t) m' n')"

text \<open>\<open>std::fmod\<close>: the remainder of the division truncated towards zero, which is exact.\<close>

fun ffmod :: "fl32 \<Rightarrow> fl32 \<Rightarrow> fl32" where
  "ffmod (NaN s) b = NaN s"
| "ffmod a (NaN s) = NaN s"
| "ffmod (Inf s) b = NaN True"
| "ffmod (Fin s m e) (Inf t) = Fin s m e"
| "ffmod (Fin s m e) (Fin t n f) = (if n = 0 then NaN True else let g = min e f in
     of_dyadic s (at_exp g False m e mod at_exp g False n f) g)"

fun feq :: "fl32 \<Rightarrow> fl32 \<Rightarrow> bool" where
  "feq (Inf s) (Inf t) = (s = t)"
| "feq (Fin s m e) (Fin t n f) = (let g = min e f in at_exp g s m e = at_exp g t n f)"
| "feq _ _ = False"

fun flt :: "fl32 \<Rightarrow> fl32 \<Rightarrow> bool" where
  "flt (Inf s) (Inf t) = (s \<and> \<not> t)"
| "flt (Inf s) (Fin t n f) = s"
| "flt (Fin s m e) (Inf t) = (\<not> t)"
| "flt (Fin s m e) (Fin t n f) = (let g = min e f in at_exp g s m e < at_exp g t n f)"
| "flt _ _ = False"

definition fle :: "fl32 \<Rightarrow> fl32 \<Rightarrow> bool" where
  "fle a b = (flt a b \<or> feq a b)"

section \<open>Reading\<close>

definition lower :: "string \<Rightarrow> string" where
  "lower = map tolower"

definition isxdigit :: "char \<Rightarrow> bool" where
  "isxdigit c = (isdigit c \<or> tolower c \<in> set ''abcdef'')"

definition xdigit :: "char \<Rightarrow> nat" where
  "xdigit c = (if isdigit c then char_digit c else of_char (tolower c) - 87)"

definition base_val :: "int \<Rightarrow> string \<Rightarrow> int" where
  "base_val b ds = foldl (\<lambda>acc c. b * acc + int (xdigit c)) 0 ds"

text \<open>
  The part behind a mantissa, \<open>e\<close> or \<open>p\<close> with an optional sign and digits: its value
  and its length, both zero where it is missing or incomplete.
\<close>

definition exponent_part :: "char \<Rightarrow> string \<Rightarrow> int \<times> nat" where
  "exponent_part mark t = (case t of [] \<Rightarrow> (0, 0) | c # u \<Rightarrow>
     if tolower c \<noteq> mark then (0, 0) else
     let sg = (u \<noteq> [] \<and> hd u \<in> set ''+-''); ds = takeWhile isdigit (if sg then tl u else u)
     in if ds = [] then (0, 0)
        else ((if sg \<and> hd u = CHR ''-'' then - base_val 10 ds else base_val 10 ds),
              1 + (if sg then 1 else 0) + length ds))"

text \<open>
  Digits with an optional point, in base 10 or 16: the value without the point,
  the number of digits behind the point, and the length; \<open>None\<close> without a digit.
\<close>

definition mantissa :: "int \<Rightarrow> string \<Rightarrow> (int \<times> int \<times> nat) option" where
  "mantissa b t = (let dig = (if b = 16 then isxdigit else isdigit);
       ip = takeWhile dig t; r = drop (length ip) t;
       pt = (r \<noteq> [] \<and> hd r = CHR ''.'');
       fp = (if pt then takeWhile dig (tl r) else [])
     in if ip @ fp = [] then None
        else Some (base_val b (ip @ fp), int (length fp), length ip + (if pt then 1 else 0) + length fp))"

definition is_xnum :: "string \<Rightarrow> bool" where
  "is_xnum t = (lower (take 2 t) = ''0x'' \<and> mantissa 16 (drop 2 t) \<noteq> None)"

text \<open>
  The value of a number without its sign as a fraction, and its length, as
  \<open>strtof\<close> reads it: hexadecimal behind \<open>0x\<close>, decimal otherwise.
\<close>

definition number_part :: "string \<Rightarrow> ((int \<times> int) \<times> nat) option" where
  "number_part t = (if is_xnum t then
       (case mantissa 16 (drop 2 t) of None \<Rightarrow> None | Some (v, k, len) \<Rightarrow>
          let (x, xl) = exponent_part (CHR ''p'') (drop (2 + len) t)
          in Some (scale2 (4 * k - x) v 1, 2 + len + xl))
     else (case mantissa 10 t of None \<Rightarrow> None | Some (v, k, len) \<Rightarrow>
          let (x, xl) = exponent_part (CHR ''e'') (drop len t); y = x - k
          in Some (if 0 \<le> y then (v * 10 ^ nat y, 1) else (v, 10 ^ nat (- y)), len + xl)))"

text \<open>
  The characters in parentheses that may follow \<open>nan\<close>.
\<close>

definition nan_tail :: "string \<Rightarrow> nat" where
  "nan_tail t = (case t of [] \<Rightarrow> 0 | c # u \<Rightarrow> if c \<noteq> CHR ''('' then 0 else
     let w = takeWhile (\<lambda>c. isalnum c \<or> c = CHR ''_'') u
     in if length w < length u \<and> u ! length w = CHR '')'' then length w + 2 else 0)"

text \<open>
  \<open>std::stof\<close>: the value and the number of characters it took, \<open>None\<close> where it
  throws \<open>invalid_argument\<close> (no number) or \<open>out_of_range\<close> (overflow, or an inexact
  value below the normal range).
\<close>

definition stof :: "string \<Rightarrow> (fl32 \<times> nat) option" where
  "stof text = (let u = dropWhile isspace text; ws = length text - length u;
       sg = (u \<noteq> [] \<and> hd u \<in> set ''+-''); s = (sg \<and> hd u = CHR ''-'');
       t = (if sg then tl u else u); sk = ws + (if sg then 1 else 0)
     in if lower (take 8 t) = ''infinity'' then Some (Inf s, sk + 8)
        else if lower (take 3 t) = ''inf'' then Some (Inf s, sk + 3)
        else if lower (take 3 t) = ''nan'' then Some (NaN s, sk + 3 + nan_tail (drop 3 t))
        else case number_part t of None \<Rightarrow> None | Some ((n, d), len) \<Rightarrow>
          if range_error n d then None else Some (round_f32 s n d, sk + len))"

section \<open>Writing\<close>

definition sign_str :: "bool \<Rightarrow> string" where
  "sign_str s = (if s then ''-'' else [])"

function int_str :: "int \<Rightarrow> string" where
  "int_str n = (if n < 10 then [digit_char (nat n)] else int_str (n div 10) @ [digit_char (nat (n mod 10))])"
  by pat_completeness auto
termination by (relation "measure nat") auto

declare int_str.simps [simp del]

definition digits0 :: "int \<Rightarrow> int \<Rightarrow> string" where
  "digits0 w n = (let ds = int_str n in replicate (nat w - length ds) (CHR ''0'') @ ds)"

text \<open>\<open>%.pf\<close>; a negative precision counts as six.\<close>

fun fixed_str :: "int \<Rightarrow> fl32 \<Rightarrow> string" where
  "fixed_str p (NaN s) = sign_str s @ ''nan''"
| "fixed_str p (Inf s) = sign_str s @ ''inf''"
| "fixed_str p (Fin s m e) = (let k = (if p < 0 then 6 else p); t = 10 ^ nat k;
       (n, d) = scale2 (- e) (m * t) 1; q = rdiv n d
     in sign_str s @ int_str (q div t) @ (if k = 0 then [] else CHR ''.'' # digits0 k (q mod t)))"

definition ftoa :: "fl32 \<Rightarrow> string" where
  "ftoa v = fixed_str 6 v"

text \<open>
  The decimal exponent and the six digits of a positive fraction, rounded: what
  \<open>%g\<close> prints. The fractions are at least 10 to the -45.
\<close>

fun small_exp :: "nat \<Rightarrow> int \<Rightarrow> int \<Rightarrow> int" where
  "small_exp 0 n d = 0"
| "small_exp (Suc k) n d = (if d \<le> n then 0 else small_exp k (10 * n) d - 1)"

definition dec_exp :: "int \<Rightarrow> int \<Rightarrow> int" where
  "dec_exp n d = (if d \<le> n then int (length (int_str (n div d))) - 1 else small_exp 46 n d)"

definition six_digits :: "int \<Rightarrow> int \<Rightarrow> int \<times> int" where
  "six_digits n d = (let x = dec_exp n d;
       q = (if 5 \<le> x then rdiv n (d * 10 ^ nat (x - 5)) else rdiv (n * 10 ^ nat (5 - x)) d)
     in if q = 10 ^ 6 then (x + 1, 10 ^ 5) else (x, q))"

definition strip0 :: "string \<Rightarrow> string" where
  "strip0 t = rev (dropWhile (\<lambda>c. c = CHR ''0'') (rev t))"

definition point :: "string \<Rightarrow> string" where
  "point t = (let u = strip0 t in if u = [] then [] else CHR ''.'' # u)"

text \<open>A stream in its default format.\<close>

fun stream_str :: "fl32 \<Rightarrow> string" where
  "stream_str (NaN s) = sign_str s @ ''nan''"
| "stream_str (Inf s) = sign_str s @ ''inf''"
| "stream_str (Fin s m e) = sign_str s @ (if m = 0 then ''0'' else
     let (n, d) = scale2 (- e) m 1; (x, q) = six_digits n d; ds = digits0 6 q
     in if x < -4 \<or> 6 \<le> x
        then take 1 ds @ point (drop 1 ds) @ ''e'' @ (if x < 0 then ''-'' else ''+'') @ digits0 2 \<bar>x\<bar>
        else if x < 0 then ''0'' @ point (replicate (nat (- x - 1)) (CHR ''0'') @ ds)
        else take (nat (x + 1)) ds @ point (drop (nat (x + 1)) ds))"

text \<open>\<open>setw\<close> with a fill character, right and left adjusted.\<close>

definition setw_right :: "char \<Rightarrow> int \<Rightarrow> string \<Rightarrow> string" where
  "setw_right c w t = replicate (nat w - length t) c @ t"

definition setw_left :: "char \<Rightarrow> int \<Rightarrow> string \<Rightarrow> string" where
  "setw_left c w t = t @ replicate (nat w - length t) c"

end
