(* ===== verification/Row.thy ===== *)
theory Row
  imports Schema Bcalc BufferFields Float32
begin

text \<open>
  A row (\<open>src/row\<close>): the values of the columns of a table in a buffer, all as
  text. Behind the size of the row and the places of its neighbours in the data block
  the buffer has one size byte for each column and then the values one behind
  the other. Appending a value checks it against the column, brings it into the
  form in which the column keeps it and writes it at the end; the keys of the
  indexes and of the foreign keys are put together from the values.

  A row shares the schema of its table, which appending changes (the next number of
  an AUTO_INCREMENT column, the size of the longest value): the state is the
  pair of the buffer and the schema. The calendar functions of the C library
  depend on the time zone and are an argument, the record \<open>clock\<close>.
\<close>

type_synonym 'a rowm = "(error, buffer \<times> schema, 'a) exn"

record 't clock =
  clk_strptime :: "string \<Rightarrow> string \<Rightarrow> 't \<Rightarrow> 't"
  clk_mktime :: "'t \<Rightarrow> int"
  clk_zero :: 't     \<comment> \<open>a \<open>struct tm\<close> of zeros\<close>
  clk_junk :: 't     \<comment> \<open>what an uninitialised \<open>struct tm\<close> holds\<close>

section \<open>Checks of a value\<close>

definition has_flag :: "int \<Rightarrow> column \<Rightarrow> bool" where
  "has_flag f c = (co_flag c AND f = f)"

definition is_boolean_valid :: "string \<Rightarrow> bool" where
  "is_boolean_valid value = (value = ''0'' \<or> value = ''1'')"

definition is_float_valid :: "string \<Rightarrow> bool" where
  "is_float_valid value = (stof value \<noteq> None)"

definition is_integer_valid :: "string \<Rightarrow> bool" where
  "is_integer_valid value = (stoi value \<noteq> None)"

definition parse_time :: "'t clock \<Rightarrow> string \<Rightarrow> string \<Rightarrow> 't \<Rightarrow> int" where
  "parse_time clk t fmt tm = clk_mktime clk (clk_strptime clk (c_str t) fmt tm)"

definition is_date_valid :: "'t clock \<Rightarrow> string \<Rightarrow> bool" where
  "is_date_valid clk value =
     (let time_begin = parse_time clk ''1000-01-01'' ''%Y-%02m-%02d'' (clk_zero clk);
          time_end = parse_time clk ''9999-12-31'' ''%Y-%02m-%02d'' (clk_zero clk);
          time_value = parse_time clk value ''%Y-%02m-%02d'' (clk_zero clk)
      in time_begin \<le> time_value \<and> time_value \<le> time_end)"

definition is_datetime_valid :: "'t clock \<Rightarrow> string \<Rightarrow> bool" where
  "is_datetime_valid clk value =
     (let time_begin = parse_time clk ''1000-01-01 00:00:00'' ''%Y-%02m-%02d'' (clk_zero clk);
          time_end = parse_time clk ''9999-12-31 23:59:59'' ''%Y-%02m-%02d %02H:%02M:%02S'' (clk_zero clk);
          time_value = parse_time clk value ''%Y-%02m-%02d %02H:%02M:%02S'' (clk_junk clk)
      in time_begin \<le> time_value \<and> time_value \<le> time_end)"

definition is_timestamp_valid :: "'t clock \<Rightarrow> string \<Rightarrow> bool" where
  "is_timestamp_valid clk value =
     (let time_begin = parse_time clk ''1970-01-01 00:00:01'' ''%Y-%02m-%02d'' (clk_zero clk);
          time_end = parse_time clk ''2038-01-19 03:14:07'' ''%Y-%02m-%02d %02H:%02M:%02S'' (clk_zero clk);
          time_value = parse_time clk value ''%Y-%02m-%02d %02H:%02M:%02S'' (clk_junk clk)
      in time_begin \<le> time_value \<and> time_value \<le> time_end)"

definition is_enum_valid :: "column \<Rightarrow> string \<Rightarrow> bool" where
  "is_enum_valid c value = (value \<in> set (co_enum c))"

definition not_null_compliant :: "column \<Rightarrow> string \<Rightarrow> bool" where
  "not_null_compliant c value =
     (\<not> (\<not> has_flag FLAG_AUTO_INC c \<and> has_flag FLAG_NOT_NULL c \<and> lower value = ''null''))"

definition valid_value :: "'t clock \<Rightarrow> column \<Rightarrow> string \<Rightarrow> bool" where
  "valid_value clk c value =
    (if \<not> not_null_compliant c value then False
     else if lower value = ''null'' then True
     else if cast_u64 (co_size c) < int (length value) then False
     else if co_type c = TYPE_BOOLEAN then is_boolean_valid value
     else if co_type c \<in> {TYPE_CHAR, TYPE_BINARY, TYPE_VARCHAR} then True
     else if co_type c = TYPE_ENUM then is_enum_valid c value
     else if co_type c = TYPE_DATE then is_date_valid clk value
     else if co_type c = TYPE_DATETIME then is_datetime_valid clk value
     else if co_type c = TYPE_TIMESTAMP then is_timestamp_valid clk value
     else if co_type c = TYPE_FLOAT then is_float_valid value
     else if co_type c = TYPE_INT then is_integer_valid value
     else False)"

text \<open>\<open>column_at\<close> does not check the position.\<close>

definition column_at :: "nat \<Rightarrow> column rowm" where
  "column_at i = bnd (gets snd) (\<lambda>s.
     if i < length (sc_column s) then ret (sc_column s ! i) else throw (Undefined ''m_column''))"

definition set_column :: "nat \<Rightarrow> column \<Rightarrow> unit rowm" where
  "set_column i c = modify (\<lambda>(b, s). (b, s \<lparr> sc_column := (sc_column s)[i := c] \<rparr>))"

definition is_valid :: "'t clock \<Rightarrow> nat \<Rightarrow> string \<Rightarrow> bool rowm" where
  "is_valid clk i value = bnd (gets snd) (\<lambda>s.
     if cast_u64 (hd_column_count (sc_header s)) \<le> int i then ret False
     else bnd (column_at i) (\<lambda>c. ret (valid_value clk c value)))"

section \<open>The row\<close>

definition row_size :: "int rowm" where
  "row_size = bnd (on_fst (get_int16_at ROW_SIZE_POS)) (\<lambda>w. ret (sint w))"

definition row_set_size :: "int \<Rightarrow> unit rowm" where
  "row_set_size value = on_fst (put_int16_at ROW_SIZE_POS (word_of_int value))"

definition row_init :: "unit rowm" where
  "row_init = bnd (gets snd) (\<lambda>s.
     let size = COLUMN_SIZE_POS + hd_column_count (sc_header s) * COLUMN_SIZE_SZ in
     sq (on_fst clear) (
     sq (on_fst (put_int16_at ROW_SIZE_POS (word_of_int size))) (
     sq (on_fst (put_int16_at ROW_PREV_POS 0))
        (on_fst (put_int16_at ROW_NEXT_POS 0)))))"

text \<open>A new row of a size, in memory of that size.\<close>

definition new_row :: "int \<Rightarrow> byte list \<Rightarrow> schema \<Rightarrow> (error + unit) \<times> (buffer \<times> schema)" where
  "new_row sz mem s = row_init (new_buffer sz mem, s)"

definition row_clear :: "unit rowm" where
  "row_clear = row_init"

text \<open>\<open>init(row&)\<close>: a cleared row between the neighbours of another one.\<close>

definition row_init_from :: "(error, (buffer \<times> schema) \<times> buffer, unit) exn" where
  "row_init_from = sq (on_fst row_clear) (
     bnd (on_snd (get_int16_at ROW_PREV_POS)) (\<lambda>p.
     sq (on_fst (on_fst (put_int16_at ROW_PREV_POS p))) (
     bnd (on_snd (get_int16_at ROW_NEXT_POS)) (\<lambda>n.
     on_fst (on_fst (put_int16_at ROW_NEXT_POS n))))))"

definition row_assign :: "buffer \<times> schema \<Rightarrow> unit rowm" where
  "row_assign other = sq (on_fst (buffer_assign (fst other))) (modify (\<lambda>(b, s). (b, snd other)))"

text \<open>
  The form in which a column keeps a value: the next number of an AUTO_INCREMENT
  column, a number of a key column with zeros in front, a number, or the text.
\<close>

definition column_value :: "column \<Rightarrow> string \<Rightarrow> error + string \<times> column" where
  "column_value c v = (let value = (if v = ''null'' then [] else v) in
     if has_flag FLAG_AUTO_INC c then
       (let ai_value = cast_i32 (co_auto_inc c) in
        if ai_value = 2 ^ 31 - 1 then Inl (Undefined ''auto_inc'')
        else Inr ((if co_type c = TYPE_FLOAT \<or> co_type c = TYPE_INT
                   then setw_right (CHR ''0'') (co_size c) (to_string ai_value) else value),
                  c \<lparr> co_auto_inc := cast_u64 (ai_value + 1) \<rparr>))
     else if has_flag FLAG_PRIMARY c \<or> has_flag FLAG_UNIQUE c then
       (if co_type c = TYPE_FLOAT then (case stof value of
          None \<Rightarrow> Inl (Logic_error ''stof'')
        | Some (val, _) \<Rightarrow> Inr (setw_right (CHR ''0'') (co_size c) (fixed_str (co_prec c) val), c))
        else if co_type c = TYPE_INT then (case stoi value of
          None \<Rightarrow> Inl (Logic_error ''stoi'')
        | Some val \<Rightarrow> Inr (setw_right (CHR ''0'') (co_size c) (to_string val), c))
        else Inr (value, c))
     else if co_type c = TYPE_FLOAT then (case stof value of
          None \<Rightarrow> Inr ([], c)
        | Some (val, _) \<Rightarrow> Inr (fixed_str (co_prec c) val, c))
     else if co_type c = TYPE_INT then (case stoi value of
          None \<Rightarrow> Inr ([], c)
        | Some val \<Rightarrow> Inr (to_string val, c))
     else if co_type c = TYPE_BOOLEAN then
       (let val = lower value in
        Inr ((if val = ''true'' then ''1'' else if val = ''false'' then ''0'' else []), c))
     else Inr (value, c))"

text \<open>Appending changes the argument to the stored form, which is the result here.\<close>

definition row_append :: "'t clock \<Rightarrow> nat \<Rightarrow> string \<Rightarrow> string rowm" where
  "row_append clk i v = bnd (gets snd) (\<lambda>s.
     if cast_u64 (hd_column_count (sc_header s)) \<le> int i then throw (Runtime ERRNO_VALUE_ERROR)
     else bnd (is_valid clk i v) (\<lambda>ok.
     if \<not> ok then throw (Runtime ERRNO_VALUE_ERROR)
     else bnd (column_at i) (\<lambda>c.
     if cast_u64 (co_size c) < int (length v) then throw (Runtime ERRNO_VALUE_ERROR)
     else case column_value c v of
       Inl e \<Rightarrow> throw e
     | Inr (value, c') \<Rightarrow>
         sq (set_column i (c' \<lparr> co_max_size := max (co_max_size c') (cast_i32 (int (length value))) \<rparr>)) (
         bnd row_size (\<lambda>n.
         sq (on_fst (put_varchar_at n value)) (
         bnd (gets (m_index \<circ> fst)) (\<lambda>k.
         sq (row_set_size k) (
         sq (on_fst (put_at (COLUMN_SIZE_POS + int i * COLUMN_SIZE_SZ) (of_nat (length value))))
            (ret value)))))))))"

definition backing :: "buffer rowm" where
  "backing = bnd row_size (\<lambda>n. sq (on_fst (set_index n)) (sq (on_fst trip) (gets fst)))"

text \<open>The sizes of the first columns, from the position of the index on.\<close>

fun sum_sizes :: "nat \<Rightarrow> int \<Rightarrow> int bufm" where
  "sum_sizes 0 pos = ret pos"
| "sum_sizes (Suc n) pos = bnd get (\<lambda>v. sum_sizes n (pos + uint v))"

definition value_at :: "int \<Rightarrow> string rowm" where
  "value_at n = bnd (gets snd) (\<lambda>s.
     sq (on_fst (set_index COLUMN_SIZE_POS)) (
     bnd (on_fst (sum_sizes (nat n) (COLUMN_SIZE_POS + hd_column_count (sc_header s) * COLUMN_SIZE_SZ))) (\<lambda>position.
     bnd (on_fst get) (\<lambda>size. on_fst (get_varchar_at position (uint size))))))"

definition find_column :: "string \<Rightarrow> nat rowm" where
  "find_column nm = (\<lambda>(b, s). (column_pos s nm, (b, s)))"

definition value_of :: "string \<Rightarrow> string rowm" where
  "value_of nm = bnd (find_column nm) (\<lambda>n. value_at (int n))"

text \<open>
  \<open>copy_row\<close>: the row at the position of the other buffer, size field included, is
  copied; the constructor from a buffer takes the size of the new buffer from there.
\<close>

fun copy_bytes :: "nat \<Rightarrow> (error, buffer \<times> buffer, unit) exn" where
  "copy_bytes 0 = ret ()"
| "copy_bytes (Suc n) = sq (bnd (on_snd get) (\<lambda>v. on_fst (put v))) (copy_bytes n)"

definition copy_row :: "(error, buffer \<times> buffer, unit) exn" where
  "copy_row = sq (on_fst clear) (
     bnd (on_snd get_int16) (\<lambda>size.
     bnd (on_snd (gets m_index)) (\<lambda>k.
     sq (on_snd (set_index (k - ROW_SIZE_SZ))) (
     sq (copy_bytes (nat (sint size))) (on_fst trip)))))"

definition row_from_buffer :: "byte list \<Rightarrow> buffer \<Rightarrow> (error + unit) \<times> (buffer \<times> buffer)" where
  "row_from_buffer mem src = (case bnd (gets m_index) (\<lambda>k. get_int16_at (k + ROW_SIZE_POS)) src of
      (Inl e, src') \<Rightarrow> (Inl e, (new_buffer 0 [], src'))
    | (Inr w, src') \<Rightarrow>
        if sint w < 0 then (Inl (Logic_error ''bad_array_new_length''), (new_buffer 0 [], src')) else
        bnd (on_snd (gets m_index)) (\<lambda>k. sq (on_snd (set_index (k - ROW_SIZE_SZ))) copy_row)
          (new_buffer (sint w) (take (nat (sint w)) mem), src'))"

section \<open>Keys\<close>

definition key_part :: "column \<Rightarrow> string \<Rightarrow> string" where
  "key_part c v = (if co_type c = TYPE_FLOAT \<or> co_type c = TYPE_INT
     then setw_right (CHR ''0'') (co_size c) v else setw_left (CHR '' '') (co_size c) v)"

fun key_of :: "string list \<Rightarrow> string \<Rightarrow> string rowm" where
  "key_of [] key = ret key"
| "key_of (nm # nms) key =
     bnd (find_column nm) (\<lambda>i. bnd (column_at i) (\<lambda>c.
     bnd (value_at (int i)) (\<lambda>v. key_of nms (key @ key_part c v))))"

definition make_key :: "string \<Rightarrow> string rowm" where
  "make_key nm = (\<lambda>(b, s). case get_index s nm of
      Inl e \<Rightarrow> (Inl e, (b, s))
    | Inr ndx \<Rightarrow> key_of (ix_col_name_list ndx) [] (b, s))"

definition make_foreign_key :: "string \<Rightarrow> string rowm" where
  "make_foreign_key nm = (\<lambda>(b, s). case get_foreign s nm of
      Inl e \<Rightarrow> (Inl e, (b, s))
    | Inr fgn \<Rightarrow> key_of (fg_col_name_list fgn) [] (b, s))"

end
