(* ===== verification/RowLayout.thy ===== *)
theory RowLayout
  imports Row
begin

text \<open>
  The layout of a row: what the buffer of a row holds after some values have been appended,
  that appending extends it by one value, and that \<open>value_at\<close> reads the values back.
\<close>

section \<open>The layout\<close>

text \<open>A row of a table of \<open>n\<close> columns that holds the first values, in a buffer of a size.\<close>

definition row_rep :: "nat \<Rightarrow> string list \<Rightarrow> buffer \<Rightarrow> bool" where
  "row_rep n vs b \<longleftrightarrow> buf_inv b \<and> m_bound b = m_size b
     \<and> length vs \<le> n \<and> 6 + n + length (concat vs) < 2 ^ 15
     \<and> int (6 + n + length (concat vs)) \<le> m_size b
     \<and> sint (word16_of (bytes_at 0 2 (m_buffer b))) = int (6 + n + length (concat vs))
     \<and> (\<forall>j < length vs. m_buffer b ! (6 + j) = of_nat (length (vs ! j)))
     \<and> bytes_at (6 + n) (length (concat vs)) (m_buffer b) = map byte_of_char (concat vs)"

lemma sint_i16: "- (2 ^ 15) \<le> x \<Longrightarrow> x < 2 ^ 15 \<Longrightarrow> sint (word_of_int x :: 16 word) = x"
  by (simp add: sint_sbintrunc' signed_take_bit_int_eq_self)

lemma sint_of_nat_16: "m < 2 ^ 15 \<Longrightarrow> sint (word_of_int (int m) :: 16 word) = int m"
  by (rule sint_i16) simp_all

lemma bytes_at_nth: "p + n \<le> length mem \<Longrightarrow> j < n \<Longrightarrow> bytes_at p n mem ! j = mem ! (p + j)"
  by (simp add: bytes_at_def)

lemma bytes_at_length [simp]: "p + n \<le> length mem \<Longrightarrow> length (bytes_at p n mem) = n"
  by (simp add: bytes_at_def)

lemma bytes_at_add:
  "bytes_at p (k + l) mem = bytes_at p k mem @ bytes_at (p + k) l mem"
  by (simp add: bytes_at_def take_add ac_simps)

lemma bytes_at_sub:
  assumes "bytes_at p n mem = xs" "i + k \<le> n"
  shows "bytes_at (p + i) k mem = take k (drop i xs)"
proof -
  have "take k (drop i (take n (drop p mem))) = take k (drop (i + p) mem)"
    using assms(2) by (simp add: drop_take min_def)
  then show ?thesis using assms(1) by (simp add: bytes_at_def ac_simps)
qed

text \<open>Writing elsewhere in a row.\<close>

lemma row_put:
  assumes "buf_inv b" "m_bound b = m_size b" "int (p + length bs) \<le> m_size b"
  defines "b' \<equiv> b \<lparr> m_index := int (p + length bs), m_buffer := splice p bs (m_buffer b) \<rparr>"
  shows "buf_inv b'" "m_bound b' = m_size b'" "m_size b' = m_size b"
    "m_buffer b' = splice p bs (m_buffer b)" "p + length bs \<le> length (m_buffer b)"
  using assms by (auto simp: buf_inv_def)

section \<open>Appending and reading\<close>

lemma row_init_rep:
  assumes "hd_column_count (sc_header s) = int n" "buf_inv b" "int (6 + n) \<le> m_size b" "6 + n < 2 ^ 15"
  shows "\<exists>b'. row_init (b, s) = (Inr (), (b', s)) \<and> row_rep n [] b' \<and> m_size b' = m_size b"
proof -
  define b0 where "b0 = b \<lparr> m_bound := m_size b, m_index := 0 \<rparr>"
  define w :: "16 word" where "w = word_of_int (int (6 + n))"
  define b1 where "b1 = b0 \<lparr> m_index := int (0 + length (bytes16 w)), m_buffer := splice 0 (bytes16 w) (m_buffer b0) \<rparr>"
  define b2 where "b2 = b1 \<lparr> m_index := int (2 + length (bytes16 0)), m_buffer := splice 2 (bytes16 0) (m_buffer b1) \<rparr>"
  define b3 where "b3 = b2 \<lparr> m_index := int (4 + length (bytes16 0)), m_buffer := splice 4 (bytes16 0) (m_buffer b2) \<rparr>"
  have sz: "6 \<le> m_size b" using assms(3) by simp
  have inv0: "buf_inv b0" "m_bound b0 = m_size b0" "m_size b0 = m_size b"
    using assms(2) sz by (auto simp: b0_def buf_inv_def)
  have e1: "int (0 + length (bytes16 w)) \<le> m_size b0" using sz inv0 by simp
  note inv1 = row_put [OF inv0(1,2) e1, folded b1_def]
  have e2: "int (2 + length (bytes16 (0 :: 16 word))) \<le> m_size b1" using sz inv0 inv1 by simp
  note inv2 = row_put [OF inv1(1,2) e2, folded b2_def]
  have e3: "int (4 + length (bytes16 (0 :: 16 word))) \<le> m_size b2" using sz inv0 inv1 inv2 by simp
  note inv3 = row_put [OF inv2(1,2) e3, folded b3_def]
  have run: "put_int16_at 0 w b0 = (Inr (), b1)" "put_int16_at 2 0 b1 = (Inr (), b2)" "put_int16_at 4 0 b2 = (Inr (), b3)"
    using field_runs(3) [OF inv0(1), of 0 w] field_runs(3) [OF inv1(1), of 2 0] field_runs(3) [OF inv2(1), of 4 0]
      inv0 inv1 inv2 sz by (simp_all add: b1_def b2_def b3_def)
  have "row_init (b, s) = (Inr (), (b3, s))"
    unfolding row_init_def using run assms(1)
    by (simp add: exn_simps clear_def w_def [symmetric] b0_def [symmetric] Let_def) (simp add: w_def)
  moreover have "bytes_at 0 2 (m_buffer b3) = bytes16 w"
  proof -
    have "bytes_at 0 2 (m_buffer b3) = bytes_at 0 2 (m_buffer b2)"
      unfolding inv3(4) by (rule bytes_at_splice_other [OF inv3(5)]) simp
    also have "\<dots> = bytes_at 0 2 (m_buffer b1)"
      unfolding inv2(4) by (rule bytes_at_splice_other [OF inv2(5)]) simp
    also have "\<dots> = bytes16 w"
      unfolding inv1(4) using inv1(5) by simp
    finally show ?thesis .
  qed
  ultimately show ?thesis
    using inv0 inv1 inv2 inv3 assms sint_of_nat_16 [of "6 + n"]
    by (intro exI [of _ b3]) (simp add: row_rep_def w_def bytes_at_def)
qed

lemma row_size_rep:
  assumes "row_rep n vs b"
  shows "row_size (b, s) = (Inr (int (6 + n + length (concat vs))), (b \<lparr> m_index := 2 \<rparr>, s))"
proof -
  have "get_int16_at 0 b = (Inr (word16_of (bytes_at 0 2 (m_buffer b))), b \<lparr> m_index := 2 \<rparr>)"
    using assms field_runs(4) [of b 0] by (simp add: row_rep_def)
  with assms show ?thesis by (simp add: row_size_def exn_simps row_rep_def)
qed

lemma row_write_rep:
  assumes "row_rep n vs b" "length vs < n" "6 + n + length (concat vs) + length w < 2 ^ 15"
    and "int (6 + n + length (concat vs) + length w) \<le> m_size b"
  shows "\<exists>b'. sq (on_fst (put_varchar_at (int (6 + n + length (concat vs))) w)) (
         bnd (gets (m_index \<circ> fst)) (\<lambda>k.
         sq (row_set_size k) (
         sq (on_fst (put_at (6 + int (length vs) * 1) (of_nat (length w)))) (ret w)))) (b \<lparr> m_index := 2 \<rparr>, s)
       = (Inr w, (b', s)) \<and> row_rep n (vs @ [w]) b' \<and> m_size b' = m_size b"
proof -
  let ?p = "6 + n + length (concat vs)" and ?bw = "map byte_of_char w"
  define b0 where "b0 = b \<lparr> m_index := 2 \<rparr>"
  define z :: "16 word" where "z = word_of_int (int (?p + length w))"
  define b1 where "b1 = b0 \<lparr> m_index := int (?p + length ?bw), m_buffer := splice ?p ?bw (m_buffer b0) \<rparr>"
  define b2 where "b2 = b1 \<lparr> m_index := int (0 + length (bytes16 z)), m_buffer := splice 0 (bytes16 z) (m_buffer b1) \<rparr>"
  define b3 where "b3 = b2 \<lparr> m_index := int (6 + length vs + length [of_nat (length w) :: byte]),
     m_buffer := splice (6 + length vs) [of_nat (length w)] (m_buffer b2) \<rparr>"
  note R = assms(1) [unfolded row_rep_def]
  have inv0: "buf_inv b0" "m_bound b0 = m_size b0" "m_size b0 = m_size b" "m_buffer b0 = m_buffer b"
    using R by (auto simp: b0_def buf_inv_def)
  have e1: "int (?p + length ?bw) \<le> m_size b0" using assms inv0 by simp
  note inv1 = row_put [OF inv0(1,2) e1, folded b1_def]
  have e2: "int (0 + length (bytes16 z)) \<le> m_size b1" using assms inv0 inv1 by simp
  note inv2 = row_put [OF inv1(1,2) e2, folded b2_def]
  have e3: "int (6 + length vs + length [of_nat (length w) :: byte]) \<le> m_size b2" using assms inv0 inv1 inv2 by simp
  note inv3 = row_put [OF inv2(1,2) e3, folded b3_def]
  have run: "put_varchar_at (int ?p) w b0 = (Inr (), b1)" "put_int16_at 0 z b1 = (Inr (), b2)"
      "put_at (6 + int (length vs)) (of_nat (length w)) b2 = (Inr (), b3)"
    using field_runs(8) [OF inv0(1), of ?p w] field_runs(3) [OF inv1(1), of 0 z]
      field_runs(5) [OF inv2(1), of "6 + length vs" "of_nat (length w)"]
      inv0 inv1 inv2 assms by (simp_all add: b1_def b2_def b3_def)
  have z: "word_of_int (m_index b1) = z" by (simp add: b1_def z_def)
  have main: "sq (on_fst (put_varchar_at (int ?p) w)) (
         bnd (gets (m_index \<circ> fst)) (\<lambda>k.
         sq (row_set_size k) (
         sq (on_fst (put_at (6 + int (length vs) * 1) (of_nat (length w)))) (ret w)))) (b0, s) = (Inr w, (b3, s))"
    using run z by (simp add: exn_simps row_set_size_def)
  have lens: "?p + length w \<le> length (m_buffer b)" "length (m_buffer b1) = length (m_buffer b)"
      "length (m_buffer b2) = length (m_buffer b)"
    using inv0 inv1 inv2 by (simp_all add: buf_inv_def)
  have size: "bytes_at 0 2 (m_buffer b3) = bytes16 z"
  proof -
    have "bytes_at 0 2 (m_buffer b3) = bytes_at 0 2 (m_buffer b2)"
      unfolding inv3(4) by (rule bytes_at_splice_other [OF inv3(5)]) simp
    also have "\<dots> = bytes16 z" unfolding inv2(4) using inv2(5) by simp
    finally show ?thesis .
  qed
  have bytes: "m_buffer b3 ! (6 + j) = of_nat (length ((vs @ [w]) ! j))" if "j < Suc (length vs)" for j
  proof (cases "j = length vs")
    case True
    have "6 + length vs < length (m_buffer b2)" using inv3(5) by simp
    then show ?thesis
      unfolding inv3(4) True splice_single [symmetric, OF \<open>6 + length vs < length (m_buffer b2)\<close>] by simp
  next
    case False
    with that have j: "j < length vs" by simp
    have "m_buffer b3 ! (6 + j) = m_buffer b2 ! (6 + j)"
      unfolding inv3(4) using j by (intro splice_frame [OF inv3(5)]) simp
    also have "\<dots> = m_buffer b1 ! (6 + j)"
      unfolding inv2(4) by (intro splice_frame [OF inv2(5)]) simp
    also have "\<dots> = m_buffer b ! (6 + j)"
      unfolding inv1(4) inv0(4) [symmetric] using j assms(2) by (intro splice_frame [OF inv1(5)]) simp
    also have "\<dots> = of_nat (length ((vs @ [w]) ! j))" using R j by (simp add: nth_append)
    finally show ?thesis .
  qed
  have conts: "bytes_at (6 + n) (length (concat vs) + length w) (m_buffer b3)
      = map byte_of_char (concat vs) @ ?bw"
  proof -
    have "bytes_at (6 + n) k (m_buffer b3) = bytes_at (6 + n) k (m_buffer b1)"
      and "bytes_at ?p k (m_buffer b3) = bytes_at ?p k (m_buffer b1)" for k
      unfolding inv3(4) inv2(4) using assms(2) inv2(5) inv3(5) lens
      by (simp_all add: bytes_at_splice_other)
    moreover have "bytes_at (6 + n) (length (concat vs)) (m_buffer b1) = bytes_at (6 + n) (length (concat vs)) (m_buffer b)"
      unfolding inv1(4) inv0(4) [symmetric] by (rule bytes_at_splice_other [OF inv1(5)]) simp
    moreover have "bytes_at ?p (length w) (m_buffer b1) = ?bw"
      unfolding inv1(4) using inv1(5) by simp
    ultimately show ?thesis using R unfolding bytes_at_add by simp
  qed
  have "row_rep n (vs @ [w]) b3"
    unfolding row_rep_def using inv0 inv1 inv2 inv3 assms size bytes conts sint_of_nat_16 [of "?p + length w"]
    by (simp add: z_def add.assoc)
  then show ?thesis using main inv0 inv1 inv2 inv3 by (intro exI [of _ b3]) (simp add: b0_def)
qed

lemma sum_sizes_run:
  assumes "row_rep n vs b" "\<forall>v \<in> set vs. length v < 256" "i + k \<le> length vs"
  shows "sum_sizes k pos (b \<lparr> m_index := int (6 + i) \<rparr>)
    = (Inr (pos + int (length (concat (take k (drop i vs))))), b \<lparr> m_index := int (6 + i + k) \<rparr>)"
  using assms(3)
proof (induction k arbitrary: i pos)
  case (Suc k)
  note R = assms(1) [unfolded row_rep_def]
  have lt: "int (6 + i) + 1 \<le> m_bound b" and i: "i < length vs" using R Suc.prems by auto
  have "get (b \<lparr> m_index := int (6 + i) \<rparr>)
      = (Inr (m_buffer b ! (6 + i)), b \<lparr> m_index := int (6 + Suc i) \<rparr>)"
    using lt by (auto simp: get_run nat_add_distrib)
  moreover have "uint (m_buffer b ! (6 + i)) = int (length (vs ! i))"
    using R i assms(2) by (simp add: uint_nat unat_of_nat nth_mem)
  moreover have "concat (take (Suc k) (drop i vs)) = vs ! i @ concat (take k (drop (Suc i) vs))"
    using i by (simp add: Cons_nth_drop_Suc [symmetric])
  ultimately show ?case
    using Suc.IH [of "Suc i" "pos + int (length (vs ! i))"] Suc.prems
    by (simp add: exn_simps)
qed simp

lemma concat_part:
  "i < length vs \<Longrightarrow> take (length (vs ! i)) (drop (length (concat (take i vs))) (concat vs)) = vs ! i"
proof (induction vs arbitrary: i)
  case (Cons v vs)
  then show ?case by (cases i) auto
qed simp

lemma length_concat_part:
  "i < length vs \<Longrightarrow> length (concat (take i vs)) + length (vs ! i) \<le> length (concat vs)"
proof (induction vs arbitrary: i)
  case (Cons v vs)
  then show ?case by (cases i) auto
qed simp

lemma value_at_rep:
  assumes "row_rep n vs b" "\<forall>v \<in> set vs. length v < 256" "i < length vs"
    and "hd_column_count (sc_header s) = int n"
  shows "\<exists>b'. value_at (int i) (b, s) = (Inr (vs ! i), (b', s)) \<and> row_rep n vs b'"
proof -
  note R = assms(1) [unfolded row_rep_def]
  let ?len = "length (vs ! i)" and ?q = "length (concat (take i vs))"
  have idx: "set_index 6 b = (Inr (), b \<lparr> m_index := int (6 + 0) \<rparr>)"
    using R assms(3) by (simp add: set_index_run)
  have sums: "sum_sizes i (6 + int n) (b \<lparr> m_index := int (6 + 0) \<rparr>)
      = (Inr (int (6 + n + ?q)), b \<lparr> m_index := int (6 + i) \<rparr>)"
    using sum_sizes_run [OF assms(1,2), of 0 i "6 + int n"] assms(3) by simp
  have lt: "int (6 + i) + 1 \<le> m_bound b" using R assms(3) by auto
  have g: "get (b \<lparr> m_index := int (6 + i) \<rparr>) = (Inr (m_buffer b ! (6 + i)), b \<lparr> m_index := int (6 + Suc i) \<rparr>)"
    using lt by (auto simp: get_run nat_add_distrib)
  have sz: "uint (m_buffer b ! (6 + i)) = int ?len"
    using R assms(2,3) by (simp add: uint_nat unat_of_nat nth_mem)
  let ?b = "b \<lparr> m_index := int (6 + Suc i) \<rparr>"
  have inv: "buf_inv ?b" using R lt by (auto simp: buf_inv_def)
  have fit: "int (6 + n + ?q + ?len) \<le> m_bound ?b" using R length_concat_part [OF assms(3)] by simp
  have "bytes_at (6 + n + ?q) ?len (m_buffer b) = take ?len (drop ?q (map byte_of_char (concat vs)))"
    by (rule bytes_at_sub [of "6 + n" "length (concat vs)"]) (use R length_concat_part [OF assms(3)] in simp_all)
  also have "\<dots> = map byte_of_char (vs ! i)"
    using concat_part [OF assms(3)] by (simp add: drop_map take_map)
  finally have v: "map char_of_byte (bytes_at (6 + n + ?q) ?len (m_buffer b)) = vs ! i"
    using map_char_bytes [of "vs ! i"] by (simp only:)
  have "get_varchar_at (int (6 + n + ?q)) (int ?len) ?b = (Inr (vs ! i), b \<lparr> m_index := int (6 + n + ?q + ?len) \<rparr>)"
    using get_varchar_at_run [OF inv, of "6 + n + ?q" ?len] fit v by simp
  then have "value_at (int i) (b, s) = (Inr (vs ! i), (b \<lparr> m_index := int (6 + n + ?q + ?len) \<rparr>, s))"
    using idx sums g sz assms(4) by (simp add: value_at_def exn_simps)
  moreover have "row_rep n vs (b \<lparr> m_index := int (6 + n + ?q + ?len) \<rparr>)"
    using R fit by (auto simp: row_rep_def buf_inv_def)
  ultimately show ?thesis by blast
qed

end
