(* ===== verification/RowKeys.thy ===== *)
theory RowKeys
  imports RowLayout "HOL-Library.List_Lexorder" "HOL-Library.Char_ord"
begin

text \<open>
  Rows as a whole: loading the values of a row and reading them back, the keys put together
  from them, and the order of the keys of an integer column.
\<close>

section \<open>Loading a row\<close>

text \<open>\<open>vm::load_row\<close>: the values are appended in the order of the columns.\<close>

fun load_row :: "'t clock \<Rightarrow> nat \<Rightarrow> string list \<Rightarrow> unit rowm" where
  "load_row clk i [] = ret ()"
| "load_row clk i (v # vs) = sq (row_append clk i v) (load_row clk (Suc i) vs)"

text \<open>The column accepts the text \<open>v\<close> and keeps it as \<open>w\<close>.\<close>

definition stores :: "'t clock \<Rightarrow> column \<Rightarrow> string \<Rightarrow> string \<Rightarrow> bool" where
  "stores clk c v w \<longleftrightarrow> valid_value clk c v \<and> int (length v) \<le> cast_u64 (co_size c)
     \<and> (\<exists>c'. column_value c v = Inr (w, c'))"

lemma cast_u64_of_nat [simp]: "n < 2 ^ 64 \<Longrightarrow> cast_u64 (int n) = int n"
  by (simp add: cast_u64_def uint_nat unat_of_nat)

lemma column_value_name: "column_value c v = Inr (w, c') \<Longrightarrow> co_name c' = co_name c"
  by (auto simp: column_value_def Let_def split: if_splits option.splits)

lemma row_append_rep:
  assumes "row_rep n ws b" "length ws < n" "hd_column_count (sc_header s) = int n" "length (sc_column s) = n"
    and "stores clk (sc_column s ! length ws) v w"
    and "6 + n + length (concat ws) + length w < 2 ^ 15" "int (6 + n + length (concat ws) + length w) \<le> m_size b"
  shows "\<exists>b' c'. row_append clk (length ws) v (b, s)
       = (Inr w, (b', s \<lparr> sc_column := (sc_column s)[length ws := c'] \<rparr>))
     \<and> row_rep n (ws @ [w]) b' \<and> m_size b' = m_size b \<and> co_name c' = co_name (sc_column s ! length ws)"
proof -
  let ?c = "sc_column s ! length ws"
  from assms(5) obtain c' where c': "valid_value clk ?c v" "int (length v) \<le> cast_u64 (co_size ?c)"
      "column_value ?c v = Inr (w, c')" by (auto simp: stores_def)
  have n: "cast_u64 (int n) = int n" using assms(6) by (intro cast_u64_of_nat) simp
  define cc where "cc = c' \<lparr> co_max_size := max (co_max_size c') (cast_i32 (int (length w))) \<rparr>"
  define s' where "s' = s \<lparr> sc_column := (sc_column s)[length ws := cc] \<rparr>"
  from row_write_rep [OF assms(1,2,6,7), of s'] obtain b' where b':
    "sq (on_fst (put_varchar_at (int (6 + n + length (concat ws))) w)) (
         bnd (gets (m_index \<circ> fst)) (\<lambda>k.
         sq (row_set_size k) (
         sq (on_fst (put_at (6 + int (length ws) * 1) (of_nat (length w)))) (ret w)))) (b \<lparr> m_index := 2 \<rparr>, s')
       = (Inr w, (b', s'))" "row_rep n (ws @ [w]) b'" "m_size b' = m_size b" by blast
  have "is_valid clk (length ws) v (b, s) = (Inr True, (b, s))"
    using assms(2,3,4) n c'(1) by (simp add: is_valid_def column_at_def exn_simps)
  moreover have "set_column (length ws) cc (b, s) = (Inr (), (b, s'))"
    by (simp add: set_column_def s'_def)
  ultimately have "row_append clk (length ws) v (b, s) = (Inr w, (b', s'))"
    using b'(1) c'(2,3) assms(2,3,4) n row_size_rep [OF assms(1), of s']
    unfolding row_append_def by (simp add: bnd_run sq_run [of "set_column _ _"] column_at_def cc_def [symmetric])
  then show ?thesis
    using b' column_value_name [OF c'(3)] by (auto simp: s'_def cc_def)
qed

lemma load_row_rep:
  assumes "row_rep n ws b" "hd_column_count (sc_header s) = int n" "length (sc_column s) = n"
    and "length vs = length us" "length ws + length vs = n"
    and "\<forall>i < length vs. stores clk (sc_column s ! (length ws + i)) (vs ! i) (us ! i)"
    and "6 + n + length (concat (ws @ us)) < 2 ^ 15" "int (6 + n + length (concat (ws @ us))) \<le> m_size b"
  shows "\<exists>b' s'. load_row clk (length ws) vs (b, s) = (Inr (), (b', s'))
     \<and> row_rep n (ws @ us) b' \<and> sc_header s' = sc_header s \<and> sc_index s' = sc_index s
     \<and> map co_name (sc_column s') = map co_name (sc_column s)"
  using assms
proof (induction vs arbitrary: ws us b s)
  case Nil
  then show ?case by simp
next
  case (Cons v vs)
  then obtain u us' where us: "us = u # us'" "length vs = length us'" by (cases us) auto
  have "stores clk (sc_column s ! length ws) v u" using Cons.prems(6) us by fastforce
  then obtain b1 c' where b1: "row_append clk (length ws) v (b, s)
       = (Inr u, (b1, s \<lparr> sc_column := (sc_column s)[length ws := c'] \<rparr>))"
     "row_rep n (ws @ [u]) b1" "m_size b1 = m_size b" "co_name c' = co_name (sc_column s ! length ws)"
    using row_append_rep [OF Cons.prems(1) _ Cons.prems(2,3), of clk v u] Cons.prems(5,7,8) us by auto
  let ?s = "s \<lparr> sc_column := (sc_column s)[length ws := c'] \<rparr>"
  have "\<forall>i < length vs. stores clk (sc_column ?s ! (length (ws @ [u]) + i)) (vs ! i) (us' ! i)"
    using Cons.prems(6) us by fastforce
  then obtain b' s' where s': "load_row clk (length (ws @ [u])) vs (b1, ?s) = (Inr (), (b', s'))"
     "row_rep n ((ws @ [u]) @ us') b'" "sc_header s' = sc_header s" "sc_index s' = sc_index s"
     "map co_name (sc_column s') = map co_name (sc_column ?s)"
    using Cons.IH [OF b1(2), of ?s us'] Cons.prems(2,3,4,5,7,8) us b1(3) by auto
  have "map co_name (sc_column ?s) = map co_name (sc_column s)"
    using b1(4) Cons.prems(3,5) by (simp add: map_update list_update_same_conv)
  with s' b1 us show ?case by auto
qed

section \<open>Looking up by name\<close>

lemma find_pos_nth:
  "distinct (map f xs) \<Longrightarrow> i < length xs \<Longrightarrow> find_pos f (f (xs ! i)) xs = Some i"
proof (induction xs arbitrary: i)
  case (Cons x xs)
  show ?case
  proof (cases i)
    case (Suc j)
    then have "f (xs ! j) \<in> f ` set xs" using Cons.prems by simp
    then have "f (xs ! j) \<noteq> f x" using Cons.prems by auto
    with Suc Cons show ?thesis by simp
  qed simp
qed simp

lemma find_pos_map: "find_pos f nm xs = find_pos id nm (map f xs)"
  by (induction xs) auto

lemma value_of_rep:
  assumes "row_rep n vs b" "\<forall>v \<in> set vs. length v < 256" "i < length vs"
    and "hd_column_count (sc_header s) = int n" "column_pos s nm = Inr i"
  shows "\<exists>b'. value_of nm (b, s) = (Inr (vs ! i), (b', s)) \<and> row_rep n vs b'"
  using value_at_rep [OF assms(1-4)] assms(5) by (auto simp: value_of_def find_column_def bnd_run)

lemma key_of_rep:
  assumes "row_rep n vs b" "\<forall>v \<in> set vs. length v < 256" "length vs = length (sc_column s)"
    and "hd_column_count (sc_header s) = int n" "list_all2 (\<lambda>nm i. column_pos s nm = Inr i \<and> i < length vs) nms is"
  shows "\<exists>b'. key_of nms key (b, s)
     = (Inr (key @ concat (map (\<lambda>i. key_part (sc_column s ! i) (vs ! i)) is)), (b', s)) \<and> row_rep n vs b'"
  using assms(5,1)
proof (induction nms "is" arbitrary: b key rule: list_all2_induct)
  case (Cons nm nms i "is")
  from value_at_rep [OF Cons.prems assms(2) _ assms(4)] Cons.hyps obtain b' where
    "value_at (int i) (b, s) = (Inr (vs ! i), (b', s))" "row_rep n vs b'" by blast
  moreover from Cons.IH [OF this(2), of "key @ key_part (sc_column s ! i) (vs ! i)"] obtain b'' where
    "key_of nms (key @ key_part (sc_column s ! i) (vs ! i)) (b', s) = (Inr ((key @ key_part (sc_column s ! i) (vs ! i))
       @ concat (map (\<lambda>i. key_part (sc_column s ! i) (vs ! i)) is)), (b'', s))" "row_rep n vs b''" by blast
  ultimately show ?case using Cons.hyps assms(3)
    by (auto simp: bnd_run find_column_def column_at_def)
qed simp

section \<open>The order of the keys of an integer column\<close>

definition padded :: "nat \<Rightarrow> nat \<Rightarrow> string" where
  "padded w n = replicate (w - length (nat_str n)) (CHR ''0'') @ nat_str n"

lemma nat_str_step: "nat_str n = (if n < 10 then [digit_char n] else nat_str (n div 10) @ [digit_char (n mod 10)])"
  by (rule nat_str.simps)

lemma padded_step:
  "0 < w \<Longrightarrow> padded (Suc w) n = padded w (n div 10) @ [digit_char (n mod 10)]"
proof (cases "n < 10")
  case True
  then have "nat_str n = [digit_char n]" "nat_str (n div 10) = ''0''"
    by (simp_all add: nat_str_step [of n] nat_str_step [of 0]) (code_simp)
  moreover assume "0 < w"
  ultimately show ?thesis using True by (cases w) (simp_all add: padded_def replicate_append_same)
next
  case False
  then show ?thesis by (simp add: padded_def nat_str_step [of n])
qed

lemma padded_length: "0 < w \<Longrightarrow> n < 10 ^ w \<Longrightarrow> length (padded w n) = w"
proof (induction w arbitrary: n)
  case (Suc w)
  show ?case
  proof (cases "w = 0")
    case True
    with Suc.prems show ?thesis by (simp add: padded_def nat_str_step [of n])
  next
    case False
    with Suc show ?thesis by (simp add: padded_step less_mult_imp_div_less)
  qed
qed simp

lemma snoc_less:
  "length xs = length ys \<Longrightarrow> (xs @ [c] < ys @ [d]) \<longleftrightarrow> xs < ys \<or> xs = ys \<and> c < (d :: 'a :: linorder)"
  by (induction xs ys rule: list_induct2) auto

lemma digit_char_less: "a < 10 \<Longrightarrow> b < 10 \<Longrightarrow> digit_char a < digit_char b \<longleftrightarrow> a < b"
  by (simp add: digit_char_def less_char_def)

lemma padded_less:
  "0 < w \<Longrightarrow> m < 10 ^ w \<Longrightarrow> n < 10 ^ w \<Longrightarrow> padded w m < padded w n \<longleftrightarrow> m < n"
proof (induction w arbitrary: m n)
  case (Suc w)
  show ?case
  proof (cases "w = 0")
    case True
    with Suc.prems show ?thesis
      by (simp add: padded_def nat_str_step [of m] nat_str_step [of n] digit_char_less)
  next
    case False
    have lt: "m div 10 < 10 ^ w" "n div 10 < 10 ^ w"
      using Suc.prems by (simp_all add: less_mult_imp_div_less)
    have IH: "padded w k < padded w l \<longleftrightarrow> k < l" if "k < 10 ^ w" "l < 10 ^ w" for k l
      using Suc.IH that False by simp
    have eq: "padded w (m div 10) = padded w (n div 10) \<longleftrightarrow> m div 10 = n div 10"
      using IH [OF lt] IH [OF lt(2,1)] by (metis linorder_neqE_nat order.strict_implies_not_eq)
    have "padded (Suc w) m < padded (Suc w) n
      \<longleftrightarrow> m div 10 < n div 10 \<or> m div 10 = n div 10 \<and> m mod 10 < n mod 10"
      using False lt IH [OF lt] eq
      by (simp add: padded_step snoc_less padded_length digit_char_less)
    also have "\<dots> \<longleftrightarrow> m < n"
    proof -
      have "m = 10 * (m div 10) + m mod 10" "n = 10 * (n div 10) + n mod 10" by simp_all
      moreover have "m mod 10 < 10" "n mod 10 < 10" by simp_all
      ultimately show ?thesis by linarith
    qed
    finally show ?thesis .
  qed
qed simp

lemma setw_padded: "setw_right (CHR ''0'') (int w) (nat_str n) = padded w n"
  by (simp add: setw_right_def padded_def)

lemma setw_again: "length t = w \<Longrightarrow> setw_right c (int w) t = t"
  by (simp add: setw_right_def)

section \<open>A table for the examples\<close>

definition no_clock :: "unit clock" where
  "no_clock = \<lparr> clk_strptime = (\<lambda>_ _ _. ()), clk_mktime = (\<lambda>_. 0), clk_zero = (), clk_junk = () \<rparr>"

definition sample_schema :: schema where
  "sample_schema = \<lparr> sc_header = header_new ''d'' ''t'' 0 0 1 0 2 0 0 0,
     sc_column = [column_sized FLAG_PRIMARY 4 TYPE_INT ''id'', column_sized 0 5 TYPE_VARCHAR ''nm''],
     sc_index = [index_new FLAG_UNIQUE 0 4 PK_NDX [''id'']], sc_foreign = [] \<rparr>"

lemma sample_stores:
  "stores no_clock (column_sized FLAG_PRIMARY 4 TYPE_INT ''id'') ''7'' ''0007''"
  "stores no_clock (column_sized FLAG_PRIMARY 4 TYPE_INT ''id'') ''12'' ''0012''"
  "stores no_clock (column_sized 0 5 TYPE_VARCHAR ''nm'') ''ab'' ''ab''"
proof -
  have "valid_value no_clock (column_sized FLAG_PRIMARY 4 TYPE_INT ''id'') ''7''"
    "valid_value no_clock (column_sized FLAG_PRIMARY 4 TYPE_INT ''id'') ''12''"
    "valid_value no_clock (column_sized 0 5 TYPE_VARCHAR ''nm'') ''ab''" by code_simp+
  moreover have "column_value (column_sized FLAG_PRIMARY 4 TYPE_INT ''id'') ''7''
      = Inr (''0007'', column_sized FLAG_PRIMARY 4 TYPE_INT ''id'')"
    "column_value (column_sized FLAG_PRIMARY 4 TYPE_INT ''id'') ''12''
      = Inr (''0012'', column_sized FLAG_PRIMARY 4 TYPE_INT ''id'')"
    "column_value (column_sized 0 5 TYPE_VARCHAR ''nm'') ''ab'' = Inr (''ab'', column_sized 0 5 TYPE_VARCHAR ''nm'')"
    by code_simp+
  moreover have "cast_u64 4 = 4" "cast_u64 5 = 5" by code_simp+
  ultimately show "stores no_clock (column_sized FLAG_PRIMARY 4 TYPE_INT ''id'') ''7'' ''0007''"
    "stores no_clock (column_sized FLAG_PRIMARY 4 TYPE_INT ''id'') ''12'' ''0012''"
    "stores no_clock (column_sized 0 5 TYPE_VARCHAR ''nm'') ''ab'' ''ab''"
    by (simp_all add: stores_def) (simp_all add: column_sized_def)
qed

lemma sample_facts:
  "hd_column_count (sc_header sample_schema) = 2" "length (sc_column sample_schema) = 2"
  "sc_column sample_schema = [column_sized FLAG_PRIMARY 4 TYPE_INT ''id'', column_sized 0 5 TYPE_VARCHAR ''nm'']"
  "map co_name (sc_column sample_schema) = [''id'', ''nm'']"
  "get_index sample_schema PK_NDX = Inr (index_new FLAG_UNIQUE 0 4 PK_NDX [''id''])"
  "column_pos sample_schema ''id'' = Inr 0"
  by (simp_all add: sample_schema_def header_new_def column_sized_def get_index_def column_pos_def index_new_def)

text \<open>A row of the table, with a number below ten thousand and a name.\<close>

lemma sample_row:
  assumes "stores no_clock (column_sized FLAG_PRIMARY 4 TYPE_INT ''id'') t k" "length k = 4"
  shows "\<exists>b. row_rep 2 [k, ''ab''] b"
proof -
  have "\<exists>b'. row_init (new_buffer 20 (replicate 20 0), sample_schema) = (Inr (), (b', sample_schema))
      \<and> row_rep 2 [] b' \<and> m_size b' = m_size (new_buffer 20 (replicate 20 0))"
    by (rule row_init_rep) (simp_all add: sample_facts buf_inv_def new_buffer_def)
  then obtain b0 where b0: "row_rep 2 [] b0" "m_size b0 = 20" by (auto simp: new_buffer_def)
  have "\<forall>i < 2. stores no_clock (sc_column sample_schema ! (0 + i)) ([t, ''ab''] ! i) ([k, ''ab''] ! i)"
    using assms sample_stores by (auto simp: sample_facts less_2_cases_iff)
  with load_row_rep [of 2 "[]" b0 sample_schema "[t, ''ab'']" "[k, ''ab'']" no_clock] b0 assms(2) show ?thesis
    by (auto simp: sample_facts)
qed

section \<open>Properties\<close>



text \<open>
  C14. The index of an integer key column is in numeric order: for numbers that are not
  negative and have at most as many digits as the column, the keys that \<open>make_key\<close> puts
  together for two rows compare, as strings, like the numbers.
\<close>

theorem primary_key_order:
  assumes "row_rep n us ba" "row_rep n vs bb" "length us = n" "length vs = n" "length (sc_column s) = n"
    and "hd_column_count (sc_header s) = int n" "\<forall>v \<in> set us \<union> set vs. length v < 256"
    and "get_index s ndx = Inr x" "ix_col_name_list x = [nm]" "column_pos s nm = Inr i" "i < n"
    and "co_type (sc_column s ! i) = TYPE_INT" "co_size (sc_column s ! i) = int w" "0 < w"
    and "has_flag FLAG_PRIMARY (sc_column s ! i) \<or> has_flag FLAG_UNIQUE (sc_column s ! i)"
    and "\<not> has_flag FLAG_AUTO_INC (sc_column s ! i)"
    and "stores clk (sc_column s ! i) ta (us ! i)" "stores clk (sc_column s ! i) tb (vs ! i)"
    and "stoi ta = Some (int a)" "stoi tb = Some (int b)" "a < 10 ^ w" "b < 10 ^ w"
  shows "\<exists>ka kb. fst (make_key ndx (ba, s)) = Inr ka \<and> fst (make_key ndx (bb, s)) = Inr kb
    \<and> (ka < kb \<longleftrightarrow> a < b)"
proof -
  let ?c = "sc_column s ! i"
  have stored: "u = padded w k" if "stores clk ?c t u" "stoi t = Some (int k)" for t u k
  proof -
    have "stoi ''null'' = None" by code_simp
    with that(2) have "t \<noteq> ''null''" by auto
    with that assms(12,13,15,16) show ?thesis
      by (auto simp: stores_def column_value_def Let_def to_string_nat setw_padded)
  qed
  have key: "fst (make_key ndx (b, s)) = Inr (key_part ?c (ws ! i))"
    if "row_rep n ws b" "length ws = n" "\<forall>v \<in> set ws. length v < 256" for ws b
  proof -
    have "list_all2 (\<lambda>nm i. column_pos s nm = Inr i \<and> i < length ws) [nm] [i]"
      using assms(10,11) that(2) by simp
    from key_of_rep [OF that(1,3) _ assms(6) this, of "[]"] that(2) assms(5,8,9) show ?thesis
      by (auto simp: make_key_def)
  qed
  have part: "key_part ?c (padded w k) = padded w k" if "k < 10 ^ w" for k
    using setw_again [OF padded_length [OF assms(14) that]] assms(12,13) by (simp add: key_part_def)
  show ?thesis
    using key [OF assms(1,3)] key [OF assms(2,4)] assms(7) stored [OF assms(17,19)] stored [OF assms(18,20)]
      part [OF assms(21)] part [OF assms(22)] padded_less [OF assms(14,21,22)] by auto
qed

theorem primary_key_order_witness:
  "\<exists>ba bb ka kb. row_rep 2 [''0007'', ''ab''] ba \<and> row_rep 2 [''0012'', ''ab''] bb
    \<and> fst (make_key PK_NDX (ba, sample_schema)) = Inr ka \<and> fst (make_key PK_NDX (bb, sample_schema)) = Inr kb \<and> ka < kb"
proof -
  obtain ba bb where r: "row_rep 2 [''0007'', ''ab''] ba" "row_rep 2 [''0012'', ''ab''] bb"
    using sample_row [OF sample_stores(1)] sample_row [OF sample_stores(2)] by auto
  have st: "stoi ''7'' = Some (int 7)" "stoi ''12'' = Some (int 12)" by code_simp+
  have fl: "has_flag FLAG_PRIMARY (column_sized FLAG_PRIMARY 4 TYPE_INT ''id'')"
    "\<not> has_flag FLAG_AUTO_INC (column_sized FLAG_PRIMARY 4 TYPE_INT ''id'')" by code_simp+
  have ix: "ix_col_name_list (index_new FLAG_UNIQUE 0 4 PK_NDX [''id'']) = [''id'']" by (simp add: index_new_def)
  have col: "sc_column sample_schema ! 0 = column_sized FLAG_PRIMARY 4 TYPE_INT ''id''"
    "co_type (column_sized FLAG_PRIMARY 4 TYPE_INT ''id'') = TYPE_INT"
    "co_size (column_sized FLAG_PRIMARY 4 TYPE_INT ''id'') = int 4"
    by (simp_all add: sample_facts column_sized_def)
  have "\<exists>ka kb. fst (make_key PK_NDX (ba, sample_schema)) = Inr ka \<and> fst (make_key PK_NDX (bb, sample_schema)) = Inr kb
      \<and> (ka < kb \<longleftrightarrow> (7::nat) < 12)"
    by (rule primary_key_order [OF r _ _ _ _ _ sample_facts(5) ix sample_facts(6), of 4 no_clock "''7''" "''12''"])
       (use sample_stores(1,2) fl st col in \<open>simp_all add: sample_facts\<close>)
  then show ?thesis using r by auto
qed




end
