(* ===== verification/VmExpr.thy ===== *)
theory VmExpr
  imports Schema Float32 "HOL-Library.List_Lexorder" "HOL-Library.Char_ord"
begin

text \<open>
  The expressions of the virtual machine (\<open>src/vm\<close>): class \<open>item\<close>, the evaluation of a
  condition on the values of its columns (the routines \<open>exec_*\<close>), and the folding of
  constants before the execution (the routines \<open>compact_*\<close>). All values are text; the empty
  text is NULL. Numbers are evaluated as \<open>float\<close>, by the theory \<open>Float32\<close>.

  An item is a record of its own values with up to three items below it, for the
  operands and the condition of ON and WHERE; a null pointer is \<open>None\<close>. The code shares items
  only where it links tables, so an item that stands for a table has the position of the
  table in the field \<open>i_ref\<close>; a column has the position of its table in \<open>i_parent\<close>.
\<close>

section \<open>Items\<close>

abbreviation (input) VT_NULL :: int where "VT_NULL \<equiv> 0"
abbreviation (input) VT_ADD :: int where "VT_ADD \<equiv> 100"
abbreviation (input) VT_ASSIGN :: int where "VT_ASSIGN \<equiv> 101"
abbreviation (input) VT_BOOLEAN :: int where "VT_BOOLEAN \<equiv> 102"
abbreviation (input) VT_BW_AND :: int where "VT_BW_AND \<equiv> 103"
abbreviation (input) VT_BW_OR :: int where "VT_BW_OR \<equiv> 104"
abbreviation (input) VT_BW_XOR :: int where "VT_BW_XOR \<equiv> 105"
abbreviation (input) VT_COLUMN :: int where "VT_COLUMN \<equiv> 106"
abbreviation (input) VT_CMPEQ :: int where "VT_CMPEQ \<equiv> 107"
abbreviation (input) VT_CMPGE :: int where "VT_CMPGE \<equiv> 108"
abbreviation (input) VT_CMPGT :: int where "VT_CMPGT \<equiv> 109"
abbreviation (input) VT_CMPLE :: int where "VT_CMPLE \<equiv> 110"
abbreviation (input) VT_CMPLT :: int where "VT_CMPLT \<equiv> 111"
abbreviation (input) VT_CMPNE :: int where "VT_CMPNE \<equiv> 112"
abbreviation (input) VT_CRJOIN :: int where "VT_CRJOIN \<equiv> 113"
abbreviation (input) VT_DIV :: int where "VT_DIV \<equiv> 114"
abbreviation (input) VT_FLOAT :: int where "VT_FLOAT \<equiv> 115"
abbreviation (input) VT_INJOIN :: int where "VT_INJOIN \<equiv> 116"
abbreviation (input) VT_INT :: int where "VT_INT \<equiv> 117"
abbreviation (input) VT_AND :: int where "VT_AND \<equiv> 118"
abbreviation (input) VT_NOT :: int where "VT_NOT \<equiv> 119"
abbreviation (input) VT_OR :: int where "VT_OR \<equiv> 120"
abbreviation (input) VT_LTJOIN :: int where "VT_LTJOIN \<equiv> 121"
abbreviation (input) VT_MOD :: int where "VT_MOD \<equiv> 122"
abbreviation (input) VT_MUL :: int where "VT_MUL \<equiv> 123"
abbreviation (input) VT_OFFSET :: int where "VT_OFFSET \<equiv> 124"
abbreviation (input) VT_ON :: int where "VT_ON \<equiv> 125"
abbreviation (input) VT_OUTPUT :: int where "VT_OUTPUT \<equiv> 126"
abbreviation (input) VT_ORDERBY :: int where "VT_ORDERBY \<equiv> 127"
abbreviation (input) VT_RTJOIN :: int where "VT_RTJOIN \<equiv> 128"
abbreviation (input) VT_SUB :: int where "VT_SUB \<equiv> 130"
abbreviation (input) VT_TREE :: int where "VT_TREE \<equiv> 131"
abbreviation (input) VT_VARCHAR :: int where "VT_VARCHAR \<equiv> 133"
abbreviation (input) VT_WHERE :: int where "VT_WHERE \<equiv> 134"
abbreviation (input) VT_XOR :: int where "VT_XOR \<equiv> 135"

record idata =
  i_type :: int
  i_action :: int
  i_out_size :: int
  i_out_prec :: int
  i_negate :: bool
  i_quote :: bool
  i_value :: string
  i_title :: string
  i_alias :: string
  i_db_name :: string
  i_tbl_name :: string
  i_col_name :: string
  i_parent :: "nat option"
  i_ref :: "nat option"

datatype vitem = Item (idat: idata) (m_left: "vitem option") (m_right: "vitem option") (m_on_cond: "vitem option")

definition item_new :: idata where
  "item_new = \<lparr> i_type = 0, i_action = 0, i_out_size = 0, i_out_prec = 4, i_negate = False, i_quote = False,
     i_value = [], i_title = [], i_alias = [], i_db_name = [], i_tbl_name = [], i_col_name = [],
     i_parent = None, i_ref = None \<rparr>"

text \<open>A new item with a value, and one with two operands.\<close>

definition leaf_item :: "int \<Rightarrow> string \<Rightarrow> vitem" where
  "leaf_item ty v = Item (item_new \<lparr> i_type := ty, i_value := v \<rparr>) None None None"

definition node_item :: "int \<Rightarrow> vitem \<Rightarrow> vitem \<Rightarrow> vitem" where
  "node_item ty l r = Item (item_new \<lparr> i_type := ty \<rparr>) (Some l) (Some r) None"

definition map_data :: "(idata \<Rightarrow> idata) \<Rightarrow> vitem \<Rightarrow> vitem" where
  "map_data f x = Item (f (idat x)) (m_left x) (m_right x) (m_on_cond x)"

text \<open>Continuing behind a value that may be missing because of an exception.\<close>

definition attempt :: "error + 'a \<Rightarrow> ('a \<Rightarrow> error + 'b) \<Rightarrow> error + 'b" where
  "attempt m f = (case m of Inl e \<Rightarrow> Inl e | Inr x \<Rightarrow> f x)"

lemma attempt_simps [simp]: "attempt (Inr x) f = f x" "attempt (Inl e) f = Inl e"
  by (simp_all add: attempt_def)

lemma attempt_cong [fundef_cong]: "m = m' \<Longrightarrow> (\<And>x. m' = Inr x \<Longrightarrow> f x = g x) \<Longrightarrow> attempt m f = attempt m' g"
  by (cases m') auto

section \<open>Text and truth values\<close>

definition VM_TRUE :: string where "VM_TRUE = ''true''"
definition VM_FALSE :: string where "VM_FALSE = ''false''"

definition bool_str :: "bool \<Rightarrow> string" where
  "bool_str b = (if b then VM_TRUE else VM_FALSE)"

text \<open>
  \<open>istringstream(t) >> boolalpha >> b\<close>: anything but \<open>true\<close> is false, and a text of white space
  leaves \<open>b\<close> uninitialised.
\<close>

definition read_bool :: "string \<Rightarrow> error + bool" where
  "read_bool t = (let u = dropWhile isspace t in
     if u = [] then Inl (Undefined ''bool'') else Inr (take 4 u = VM_TRUE))"

text \<open>\<open>istringstream(t) >> res\<close> for a string.\<close>

definition read_word :: "string \<Rightarrow> string \<Rightarrow> string" where
  "read_word t res = (let u = dropWhile isspace t in
     if u = [] then res else takeWhile (\<lambda>c. \<not> isspace c) u)"

definition is_number :: "string \<Rightarrow> fl32 option" where
  "is_number t = (case stof t of None \<Rightarrow> None | Some (v, pos) \<Rightarrow> if pos = length t then Some v else None)"

section \<open>Evaluation\<close>

text \<open>
  A binary routine gets what the evaluation of its operands would yield; the
  right operand counts only if the left one is not NULL.
\<close>

definition both :: "error + string \<Rightarrow> error + string \<Rightarrow> (string \<Rightarrow> string \<Rightarrow> error + string) \<Rightarrow> error + string" where
  "both L R f = attempt L (\<lambda>l_res. if l_res = [] then Inr [] else
     attempt R (\<lambda>r_res. if r_res = [] then Inr [] else f l_res r_res))"

definition exec_arith :: "(fl32 \<Rightarrow> fl32 \<Rightarrow> fl32) \<Rightarrow> int \<Rightarrow> error + string \<Rightarrow> error + string \<Rightarrow> error + string" where
  "exec_arith f errno L R = both L R (\<lambda>l_res r_res.
     case (is_number l_res, is_number r_res) of
       (Some l, Some r) \<Rightarrow> Inr (stream_str (f l r))
     | _ \<Rightarrow> Inl (Runtime errno))"

definition exec_add :: "error + string \<Rightarrow> error + string \<Rightarrow> error + string" where
  "exec_add L R = exec_arith fadd ERRNO_MALFORMED_ADDITION L R"

definition exec_sub :: "error + string \<Rightarrow> error + string \<Rightarrow> error + string" where
  "exec_sub L R = exec_arith fsub ERRNO_MALFORMED_SUBTRACT L R"

definition exec_mul :: "error + string \<Rightarrow> error + string \<Rightarrow> error + string" where
  "exec_mul L R = exec_arith fmul ERRNO_MALFORMED_MULTIPLY L R"

definition exec_div :: "error + string \<Rightarrow> error + string \<Rightarrow> error + string" where
  "exec_div L R = both L R (\<lambda>l_res r_res.
     case (is_number l_res, is_number r_res) of
       (Some l, Some r) \<Rightarrow> if feq r (zero_f32 False) then Inl (Runtime ERRNO_DIVIDE_BY_ZERO)
                          else Inr (stream_str (fdiv l r))
     | _ \<Rightarrow> Inl (Runtime ERRNO_MALFORMED_DIVISION))"

definition exec_mod :: "error + string \<Rightarrow> error + string \<Rightarrow> error + string" where
  "exec_mod L R = both L R (\<lambda>l_res r_res.
     case (stof l_res, stof r_res) of
       (Some (l, _), Some (r, _)) \<Rightarrow> Inr (fixed_str 2 (ffmod l r))
     | _ \<Rightarrow> Inl (Logic_error ''stof''))"

definition exec_cmp :: "(fl32 \<Rightarrow> fl32 \<Rightarrow> bool) \<Rightarrow> (string \<Rightarrow> string \<Rightarrow> bool) \<Rightarrow> error + string \<Rightarrow> error + string \<Rightarrow> error + string" where
  "exec_cmp f g L R = both L R (\<lambda>l_res r_res. Inr (bool_str (
     case (is_number l_res, is_number r_res) of (Some l, Some r) \<Rightarrow> f l r | _ \<Rightarrow> g l_res r_res)))"

definition exec_cmpeq :: "error + string \<Rightarrow> error + string \<Rightarrow> error + string" where
  "exec_cmpeq L R = exec_cmp feq (=) L R"

definition exec_cmpge :: "error + string \<Rightarrow> error + string \<Rightarrow> error + string" where
  "exec_cmpge L R = exec_cmp (\<lambda>l r. fle r l) (\<lambda>l r. r \<le> l) L R"

definition exec_cmpgt :: "error + string \<Rightarrow> error + string \<Rightarrow> error + string" where
  "exec_cmpgt L R = exec_cmp (\<lambda>l r. flt r l) (\<lambda>l r. r < l) L R"

definition exec_cmple :: "error + string \<Rightarrow> error + string \<Rightarrow> error + string" where
  "exec_cmple L R = exec_cmp fle (\<le>) L R"

definition exec_cmplt :: "error + string \<Rightarrow> error + string \<Rightarrow> error + string" where
  "exec_cmplt L R = exec_cmp flt (<) L R"

definition exec_cmpne :: "error + string \<Rightarrow> error + string \<Rightarrow> error + string" where
  "exec_cmpne L R = exec_cmp (\<lambda>l r. \<not> feq l r) (\<noteq>) L R"

definition exec_and :: "error + string \<Rightarrow> error + string \<Rightarrow> error + string" where
  "exec_and L R = attempt L (\<lambda>l_res. if l_res = [] then Inr [] else
     attempt (read_bool l_res) (\<lambda>l_value. if \<not> l_value then Inr l_res else
     attempt R (\<lambda>r_res. if r_res = [] then Inr [] else
     attempt (read_bool r_res) (\<lambda>r_value. if \<not> r_value then Inr r_res else Inr VM_TRUE))))"

definition exec_or :: "error + string \<Rightarrow> error + string \<Rightarrow> error + string" where
  "exec_or L R = attempt L (\<lambda>l_res. if l_res = [] then Inr [] else
     attempt (read_bool l_res) (\<lambda>l_value. if l_value then Inr l_res else
     attempt R (\<lambda>r_res. if r_res = [] then Inr [] else
     attempt (read_bool r_res) (\<lambda>r_value. if r_value then Inr r_res else Inr VM_FALSE))))"

definition exec_xor :: "error + string \<Rightarrow> error + string \<Rightarrow> error + string" where
  "exec_xor L R = both L R (\<lambda>l_res r_res.
     attempt (read_bool l_res) (\<lambda>l_value. attempt (read_bool r_res) (\<lambda>r_value.
     Inr (bool_str ((l_value \<or> r_value) \<and> \<not> (l_value \<and> r_value))))))"

text \<open>
  The result goes into the argument \<open>res\<close>, which some cases leave as it is; the
  evaluation of an operand starts with an empty text.
\<close>

fun exec_condition :: "vitem \<Rightarrow> string \<Rightarrow> error + string" where
  "exec_condition (Item d l r c) res =
     (let L = (case l of None \<Rightarrow> Inr [] | Some x \<Rightarrow> exec_condition x []);
          R = (case r of None \<Rightarrow> Inr [] | Some x \<Rightarrow> exec_condition x []);
          C = (case c of None \<Rightarrow> Inr res | Some x \<Rightarrow> exec_condition x res);
          t = i_type d
      in if t = VT_NULL then Inr VM_TRUE
         else if t = VT_ADD then exec_add L R
         else if t = VT_BOOLEAN then Inr (if i_value d \<noteq> [] then read_word (i_value d) res else [])
         else if t = VT_BW_AND \<or> t = VT_BW_OR \<or> t = VT_BW_XOR then Inr res
         else if t = VT_COLUMN then Inr (i_value d)
         else if t = VT_CMPEQ then exec_cmpeq L R
         else if t = VT_CMPGE then exec_cmpge L R
         else if t = VT_CMPGT then exec_cmpgt L R
         else if t = VT_CMPLE then exec_cmple L R
         else if t = VT_CMPLT then exec_cmplt L R
         else if t = VT_CMPNE then exec_cmpne L R
         else if t = VT_DIV then exec_div L R
         else if t = VT_FLOAT \<or> t = VT_INT then Inr (i_value d)
         else if t = VT_AND then exec_and L R
         else if t = VT_NOT then Inr res
         else if t = VT_OR then exec_or L R
         else if t = VT_MOD then exec_mod L R
         else if t = VT_MUL then exec_mul L R
         else if t = VT_ON \<or> t = VT_WHERE then C
         else if t = VT_SUB then exec_sub L R
         else if t = VT_VARCHAR then Inr (i_value d)
         else if t = VT_XOR then exec_xor L R
         else Inl (Runtime ERRNO_MALFORMED_COMPARISON))"

declare exec_condition.simps [simp del]

definition opnd :: "vitem option \<Rightarrow> error + string" where
  "opnd p = (case p of None \<Rightarrow> Inr [] | Some x \<Rightarrow> exec_condition x [])"

text \<open>The value of an assignment; a column on the right side is not among its cases.\<close>

fun exec_assignment :: "vitem \<Rightarrow> string \<Rightarrow> error + string" where
  "exec_assignment (Item d l r c) res =
     (let L = opnd l; R = opnd r; t = i_type d
      in if t = VT_ADD then exec_add L R
         else if t = VT_ASSIGN then (case r of None \<Rightarrow> Inl (Undefined ''m_right'') | Some x \<Rightarrow> exec_assignment x res)
         else if t = VT_BW_AND \<or> t = VT_BW_OR \<or> t = VT_BW_XOR then Inr res
         else if t = VT_CMPEQ then exec_cmpeq L R
         else if t = VT_CMPGE then exec_cmpge L R
         else if t = VT_CMPGT then exec_cmpgt L R
         else if t = VT_CMPLE then exec_cmple L R
         else if t = VT_CMPLT then exec_cmplt L R
         else if t = VT_CMPNE then exec_cmpne L R
         else if t = VT_DIV then exec_div L R
         else if t = VT_FLOAT \<or> t = VT_INT then Inr (i_value d)
         else if t = VT_AND then exec_and L R
         else if t = VT_NOT then exec_and L R
         else if t = VT_OR then exec_or L R
         else if t = VT_MOD then exec_mod L R
         else if t = VT_MUL then exec_mul L R
         else if t = VT_SUB then exec_sub L R
         else if t = VT_VARCHAR then Inr (i_value d)
         else if t = VT_XOR then exec_xor L R
         else Inr res)"

declare exec_assignment.simps [simp del]

section \<open>Folding of constants\<close>

definition set_const :: "int \<Rightarrow> string \<Rightarrow> idata \<Rightarrow> idata" where
  "set_const ty v d = d \<lparr> i_type := ty, i_value := v \<rparr>"

definition stof_exn :: "string \<Rightarrow> error + fl32" where
  "stof_exn t = (case stof t of None \<Rightarrow> Inl (Logic_error ''stof'') | Some (v, _) \<Rightarrow> Inr v)"

definition stoi_exn :: "string \<Rightarrow> error + int" where
  "stoi_exn t = (case stoi t of None \<Rightarrow> Inl (Logic_error ''stoi'') | Some v \<Rightarrow> Inr v)"

text \<open>A result of \<open>int32_t\<close> arithmetic; an overflow is undefined.\<close>

definition int32_exn :: "int \<Rightarrow> error + int" where
  "int32_exn v = (if - (2 ^ 31) \<le> v \<and> v < 2 ^ 31 then Inr v else Inl (Undefined ''int32_t''))"

definition mixed_float :: "idata \<Rightarrow> idata \<Rightarrow> bool" where
  "mixed_float l r \<longleftrightarrow> i_type l = VT_FLOAT \<and> i_type r = VT_FLOAT
     \<or> i_type l = VT_FLOAT \<and> i_type r = VT_INT \<or> i_type l = VT_INT \<and> i_type r = VT_FLOAT"

definition compact_arith :: "(fl32 \<Rightarrow> fl32 \<Rightarrow> fl32) \<Rightarrow> (int \<Rightarrow> int \<Rightarrow> int) \<Rightarrow> idata \<Rightarrow> idata \<Rightarrow> idata \<Rightarrow> error + idata" where
  "compact_arith f g d l r =
    (if mixed_float l r then attempt (stof_exn (i_value l)) (\<lambda>l_value. attempt (stof_exn (i_value r)) (\<lambda>r_value.
       Inr (set_const VT_FLOAT (ftoa (f l_value r_value)) d)))
     else if i_type l = VT_INT \<and> i_type r = VT_INT then
       attempt (stoi_exn (i_value l)) (\<lambda>l_value. attempt (stoi_exn (i_value r)) (\<lambda>r_value.
       attempt (int32_exn (g l_value r_value)) (\<lambda>v. Inr (set_const VT_INT (to_string v) d))))
     else Inr d)"

definition compact_add :: "idata \<Rightarrow> idata \<Rightarrow> idata \<Rightarrow> error + idata" where
  "compact_add = compact_arith fadd (+)"

definition compact_sub :: "idata \<Rightarrow> idata \<Rightarrow> idata \<Rightarrow> error + idata" where
  "compact_sub = compact_arith fsub (-)"

definition compact_mul :: "idata \<Rightarrow> idata \<Rightarrow> idata \<Rightarrow> error + idata" where
  "compact_mul = compact_arith fmul (*)"

definition compact_div :: "idata \<Rightarrow> idata \<Rightarrow> idata \<Rightarrow> error + idata" where
  "compact_div d l r =
    (if (i_type l = VT_FLOAT \<or> i_type l = VT_INT) \<and> (i_type r = VT_FLOAT \<or> i_type r = VT_INT) then
       attempt (stof_exn (i_value l)) (\<lambda>l_value. attempt (stof_exn (i_value r)) (\<lambda>r_value.
       Inr (set_const VT_FLOAT (ftoa (fdiv l_value r_value)) d)))
     else Inr d)"

definition compact_mod :: "idata \<Rightarrow> idata \<Rightarrow> idata \<Rightarrow> error + idata" where
  "compact_mod d l r = Inr d"

definition compact_cmp :: "(fl32 \<Rightarrow> fl32 \<Rightarrow> bool) \<Rightarrow> (int \<Rightarrow> int \<Rightarrow> bool) \<Rightarrow> (string \<Rightarrow> string \<Rightarrow> bool)
    \<Rightarrow> idata \<Rightarrow> idata \<Rightarrow> idata \<Rightarrow> error + idata" where
  "compact_cmp f g h d l r =
    (if mixed_float l r then attempt (stof_exn (i_value l)) (\<lambda>l_value. attempt (stof_exn (i_value r)) (\<lambda>r_value.
       Inr (set_const VT_BOOLEAN (bool_str (f l_value r_value)) d)))
     else if i_type l = VT_INT \<and> i_type r = VT_INT then
       attempt (stoi_exn (i_value l)) (\<lambda>l_value. attempt (stoi_exn (i_value r)) (\<lambda>r_value.
       Inr (set_const VT_BOOLEAN (bool_str (g l_value r_value)) d)))
     else if i_type l = VT_VARCHAR \<and> i_type r = VT_VARCHAR then
       Inr (set_const VT_BOOLEAN (bool_str (h (i_value l) (i_value r))) d)
     else Inr d)"

definition compact_cmpeq :: "idata \<Rightarrow> idata \<Rightarrow> idata \<Rightarrow> error + idata" where
  "compact_cmpeq = compact_cmp feq (=) (=)"

definition compact_cmpge :: "idata \<Rightarrow> idata \<Rightarrow> idata \<Rightarrow> error + idata" where
  "compact_cmpge = compact_cmp (\<lambda>l r. fle r l) (\<lambda>l r. r \<le> l) (\<lambda>l r. r \<le> l)"

definition compact_cmpgt :: "idata \<Rightarrow> idata \<Rightarrow> idata \<Rightarrow> error + idata" where
  "compact_cmpgt = compact_cmp (\<lambda>l r. flt r l) (\<lambda>l r. r < l) (\<lambda>l r. r < l)"

definition compact_cmple :: "idata \<Rightarrow> idata \<Rightarrow> idata \<Rightarrow> error + idata" where
  "compact_cmple = compact_cmp fle (\<le>) (\<le>)"

definition compact_cmplt :: "idata \<Rightarrow> idata \<Rightarrow> idata \<Rightarrow> error + idata" where
  "compact_cmplt = compact_cmp flt (<) (<)"

definition compact_cmpne :: "idata \<Rightarrow> idata \<Rightarrow> idata \<Rightarrow> error + idata" where
  "compact_cmpne = compact_cmp (\<lambda>l r. \<not> feq l r) (\<noteq>) (\<noteq>)"

definition compact_logic :: "(bool \<Rightarrow> bool \<Rightarrow> bool) \<Rightarrow> idata \<Rightarrow> idata \<Rightarrow> idata \<Rightarrow> error + idata" where
  "compact_logic f d l r =
    (if i_type l = VT_BOOLEAN \<and> i_type r = VT_BOOLEAN then
       attempt (read_bool (i_value l)) (\<lambda>l_value. attempt (read_bool (i_value r)) (\<lambda>r_value.
       Inr (set_const VT_BOOLEAN (bool_str (f l_value r_value)) d)))
     else Inr d)"

definition compact_and :: "idata \<Rightarrow> idata \<Rightarrow> idata \<Rightarrow> error + idata" where
  "compact_and = compact_logic (\<and>)"

definition compact_or :: "idata \<Rightarrow> idata \<Rightarrow> idata \<Rightarrow> error + idata" where
  "compact_or = compact_logic (\<or>)"

definition compact_xor :: "idata \<Rightarrow> idata \<Rightarrow> idata \<Rightarrow> error + idata" where
  "compact_xor = compact_logic (\<lambda>l r. (l \<or> r) \<and> \<not> (l \<and> r))"

text \<open>The routine of a binary operator.\<close>

definition compact_table :: "(int \<times> (idata \<Rightarrow> idata \<Rightarrow> idata \<Rightarrow> error + idata)) list" where
  "compact_table = [(VT_ADD, compact_add), (VT_CMPEQ, compact_cmpeq), (VT_CMPGE, compact_cmpge),
     (VT_CMPGT, compact_cmpgt), (VT_CMPLE, compact_cmple), (VT_CMPLT, compact_cmplt),
     (VT_CMPNE, compact_cmpne), (VT_DIV, compact_div), (VT_AND, compact_and), (VT_OR, compact_or),
     (VT_MOD, compact_mod), (VT_MUL, compact_mul), (VT_SUB, compact_sub), (VT_XOR, compact_xor)]"

text \<open>
  Operands first, then the operator itself. For NOT, only the right operand is there, but
  \<open>compact_and\<close> looks at the left one; a null pointer is undefined everywhere.
\<close>

fun compact_condition :: "vitem \<Rightarrow> error + vitem" where
  "compact_condition (Item d l r c) =
     (let L = (case l of None \<Rightarrow> Inl (Undefined ''m_left'') | Some x \<Rightarrow> compact_condition x);
          R = (case r of None \<Rightarrow> Inl (Undefined ''m_right'') | Some x \<Rightarrow> compact_condition x);
          C = (case c of None \<Rightarrow> Inl (Undefined ''m_on_cond'') | Some x \<Rightarrow> compact_condition x);
          t = i_type d
      in case map_of compact_table t of
           Some f \<Rightarrow> attempt L (\<lambda>l'. attempt R (\<lambda>r'.
             attempt (f d (idat l') (idat r')) (\<lambda>d'. Inr (Item d' (Some l') (Some r') c))))
         | None \<Rightarrow>
           if t = VT_NOT then attempt R (\<lambda>r'. case l of None \<Rightarrow> Inl (Undefined ''m_left'')
             | Some x \<Rightarrow> attempt (compact_and d (idat x) (idat r')) (\<lambda>d'. Inr (Item d' l (Some r') c)))
           else if t = VT_ON \<or> t = VT_WHERE then attempt C (\<lambda>c'. Inr (Item d l r (Some c')))
           else Inr (Item d l r c))"

declare compact_condition.simps [simp del]

end
