(* ===== verification/VmEval.thy ===== *)
theory VmEval
  imports VmExpr
begin

text \<open>
  What the evaluation of an expression computes: comparisons and sums of integer
  texts through \<open>float\<close>, and the logic of the truth values with NULL.
\<close>

section \<open>Integers as floats\<close>

lemma blen_bounds: "0 < n \<Longrightarrow> 2 ^ nat (blen n - 1) \<le> n \<and> n < 2 ^ nat (blen n) \<and> 1 \<le> blen n"
proof (induction n rule: blen.induct)
  case (1 n)
  show ?case
  proof (cases "n = 1")
    case True
    then show ?thesis by (simp add: blen.simps)
  next
    case False
    define k where "k = blen (n div 2)"
    have d: "0 < n div 2" using 1 False by simp
    then have k: "1 \<le> k" "2 ^ nat (k - 1) \<le> n div 2" "n div 2 < 2 ^ nat k" using 1 by (simp_all add: k_def)
    have b: "blen n = k + 1" using 1 by (subst blen.simps) (simp add: k_def)
    have p: "2 ^ nat k = (2 :: int) * 2 ^ nat (k - 1)" "2 ^ nat (k + 1) = (2 :: int) * 2 ^ nat k"
      using k(1) by (simp_all flip: power_Suc add: Suc_nat_eq_nat_zadd1)
    have "2 * (n div 2) \<le> n" "n < 2 * (n div 2) + 2" by presburger+
    moreover have "n div 2 + 1 \<le> 2 ^ nat k" using k(3) by simp
    ultimately have "2 ^ nat k \<le> n" "n < 2 ^ nat (k + 1)" using k(2) p by linarith+
    then show ?thesis using k(1) unfolding b by simp
  qed
qed

lemma blen_less: "0 < n \<Longrightarrow> n < 2 ^ k \<Longrightarrow> blen n \<le> int k"
proof (rule ccontr)
  assume n: "0 < n" "n < 2 ^ k" and "\<not> blen n \<le> int k"
  then have "(2 :: int) ^ k \<le> 2 ^ nat (blen n - 1)" by (intro power_increasing) auto
  with n blen_bounds [of n] show False by simp
qed

text \<open>A value that is an integer.\<close>

definition is_int :: "fl32 \<Rightarrow> int \<Rightarrow> bool" where
  "is_int v n \<longleftrightarrow> (\<exists>m e. v = Fin (n < 0) m e \<and> e \<le> 0 \<and> m = \<bar>n\<bar> * 2 ^ nat (- e))"

lemma round_small:
  assumes "0 \<le> n" "n < 2 ^ 24"
  shows "\<exists>e. e \<le> 0 \<and> -149 \<le> e \<and> round_f32 s n 1 = Fin s (n * 2 ^ nat (- e)) e \<and> (n \<noteq> 0 \<longrightarrow> 2 ^ 23 \<le> n * 2 ^ nat (- e))"
proof (cases "n = 0")
  case True
  then show ?thesis by (intro exI [of _ "-149"]) (simp add: round_f32_def zero_f32_def)
next
  case False
  define k where "k = nat (blen n)"
  have b: "blen n = int k" "k \<le> 24" "1 \<le> k" "2 ^ (k - 1) \<le> n" "n < 2 ^ k"
    using blen_bounds [of n] blen_less [of n 24] assms False by (auto simp: k_def nat_diff_distrib')
  have one: "blen 1 = 1" by (simp add: blen.simps)
  have p: "(2 :: int) ^ (25 - k) * 2 ^ (k - 1) = 2 ^ 24" "(2 :: int) ^ (24 - k) * 2 ^ (k - 1) = 2 ^ 23"
    "(2 :: int) ^ (24 - k) * 2 ^ k = 2 ^ 24"
    using b by (simp_all flip: power_add)
  have up: "2 ^ 24 \<le> n * 2 ^ (25 - k)" "2 ^ 23 \<le> n * 2 ^ (24 - k)" "n * 2 ^ (24 - k) < 2 ^ 24"
    using mult_right_mono [OF b(4), of "2 ^ (25 - k)"] mult_right_mono [OF b(4), of "2 ^ (24 - k)"]
      mult_strict_right_mono [OF b(5), of "2 ^ (24 - k)"] p [unfolded mult.commute [of "2 ^ (25 - k)"] mult.commute [of "2 ^ (24 - k)"]]
    by (simp_all only: zero_le_power zero_less_power zero_le_numeral zero_less_numeral simp_thms)
  have e: "round_exp n 1 = int k - 24"
    using up(1) b(2) by (simp add: round_exp_def one b(1) scale2_def nat_diff_distrib' Let_def)
  have "round_f32 s n 1 = Fin s (n * 2 ^ (24 - k)) (int k - 24)"
    using up False b(2) assms(2) by (simp add: round_f32_def e Let_def scale2_def rdiv_def nat_diff_distrib')
  then show ?thesis
    using b(2) up by (intro exI [of _ "int k - 24"]) (simp add: nat_diff_distrib')
qed

lemma base_val_digits: "list_all isdigit ds \<Longrightarrow> foldl (\<lambda>acc c. 10 * acc + int (xdigit c)) (int a) ds = int (digits_val ds a)"
proof (induction ds arbitrary: a)
  case (Cons c cs)
  have "10 * int a + int (xdigit c) = int (10 * a + char_digit c)" using Cons.prems by (simp add: xdigit_def)
  then show ?case using Cons.IH [of "10 * a + char_digit c"] Cons.prems by (simp del: of_nat_add of_nat_mult)
qed simp

lemma number_part_digits:
  assumes "ds \<noteq> []" "list_all isdigit ds"
  shows "number_part ds = Some ((int (digits_val ds 0), 1), length ds)"
proof -
  have t: "takeWhile isdigit ds = ds" using assms(2) by (simp add: list_all_iff)
  have x: "\<not> is_xnum ds"
  proof
    assume x: "is_xnum ds"
    then have "length (take 2 ds) = 2" by (metis is_xnum_def length_map lower_def length_Cons list.size(3) numeral_2_eq_2)
    then obtain a b r where r: "ds = a # b # r" by (cases ds rule: remdups_adj.cases) auto
    have "tolower b \<noteq> CHR ''x''" using assms(2) r
      by (auto simp: isdigit_def tolower_def isupper_def Let_def)
    then show False using x by (simp add: is_xnum_def lower_def r)
  qed
  have "mantissa 10 ds = Some (int (digits_val ds 0), 0, length ds)"
    using assms(1) base_val_digits [OF assms(2), of 0]
    by (simp add: mantissa_def base_val_def Let_def t del: takeWhile_eq_all_conv)
  then show ?thesis using x by (simp add: number_part_def exponent_part_def)
qed

lemma number_not_word:
  assumes "list_all isdigit ds"
  shows "lower (take 8 ds) \<noteq> ''infinity''" "lower (take 3 ds) \<noteq> ''inf''" "lower (take 3 ds) \<noteq> ''nan''"
proof -
  have "\<not> isalpha (tolower c)" if "c \<in> set ds" for c
    using assms that by (auto simp: list_all_iff char_defs Let_def)
  then have *: "\<And>c k. c \<in> set (lower (take k ds)) \<Longrightarrow> \<not> isalpha c"
    by (auto simp: lower_def dest: in_set_takeD)
  have a: "isalpha (CHR ''i'')" "isalpha (CHR ''n'')" by (simp_all add: char_defs)
  have "CHR ''i'' \<notin> set (lower (take k ds))" "CHR ''n'' \<notin> set (lower (take k ds))" for k
    using * a by blast+
  then show "lower (take 8 ds) \<noteq> ''infinity''" "lower (take 3 ds) \<noteq> ''inf''" "lower (take 3 ds) \<noteq> ''nan''"
    by (metis list.set_intros(1))+
qed

lemma digit_no_sign: "isdigit c \<Longrightarrow> \<not> isspace c \<and> c \<noteq> CHR ''-'' \<and> c \<noteq> CHR ''+''"
  by (auto simp: char_defs Let_def)

lemma stof_digits:
  assumes "ds \<noteq> []" "list_all isdigit ds" "digits_val ds 0 < 2 ^ 24"
  shows "\<exists>v. stof ds = Some (v, length ds) \<and> is_int v (int (digits_val ds 0))"
    "digits_val ds 0 \<noteq> 0 \<Longrightarrow> \<exists>v. stof (CHR ''-'' # ds) = Some (v, Suc (length ds)) \<and> is_int v (- int (digits_val ds 0))"
proof -
  let ?n = "int (digits_val ds 0)"
  have n: "0 \<le> ?n" "?n < 2 ^ 24" using assms(3) by simp_all
  obtain e where e: "e \<le> 0" "\<And>s. round_f32 s ?n 1 = Fin s (?n * 2 ^ nat (- e)) e" "?n \<noteq> 0 \<longrightarrow> 2 ^ 23 \<le> ?n * 2 ^ nat (- e)"
  proof -
    obtain e where e: "e \<le> 0" "round_f32 False ?n 1 = Fin False (?n * 2 ^ nat (- e)) e" "?n \<noteq> 0 \<longrightarrow> 2 ^ 23 \<le> ?n * 2 ^ nat (- e)"
      using round_small [OF n] by blast
    have "round_f32 s ?n 1 = Fin s (?n * 2 ^ nat (- e)) e" for s
      using e(2) by (auto simp: round_f32_def zero_f32_def Let_def split: prod.splits if_splits)
    with e that show thesis by blast
  qed
  have nr: "\<not> range_error ?n 1" using e by (auto simp: range_error_def scale2_def)
  have hd: "isdigit (hd ds)" "\<not> isspace (hd ds)" "hd ds \<noteq> CHR ''-''" "hd ds \<noteq> CHR ''+''"
    using assms(1,2) digit_no_sign [of "hd ds"] by (cases ds; auto)+
  then have dw: "dropWhile isspace ds = ds" by (cases ds) auto
  note facts = number_part_digits [OF assms(1,2)] number_not_word [OF assms(2)] nr e
  have "stof ds = Some (Fin False (?n * 2 ^ nat (- e)) e, length ds)"
    using hd assms(1) by (simp add: stof_def dw facts Let_def)
  then show "\<exists>v. stof ds = Some (v, length ds) \<and> is_int v ?n"
    using e(1) by (auto simp: is_int_def)
  assume "digits_val ds 0 \<noteq> 0"
  moreover have "stof (CHR ''-'' # ds) = Some (Fin True (?n * 2 ^ nat (- e)) e, Suc (length ds))"
    by (simp add: stof_def isspace_def facts Let_def)
  ultimately show "\<exists>v. stof (CHR ''-'' # ds) = Some (v, Suc (length ds)) \<and> is_int v (- ?n)"
    using e(1) by (auto simp: is_int_def)
qed

lemma is_number_int:
  assumes "\<bar>n\<bar> < 2 ^ 24"
  shows "\<exists>v. is_number (to_string n) = Some v \<and> is_int v n"
proof -
  let ?ds = "nat_str (nat \<bar>n\<bar>)"
  have ds: "?ds \<noteq> []" "list_all isdigit ?ds" "digits_val ?ds 0 < 2 ^ 24"
    using assms nat_str_digits [of "nat \<bar>n\<bar>"] by (auto simp: list_all_iff nat_less_iff)
  show ?thesis
  proof (cases "n < 0")
    case True
    with stof_digits(2) [OF ds] show ?thesis by (auto simp: is_number_def to_string_def)
  next
    case False
    with stof_digits(1) [OF ds] show ?thesis by (auto simp: is_number_def to_string_def)
  qed
qed

lemma at_exp_int: "v = Fin (n < 0) m e \<Longrightarrow> e \<le> 0 \<Longrightarrow> m = \<bar>n\<bar> * 2 ^ nat (- e) \<Longrightarrow> g \<le> e \<Longrightarrow> at_exp g (n < 0) m e = n * 2 ^ nat (- g)"
proof -
  assume *: "e \<le> 0" "m = \<bar>n\<bar> * 2 ^ nat (- e)" "g \<le> e"
  have "(2 :: int) ^ nat (- e) * 2 ^ nat (e - g) = 2 ^ nat (- g)"
    using * by (simp flip: power_add nat_add_distrib)
  with * show ?thesis by (auto simp: at_exp_def algebra_simps abs_if)
qed

lemma int_compare:
  assumes "is_int a m" "is_int b n"
  shows "feq a b \<longleftrightarrow> m = n" "flt a b \<longleftrightarrow> m < n" "fle a b \<longleftrightarrow> m \<le> n"
proof -
  obtain p e where a: "a = Fin (m < 0) p e" "e \<le> 0" "p = \<bar>m\<bar> * 2 ^ nat (- e)" using assms(1) by (auto simp: is_int_def)
  obtain q f where b: "b = Fin (n < 0) q f" "f \<le> 0" "q = \<bar>n\<bar> * 2 ^ nat (- f)" using assms(2) by (auto simp: is_int_def)
  let ?g = "min e f"
  have "at_exp ?g (m < 0) p e = m * 2 ^ nat (- ?g)" "at_exp ?g (n < 0) q f = n * 2 ^ nat (- ?g)"
    using at_exp_int [OF a, of ?g] at_exp_int [OF b, of ?g] by simp_all
  then show eq: "feq a b \<longleftrightarrow> m = n" and lt: "flt a b \<longleftrightarrow> m < n" by (simp_all add: a(1) b(1) Let_def)
  show "fle a b \<longleftrightarrow> m \<le> n" using eq lt by (auto simp: fle_def)
qed

lemma exec_cmp_ints:
  assumes "\<bar>m\<bar> < 2 ^ 24" "\<bar>n\<bar> < 2 ^ 24"
    and "\<And>a b. is_int a m \<Longrightarrow> is_int b n \<Longrightarrow> f a b = r"
  shows "exec_cmp f g (Inr (to_string m)) (Inr (to_string n)) = Inr (bool_str r)"
proof -
  obtain a b where "is_number (to_string m) = Some a" "is_int a m" "is_number (to_string n) = Some b" "is_int b n"
    using is_number_int assms(1,2) by meson
  moreover have "to_string m \<noteq> []" "to_string n \<noteq> []" by (simp_all add: to_string_def)
  ultimately show ?thesis using assms(3) by (simp add: exec_cmp_def both_def)
qed

text \<open>
  C15. Two integers are compared exactly by all six comparison operators as long
  as they lie strictly between minus and plus two to the 24.
\<close>

theorem int_comparison_exact:
  assumes "\<bar>m\<bar> < 2 ^ 24" "\<bar>n\<bar> < 2 ^ 24"
  shows "exec_cmpeq (Inr (to_string m)) (Inr (to_string n)) = Inr (bool_str (m = n))
    \<and> exec_cmpne (Inr (to_string m)) (Inr (to_string n)) = Inr (bool_str (m \<noteq> n))
    \<and> exec_cmplt (Inr (to_string m)) (Inr (to_string n)) = Inr (bool_str (m < n))
    \<and> exec_cmple (Inr (to_string m)) (Inr (to_string n)) = Inr (bool_str (m \<le> n))
    \<and> exec_cmpgt (Inr (to_string m)) (Inr (to_string n)) = Inr (bool_str (m > n))
    \<and> exec_cmpge (Inr (to_string m)) (Inr (to_string n)) = Inr (bool_str (m \<ge> n))"
  unfolding exec_cmpeq_def exec_cmpne_def exec_cmplt_def exec_cmple_def exec_cmpgt_def exec_cmpge_def
  by (intro conjI exec_cmp_ints assms) (simp_all add: int_compare)

theorem int_comparison_exact_witness:
  "exec_cmpeq (Inr (to_string (-5))) (Inr (to_string 16777215)) = Inr (bool_str False)
    \<and> exec_cmplt (Inr (to_string (-5))) (Inr (to_string 16777215)) = Inr (bool_str True)"
  using int_comparison_exact [of "-5" 16777215] by simp


section \<open>Logic\<close>

text \<open>A truth value of SQL as the machine keeps it.\<close>

definition tri :: "bool option \<Rightarrow> error + string" where
  "tri v = Inr (case v of None \<Rightarrow> [] | Some b \<Rightarrow> bool_str b)"

lemma read_bool_str [simp]: "read_bool (bool_str b) = Inr b" "bool_str b \<noteq> []" "bool_str True = VM_TRUE" "bool_str False = VM_FALSE"
  by (cases b; simp add: read_bool_def bool_str_def VM_TRUE_def VM_FALSE_def isspace_def)+

lemma read_bool_consts [simp]: "read_bool VM_TRUE = Inr True" "read_bool VM_FALSE = Inr False" "VM_TRUE \<noteq> []" "VM_FALSE \<noteq> []"
  using read_bool_str(1) [of True] read_bool_str(1) [of False] by (simp_all add: VM_TRUE_def VM_FALSE_def)

text \<open>
  C23. The logic of the conditions: AND, OR and XOR on truth values are those
  of SQL, with one exception: NULL on the left decides the result, so NULL AND
  FALSE and NULL OR TRUE are NULL, while FALSE AND NULL is false and TRUE OR
  NULL is true.
\<close>

theorem logic_with_null:
  "exec_and (tri a) (tri b) = tri (case a of None \<Rightarrow> None | Some False \<Rightarrow> Some False | Some True \<Rightarrow> b)
    \<and> exec_or (tri a) (tri b) = tri (case a of None \<Rightarrow> None | Some True \<Rightarrow> Some True | Some False \<Rightarrow> b)
    \<and> exec_xor (tri a) (tri b) = tri (case (a, b) of (Some x, Some y) \<Rightarrow> Some (x \<noteq> y) | _ \<Rightarrow> None)"
proof -
  have "((x \<or> y) \<and> \<not> (x \<and> y)) = (x \<noteq> y)" for x y by blast
  then show ?thesis
    by (intro conjI; cases a; cases b)
       (auto simp: exec_and_def exec_or_def exec_xor_def both_def tri_def split: bool.splits)
qed

end
