(* ===== verification/Opcode.thy ===== *)
theory Opcode
  imports Prelude
begin

text \<open>The opcodes of the virtual machine (\<open>src/inc/opcode.h\<close>).\<close>

abbreviation (input) OP_NOP :: byte where "OP_NOP \<equiv> 0"
abbreviation (input) OP_ADD :: byte where "OP_ADD \<equiv> 1"
abbreviation (input) OP_ADDCLMN :: byte where "OP_ADDCLMN \<equiv> 2"
abbreviation (input) OP_ADDFGNKEY :: byte where "OP_ADDFGNKEY \<equiv> 3"
abbreviation (input) OP_ADDNDX :: byte where "OP_ADDNDX \<equiv> 4"
abbreviation (input) OP_ALTDB :: byte where "OP_ALTDB \<equiv> 5"
abbreviation (input) OP_ALTUSR :: byte where "OP_ALTUSR \<equiv> 6"
abbreviation (input) OP_AND :: byte where "OP_AND \<equiv> 7"
abbreviation (input) OP_CALL :: byte where "OP_CALL \<equiv> 8"
abbreviation (input) OP_CMPEQ :: byte where "OP_CMPEQ \<equiv> 9"
abbreviation (input) OP_CMPGE :: byte where "OP_CMPGE \<equiv> 10"
abbreviation (input) OP_CMPGT :: byte where "OP_CMPGT \<equiv> 11"
abbreviation (input) OP_CMPLE :: byte where "OP_CMPLE \<equiv> 12"
abbreviation (input) OP_CMPLT :: byte where "OP_CMPLT \<equiv> 13"
abbreviation (input) OP_CMPNE :: byte where "OP_CMPNE \<equiv> 14"
abbreviation (input) OP_CRJOIN :: byte where "OP_CRJOIN \<equiv> 15"
abbreviation (input) OP_CRTDB :: byte where "OP_CRTDB \<equiv> 16"
abbreviation (input) OP_CRTTBL :: byte where "OP_CRTTBL \<equiv> 17"
abbreviation (input) OP_CRTUSR :: byte where "OP_CRTUSR \<equiv> 18"
abbreviation (input) OP_DELETE :: byte where "OP_DELETE \<equiv> 19"
abbreviation (input) OP_DESCRIBE :: byte where "OP_DESCRIBE \<equiv> 20"
abbreviation (input) OP_DIV :: byte where "OP_DIV \<equiv> 21"
abbreviation (input) OP_DROPCLMN :: byte where "OP_DROPCLMN \<equiv> 22"
abbreviation (input) OP_DROPDB :: byte where "OP_DROPDB \<equiv> 23"
abbreviation (input) OP_DROPFGNKEY :: byte where "OP_DROPFGNKEY \<equiv> 24"
abbreviation (input) OP_DROPNDX :: byte where "OP_DROPNDX \<equiv> 25"
abbreviation (input) OP_DROPTBL :: byte where "OP_DROPTBL \<equiv> 26"
abbreviation (input) OP_DROPUSR :: byte where "OP_DROPUSR \<equiv> 27"
abbreviation (input) OP_GRANT :: byte where "OP_GRANT \<equiv> 28"
abbreviation (input) OP_INJOIN :: byte where "OP_INJOIN \<equiv> 29"
abbreviation (input) OP_INSERT :: byte where "OP_INSERT \<equiv> 30"
abbreviation (input) OP_LOADDATA :: byte where "OP_LOADDATA \<equiv> 31"
abbreviation (input) OP_LTJOIN :: byte where "OP_LTJOIN \<equiv> 32"
abbreviation (input) OP_MKASSIGN :: byte where "OP_MKASSIGN \<equiv> 33"
abbreviation (input) OP_MKASTEXPR :: byte where "OP_MKASTEXPR \<equiv> 34"
abbreviation (input) OP_MKCLMNDEF :: byte where "OP_MKCLMNDEF \<equiv> 35"
abbreviation (input) OP_MKCLMNEXPR :: byte where "OP_MKCLMNEXPR \<equiv> 36"
abbreviation (input) OP_MKEXPR :: byte where "OP_MKEXPR \<equiv> 37"
abbreviation (input) OP_MKEXPRHDR :: byte where "OP_MKEXPRHDR \<equiv> 38"
abbreviation (input) OP_MKEXPRLST :: byte where "OP_MKEXPRLST \<equiv> 39"
abbreviation (input) OP_MKFGNKEY :: byte where "OP_MKFGNKEY \<equiv> 40"
abbreviation (input) OP_MKPRIKEY :: byte where "OP_MKPRIKEY \<equiv> 41"
abbreviation (input) OP_MKUNIKEY :: byte where "OP_MKUNIKEY \<equiv> 42"
abbreviation (input) OP_MKUSR :: byte where "OP_MKUSR \<equiv> 43"
abbreviation (input) OP_MKWRKSCH :: byte where "OP_MKWRKSCH \<equiv> 44"
abbreviation (input) OP_MUL :: byte where "OP_MUL \<equiv> 45"
abbreviation (input) OP_NEGATE :: byte where "OP_NEGATE \<equiv> 46"
abbreviation (input) OP_NOT :: byte where "OP_NOT \<equiv> 47"
abbreviation (input) OP_ON :: byte where "OP_ON \<equiv> 48"
abbreviation (input) OP_OPNTBL :: byte where "OP_OPNTBL \<equiv> 49"
abbreviation (input) OP_OR :: byte where "OP_OR \<equiv> 50"
abbreviation (input) OP_ORDERBY :: byte where "OP_ORDERBY \<equiv> 51"
abbreviation (input) OP_PUSH :: byte where "OP_PUSH \<equiv> 52"
abbreviation (input) OP_PUSHO :: byte where "OP_PUSHO \<equiv> 53"
abbreviation (input) OP_RET :: byte where "OP_RET \<equiv> 54"
abbreviation (input) OP_REVOKE :: byte where "OP_REVOKE \<equiv> 55"
abbreviation (input) OP_RTJOIN :: byte where "OP_RTJOIN \<equiv> 56"
abbreviation (input) OP_SELECT :: byte where "OP_SELECT \<equiv> 57"
abbreviation (input) OP_SETOUTF :: byte where "OP_SETOUTF \<equiv> 58"
abbreviation (input) OP_SHOWDBS :: byte where "OP_SHOWDBS \<equiv> 59"
abbreviation (input) OP_SHOWTBLS :: byte where "OP_SHOWTBLS \<equiv> 60"
abbreviation (input) OP_SLCKTBL :: byte where "OP_SLCKTBL \<equiv> 61"
abbreviation (input) OP_SUB :: byte where "OP_SUB \<equiv> 62"
abbreviation (input) OP_ULCKTBL :: byte where "OP_ULCKTBL \<equiv> 63"
abbreviation (input) OP_UPDATE :: byte where "OP_UPDATE \<equiv> 64"
abbreviation (input) OP_USE :: byte where "OP_USE \<equiv> 65"
abbreviation (input) OP_USING :: byte where "OP_USING \<equiv> 66"
abbreviation (input) OP_WHERE :: byte where "OP_WHERE \<equiv> 67"

end
