(* ===== verification/CompLexer.thy ===== *)
theory CompLexer
  imports Lexer
begin

text \<open>
  The lexer of the assembler (\<open>src/comp\<close>, class \<open>comp_lexer\<close>): token types, the
  table of the mnemonics, and \<open>next_token\<close> with its scanners. It has the fields of
  the record \<open>lexer\<close> and no more. Two characters make it stand still: on a minus
  sign \<open>number\<close> returns an empty number without consuming anything.
\<close>

section \<open>Token types and mnemonics\<close>

abbreviation (input) C_ADD :: int where "C_ADD \<equiv> 0"
abbreviation (input) C_ADDCLMN :: int where "C_ADDCLMN \<equiv> 1"
abbreviation (input) C_ADDFGNKEY :: int where "C_ADDFGNKEY \<equiv> 2"
abbreviation (input) C_ADDNDX :: int where "C_ADDNDX \<equiv> 3"
abbreviation (input) C_ALTDB :: int where "C_ALTDB \<equiv> 4"
abbreviation (input) C_ALTUSR :: int where "C_ALTUSR \<equiv> 5"
abbreviation (input) C_AND :: int where "C_AND \<equiv> 6"
abbreviation (input) C_ASTERISK :: int where "C_ASTERISK \<equiv> 7"
abbreviation (input) C_BACKSLASH :: int where "C_BACKSLASH \<equiv> 8"
abbreviation (input) C_CALL :: int where "C_CALL \<equiv> 9"
abbreviation (input) C_CHAR :: int where "C_CHAR \<equiv> 10"
abbreviation (input) C_COMMA :: int where "C_COMMA \<equiv> 11"
abbreviation (input) C_CMPEQ :: int where "C_CMPEQ \<equiv> 12"
abbreviation (input) C_CMPGE :: int where "C_CMPGE \<equiv> 13"
abbreviation (input) C_CMPGT :: int where "C_CMPGT \<equiv> 14"
abbreviation (input) C_CMPLE :: int where "C_CMPLE \<equiv> 15"
abbreviation (input) C_CMPLT :: int where "C_CMPLT \<equiv> 16"
abbreviation (input) C_CMPNE :: int where "C_CMPNE \<equiv> 17"
abbreviation (input) C_CRJOIN :: int where "C_CRJOIN \<equiv> 18"
abbreviation (input) C_CRTDB :: int where "C_CRTDB \<equiv> 19"
abbreviation (input) C_CRTTBL :: int where "C_CRTTBL \<equiv> 20"
abbreviation (input) C_CRTUSR :: int where "C_CRTUSR \<equiv> 21"
abbreviation (input) C_DATA :: int where "C_DATA \<equiv> 22"
abbreviation (input) C_DELETE :: int where "C_DELETE \<equiv> 23"
abbreviation (input) C_DESCRIBE :: int where "C_DESCRIBE \<equiv> 24"
abbreviation (input) C_DIV :: int where "C_DIV \<equiv> 25"
abbreviation (input) C_DOLLAR :: int where "C_DOLLAR \<equiv> 26"
abbreviation (input) C_DOT :: int where "C_DOT \<equiv> 27"
abbreviation (input) C_DQUOTMARK :: int where "C_DQUOTMARK \<equiv> 28"
abbreviation (input) C_DROPCLMN :: int where "C_DROPCLMN \<equiv> 29"
abbreviation (input) C_DROPDB :: int where "C_DROPDB \<equiv> 30"
abbreviation (input) C_DROPFGNKEY :: int where "C_DROPFGNKEY \<equiv> 31"
abbreviation (input) C_DROPNDX :: int where "C_DROPNDX \<equiv> 32"
abbreviation (input) C_DROPTBL :: int where "C_DROPTBL \<equiv> 33"
abbreviation (input) C_DROPUSR :: int where "C_DROPUSR \<equiv> 34"
abbreviation (input) C_FLOAT :: int where "C_FLOAT \<equiv> 35"
abbreviation (input) C_GRANT :: int where "C_GRANT \<equiv> 36"
abbreviation (input) C_HASHTAG :: int where "C_HASHTAG \<equiv> 37"
abbreviation (input) C_INJOIN :: int where "C_INJOIN \<equiv> 38"
abbreviation (input) C_INSERT :: int where "C_INSERT \<equiv> 39"
abbreviation (input) C_INT :: int where "C_INT \<equiv> 40"
abbreviation (input) C_LOADDATA :: int where "C_LOADDATA \<equiv> 41"
abbreviation (input) C_LTJOIN :: int where "C_LTJOIN \<equiv> 42"
abbreviation (input) C_L_PAREN :: int where "C_L_PAREN \<equiv> 43"
abbreviation (input) C_MINUS :: int where "C_MINUS \<equiv> 44"
abbreviation (input) C_MKASSIGN :: int where "C_MKASSIGN \<equiv> 45"
abbreviation (input) C_MKASTEXPR :: int where "C_MKASTEXPR \<equiv> 46"
abbreviation (input) C_MKCLMNDEF :: int where "C_MKCLMNDEF \<equiv> 47"
abbreviation (input) C_MKCLMNEXPR :: int where "C_MKCLMNEXPR \<equiv> 48"
abbreviation (input) C_MKEXPR :: int where "C_MKEXPR \<equiv> 49"
abbreviation (input) C_MKEXPRHDR :: int where "C_MKEXPRHDR \<equiv> 50"
abbreviation (input) C_MKEXPRLST :: int where "C_MKEXPRLST \<equiv> 51"
abbreviation (input) C_MKFGNKEY :: int where "C_MKFGNKEY \<equiv> 52"
abbreviation (input) C_MKPRIKEY :: int where "C_MKPRIKEY \<equiv> 53"
abbreviation (input) C_MKUNIKEY :: int where "C_MKUNIKEY \<equiv> 54"
abbreviation (input) C_MKUSR :: int where "C_MKUSR \<equiv> 55"
abbreviation (input) C_MKWRKSCH :: int where "C_MKWRKSCH \<equiv> 56"
abbreviation (input) C_MUL :: int where "C_MUL \<equiv> 57"
abbreviation (input) C_NEGATE :: int where "C_NEGATE \<equiv> 58"
abbreviation (input) C_NOP :: int where "C_NOP \<equiv> 59"
abbreviation (input) C_NOT :: int where "C_NOT \<equiv> 60"
abbreviation (input) C_ON :: int where "C_ON \<equiv> 61"
abbreviation (input) C_OPNTBL :: int where "C_OPNTBL \<equiv> 62"
abbreviation (input) C_OR :: int where "C_OR \<equiv> 63"
abbreviation (input) C_ORDERBY :: int where "C_ORDERBY \<equiv> 64"
abbreviation (input) C_PERCENT :: int where "C_PERCENT \<equiv> 65"
abbreviation (input) C_PLUS :: int where "C_PLUS \<equiv> 66"
abbreviation (input) C_PRIMARY :: int where "C_PRIMARY \<equiv> 67"
abbreviation (input) C_PUSH :: int where "C_PUSH \<equiv> 68"
abbreviation (input) C_PUSHO :: int where "C_PUSHO \<equiv> 69"
abbreviation (input) C_QUOTMARK :: int where "C_QUOTMARK \<equiv> 70"
abbreviation (input) C_R_PAREN :: int where "C_R_PAREN \<equiv> 71"
abbreviation (input) C_RET :: int where "C_RET \<equiv> 72"
abbreviation (input) C_REVOKE :: int where "C_REVOKE \<equiv> 73"
abbreviation (input) C_RTJOIN :: int where "C_RTJOIN \<equiv> 74"
abbreviation (input) C_SELECT :: int where "C_SELECT \<equiv> 75"
abbreviation (input) C_SETOUTF :: int where "C_SETOUTF \<equiv> 76"
abbreviation (input) C_SHOWDBS :: int where "C_SHOWDBS \<equiv> 77"
abbreviation (input) C_SHOWTBLS :: int where "C_SHOWTBLS \<equiv> 78"
abbreviation (input) C_SLCKTBL :: int where "C_SLCKTBL \<equiv> 79"
abbreviation (input) C_SUB :: int where "C_SUB \<equiv> 80"
abbreviation (input) C_TEXT :: int where "C_TEXT \<equiv> 81"
abbreviation (input) C_ULCKTBL :: int where "C_ULCKTBL \<equiv> 82"
abbreviation (input) C_UPDATE :: int where "C_UPDATE \<equiv> 83"
abbreviation (input) C_USE :: int where "C_USE \<equiv> 84"
abbreviation (input) C_USING :: int where "C_USING \<equiv> 85"
abbreviation (input) C_VARCHAR :: int where "C_VARCHAR \<equiv> 86"
abbreviation (input) C_WHERE :: int where "C_WHERE \<equiv> 87"

definition comp_symbol :: "(string \<times> int) list" where
  "comp_symbol = [
    (''ADD'', C_ADD),
    (''ADDCLMN'', C_ADDCLMN),
    (''ADDFGNKEY'', C_ADDFGNKEY),
    (''ADDNDX'', C_ADDNDX),
    (''ALTUSR'', C_ALTUSR),
    (''AND'', C_AND),
    (''CALL'', C_CALL),
    (''CHAR'', C_CHAR),
    (''CMPEQ'', C_CMPEQ),
    (''CMPGE'', C_CMPGE),
    (''CMPGT'', C_CMPGT),
    (''CMPLE'', C_CMPLE),
    (''CMPLT'', C_CMPLT),
    (''CMPNE'', C_CMPNE),
    (''CRJOIN'', C_CRJOIN),
    (''CRTDB'', C_CRTDB),
    (''CRTTBL'', C_CRTTBL),
    (''CRTUSR'', C_CRTUSR),
    (''DATA'', C_DATA),
    (''DELETE'', C_DELETE),
    (''DESCRIBE'', C_DESCRIBE),
    (''DIV'', C_DIV),
    (''DROPCLMN'', C_DROPCLMN),
    (''DROPDB'', C_DROPDB),
    (''DROPFGNKEY'', C_DROPFGNKEY),
    (''DROPNDX'', C_DROPNDX),
    (''DROPTBL'', C_DROPTBL),
    (''DROPUSR'', C_DROPUSR),
    (''FLOAT'', C_FLOAT),
    (''GRANT'', C_GRANT),
    (''INJOIN'', C_INJOIN),
    (''INSERT'', C_INSERT),
    (''INT'', C_INT),
    (''LOADDATA'', C_LOADDATA),
    (''LTJOIN'', C_LTJOIN),
    (''MKASSIGN'', C_MKASSIGN),
    (''MKASTEXPR'', C_MKASTEXPR),
    (''MKCLMNDEF'', C_MKCLMNDEF),
    (''MKCLMNEXPR'', C_MKCLMNEXPR),
    (''MKEXPR'', C_MKEXPR),
    (''MKEXPRHDR'', C_MKEXPRHDR),
    (''MKEXPRLST'', C_MKEXPRLST),
    (''MKFGNKEY'', C_MKFGNKEY),
    (''MKPRIKEY'', C_MKPRIKEY),
    (''MKUNIKEY'', C_MKUNIKEY),
    (''MKUSR'', C_MKUSR),
    (''MKWRKSCH'', C_MKWRKSCH),
    (''MUL'', C_MUL),
    (''NEGATE'', C_NEGATE),
    (''NOP'', C_NOP),
    (''NOT'', C_NOT),
    (''ON'', C_ON),
    (''OPNTBL'', C_OPNTBL),
    (''OR'', C_OR),
    (''ORDERBY'', C_ORDERBY),
    (''PRIMARY'', C_PRIMARY),
    (''PUSH'', C_PUSH),
    (''PUSHO'', C_PUSHO),
    (''RET'', C_RET),
    (''REVOKE'', C_REVOKE),
    (''RTJOIN'', C_RTJOIN),
    (''SELECT'', C_SELECT),
    (''SETOUTF'', C_SETOUTF),
    (''SHOWDBS'', C_SHOWDBS),
    (''SHOWTBLS'', C_SHOWTBLS),
    (''SLCKTBL'', C_SLCKTBL),
    (''SUB'', C_SUB),
    (''TEXT'', C_TEXT),
    (''ULCKTBL'', C_ULCKTBL),
    (''UPDATE'', C_UPDATE),
    (''USE'', C_USE),
    (''USING'', C_USING),
    (''VARCHAR'', C_VARCHAR),
    (''WHERE'', C_WHERE)]"

interpretation comp_sym: symbol_table comp_symbol
proof
  show "sorted_wrt (\<lambda>p q. str_compare (fst p) (fst q) < 0) comp_symbol"
    unfolding successively_conv_sorted_wrt [OF transp_str_compare, symmetric]
    by code_simp
qed

section \<open>The lexer\<close>

type_synonym 'a clexm = "(error, lexer, 'a) exn"

definition comp_lexer_assign :: "lexer \<Rightarrow> lexer \<Rightarrow> lexer" where
  "comp_lexer_assign this other = this \<lparr> lx_input := lx_input other, lx_mark := lx_mark other,
     lx_index := lx_index other, lx_ch := lx_ch other \<rparr>"

definition comp_token_error :: "'a clexm" where
  "comp_token_error = (\<lambda>l. (Inl (Runtime_rem ERRNO_TOKEN_ERROR (lexer_remaining l)), l))"

definition comp_get_symbol_type :: "string \<Rightarrow> int" where
  "comp_get_symbol_type text = symbol_type comp_symbol text"

definition comp_name :: "lexer \<Rightarrow> token \<times> lexer" where
  "comp_name l = (case scan_while (\<lambda>c. isalnum c \<or> c = CHR ''_'') [] l of
     (text, l') \<Rightarrow> (let type = comp_get_symbol_type text
                   in (token_new (if type < 0 then C_VARCHAR else type) text, l')))"

definition comp_number :: "lexer \<Rightarrow> token \<times> lexer" where
  "comp_number l = (case scan_while isdigit [] l of
     (value, l1) \<Rightarrow>
       if lx_ch l1 = CHR ''.'' then
         (case scan_while isdigit (value @ [lx_ch l1]) (lexer_consume l1) of
            (value', l2) \<Rightarrow> (token_new C_FLOAT value', l2))
       else (token_new C_INT value, l1))"

text \<open>
  The loop of \<open>varchar\<close>: a backslash is taken together with the character
  behind it, whatever that is, also the end marker.
\<close>

lemma pot_consume_twice: "lx_ch l \<noteq> EOI_CH \<Longrightarrow> pot (lexer_consume (lexer_consume l)) < pot l"
  using pot_consume [of "lexer_consume l"] pot_consume_less [of l] by simp

function comp_varchar_loop :: "string \<Rightarrow> lexer \<Rightarrow> string \<times> lexer" where
  "comp_varchar_loop tx l =
     (if lx_ch l = EOI_CH then (tx, l)
      else if lx_ch l = BSL then
        comp_varchar_loop (tx @ [lx_ch l, lx_ch (lexer_consume l)]) (lexer_consume (lexer_consume l))
      else if lx_ch l = DQ then (tx, l)
      else comp_varchar_loop (tx @ [lx_ch l]) (lexer_consume l))"
  by pat_completeness auto
termination
  by (relation "measure (\<lambda>(tx, l). pot l)")
     (simp_all add: pot_consume_less pot_consume_twice)

declare comp_varchar_loop.simps [simp del]

definition comp_varchar :: "lexer \<Rightarrow> token \<times> lexer" where
  "comp_varchar l = (case comp_varchar_loop [] (lexer_consume l) of
     (text, l') \<Rightarrow> (token_new C_VARCHAR text, lexer_consume l'))"

definition comp_ws :: "lexer \<Rightarrow> lexer" where
  "comp_ws l = snd (scan_while isspace [] l)"

definition comp_compound :: "token clexm" where
  "comp_compound l =
     (if lx_ch l = CHR ''.'' then
        (if isdigit (lexer_peek l) then (case comp_number l of (tok, l') \<Rightarrow> (Inr tok, l'))
         else (Inr (token_new C_DOT ''.''), lexer_consume l))
      else comp_token_error l)"

definition comp_single_char :: "char \<Rightarrow> (int \<times> string) option" where
  "comp_single_char c = map_of [
     (CHR ''#'', (C_HASHTAG, ''#'')), (CHR ''$'', (C_DOLLAR, ''$'')),
     (CHR ''%'', (C_PERCENT, ''%'')), (SQ, (C_QUOTMARK, [SQ])),
     (CHR ''('', (C_L_PAREN, ''('')), (CHR '')'', (C_R_PAREN, '')'')),
     (CHR ''*'', (C_ASTERISK, ''*'')), (CHR ''+'', (C_PLUS, ''+'')),
     (CHR '','', (C_COMMA, '',''))] c"

lemma pot_comp_ws:
  assumes "isspace (lx_ch l)"
  shows "pot (comp_ws l) < pot l"
proof -
  obtain tx l' where sc: "scan_while isspace [] l = (tx, l')" by fastforce
  have "lx_ch l \<noteq> EOI_CH" using assms isspace_not_EOI by metis
  from scan_while_pot_less [OF this assms sc] show ?thesis by (simp add: comp_ws_def sc)
qed

function comp_next_token_loop :: "lexer \<Rightarrow> (error + token) \<times> lexer" where
  "comp_next_token_loop l =
     (let c = lx_ch l in
      if c = EOI_CH then (Inr (token_new EOI ''<EOI>''), l)
      else if c = CHR '' '' \<or> c = TAB \<or> c = NL then comp_next_token_loop (comp_ws l)
      else if c = DQ then (case comp_varchar l of (tok, l') \<Rightarrow> (Inr tok, l'))
      else (case comp_single_char c of
              Some (type, text) \<Rightarrow> (Inr (token_new type text), lexer_consume l)
            | None \<Rightarrow>
                if c = CHR ''.'' then comp_compound l
                else if c = BSL then (case comp_varchar l of (tok, l') \<Rightarrow> (Inr tok, l'))
                else if isalpha c \<or> c = CHR ''_'' then (case comp_name l of (tok, l') \<Rightarrow> (Inr tok, l'))
                else if isdigit c \<or> c = CHR ''-'' then (case comp_number l of (tok, l') \<Rightarrow> (Inr tok, l'))
                else comp_token_error l))"
  by pat_completeness auto
termination
  by (relation "measure pot") (auto intro!: pot_comp_ws simp: isspace_def)

declare comp_next_token_loop.simps [simp del]

definition comp_next_token :: "token clexm" where
  "comp_next_token l = comp_next_token_loop (l \<lparr> lx_mark := lx_index l \<rparr>)"

end
