(* ===== verification/CompParser.thy ===== *)
theory CompParser
  imports Buffer Opcode CompLexer
begin

text \<open>
  The assembler (\<open>src/comp\<close>, class \<open>comp_parser\<close>): it reads the text that the SQL
  parser dumps, a data segment and a code segment, and writes them as bytes
  into two buffers. Each data item is a type byte, a 16 bit length and the
  characters; the vector \<open>offset\<close> holds where each item starts. The operand of
  PUSHO is an index of that vector, and the code gets the offset found there.
  The recursions of \<open>data\<close> and \<open>text\<close> have fuel.
\<close>

section \<open>State\<close>

abbreviation (input) CODE_CAPACITY :: int where "CODE_CAPACITY \<equiv> 8192"
abbreviation (input) DATA_CAPACITY :: int where "DATA_CAPACITY \<equiv> 8192"

record comp_parser =
  cp_lexer :: lexer
  cp_lookahead :: "token list"
  cp_code :: buffer
  cp_data :: buffer
  cp_index :: nat

type_synonym 'a cpm = "(error, comp_parser, 'a) exn"

section \<open>Lookahead\<close>

definition comp_error :: "'a cpm" where
  "comp_error = (\<lambda>s. (Inl (Runtime_rem ERRNO_TOKEN_ERROR (lexer_remaining (cp_lexer s))), s))"

definition comp_lexer_next :: "token cpm" where
  "comp_lexer_next = (\<lambda>s. case comp_next_token (cp_lexer s) of (r, l) \<Rightarrow> (r, s \<lparr> cp_lexer := l \<rparr>))"

text \<open>The loop of \<open>load_lookahead\<close> runs once for each token that is missing.\<close>

fun comp_load_n :: "nat \<Rightarrow> unit cpm" where
  "comp_load_n 0 = ret ()"
| "comp_load_n (Suc n) = bnd comp_lexer_next (\<lambda>tok.
     sq (modify (\<lambda>s. s \<lparr> cp_lookahead := cp_lookahead s @ [tok] \<rparr>)) (comp_load_n n))"

definition comp_load_lookahead :: "nat \<Rightarrow> unit cpm" where
  "comp_load_lookahead i =
     bnd (gets (\<lambda>s. cp_index s + i - length (cp_lookahead s))) comp_load_n"

definition comp_get_lookahead_token :: "nat \<Rightarrow> token cpm" where
  "comp_get_lookahead_token i = sq (comp_load_lookahead i) (\<lambda>s.
     if cp_index s + i < length (cp_lookahead s)
     then (Inr (cp_lookahead s ! (cp_index s + i)), s)
     else (Inl (Undefined ''m_lookahead''), s))"

definition comp_get_lookahead_type :: "nat \<Rightarrow> int cpm" where
  "comp_get_lookahead_type i = bnd (comp_get_lookahead_token i) (\<lambda>tok. ret (m_type tok))"

definition comp_consume :: "unit cpm" where
  "comp_consume =
     sq (modify (\<lambda>s. s \<lparr> cp_index := cp_index s + 1 \<rparr>)) (
     sq (modify (\<lambda>s. if length (cp_lookahead s) \<le> cp_index s
                      then s \<lparr> cp_index := 0, cp_lookahead := [] \<rparr> else s))
        (comp_load_lookahead 1))"

definition comp_match :: "int \<Rightarrow> unit cpm" where
  "comp_match type = bnd (comp_get_lookahead_type 0) (\<lambda>t.
     if t \<noteq> type then comp_error else comp_consume)"

section \<open>Output\<close>

text \<open>An operation of one of the two buffers.\<close>

definition on_code_buf :: "'a bufm \<Rightarrow> 'a cpm" where
  "on_code_buf m = (\<lambda>s. case m (cp_code s) of (r, b) \<Rightarrow> (r, s \<lparr> cp_code := b \<rparr>))"

definition on_data_buf :: "'a bufm \<Rightarrow> 'a cpm" where
  "on_data_buf m = (\<lambda>s. case m (cp_data s) of (r, b) \<Rightarrow> (r, s \<lparr> cp_data := b \<rparr>))"

text \<open>\<open>std::stoi(get_lookahead_token(0).text())\<close>.\<close>

definition token_stoi :: "int cpm" where
  "token_stoi = bnd (comp_get_lookahead_token 0) (\<lambda>tok.
     case stoi (m_text tok) of Some v \<Rightarrow> ret v | None \<Rightarrow> throw (Logic_error ''stoi''))"

section \<open>Code\<close>

definition call_table :: "(int \<times> byte) list" where
  "call_table = [
    (C_ADD, OP_ADD),
    (C_ADDCLMN, OP_ADDCLMN),
    (C_ADDFGNKEY, OP_ADDFGNKEY),
    (C_ADDNDX, OP_ADDNDX),
    (C_ALTDB, OP_ALTDB),
    (C_ALTUSR, OP_ALTUSR),
    (C_AND, OP_AND),
    (C_CMPEQ, OP_CMPEQ),
    (C_CMPGE, OP_CMPGE),
    (C_CMPGT, OP_CMPGT),
    (C_CMPLE, OP_CMPLE),
    (C_CMPLT, OP_CMPLT),
    (C_CMPNE, OP_CMPNE),
    (C_CRJOIN, OP_CRJOIN),
    (C_CRTDB, OP_CRTDB),
    (C_CRTTBL, OP_CRTTBL),
    (C_CRTUSR, OP_CRTUSR),
    (C_DELETE, OP_DELETE),
    (C_DESCRIBE, OP_DESCRIBE),
    (C_DIV, OP_DIV),
    (C_DROPCLMN, OP_DROPCLMN),
    (C_DROPDB, OP_DROPDB),
    (C_DROPFGNKEY, OP_DROPFGNKEY),
    (C_DROPNDX, OP_DROPNDX),
    (C_DROPTBL, OP_DROPTBL),
    (C_DROPUSR, OP_DROPUSR),
    (C_GRANT, OP_GRANT),
    (C_INJOIN, OP_INJOIN),
    (C_INSERT, OP_INSERT),
    (C_LOADDATA, OP_LOADDATA),
    (C_LTJOIN, OP_LTJOIN),
    (C_MKASSIGN, OP_MKASSIGN),
    (C_MKASTEXPR, OP_MKASTEXPR),
    (C_MKCLMNDEF, OP_MKCLMNDEF),
    (C_MKCLMNEXPR, OP_MKCLMNEXPR),
    (C_MKEXPR, OP_MKEXPR),
    (C_MKEXPRHDR, OP_MKEXPRHDR),
    (C_MKEXPRLST, OP_MKEXPRLST),
    (C_MKFGNKEY, OP_MKFGNKEY),
    (C_MKPRIKEY, OP_MKPRIKEY),
    (C_MKUNIKEY, OP_MKUNIKEY),
    (C_MKUSR, OP_MKUSR),
    (C_MKWRKSCH, OP_MKWRKSCH),
    (C_MUL, OP_MUL),
    (C_NEGATE, OP_NEGATE),
    (C_NOT, OP_NOT),
    (C_ON, OP_ON),
    (C_OPNTBL, OP_OPNTBL),
    (C_OR, OP_OR),
    (C_ORDERBY, OP_ORDERBY),
    (C_REVOKE, OP_REVOKE),
    (C_RTJOIN, OP_RTJOIN),
    (C_SELECT, OP_SELECT),
    (C_SETOUTF, OP_SETOUTF),
    (C_SHOWDBS, OP_SHOWDBS),
    (C_SHOWTBLS, OP_SHOWTBLS),
    (C_SLCKTBL, OP_SLCKTBL),
    (C_SUB, OP_SUB),
    (C_ULCKTBL, OP_ULCKTBL),
    (C_UPDATE, OP_UPDATE),
    (C_USE, OP_USE),
    (C_USING, OP_USING),
    (C_WHERE, OP_WHERE)]"

definition call :: "unit cpm" where
  "call =
     sq (on_code_buf (put OP_CALL)) (
     bnd (comp_get_lookahead_type 0) (\<lambda>t.
     case map_of call_table t of
       Some opc \<Rightarrow> sq comp_consume (on_code_buf (put opc))
     | None \<Rightarrow> comp_error))"

definition comp_push :: "unit cpm" where
  "comp_push =
     sq (on_code_buf (put OP_PUSH)) (
     bnd token_stoi (\<lambda>value.
     sq (comp_match C_INT) (
     on_code_buf (put_int32 (word_of_int value)))))"

definition comp_pusho :: "int list \<Rightarrow> unit cpm" where
  "comp_pusho offset =
     sq (on_code_buf (put OP_PUSHO)) (
     bnd token_stoi (\<lambda>index.
     sq (comp_match C_INT) (
     if 0 \<le> index \<and> nat index < length offset
     then on_code_buf (put_int32 (word_of_int (offset ! nat index)))
     else throw (Undefined ''offset''))))"

fun comp_text :: "nat \<Rightarrow> int list \<Rightarrow> unit cpm" where
  "comp_text 0 offset = throw Fuel"
| "comp_text (Suc n) offset =
     bnd (comp_get_lookahead_type 0) (\<lambda>t.
     if t = C_CALL then sq comp_consume (sq call (comp_text n offset))
     else if t = C_NOP then sq comp_consume (comp_text n offset)
     else if t = C_PUSH then sq comp_consume (sq comp_push (comp_text n offset))
     else if t = C_PUSHO then sq comp_consume (sq (comp_pusho offset) (comp_text n offset))
     else if t = C_RET then sq comp_consume (on_code_buf (put OP_RET))
     else comp_error)"

definition text_segment :: "nat \<Rightarrow> int list \<Rightarrow> unit cpm" where
  "text_segment n offset =
     sq (comp_match C_DOT) (
     sq (comp_match C_TEXT) (
     sq (comp_text n offset) (
     sq (comp_match C_PERCENT)
        (comp_match C_PERCENT))))"

section \<open>Data\<close>

fun comp_data :: "nat \<Rightarrow> int list \<Rightarrow> int list cpm" where
  "comp_data 0 offset = throw Fuel"
| "comp_data (Suc n) offset =
     bnd (comp_get_lookahead_type 0) (\<lambda>t.
     if t = C_PERCENT then ret offset
     else bnd (gets (\<lambda>s. m_index (cp_data s))) (\<lambda>i.
       bnd token_stoi (\<lambda>type.
       sq (on_data_buf (put (word_of_int type))) (
       sq comp_consume (
       bnd (comp_get_lookahead_token 0) (\<lambda>tok.
       sq (on_data_buf (put_int16 (word_of_int (int (length (m_text tok)))))) (
       bnd (comp_get_lookahead_token 0) (\<lambda>tok'.
       sq (on_data_buf (put_varchar (m_text tok'))) (
       sq comp_consume (comp_data n (offset @ [i])))))))))))"

definition data_segment :: "nat \<Rightarrow> int list \<Rightarrow> int list cpm" where
  "data_segment n offset =
     sq (comp_match C_DOT) (
     sq (comp_match C_DATA) (
     bnd (comp_data n offset) (\<lambda>offset'.
     sq (comp_match C_PERCENT) (
     sq (comp_match C_PERCENT) (
     ret offset')))))"

section \<open>The assembler\<close>

definition compile :: "nat \<Rightarrow> unit cpm" where
  "compile n = bnd (data_segment n []) (text_segment n)"

text \<open>
  The constructor, with the contents of the two fresh arrays as arguments, and
  \<open>dump\<close>, which trips both buffers and hands them out.
\<close>

definition comp_parser_new :: "byte list \<Rightarrow> byte list \<Rightarrow> string \<Rightarrow> (error + unit) \<times> comp_parser" where
  "comp_parser_new mem_code mem_data input = comp_load_lookahead 1
     \<lparr> cp_lexer = lexer_new input, cp_lookahead = [], cp_code = new_buffer CODE_CAPACITY mem_code,
       cp_data = new_buffer DATA_CAPACITY mem_data, cp_index = 0 \<rparr>"

definition comp_fuel :: "string \<Rightarrow> nat" where
  "comp_fuel input = length input + 3"

definition comp_parse :: "byte list \<Rightarrow> byte list \<Rightarrow> string \<Rightarrow> (error + unit) \<times> comp_parser" where
  "comp_parse mem_code mem_data input = (case comp_parser_new mem_code mem_data input of
     (Inl e, s) \<Rightarrow> (Inl e, s)
   | (Inr _, s) \<Rightarrow> compile (comp_fuel input) s)"

definition comp_dump :: "comp_parser \<Rightarrow> buffer \<times> buffer" where
  "comp_dump s = (snd (trip (cp_data s)), snd (trip (cp_code s)))"

end
