(* ===== verification/CompCorrect.thy ===== *)
theory CompCorrect
  imports CompParser
begin

text \<open>
  What the assembler produces. First the lexer: \<open>nexts r tok r'\<close> says that a lexer
  standing at the text \<open>r\<close> returns \<open>tok\<close> and then stands at \<open>r'\<close>. Then the parser
  on a sequence of tokens, and last the correctness of the assembler: from the text of a
  data segment and a code segment it produces the bytes of the items and of the
  instructions, with the offset of its item as the operand of every PUSHO.
\<close>

section \<open>One token\<close>

definition nexts :: "string \<Rightarrow> token \<Rightarrow> string \<Rightarrow> bool" where
  "nexts r tok r' \<longleftrightarrow> (\<forall>l. at_text l r \<longrightarrow>
     (\<exists>l'. comp_next_token_loop l = (Inr tok, l') \<and> at_text l' r'))"

lemma nextsI:
  "(\<And>l. at_text l r \<Longrightarrow> \<exists>l'. comp_next_token_loop l = (Inr tok, l') \<and> at_text l' r') \<Longrightarrow> nexts r tok r'"
  by (simp add: nexts_def)

lemma at_text_mark: "at_text (l \<lparr> lx_mark := m \<rparr>) r = at_text l r"
  by (cases r) (simp_all add: at_text_def)

lemma nexts_next_token:
  "nexts r tok r' \<Longrightarrow> at_text l r \<Longrightarrow> \<exists>l'. comp_next_token l = (Inr tok, l') \<and> at_text l' r'"
  by (simp add: nexts_def comp_next_token_def at_text_mark)

lemma nexts_end: "nexts [] (token_new EOI ''<EOI>'') []"
proof (rule nextsI)
  fix l :: lexer assume "at_text l []"
  then show "\<exists>l'. comp_next_token_loop l = (Inr (token_new EOI ''<EOI>''), l') \<and> at_text l' []"
    using at_text_end [of l] by (subst comp_next_token_loop.simps) (simp add: Let_def)
qed

text \<open>White space in front of a token.\<close>

definition blank :: "char \<Rightarrow> bool" where
  "blank c \<longleftrightarrow> c = CHR '' '' \<or> c = TAB \<or> c = NL"

lemma blank_isspace: "blank c \<Longrightarrow> isspace c"
  by (auto simp: blank_def isspace_def)

lemma nexts_blank:
  assumes "list_all blank w" "s \<noteq> [] \<longrightarrow> \<not> isspace (hd s)" "nexts s tok r'"
  shows "nexts (w @ s) tok r'"
proof (cases w)
  case Nil
  with assms show ?thesis by simp
next
  case (Cons c w')
  show ?thesis
  proof (rule nextsI)
    fix l :: lexer assume at: "at_text l (w @ s)"
    then have c: "lx_ch l = c" "c \<noteq> EOI_CH" "blank c" using at_text_ch Cons assms(1) by auto
    have "\<forall>c \<in> set w. isspace c" using assms(1) blank_isspace by (auto simp: list_all_iff)
    from scan_while_at_text [OF at this assms(2), of "[]"]
    obtain l' where "scan_while isspace [] l = (w, l')" "at_text l' s" by auto
    then have ws: "comp_ws l = l'" "at_text l' s" by (simp_all add: comp_ws_def)
    have "comp_next_token_loop l = comp_next_token_loop l'"
      using c ws by (subst comp_next_token_loop.simps) (auto simp: Let_def blank_def)
    with assms(3) ws show "\<exists>l'. comp_next_token_loop l = (Inr tok, l') \<and> at_text l' r'"
      by (simp add: nexts_def)
  qed
qed

lemma single_nexts:
  assumes "comp_single_char c = Some (ty, tx)"
  shows "nexts (c # r) (token_new ty tx) r"
proof (rule nextsI)
  fix l :: lexer assume at: "at_text l (c # r)"
  from assms have "c \<noteq> CHR '' ''" "c \<noteq> TAB" "c \<noteq> NL" "c \<noteq> DQ"
    by (auto simp: comp_single_char_def split: if_splits)
  then show "\<exists>l'. comp_next_token_loop l = (Inr (token_new ty tx), l') \<and> at_text l' r"
    using at_text_ch [OF at] at_text_consume [OF at] assms
    by (subst comp_next_token_loop.simps) (simp add: Let_def)
qed

lemma nexts_dot:
  assumes "r \<noteq> [] \<longrightarrow> \<not> isdigit (hd r)"
  shows "nexts (CHR ''.'' # r) (token_new C_DOT ''.'') r"
proof (rule nextsI)
  fix l :: lexer assume at: "at_text l (CHR ''.'' # r)"
  have "\<not> isdigit (lexer_peek l)"
    using assms by (cases r) (auto simp: at_text_peek [OF at] isdigit_def)
  then show "\<exists>l'. comp_next_token_loop l = (Inr (token_new C_DOT ''.''), l') \<and> at_text l' r"
    using at_text_ch [OF at] at_text_consume [OF at]
    by (subst comp_next_token_loop.simps) (simp add: Let_def comp_single_char_def comp_compound_def)
qed

definition word_char :: "char \<Rightarrow> bool" where
  "word_char c \<longleftrightarrow> isalnum c \<or> c = CHR ''_''"

definition word_type :: "string \<Rightarrow> int" where
  "word_type w = (case map_of comp_symbol (map toupper w) of Some ty \<Rightarrow> ty | None \<Rightarrow> C_VARCHAR)"

lemma comp_symbol_types: "list_all (\<lambda>p. 0 \<le> snd p) comp_symbol"
  by code_simp

lemma word_type_eq: "(let ty = comp_get_symbol_type w in if ty < 0 then C_VARCHAR else ty) = word_type w"
proof (cases "map_of comp_symbol (map toupper w)")
  case (Some ty)
  then have "0 \<le> ty" using comp_symbol_types by (auto simp: list_all_iff dest!: map_of_SomeD)
  with Some show ?thesis
    by (simp add: word_type_def comp_get_symbol_type_def comp_sym.symbol_type_map_of)
qed (simp add: word_type_def comp_get_symbol_type_def comp_sym.symbol_type_map_of)

lemma special_chars:
  "c \<in> {CHR '' '', TAB, NL, DQ, CHR ''.'', BSL} \<Longrightarrow> \<not> (isalpha c \<or> c = CHR ''_'' \<or> isdigit c)"
  by (auto simp: char_defs)

lemma single_chars: "comp_single_char c = None \<or> \<not> (isalpha c \<or> c = CHR ''_'' \<or> isdigit c)"
  by (auto simp: comp_single_char_def char_defs)

lemma nexts_word:
  assumes "w \<noteq> []" "isalpha (hd w) \<or> hd w = CHR ''_''" "list_all word_char w"
    and "r \<noteq> [] \<longrightarrow> \<not> word_char (hd r)"
  shows "nexts (w @ r) (token_new (word_type w) w) r"
proof (rule nextsI)
  fix l :: lexer assume at: "at_text l (w @ r)"
  obtain c w' where w: "w = c # w'" using assms(1) by (cases w) auto
  have c: "lx_ch l = c" "c \<noteq> EOI_CH" using at_text_ch at w by auto
  have "\<forall>c \<in> set w. isalnum c \<or> c = CHR ''_''"
    using assms(3) by (simp add: list_all_iff word_char_def)
  from scan_while_at_text [OF at this, of "[]"] assms(4)
  obtain l' where sc: "scan_while (\<lambda>c. isalnum c \<or> c = CHR ''_'') [] l = (w, l')" "at_text l' r"
    by (auto simp: word_char_def)
  have "isalpha c \<or> c = CHR ''_''" using assms(2) w by simp
  then have ne: "c \<notin> {CHR '' '', TAB, NL, DQ, CHR ''.'', BSL}" "comp_single_char c = None"
    using special_chars [of c] single_chars [of c] by auto
  have "comp_name l = (token_new (word_type w) w, l')"
    using word_type_eq [of w] by (simp add: comp_name_def sc(1) Let_def)
  then show "\<exists>l'. comp_next_token_loop l = (Inr (token_new (word_type w) w), l') \<and> at_text l' r"
    using c ne sc(2) \<open>isalpha c \<or> c = CHR ''_''\<close> by (subst comp_next_token_loop.simps) (simp add: Let_def)
qed

lemma comp_number_digits:
  assumes "at_text l (ds @ r)" "list_all isdigit ds" "r \<noteq> [] \<longrightarrow> \<not> isdigit (hd r) \<and> hd r \<noteq> CHR ''.''"
  shows "\<exists>l'. comp_number l = (token_new C_INT ds, l') \<and> at_text l' r"
proof -
  from scan_while_at_text [OF assms(1), of isdigit "[]"] assms(2,3)
  obtain l' where sc: "scan_while isdigit [] l = (ds, l')" "at_text l' r"
    by (auto simp: list_all_iff)
  then have "lx_ch l' \<noteq> CHR ''.''"
    using assms(3) by (cases r) (auto dest: at_text_ch at_text_end)
  with sc show ?thesis by (simp add: comp_number_def)
qed

lemma comp_number_float:
  assumes "at_text l (ds @ CHR ''.'' # es @ r)" "list_all isdigit ds" "list_all isdigit es"
    "r \<noteq> [] \<longrightarrow> \<not> isdigit (hd r)"
  shows "\<exists>l'. comp_number l = (token_new C_FLOAT (ds @ CHR ''.'' # es), l') \<and> at_text l' r"
proof -
  have "\<not> isdigit CHR ''.''" by (simp add: char_defs)
  with scan_while_at_text [OF assms(1), of isdigit "[]"] assms(2)
  obtain l1 where sc: "scan_while isdigit [] l = (ds, l1)" "at_text l1 (CHR ''.'' # es @ r)"
    by (auto simp: list_all_iff)
  have "at_text (lexer_consume l1) (es @ r)" using at_text_consume sc(2) by blast
  from scan_while_at_text [OF this, of isdigit "ds @ [CHR ''.'']"] assms(3,4)
  obtain l2 where "scan_while isdigit (ds @ [CHR ''.'']) (lexer_consume l1) = (ds @ CHR ''.'' # es, l2)"
    "at_text l2 r"
    by (auto simp: list_all_iff)
  with sc at_text_ch [OF sc(2)] show ?thesis by (simp add: comp_number_def)
qed

lemma next_number:
  assumes "isdigit (lx_ch l) \<or> lx_ch l = CHR ''.'' \<and> isdigit (lexer_peek l)"
  shows "comp_next_token_loop l = (case comp_number l of (tok, l') \<Rightarrow> (Inr tok, l'))"
proof (cases "isdigit (lx_ch l)")
  case True
  then have "lx_ch l \<notin> {CHR '' '', TAB, NL, DQ, CHR ''.'', BSL}" "comp_single_char (lx_ch l) = None"
    using special_chars [of "lx_ch l"] single_chars [of "lx_ch l"] by auto
  moreover have "lx_ch l \<noteq> EOI_CH" "\<not> isalpha (lx_ch l)" "lx_ch l \<noteq> CHR ''_''"
    using True isdigit_not_EOI by (auto simp: char_defs Let_def)
  ultimately show ?thesis using True by (subst comp_next_token_loop.simps) (simp add: Let_def)
next
  case False
  then have "lx_ch l = CHR ''.''" "isdigit (lexer_peek l)" using assms by auto
  then show ?thesis
    by (subst comp_next_token_loop.simps) (simp add: Let_def comp_single_char_def comp_compound_def)
qed

lemma nexts_number:
  assumes "ds \<noteq> []" "list_all isdigit ds" "r \<noteq> [] \<longrightarrow> \<not> isdigit (hd r) \<and> hd r \<noteq> CHR ''.''"
  shows "nexts (ds @ r) (token_new C_INT ds) r"
proof (rule nextsI)
  fix l :: lexer assume at: "at_text l (ds @ r)"
  obtain d ds' where ds: "ds = d # ds'" using assms(1) by (cases ds) auto
  then have "isdigit (lx_ch l)" using at_text_ch [of l d "ds' @ r"] at assms(2) by simp
  with next_number [of l] comp_number_digits [OF at assms(2,3)]
  show "\<exists>l'. comp_next_token_loop l = (Inr (token_new C_INT ds), l') \<and> at_text l' r" by auto
qed

lemma nexts_float:
  assumes "list_all isdigit ds" "list_all isdigit es" "ds \<noteq> [] \<or> es \<noteq> []" "r \<noteq> [] \<longrightarrow> \<not> isdigit (hd r)"
  shows "nexts (ds @ CHR ''.'' # es @ r) (token_new C_FLOAT (ds @ CHR ''.'' # es)) r"
proof (rule nextsI)
  fix l :: lexer assume at: "at_text l (ds @ CHR ''.'' # es @ r)"
  have "isdigit (lx_ch l) \<or> lx_ch l = CHR ''.'' \<and> isdigit (lexer_peek l)"
  proof (cases ds)
    case Nil
    then have at': "at_text l (CHR ''.'' # es @ r)" using at by simp
    obtain e es' where "es = e # es'" using assms(3) Nil by (cases es) auto
    then show ?thesis using at_text_ch [OF at'] at_text_peek [OF at'] assms(2) by simp
  next
    case (Cons d ds')
    then show ?thesis using at_text_ch [of l d "ds' @ CHR ''.'' # es @ r"] at assms(1) by simp
  qed
  with next_number [of l] comp_number_float [OF at assms(1,2,4)]
  show "\<exists>l'. comp_next_token_loop l = (Inr (token_new C_FLOAT (ds @ CHR ''.'' # es)), l') \<and> at_text l' r"
    by auto
qed

text \<open>The body of a string: every backslash has a character behind it, no other double quote.\<close>

fun str_body :: "string \<Rightarrow> bool" where
  "str_body [] \<longleftrightarrow> True"
| "str_body [c] \<longleftrightarrow> c \<noteq> DQ \<and> c \<noteq> BSL"
| "str_body (c # d # cs) \<longleftrightarrow> (if c = BSL then str_body cs else c \<noteq> DQ \<and> str_body (d # cs))"

lemma varchar_loop_body:
  "str_body b \<Longrightarrow> at_text l (b @ DQ # r)
    \<Longrightarrow> \<exists>l'. comp_varchar_loop tx l = (tx @ b, l') \<and> at_text l' (DQ # r)"
proof (induction b arbitrary: l tx rule: str_body.induct)
  case 1
  then show ?case
    using at_text_ch [of l DQ r] by (subst comp_varchar_loop.simps) simp
next
  case (2 c)
  then have c: "lx_ch l = c" "c \<noteq> EOI_CH" using at_text_ch [of l c "DQ # r"] by auto
  have at: "at_text (lexer_consume l) (DQ # r)" using 2 at_text_consume [of l c "DQ # r"] by simp
  then have "comp_varchar_loop (tx @ [c]) (lexer_consume l) = (tx @ [c], lexer_consume l)"
    using at_text_ch [OF at] by (subst comp_varchar_loop.simps) simp
  with 2 c at show ?case by (subst comp_varchar_loop.simps) simp
next
  case (3 c d cs)
  have c: "lx_ch l = c" "c \<noteq> EOI_CH" using at_text_ch [of l c "d # cs @ DQ # r"] 3 by auto
  have at: "at_text (lexer_consume l) (d # cs @ DQ # r)" using 3 at_text_consume [of l c] by simp
  show ?case
  proof (cases "c = BSL")
    case True
    have "at_text (lexer_consume (lexer_consume l)) (cs @ DQ # r)" using at_text_consume [OF at] .
    with "3.IH"(1) [OF True, of "lexer_consume (lexer_consume l)" "tx @ [c, d]"] 3 c True at_text_ch [OF at]
    show ?thesis by (subst comp_varchar_loop.simps) simp
  next
    case False
    with "3.IH"(2) [OF False, of "lexer_consume l" "tx @ [c]"] 3 c at
    show ?thesis by (subst comp_varchar_loop.simps) simp
  qed
qed

lemma nexts_string:
  assumes "str_body b"
  shows "nexts (DQ # b @ DQ # r) (token_new C_VARCHAR b) r"
proof (rule nextsI)
  fix l :: lexer assume at: "at_text l (DQ # b @ DQ # r)"
  from varchar_loop_body [OF assms at_text_consume [OF at], of "[]"] obtain l' where
    l': "comp_varchar_loop [] (lexer_consume l) = (b, l')" "at_text l' (DQ # r)" by auto
  show "\<exists>l'. comp_next_token_loop l = (Inr (token_new C_VARCHAR b), l') \<and> at_text l' r"
    using at_text_ch [OF at] l'(1) at_text_consume [OF l'(2)]
    by (subst comp_next_token_loop.simps) (simp add: Let_def comp_varchar_def)
qed

section \<open>Sequences of tokens\<close>

fun feeds :: "string \<Rightarrow> token list \<Rightarrow> bool" where
  "feeds r [] \<longleftrightarrow> True"
| "feeds r (t # ts) \<longleftrightarrow> (\<exists>r'. nexts r t r' \<and> feeds r' ts)"

text \<open>
  The parser has the first token of the sequence in its window and will find
  the others. All its calls keep exactly one token in the window.
\<close>

definition cp_at :: "comp_parser \<Rightarrow> token list \<Rightarrow> bool" where
  "cp_at s ts \<longleftrightarrow> (\<exists>t ts' r. ts = t # ts' \<and> cp_lookahead s = [t] \<and> cp_index s = 0
     \<and> at_text (cp_lexer s) r \<and> feeds r ts')"

definition fits_in :: "buffer \<Rightarrow> byte list \<Rightarrow> bool" where
  "fits_in b bs \<longleftrightarrow> buf_inv b \<and> int (length bs) \<le> remaining b"

text \<open>From \<open>s0\<close> the assembler has written \<open>cb\<close> and \<open>db\<close>, and stands at the tokens \<open>ts\<close>.\<close>

definition wrote :: "comp_parser \<Rightarrow> byte list \<Rightarrow> byte list \<Rightarrow> token list \<Rightarrow> comp_parser \<Rightarrow> bool" where
  "wrote s0 cb db ts s \<longleftrightarrow> cp_at s ts \<and> cp_code s = write_bytes cb (cp_code s0)
     \<and> cp_data s = write_bytes db (cp_data s0)"

lemma wrote_refl: "cp_at s ts \<Longrightarrow> wrote s [] [] ts s"
  by (simp add: wrote_def write_bytes_def)

text \<open>\<open>m\<close>, run from \<open>s\<close>, returns, and then \<open>Q\<close> holds.\<close>

definition ok :: "'a cpm \<Rightarrow> ('a \<Rightarrow> comp_parser \<Rightarrow> bool) \<Rightarrow> comp_parser \<Rightarrow> bool" where
  "ok m Q s \<longleftrightarrow> (case m s of (Inl e, s') \<Rightarrow> False | (Inr x, s') \<Rightarrow> Q x s')"

named_theorems ok_rules \<open>rules for the assembler\<close>

lemma ok_ret [ok_rules]: "Q x s \<Longrightarrow> ok (ret x) Q s"
  by (simp add: ok_def)

lemma ok_bnd [ok_rules]: "ok m (\<lambda>x. ok (f x) Q) s \<Longrightarrow> ok (bnd m f) Q s"
  by (auto simp: ok_def bnd_run split: prod.splits sum.splits)

lemma ok_sq [ok_rules]: "ok m (\<lambda>_. ok k Q) s \<Longrightarrow> ok (sq m k) Q s"
  by (auto simp: ok_def sq_run split: prod.splits sum.splits)

lemma ok_token:
  "wrote s0 cb db (t # ts) s \<Longrightarrow> Q t s \<Longrightarrow> ok (comp_get_lookahead_token 0) Q s"
  unfolding wrote_def cp_at_def
  by (elim exE conjE) (simp add: ok_def comp_get_lookahead_token_def comp_load_lookahead_def exn_simps)

lemma ok_type:
  "wrote s0 cb db (t # ts) s \<Longrightarrow> Q (m_type t) s \<Longrightarrow> ok (comp_get_lookahead_type 0) Q s"
  unfolding comp_get_lookahead_type_def by (intro ok_bnd ok_token ok_ret)

lemma ok_consume:
  assumes "wrote s0 cb db (t # t' # ts) s" "\<And>s'. wrote s0 cb db (t' # ts) s' \<Longrightarrow> Q () s'"
  shows "ok comp_consume Q s"
proof -
  obtain r r' where s: "cp_lookahead s = [t]" "cp_index s = 0" "at_text (cp_lexer s) r"
    "nexts r t' r'" "feeds r' ts"
    using assms(1) by (auto simp: wrote_def cp_at_def)
  from nexts_next_token [OF s(4,3)] obtain l' where
    l': "comp_next_token (cp_lexer s) = (Inr t', l')" "at_text l' r'" by blast
  let ?s = "s \<lparr> cp_lexer := l', cp_lookahead := [t'], cp_index := 0 \<rparr>"
  have "comp_consume s = (Inr (), ?s)"
    using s l' by (simp add: comp_consume_def comp_load_lookahead_def comp_lexer_next_def exn_simps)
  moreover have "wrote s0 cb db (t' # ts) ?s"
    using assms(1) s l' by (auto simp: wrote_def cp_at_def)
  ultimately show ?thesis using assms(2) by (simp add: ok_def)
qed

lemma ok_match:
  assumes "wrote s0 cb db (t # t' # ts) s" "m_type t = ty" "\<And>s'. wrote s0 cb db (t' # ts) s' \<Longrightarrow> Q () s'"
  shows "ok (comp_match ty) Q s"
  unfolding comp_match_def
  by (rule ok_bnd, rule ok_type [OF assms(1)]) (use assms in \<open>auto intro: ok_consume\<close>)

lemma ok_stoi:
  assumes "wrote s0 cb db (t # ts) s" "stoi (m_text t) = Some v" "Q v s"
  shows "ok token_stoi Q s"
  unfolding token_stoi_def
  by (rule ok_bnd, rule ok_token [OF assms(1)]) (use assms in \<open>auto intro: ok_ret\<close>)

lemma put_more:
  assumes "fits_in b (xs @ ys)"
  shows "put_bytes ys (write_bytes xs b) = (Inr (), write_bytes (xs @ ys) b)"
proof -
  have "buf_inv (write_bytes xs b)" using assms by (intro write_bytes_inv) (auto simp: fits_in_def)
  moreover have "int (length ys) \<le> remaining (write_bytes xs b)"
    using assms by (simp add: fits_in_def remaining_def write_bytes_def)
  moreover have "write_bytes ys (write_bytes xs b) = write_bytes (xs @ ys) b"
    using assms by (intro write_bytes_append) (auto simp: fits_in_def)
  ultimately show ?thesis by (simp add: put_bytes_run)
qed

lemma cp_at_buffers [simp]: "cp_at (s \<lparr> cp_code := b \<rparr>) ts = cp_at s ts" "cp_at (s \<lparr> cp_data := b \<rparr>) ts = cp_at s ts"
  by (simp_all add: cp_at_def)

lemma ok_put_code:
  assumes "wrote s0 cb db ts s" "fits_in (cp_code s0) (cb @ bs)"
    "\<And>s'. wrote s0 (cb @ bs) db ts s' \<Longrightarrow> Q () s'"
  shows "ok (on_code_buf (put_bytes bs)) Q s"
proof -
  have "on_code_buf (put_bytes bs) s = (Inr (), s \<lparr> cp_code := write_bytes (cb @ bs) (cp_code s0) \<rparr>)"
    using assms(1) put_more [OF assms(2)] by (simp add: on_code_buf_def wrote_def)
  moreover have "wrote s0 (cb @ bs) db ts (s \<lparr> cp_code := write_bytes (cb @ bs) (cp_code s0) \<rparr>)"
    using assms(1) by (simp add: wrote_def)
  ultimately show ?thesis using assms(3) by (simp add: ok_def)
qed

lemma ok_put_data:
  assumes "wrote s0 cb db ts s" "fits_in (cp_data s0) (db @ bs)"
    "\<And>s'. wrote s0 cb (db @ bs) ts s' \<Longrightarrow> Q () s'"
  shows "ok (on_data_buf (put_bytes bs)) Q s"
proof -
  have "on_data_buf (put_bytes bs) s = (Inr (), s \<lparr> cp_data := write_bytes (db @ bs) (cp_data s0) \<rparr>)"
    using assms(1) put_more [OF assms(2)] by (simp add: on_data_buf_def wrote_def)
  moreover have "wrote s0 cb (db @ bs) ts (s \<lparr> cp_data := write_bytes (db @ bs) (cp_data s0) \<rparr>)"
    using assms(1) by (simp add: wrote_def)
  ultimately show ?thesis using assms(3) by (simp add: ok_def)
qed

lemmas put_eqs = u8.put_v_eq i16.put_v_eq i32.put_v_eq put_varchar_eq

lemma fits_prefix: "fits_in b (xs @ ys @ zs) \<Longrightarrow> fits_in b (xs @ ys)"
  by (simp add: fits_in_def)

section \<open>Code\<close>

lemma ok_call:
  assumes "wrote s0 cb db (t # t' # ts) s" "map_of call_table (m_type t) = Some opc"
    and "fits_in (cp_code s0) (cb @ [OP_CALL, opc])"
    and "\<And>s'. wrote s0 (cb @ [OP_CALL, opc]) db (t' # ts) s' \<Longrightarrow> Q () s'"
  shows "ok call Q s"
proof -
  have 1: "fits_in (cp_code s0) (cb @ [OP_CALL])" using assms(3) by (auto simp: fits_in_def)
  have 2: "fits_in (cp_code s0) ((cb @ [OP_CALL]) @ [opc])" using assms(3) by simp
  show ?thesis
    unfolding call_def put_eqs
    apply (rule ok_sq, rule ok_put_code [OF assms(1) 1], rule ok_bnd, rule ok_type, assumption)
    apply (simp only: assms(2) option.case, rule ok_sq, erule ok_consume)
    apply (erule ok_put_code [OF _ 2])
    using assms(4) by simp
qed

lemma ok_push:
  assumes "wrote s0 cb db (t # t' # ts) s" "m_type t = C_INT" "stoi (m_text t) = Some v"
    and "fits_in (cp_code s0) (cb @ OP_PUSH # bytes32 (word_of_int v))"
    and "\<And>s'. wrote s0 (cb @ OP_PUSH # bytes32 (word_of_int v)) db (t' # ts) s' \<Longrightarrow> Q () s'"
  shows "ok comp_push Q s"
proof -
  have 1: "fits_in (cp_code s0) (cb @ [OP_PUSH])" using assms(4) by (auto simp: fits_in_def)
  have 2: "fits_in (cp_code s0) ((cb @ [OP_PUSH]) @ bytes32 (word_of_int v))" using assms(4) by simp
  show ?thesis
    unfolding comp_push_def put_eqs
    apply (rule ok_sq, rule ok_put_code [OF assms(1) 1], rule ok_bnd, rule ok_stoi, assumption, rule assms(3))
    apply (rule ok_sq, erule ok_match, rule assms(2))
    apply (erule ok_put_code [OF _ 2])
    using assms(5) by simp
qed

lemma ok_pusho:
  assumes "wrote s0 cb db (t # t' # ts) s" "m_type t = C_INT" "stoi (m_text t) = Some (int i)" "i < length offset"
    and "fits_in (cp_code s0) (cb @ OP_PUSHO # bytes32 (word_of_int (offset ! i)))"
    and "\<And>s'. wrote s0 (cb @ OP_PUSHO # bytes32 (word_of_int (offset ! i))) db (t' # ts) s' \<Longrightarrow> Q () s'"
  shows "ok (comp_pusho offset) Q s"
proof -
  have 1: "fits_in (cp_code s0) (cb @ [OP_PUSHO])" using assms(5) by (auto simp: fits_in_def)
  have 2: "fits_in (cp_code s0) ((cb @ [OP_PUSHO]) @ bytes32 (word_of_int (offset ! i)))" using assms(5) by simp
  have 3: "0 \<le> int i \<and> nat (int i) < length offset" using assms(4) by simp
  show ?thesis
    unfolding comp_pusho_def put_eqs
    apply (rule ok_sq, rule ok_put_code [OF assms(1) 1], rule ok_bnd, rule ok_stoi, assumption, rule assms(3))
    apply (rule ok_sq, erule ok_match, rule assms(2))
    apply (simp only: 3 assms(4) if_True simp_thms nat_int)
    apply (erule ok_put_code [OF _ 2])
    using assms(6) by simp
qed

text \<open>The tokens of an instruction and its bytes.\<close>

inductive asm_instr :: "int list \<Rightarrow> token list \<Rightarrow> byte list \<Rightarrow> bool" for offset where
  call: "m_type c = C_CALL \<Longrightarrow> map_of call_table (m_type t) = Some opc
    \<Longrightarrow> asm_instr offset [c, t] [OP_CALL, opc]"
| nop: "m_type c = C_NOP \<Longrightarrow> asm_instr offset [c] []"
| push: "m_type c = C_PUSH \<Longrightarrow> m_type t = C_INT \<Longrightarrow> stoi (m_text t) = Some v
    \<Longrightarrow> asm_instr offset [c, t] (OP_PUSH # bytes32 (word_of_int v))"
| pusho: "m_type c = C_PUSHO \<Longrightarrow> m_type t = C_INT \<Longrightarrow> stoi (m_text t) = Some (int i) \<Longrightarrow> i < length offset
    \<Longrightarrow> asm_instr offset [c, t] (OP_PUSHO # bytes32 (word_of_int (offset ! i)))"

inductive_cases asm_instrE: "asm_instr offset ts bs"

lemma ok_instr:
  assumes "asm_instr offset its bs" "wrote s0 cb db (its @ t # ts) s" "fits_in (cp_code s0) (cb @ bs)"
    and step: "\<And>s'. wrote s0 (cb @ bs) db (t # ts) s' \<Longrightarrow> ok (comp_text n offset) Q s'"
  shows "ok (comp_text (Suc n) offset) Q s"
  using assms(1)
proof cases
  case (call c u opc)
  have w: "wrote s0 cb db (c # u # t # ts) s" using assms(2) call by simp
  show ?thesis
    unfolding comp_text.simps
    apply (rule ok_bnd, rule ok_type [OF w], simp add: call)
    apply (rule ok_sq, rule ok_consume [OF w])
    apply (rule ok_sq, erule ok_call)
    using call assms(3) step by auto
next
  case (nop c)
  have w: "wrote s0 cb db (c # t # ts) s" using assms(2) nop by simp
  show ?thesis
    unfolding comp_text.simps
    apply (rule ok_bnd, rule ok_type [OF w], simp add: nop)
    apply (rule ok_sq, rule ok_consume [OF w])
    using nop step by auto
next
  case (push c u v)
  have w: "wrote s0 cb db (c # u # t # ts) s" using assms(2) push by simp
  show ?thesis
    unfolding comp_text.simps
    apply (rule ok_bnd, rule ok_type [OF w], simp add: push)
    apply (rule ok_sq, rule ok_consume [OF w])
    apply (rule ok_sq, erule ok_push)
    using push assms(3) step by auto
next
  case (pusho c u i)
  have w: "wrote s0 cb db (c # u # t # ts) s" using assms(2) pusho by simp
  show ?thesis
    unfolding comp_text.simps
    apply (rule ok_bnd, rule ok_type [OF w], simp add: pusho)
    apply (rule ok_sq, rule ok_consume [OF w])
    apply (rule ok_sq, erule ok_pusho)
    using pusho assms(3) step by auto
qed

lemma ok_text:
  assumes "list_all (\<lambda>(its, bs). asm_instr offset its bs) prog" "length prog < n" "m_type rt = C_RET"
    and "wrote s0 cb db (concat (map fst prog) @ rt # t # ts) s"
    and "fits_in (cp_code s0) (cb @ concat (map snd prog) @ [OP_RET])"
    and "\<And>s'. wrote s0 (cb @ concat (map snd prog) @ [OP_RET]) db (t # ts) s' \<Longrightarrow> Q () s'"
  shows "ok (comp_text n offset) Q s"
  using assms
proof (induction prog arbitrary: n cb s)
  case Nil
  then obtain m where n: "n = Suc m" by (cases n) auto
  have w: "wrote s0 cb db (rt # t # ts) s" using Nil by simp
  show ?case
    unfolding n comp_text.simps put_eqs
    apply (rule ok_bnd, rule ok_type [OF w], simp add: Nil.prems(3) del: put_bytes.simps)
    apply (rule ok_sq, rule ok_consume [OF w])
    apply (erule ok_put_code)
    using Nil by (auto simp del: put_bytes.simps)
next
  case (Cons p prog)
  then obtain m its bs where n: "n = Suc m" and p: "p = (its, bs)" by (cases n; cases p) auto
  obtain t1 ts1 where nxt: "concat (map fst prog) @ rt # t # ts = t1 # ts1"
    by (cases "concat (map fst prog)") auto
  show ?case
    unfolding n
  proof (rule ok_instr)
    show "asm_instr offset its bs" "wrote s0 cb db (its @ t1 # ts1) s"
      using Cons.prems p nxt by simp_all
    show "fits_in (cp_code s0) (cb @ bs)" using Cons.prems(5) p by (auto simp: fits_in_def)
    fix s' assume "wrote s0 (cb @ bs) db (t1 # ts1) s'"
    then show "ok (comp_text m offset) Q s'"
      using Cons.prems p nxt n by (intro Cons.IH [of m "cb @ bs"]) auto
  qed
qed

section \<open>Data\<close>

text \<open>A data item: its type, as a number, and its characters.\<close>

type_synonym item = "int \<times> string"

definition item_bytes :: "item \<Rightarrow> byte list" where
  "item_bytes it = word_of_int (fst it) # bytes16 (word_of_int (int (length (snd it))))
     @ map byte_of_char (snd it)"

definition data_bytes :: "item list \<Rightarrow> byte list" where
  "data_bytes items = concat (map item_bytes items)"

text \<open>The offset of each item, from the offset \<open>i\<close> on.\<close>

fun item_offsets :: "int \<Rightarrow> item list \<Rightarrow> int list" where
  "item_offsets i [] = []"
| "item_offsets i (it # items) = i # item_offsets (i + int (length (item_bytes it))) items"

definition item_tokens :: "token \<Rightarrow> token \<Rightarrow> item \<Rightarrow> bool" where
  "item_tokens t u it \<longleftrightarrow> m_type t \<noteq> C_PERCENT \<and> stoi (m_text t) = Some (fst it) \<and> m_text u = snd it"

lemma ok_item:
  assumes "item_tokens t u it" "wrote s0 cb db (t # u # t1 # ts) s" "fits_in (cp_data s0) (db @ item_bytes it)"
    and "\<And>s'. wrote s0 cb (db @ item_bytes it) (t1 # ts) s'
       \<Longrightarrow> ok (comp_data n (offset @ [m_index (cp_data s0) + int (length db)])) Q s'"
  shows "ok (comp_data (Suc n) offset) Q s"
proof -
  let ?b1 = "[word_of_int (fst it)]" and ?b2 = "bytes16 (word_of_int (int (length (snd it))))"
    and ?b3 = "map byte_of_char (snd it)"
  have f: "fits_in (cp_data s0) (db @ ?b1)" "fits_in (cp_data s0) ((db @ ?b1) @ ?b2)"
    "fits_in (cp_data s0) (((db @ ?b1) @ ?b2) @ ?b3)"
    using assms(3) by (auto simp: fits_in_def item_bytes_def)
  have t: "m_type t \<noteq> C_PERCENT" "stoi (m_text t) = Some (fst it)" "m_text u = snd it"
    using assms(1) by (simp_all add: item_tokens_def)
  have i: "m_index (cp_data s) = m_index (cp_data s0) + int (length db)"
    using assms(2) by (simp add: wrote_def write_bytes_def)
  have go: "ok (gets f) P s" if "P (f s) s" for f P s using that by (simp add: ok_def)
  show ?thesis
    unfolding comp_data.simps put_eqs
    apply (rule ok_bnd, rule ok_type [OF assms(2)], simp only: t if_False)
    apply (rule ok_bnd, rule go, rule ok_bnd, rule ok_stoi [OF assms(2) t(2)])
    apply (rule ok_sq, rule ok_put_data [OF assms(2) f(1)])
    apply (rule ok_sq, erule ok_consume)
    apply (rule ok_bnd, rule ok_token, assumption)
    apply (rule ok_sq, simp only: t(3), erule ok_put_data [OF _ f(2)])
    apply (rule ok_bnd, rule ok_token, assumption)
    apply (rule ok_sq, simp only: t(3), erule ok_put_data [OF _ f(3)])
    apply (rule ok_sq, erule ok_consume)
    using assms(4) i by (simp add: item_bytes_def)
qed

lemma ok_data:
  assumes "list_all2 (\<lambda>(t, u) it. item_tokens t u it) toks items" "length items < n" "m_type pt = C_PERCENT"
    and "wrote s0 cb db (concat (map (\<lambda>(t, u). [t, u]) toks) @ pt # ts) s"
    and "fits_in (cp_data s0) (db @ data_bytes items)"
    and "\<And>s'. wrote s0 cb (db @ data_bytes items) (pt # ts) s'
       \<Longrightarrow> Q (offset @ item_offsets (m_index (cp_data s0) + int (length db)) items) s'"
  shows "ok (comp_data n offset) Q s"
  using assms
proof (induction toks items arbitrary: n db offset s rule: list_all2_induct)
  case Nil
  then obtain m where n: "n = Suc m" by (cases n) auto
  have w: "wrote s0 cb db (pt # ts) s" using Nil by simp
  show ?case
    unfolding n comp_data.simps
    apply (rule ok_bnd, rule ok_type [OF w])
    using Nil w by (auto simp: data_bytes_def intro: ok_ret)
next
  case (Cons p toks it items)
  then obtain m t u where n: "n = Suc m" and p: "p = (t, u)" by (cases n; cases p) auto
  obtain t1 ts1 where nxt: "concat (map (\<lambda>(t, u). [t, u]) toks) @ pt # ts = t1 # ts1"
    by (cases "concat (map (\<lambda>(t, u). [t, u]) toks)") auto
  show ?case
    unfolding n
  proof (rule ok_item)
    show "item_tokens t u it" "wrote s0 cb db (t # u # t1 # ts1) s"
      using Cons p nxt by simp_all
    show "fits_in (cp_data s0) (db @ item_bytes it)"
      using Cons.prems(4) by (auto simp: fits_in_def data_bytes_def)
    fix s' assume w: "wrote s0 cb (db @ item_bytes it) (t1 # ts1) s'"
    show "ok (comp_data m (offset @ [m_index (cp_data s0) + int (length db)])) Q s'"
    proof (rule Cons.IH)
      show "length items < m" using Cons.prems n by simp
      show "m_type pt = C_PERCENT" using Cons.prems by simp
      show "wrote s0 cb (db @ item_bytes it) (concat (map (\<lambda>(t, u). [t, u]) toks) @ pt # ts) s'"
        using w nxt by simp
      show "fits_in (cp_data s0) ((db @ item_bytes it) @ data_bytes items)"
        using Cons.prems(4) by (simp add: data_bytes_def)
      fix s'' assume "wrote s0 cb ((db @ item_bytes it) @ data_bytes items) (pt # ts) s''"
      with Cons.prems(5) [of s''] show "Q ((offset @ [m_index (cp_data s0) + int (length db)]) @
          item_offsets (m_index (cp_data s0) + int (length (db @ item_bytes it))) items) s''"
        by (simp add: data_bytes_def add.assoc)
    qed
  qed
qed

section \<open>The assembler\<close>

lemma ok_match_list:
  assumes "wrote s0 cb db (t # ts) s" "m_type t = ty" "ts \<noteq> []" "\<And>s'. wrote s0 cb db ts s' \<Longrightarrow> Q () s'"
  shows "ok (comp_match ty) Q s"
  using assms by (cases ts) (auto intro: ok_match)

lemma ok_compile:
  assumes items: "list_all2 (\<lambda>(t, u) it. item_tokens t u it) toks items"
    and prog: "list_all (\<lambda>(its, bs). asm_instr (item_offsets (m_index (cp_data s)) items) its bs) prog"
    and fuel: "length items < n" "length prog < n"
    and types: "map m_type [d, dt, p1, p2, d', tt, rt, p3, p4]
       = [C_DOT, C_DATA, C_PERCENT, C_PERCENT, C_DOT, C_TEXT, C_RET, C_PERCENT, C_PERCENT]"
    and at: "cp_at s ([d, dt] @ concat (map (\<lambda>(t, u). [t, u]) toks) @ [p1, p2, d', tt]
       @ concat (map fst prog) @ [rt, p3, p4, e])"
    and room: "fits_in (cp_data s) (data_bytes items)" "fits_in (cp_code s) (concat (map snd prog) @ [OP_RET])"
  shows "ok (compile n) (\<lambda>_ s'. cp_data s' = write_bytes (data_bytes items) (cp_data s)
    \<and> cp_code s' = write_bytes (concat (map snd prog) @ [OP_RET]) (cp_code s)) s"
proof -
  let ?data = "concat (map (\<lambda>(t, u). [t, u]) toks)" and ?code = "concat (map fst prog)"
  have w: "wrote s [] [] (d # dt # ?data @ p1 # p2 # d' # tt # ?code @ [rt, p3, p4, e]) s"
    using wrote_refl [OF at] by simp
  have room': "fits_in (cp_data s) ([] @ data_bytes items)"
    "fits_in (cp_code s) ([] @ concat (map snd prog) @ [OP_RET])" using room by simp_all
  show ?thesis
    unfolding compile_def data_segment_def text_segment_def
    apply (rule ok_bnd, rule ok_sq, rule ok_match_list [OF w], use types in simp, simp)
    apply (rule ok_sq, erule ok_match_list, use types in simp, simp)
    apply (rule ok_bnd, erule ok_data [OF items fuel(1) _ _ room'(1), rotated], use types in simp)
    apply (rule ok_sq, erule ok_match_list, use types in simp, simp)
    apply (rule ok_sq, erule ok_match_list, use types in simp, simp)
    apply (rule ok_ret, rule ok_sq, erule ok_match_list, use types in simp, simp)
    apply (rule ok_sq, erule ok_match_list, use types in simp, simp)
    apply (rule ok_sq, erule ok_text [OF _ fuel(2) _ _ room'(2), rotated 2], use prog in simp, use types in simp)
    apply (rule ok_sq, erule ok_match_list, use types in simp, simp)
    apply (erule ok_match_list, use types in simp, simp)
    using prog types by (simp_all add: wrote_def)
qed

section \<open>Texts and tokens\<close>

definition delim :: "string \<Rightarrow> bool" where
  "delim r \<longleftrightarrow> r \<noteq> [] \<and> blank (hd r)"

text \<open>The text \<open>t\<close> is read as the tokens \<open>its\<close>, whatever comes behind a white space.\<close>

definition lexes :: "string \<Rightarrow> token list \<Rightarrow> bool" where
  "lexes t its \<longleftrightarrow> t \<noteq> [] \<and> \<not> isspace (hd t) \<and> its \<noteq> []
     \<and> (\<forall>r ts. delim r \<longrightarrow> feeds r ts \<longrightarrow> feeds (t @ r) (its @ ts))"

lemma feeds_blank:
  assumes "feeds s ts" "ts \<noteq> []" "list_all blank w" "s \<noteq> [] \<longrightarrow> \<not> isspace (hd s)"
  shows "feeds (w @ s) ts"
  using assms nexts_blank [of w s] by (cases ts) auto

lemma delim_simps: "delim r \<Longrightarrow> \<not> word_char (hd r) \<and> \<not> isdigit (hd r) \<and> hd r \<noteq> CHR ''.''"
  by (auto simp: delim_def blank_def word_char_def char_defs)

lemma lexes_single: "(\<And>r. delim r \<Longrightarrow> nexts (t @ r) tok r) \<Longrightarrow> t \<noteq> [] \<Longrightarrow> \<not> isspace (hd t) \<Longrightarrow> lexes t [tok]"
  by (auto simp: lexes_def)

lemma lexes_pair:
  assumes "lexes t its" "lexes t' its'" "list_all blank w" "w \<noteq> []"
  shows "lexes (t @ w @ t') (its @ its')"
  unfolding lexes_def
proof (intro conjI allI impI)
  fix r ts assume r: "delim r" "feeds r ts"
  have "feeds (t' @ r) (its' @ ts)" using assms(2) r by (simp add: lexes_def)
  moreover have "t' @ r \<noteq> [] \<longrightarrow> \<not> isspace (hd (t' @ r))" "its' @ ts \<noteq> []"
    using assms(2) by (auto simp: lexes_def)
  ultimately have "feeds (w @ t' @ r) (its' @ ts)"
    using assms(3) feeds_blank [of "t' @ r" "its' @ ts" w] by blast
  moreover have "delim (w @ t' @ r)" using assms(3,4) by (cases w) (auto simp: delim_def)
  ultimately show "feeds ((t @ w @ t') @ r) ((its @ its') @ ts)"
    using assms(1) by (simp add: lexes_def)
qed (use assms in \<open>auto simp: lexes_def\<close>)

text \<open>
  The items a data segment can hold, each with the characters that are stored: words,
  numbers, the asterisk, and strings, which lose their quotes.
\<close>

inductive lexeme :: "string \<Rightarrow> string \<Rightarrow> bool" where
  word: "w \<noteq> [] \<Longrightarrow> isalpha (hd w) \<or> hd w = CHR ''_'' \<Longrightarrow> list_all word_char w \<Longrightarrow> lexeme w w"
| number: "ds \<noteq> [] \<Longrightarrow> list_all isdigit ds \<Longrightarrow> lexeme ds ds"
| float: "list_all isdigit ds \<Longrightarrow> list_all isdigit es \<Longrightarrow> ds \<noteq> [] \<or> es \<noteq> []
    \<Longrightarrow> lexeme (ds @ CHR ''.'' # es) (ds @ CHR ''.'' # es)"
| string: "str_body b \<Longrightarrow> lexeme (DQ # b @ [DQ]) b"
| star: "lexeme ''*'' ''*''"

lemma hd_append_digits: "list_all isdigit ds \<Longrightarrow> \<not> isspace (hd (ds @ CHR ''.'' # es))"
  by (cases ds) (auto simp: char_defs Let_def)

lemma lexeme_lexes: "lexeme t x \<Longrightarrow> \<exists>tok. lexes t [tok] \<and> m_text tok = x"
proof (induction rule: lexeme.induct)
  case (word w)
  have "lexes w [token_new (word_type w) w]"
    using word by (intro lexes_single nexts_word) (auto dest: delim_simps simp: char_defs Let_def)
  then show ?case by fastforce
next
  case (number ds)
  have "\<not> isspace (hd ds)" using number by (cases ds) (auto simp: char_defs Let_def)
  then have "lexes ds [token_new C_INT ds]"
    using number by (intro lexes_single nexts_number) (auto dest: delim_simps)
  then show ?case by fastforce
next
  case (float ds es)
  have "lexes (ds @ CHR ''.'' # es) [token_new C_FLOAT (ds @ CHR ''.'' # es)]"
    using float nexts_float [OF float] by (intro lexes_single) (auto dest: delim_simps hd_append_digits)
  then show ?case by fastforce
next
  case (string b)
  have "lexes (DQ # b @ [DQ]) [token_new C_VARCHAR b]"
    using nexts_string [OF string] by (intro lexes_single) (simp_all add: char_defs)
  then show ?case by fastforce
next
  case star
  have "lexes ''*'' [token_new C_ASTERISK ''*'']"
    using single_nexts [of "CHR ''*''"]
    by (intro lexes_single) (simp_all add: comp_single_char_def char_defs)
  then show ?case by fastforce
qed

end
