(* ===== verification/AsmCorrect.thy ===== *)
theory AsmCorrect
  imports ParserSafety CompCorrect
begin

text \<open>
  The translator and the assembler together: the text the SQL parser dumps is
  assembled into exactly the bytes that its data items and its lines stand for.
\<close>

section \<open>What lines and items stand for\<close>

definition call_opcode :: "string \<Rightarrow> byte option" where
  "call_opcode nm = Option.bind (map_of comp_symbol nm) (map_of call_table)"

text \<open>The bytes of a line of code, given the offsets of the data items.\<close>

definition line_bytes :: "int list \<Rightarrow> string \<Rightarrow> byte list option" where
  "line_bytes offset c =
     (if c = ''NOP'' then Some []
      else if take 5 c = ''CALL '' then map_option (\<lambda>opc. [OP_CALL, opc]) (call_opcode (drop 5 c))
      else if take 5 c = ''PUSH '' then
        map_option (\<lambda>v. OP_PUSH # bytes32 (word_of_int v)) (stoi (drop 5 c))
      else if take 6 c = ''PUSHO '' then
        Option.bind (stoi (drop 6 c)) (\<lambda>i. if 0 \<le> i \<and> nat i < length offset
          then Some (OP_PUSHO # bytes32 (word_of_int (offset ! nat i))) else None)
      else None)"

text \<open>A string item loses its quotes.\<close>

definition content :: "string \<Rightarrow> string" where
  "content t = (if t \<noteq> [] \<and> hd t = DQ then butlast (tl t) else t)"

definition item_of :: "token \<Rightarrow> item" where
  "item_of tok = (to_schema_type (m_type tok), content (m_text tok))"

definition is_item :: "token \<Rightarrow> bool" where
  "is_item tok \<longleftrightarrow> lexeme (m_text tok) (content (m_text tok))
     \<and> 0 \<le> to_schema_type (m_type tok) \<and> to_schema_type (m_type tok) < 2 ^ 31"

section \<open>Lines\<close>

lemma lexes_word:
  "w \<noteq> [] \<Longrightarrow> isalpha (hd w) \<Longrightarrow> list_all word_char w \<Longrightarrow> lexes w [token_new (word_type w) w]"
  by (intro lexes_single nexts_word) (auto dest: delim_simps simp: char_defs Let_def)

lemma lexes_digits: "ds \<noteq> [] \<Longrightarrow> list_all isdigit ds \<Longrightarrow> lexes ds [token_new C_INT ds]"
proof -
  assume ds: "ds \<noteq> []" "list_all isdigit ds"
  then have "\<not> isspace (hd ds)" by (cases ds) (auto simp: char_defs Let_def)
  then show ?thesis using ds by (intro lexes_single nexts_number) (auto dest: delim_simps)
qed

lemma mnemonics:
  "lexes ''NOP'' [token_new C_NOP ''NOP'']" "lexes ''CALL'' [token_new C_CALL ''CALL'']"
  "lexes ''PUSH'' [token_new C_PUSH ''PUSH'']" "lexes ''PUSHO'' [token_new C_PUSHO ''PUSHO'']"
  "lexes ''RET'' [token_new C_RET ''RET'']"
proof -
  have ty: "word_type ''NOP'' = C_NOP" "word_type ''CALL'' = C_CALL" "word_type ''PUSH'' = C_PUSH"
    "word_type ''PUSHO'' = C_PUSHO" "word_type ''RET'' = C_RET"
    by code_simp+
  show "lexes ''NOP'' [token_new C_NOP ''NOP'']" "lexes ''CALL'' [token_new C_CALL ''CALL'']"
    "lexes ''PUSH'' [token_new C_PUSH ''PUSH'']" "lexes ''PUSHO'' [token_new C_PUSHO ''PUSHO'']"
    "lexes ''RET'' [token_new C_RET ''RET'']"
    using lexes_word [of "''NOP''"] lexes_word [of "''CALL''"] lexes_word [of "''PUSH''"]
      lexes_word [of "''PUSHO''"] lexes_word [of "''RET''"] ty
    by (simp_all add: word_char_def char_defs)
qed

lemma call_names_words:
  "list_all (\<lambda>nm. nm \<noteq> [] \<and> isalpha (hd nm) \<and> list_all word_char nm \<and> map toupper nm = nm) call_names"
  by code_simp

lemma lexes_operand:
  "lexes m [t] \<Longrightarrow> lexes x [u] \<Longrightarrow> lexes (m @ '' '' @ x) [t, u]"
  using lexes_pair [of m "[t]" x "[u]" "'' ''"] by (simp add: blank_def)

lemma toupper_I: "toupper a = CHR ''I'' \<Longrightarrow> \<not> isdigit a \<and> \<not> isspace a \<and> a \<noteq> CHR ''-'' \<and> a \<noteq> CHR ''+''"
  by (cases "islower a") (auto simp: toupper_def char_defs Let_def)

lemma line_asm:
  assumes "wf_line k c" "line_bytes offset c = Some bs"
  shows "\<exists>its. lexes c its \<and> asm_instr offset its bs"
  using assms
proof (induction rule: wf_line.induct)
  case nop
  then have "bs = []" by (simp add: line_bytes_def)
  moreover have "asm_instr offset [token_new C_NOP ''NOP''] []" by (rule asm_instr.nop) simp
  ultimately show ?case using mnemonics(1) by blast
next
  case (call nm)
  then have nm: "nm \<noteq> []" "isalpha (hd nm)" "list_all word_char nm" "map toupper nm = nm"
    using call_names_words by (auto simp: list_all_iff)
  from call obtain ty opc where op: "map_of comp_symbol nm = Some ty" "map_of call_table ty = Some opc"
    "bs = [OP_CALL, opc]"
    by (auto simp: line_bytes_def call_line_def call_opcode_def split: Option.bind_splits)
  have "word_type nm = ty" using op nm by (simp add: word_type_def)
  then have "asm_instr offset [token_new C_CALL ''CALL'', token_new (word_type nm) nm] bs"
    using op by (auto intro: asm_instr.call)
  moreover have "lexes (call_line nm) [token_new C_CALL ''CALL'', token_new (word_type nm) nm]"
    using lexes_operand [OF mnemonics(2) lexes_word [OF nm(1-3)]] by (simp add: call_line_def)
  ultimately show ?case by blast
next
  case (push t)
  from push obtain v where v: "stoi t = Some v" "bs = OP_PUSH # bytes32 (word_of_int v)"
    by (auto simp: line_bytes_def push_def)
  have t: "t \<noteq> []" "list_all isdigit t"
  proof -
    have "map toupper t \<noteq> ''INT''"
    proof
      assume "map toupper t = ''INT''"
      then obtain a b c where t: "t = [a, b, c]" "toupper a = CHR ''I''"
        by (auto simp: Cons_eq_map_conv map_eq_Cons_conv)
      from toupper_I [OF t(2)] show False using v(1) t(1) by (simp add: stoi_def)
    qed
    with push show "t \<noteq> []" "list_all isdigit t" by (auto simp: push_operand_def)
  qed
  have "asm_instr offset [token_new C_PUSH ''PUSH'', token_new C_INT t] bs"
    unfolding v(2) by (rule asm_instr.push) (use v in simp_all)
  moreover have "lexes (push t) [token_new C_PUSH ''PUSH'', token_new C_INT t]"
    using lexes_operand [OF mnemonics(3) lexes_digits [OF t]] by (simp add: push_def)
  ultimately show ?case by blast
next
  case (pusho i)
  have t: "nat_str i \<noteq> []" "list_all isdigit (nat_str i)" using nat_str_digits by (auto simp: list_all_iff)
  from pusho obtain v where v: "stoi (nat_str i) = Some v" "0 \<le> v" "nat v < length offset"
    "bs = OP_PUSHO # bytes32 (word_of_int (offset ! nat v))"
    by (auto simp: line_bytes_def pusho_def split: Option.bind_splits if_splits)
  have "asm_instr offset [token_new C_PUSHO ''PUSHO'', token_new C_INT (nat_str i)] bs"
    unfolding v(4) by (rule asm_instr.pusho) (use v in simp_all)
  moreover have "lexes (pusho (nat_str i)) [token_new C_PUSHO ''PUSHO'', token_new C_INT (nat_str i)]"
    using lexes_operand [OF mnemonics(4) lexes_digits [OF t]] by (simp add: pusho_def)
  ultimately show ?case by blast
qed

section \<open>Items\<close>

lemma digits_hd: "list_all isdigit ds \<Longrightarrow> ds \<noteq> [] \<Longrightarrow> hd ds \<noteq> DQ"
  by (cases ds) (auto simp: char_defs)

lemma content_lexeme: "lexeme t x \<Longrightarrow> content t = x"
  by (induction rule: lexeme.induct)
     (auto simp: content_def char_defs Let_def hd_append dest: digits_hd split: if_splits)

lemma item_lexes:
  assumes "is_item tok"
  shows "\<exists>t u. lexes (to_string (to_schema_type (m_type tok)) @ '' '' @ m_text tok) [t, u]
    \<and> item_tokens t u (item_of tok)"
proof -
  obtain n where n: "to_schema_type (m_type tok) = int n" "n < 2 ^ 31"
    using assms by (metis is_item_def zero_le_imp_eq_int of_nat_less_numeral_power_cancel_iff)
  have ds: "nat_str n \<noteq> []" "list_all isdigit (nat_str n)" using nat_str_digits by (auto simp: list_all_iff)
  obtain u where u: "lexes (m_text tok) [u]" "m_text u = content (m_text tok)"
    using lexeme_lexes assms by (auto simp: is_item_def)
  have "item_tokens (token_new C_INT (nat_str n)) u (item_of tok)"
    using u stoi_nat_str [OF n(2)] n(1) by (simp add: item_tokens_def item_of_def)
  then show ?thesis
    using lexes_operand [OF lexes_digits [OF ds] u(1)] n(1) by (auto simp: to_string_nat)
qed

section \<open>Segments\<close>

definition seg_line :: "string \<Rightarrow> string" where
  "seg_line c = ''  '' @ c @ [NL]"

lemma feeds_lines:
  "list_all2 lexes cs itss \<Longrightarrow> feeds (NL # r) ts
    \<Longrightarrow> feeds (NL # concat (map seg_line cs) @ r) (concat itss @ ts)"
proof (induction cs itss rule: list_all2_induct)
  case (Cons c cs its itss)
  let ?rest = "NL # concat (map seg_line cs) @ r" and ?ts = "concat itss @ ts"
  have l: "c \<noteq> []" "\<not> isspace (hd c)" "its \<noteq> []" using Cons.hyps(1) by (auto simp: lexes_def)
  have "feeds (c @ ?rest) (its @ ?ts)"
    using Cons by (simp add: lexes_def delim_def blank_def)
  from feeds_blank [OF this, of "NL # ''  ''"] l show ?case by (simp add: seg_line_def [of c] blank_def)
qed simp

lemma feeds_mark:
  assumes "feeds (NL # r) ts"
  shows "feeds (NL # ''%%'' @ NL # r) (token_new C_PERCENT ''%'' # token_new C_PERCENT ''%'' # ts)"
proof -
  have p: "nexts (CHR ''%'' # q) (token_new C_PERCENT ''%'') q" for q
    using single_nexts [of "CHR ''%''"] by (simp add: comp_single_char_def)
  have "feeds (''%%'' @ NL # r) (token_new C_PERCENT ''%'' # token_new C_PERCENT ''%'' # ts)"
    using p assms by auto
  from feeds_blank [OF this, of "[NL]"] show ?thesis by (simp add: blank_def char_defs)
qed

lemma feeds_head:
  assumes "feeds (NL # r) ts" "w \<in> {''DATA'', ''TEXT''}"
  shows "feeds (CHR ''.'' # w @ NL # r) (token_new C_DOT ''.'' # token_new (word_type w) w # ts)"
proof -
  have w: "w \<noteq> []" "isalpha (hd w)" "list_all word_char w" "\<not> isdigit (hd w)"
    using assms(2) by (auto simp: word_char_def char_defs)
  have "nexts (CHR ''.'' # w @ NL # r) (token_new C_DOT ''.'') (w @ NL # r)"
    using w by (intro nexts_dot) simp
  moreover have "feeds (w @ NL # r) (token_new (word_type w) w # ts)"
    using lexes_word [OF w(1-3)] assms(1) by (simp add: lexes_def delim_def blank_def)
  ultimately show ?thesis by auto
qed

text \<open>The tokens of a whole program.\<close>

lemma feeds_program:
  assumes "list_all2 lexes ds itss" "list_all2 lexes cs ctss"
  shows "\<exists>d dt p1 p2 d' tt p3 p4 e.
    feeds (''.DATA'' @ NL # concat (map seg_line ds) @ ''%%'' @ NL # ''.TEXT'' @ NL #
        concat (map seg_line cs) @ ''%%'' @ [NL])
      ([d, dt] @ concat itss @ [p1, p2, d', tt] @ concat ctss @ [p3, p4, e])
    \<and> map m_type [d, dt, p1, p2, d', tt, p3, p4]
       = [C_DOT, C_DATA, C_PERCENT, C_PERCENT, C_DOT, C_TEXT, C_PERCENT, C_PERCENT]"
proof -
  let ?p = "token_new C_PERCENT ''%''" and ?d = "token_new C_DOT ''.''"
    and ?e = "token_new EOI ''<EOI>''"
  have ty: "word_type ''DATA'' = C_DATA" "word_type ''TEXT'' = C_TEXT" by code_simp+
  have e: "feeds [NL] [?e]" using feeds_blank [of "[]" "[?e]" "[NL]"] nexts_end by (auto simp: blank_def)
  have "feeds (NL # ''%%'' @ [NL]) [?p, ?p, ?e]" by (rule feeds_mark [OF e])
  from feeds_lines [OF assms(2) this]
  have "feeds (NL # concat (map seg_line cs) @ ''%%'' @ [NL]) (concat ctss @ [?p, ?p, ?e])" .
  from feeds_head [OF this, of "''TEXT''"]
  have "feeds (''.TEXT'' @ NL # concat (map seg_line cs) @ ''%%'' @ [NL])
      (?d # token_new C_TEXT ''TEXT'' # concat ctss @ [?p, ?p, ?e])"
    by (simp add: ty)
  from feeds_blank [OF this, of "[NL]"]
  have "feeds (NL # ''.TEXT'' @ NL # concat (map seg_line cs) @ ''%%'' @ [NL])
      (?d # token_new C_TEXT ''TEXT'' # concat ctss @ [?p, ?p, ?e])"
    by (simp add: blank_def char_defs)
  from feeds_head [OF feeds_lines [OF assms(1) feeds_mark [OF this]], of "''DATA''"]
  have "feeds (''.DATA'' @ NL # concat (map seg_line ds) @ ''%%'' @ NL # ''.TEXT'' @ NL #
        concat (map seg_line cs) @ ''%%'' @ [NL])
      ([?d, token_new C_DATA ''DATA''] @ concat itss @ [?p, ?p, ?d, token_new C_TEXT ''TEXT'']
        @ concat ctss @ [?p, ?p, ?e])"
    by (simp add: ty)
  then show ?thesis by fastforce
qed

section \<open>The whole program\<close>

definition contents :: "buffer \<Rightarrow> byte list" where
  "contents b = take (nat (m_bound b)) (m_buffer b)"

lemma contents_trip:
  assumes "length mem = n" "length bs \<le> n"
  shows "contents (snd (trip (write_bytes bs (new_buffer (int n) mem)))) = bs"
  using assms by (simp add: contents_def trip_def write_bytes_def new_buffer_def splice_def)

lemma fits_new: "length mem = n \<Longrightarrow> length bs \<le> n \<Longrightarrow> fits_in (new_buffer (int n) mem) bs"
  by (simp add: fits_in_def buf_inv_def remaining_def new_buffer_def)

lemma comp_parser_new_at:
  assumes "EOI_CH \<notin> set input" "feeds input ts" "ts \<noteq> []"
  shows "\<exists>s. comp_parser_new mc md input = (Inr (), s) \<and> cp_at s ts
    \<and> cp_code s = new_buffer CODE_CAPACITY mc \<and> cp_data s = new_buffer DATA_CAPACITY md"
proof -
  obtain t ts' r where ts: "ts = t # ts'" "nexts input t r" "feeds r ts'" using assms(2,3) by (cases ts) auto
  from nexts_next_token [OF ts(2) at_text_new [OF assms(1)]] obtain l where
    "comp_next_token (lexer_new input) = (Inr t, l)" "at_text l r" by blast
  then show ?thesis
    using ts by (auto simp: comp_parser_new_def comp_load_lookahead_def comp_lexer_next_def exn_simps cp_at_def)
qed

abbreviation (input) data_text :: "token \<Rightarrow> string" where
  "data_text tok \<equiv> to_string (to_schema_type (m_type tok)) @ '' '' @ m_text tok"

lemma tran_dump_lines:
  "tran_dump s = ''.DATA'' @ NL # concat (map seg_line (map data_text (ps_data s)))
    @ ''%%'' @ NL # ''.TEXT'' @ NL # concat (map seg_line (rev (ps_code s))) @ ''%%'' @ [NL]"
proof -
  have "dump_data_line = (\<lambda>tok. seg_line (data_text tok))" "dump_code_line = seg_line"
    by (simp_all add: fun_eq_iff dump_data_line_def dump_code_line_def seg_line_def)
  then show ?thesis by (simp add: tran_dump_def o_def)
qed

lemma concat_length:
  assumes "\<And>x. f x \<noteq> []"
  shows "length xs \<le> length (concat (map f xs))"
proof (induction xs)
  case (Cons x xs)
  have "Suc 0 \<le> length (f x)" using assms by (simp add: Suc_leI)
  from add_mono [OF this Cons] show ?case by simp
qed simp

lemma items_lex:
  "list_all is_item ds \<Longrightarrow> \<exists>toks.
     list_all2 lexes (map data_text ds)
       (map (\<lambda>(t, u). [t, u]) toks)
   \<and> list_all2 (\<lambda>(t, u) it. item_tokens t u it) toks (map item_of ds)"
proof (induction ds)
  case (Cons d ds)
  then obtain toks where IH:
    "list_all2 lexes (map data_text ds)
       (map (\<lambda>(t, u). [t, u]) toks)"
    "list_all2 (\<lambda>(t, u) it. item_tokens t u it) toks (map item_of ds)" by auto
  obtain t u where "lexes (data_text d) [t, u]" "item_tokens t u (item_of d)"
    using item_lexes [of d] Cons.prems by auto
  with IH show ?case by (intro exI [of _ "(t, u) # toks"]) simp
qed simp

lemma lines_lex:
  "wf_lines k cs \<Longrightarrow> map (line_bytes offset) cs = map Some bss
    \<Longrightarrow> \<exists>prog. list_all2 lexes cs (map fst prog) \<and> map snd prog = bss
      \<and> list_all (\<lambda>(its, bs). asm_instr offset its bs) prog"
proof (induction cs arbitrary: bss)
  case (Cons c cs)
  then obtain bs bss' where bss: "bss = bs # bss'" by (cases bss) auto
  with Cons obtain prog where "list_all2 lexes cs (map fst prog) \<and> map snd prog = bss'
      \<and> list_all (\<lambda>(its, bs). asm_instr offset its bs) prog" by fastforce
  moreover obtain its where "lexes c its \<and> asm_instr offset its bs"
    using line_asm [of k c offset bs] Cons.prems bss by auto
  ultimately show ?case using bss by (intro exI [of _ "(its, bs) # prog"]) simp
qed simp

lemma assemble:
  assumes items: "list_all is_item (ps_data s)" and code: "ps_code s = ''RET'' # cs" "wf_lines k cs"
    and bytes: "map (line_bytes (item_offsets 0 (map item_of (ps_data s)))) (rev cs) = map Some bss"
    and clean: "EOI_CH \<notin> set (tran_dump s)"
    and room: "length mc = 8192" "length md = 8192"
      "length (data_bytes (map item_of (ps_data s))) \<le> 8192" "length (concat bss) < 8192"
  shows "\<exists>c. comp_parse mc md (tran_dump s) = (Inr (), c)
    \<and> contents (fst (comp_dump c)) = data_bytes (map item_of (ps_data s))
    \<and> contents (snd (comp_dump c)) = concat bss @ [OP_RET]"
proof -
  let ?items = "map item_of (ps_data s)" and ?rt = "token_new C_RET ''RET''"
  obtain toks where toks:
    "list_all2 lexes (map data_text (ps_data s))
       (map (\<lambda>(t, u). [t, u]) toks)"
    "list_all2 (\<lambda>(t, u) it. item_tokens t u it) toks ?items" using items_lex [OF items] by blast
  have "wf_lines k (rev cs)" using code(2) by (simp add: wf_lines_def)
  from lines_lex [OF this bytes] obtain prog where prog: "list_all2 lexes (rev cs) (map fst prog)"
    "map snd prog = bss" "list_all (\<lambda>(its, bs). asm_instr (item_offsets 0 ?items) its bs) prog" by blast
  have "list_all2 lexes (rev (ps_code s)) (map fst prog @ [[?rt]])"
    using prog(1) mnemonics(5) code(1) by (simp add: list_all2_appendI)
  from feeds_program [OF toks(1) this]
  have "\<exists>d dt p1 p2 d' tt p3 p4 e.
      feeds (tran_dump s) ([d, dt] @ concat (map (\<lambda>(t, u). [t, u]) toks) @ [p1, p2, d', tt]
       @ concat (map fst prog) @ [?rt, p3, p4, e])
    \<and> map m_type [d, dt, p1, p2, d', tt, p3, p4]
       = [C_DOT, C_DATA, C_PERCENT, C_PERCENT, C_DOT, C_TEXT, C_PERCENT, C_PERCENT]"
    unfolding tran_dump_lines
    by (simp only: concat_append concat.simps append_Nil2 append_assoc append_Cons append_Nil)
  then obtain d dt p1 p2 d' tt p3 p4 e where
    f: "feeds (tran_dump s) ([d, dt] @ concat (map (\<lambda>(t, u). [t, u]) toks) @ [p1, p2, d', tt]
       @ concat (map fst prog) @ [?rt, p3, p4, e])"
    and ty: "map m_type [d, dt, p1, p2, d', tt, p3, p4]
       = [C_DOT, C_DATA, C_PERCENT, C_PERCENT, C_DOT, C_TEXT, C_PERCENT, C_PERCENT]"
    by (elim exE conjE) (rule that)
  from comp_parser_new_at [OF clean f, of mc md] obtain c0 where
    new: "comp_parser_new mc md (tran_dump s) = (Inr (), c0)" and
    at: "cp_at c0 ([d, dt] @ concat (map (\<lambda>(t, u). [t, u]) toks) @ [p1, p2, d', tt]
       @ concat (map fst prog) @ [?rt, p3, p4, e])" and
    buf: "cp_code c0 = new_buffer CODE_CAPACITY mc" "cp_data c0 = new_buffer DATA_CAPACITY md" by auto
  have "length (ps_data s) + length (rev (ps_code s)) \<le> length (tran_dump s)"
    unfolding tran_dump_lines
    using concat_length [of seg_line "map data_text (ps_data s)"]
      concat_length [of seg_line "rev (ps_code s)"] by (simp add: seg_line_def)
  moreover have "length prog = length cs" using list_all2_lengthD [OF prog(1)] by simp
  ultimately have fuel: "length ?items < comp_fuel (tran_dump s)" "length prog < comp_fuel (tran_dump s)"
    using code(1) by (simp_all add: comp_fuel_def)
  have "ok (compile (comp_fuel (tran_dump s)))
     (\<lambda>_ s'. cp_data s' = write_bytes (data_bytes ?items) (cp_data c0)
        \<and> cp_code s' = write_bytes (concat (map snd prog) @ [OP_RET]) (cp_code c0)) c0"
  proof (rule ok_compile [OF toks(2) _ fuel _ at])
    show "list_all (\<lambda>(its, bs). asm_instr (item_offsets (m_index (cp_data c0)) ?items) its bs) prog"
      using prog(3) buf by (simp add: new_buffer_def)
    show "map m_type [d, dt, p1, p2, d', tt, ?rt, p3, p4]
       = [C_DOT, C_DATA, C_PERCENT, C_PERCENT, C_DOT, C_TEXT, C_RET, C_PERCENT, C_PERCENT]"
      using ty by simp
    show "fits_in (cp_data c0) (data_bytes ?items)"
      using fits_new [OF room(2,3)] buf by simp
    show "fits_in (cp_code c0) (concat (map snd prog) @ [OP_RET])"
      using fits_new [OF room(1), of "concat bss @ [OP_RET]"] room(4) buf prog(2) by simp
  qed
  then obtain c where "compile (comp_fuel (tran_dump s)) c0 = (Inr (), c)"
    "cp_data c = write_bytes (data_bytes ?items) (cp_data c0)"
    "cp_code c = write_bytes (concat bss @ [OP_RET]) (cp_code c0)"
    using prog(2) by (auto simp: ok_def split: prod.splits sum.splits)
  then show ?thesis
    using contents_trip [OF room(2,3)] contents_trip [OF room(1), of "concat bss @ [OP_RET]"] room(4) new buf
    by (simp add: comp_parse_def comp_dump_def)
qed

end
