(* ===== verification/VmState.thy ===== *)
theory VmState
  imports VmExpr Opcode Row
begin

text \<open>
  The state of the virtual machine (class \<open>vm\<close> of \<open>src/vm\<close>) and the values of columns.
  Tables, the WHERE condition and the output stage are linked into a chain of items,
  each reachable from several places; these items are the entries of \<open>vm_nodes\<close>,
  and a pointer to one is its position. The items of expressions have a single
  owner and are values; only the keys of ORDER BY are at the same time at the front of
  the expression list, so \<open>m_key_list\<close> is the number of those items.

  A table is its schema and its rows in the order in which \<open>tree::iterator2\<close> visits
  them; \<open>tree::find\<close> is the first row with the key. What the machine takes from its
  surroundings is part of the state: the tables of the server, the privileges
  of the user, the measured time. An exception ends the statement and the machine
  with it, so a change of items that an exception interrupts leaves the old items.
\<close>

section \<open>Lists and options of fallible results\<close>

fun traverse :: "('a \<Rightarrow> error + 'b) \<Rightarrow> 'a list \<Rightarrow> error + 'b list" where
  "traverse f [] = Inr []"
| "traverse f (x # xs) = attempt (f x) (\<lambda>y. attempt (traverse f xs) (\<lambda>ys. Inr (y # ys)))"

definition on_option :: "('a \<Rightarrow> error + 'b) \<Rightarrow> 'a option \<Rightarrow> error + 'b option" where
  "on_option f p = (case p of None \<Rightarrow> Inr None | Some x \<Rightarrow> attempt (f x) (\<lambda>y. Inr (Some y)))"

lemma traverse_Inr_iff: "traverse f xs = Inr ys \<longleftrightarrow> list_all2 (\<lambda>x y. f x = Inr y) xs ys"
proof (induction xs arbitrary: ys)
  case (Cons x xs)
  then show ?case
    by (cases "f x"; cases "traverse f xs") (auto simp: list_all2_Cons1)
qed auto

lemma traverse_map: "(\<And>x. x \<in> set xs \<Longrightarrow> f x = Inr (g x)) \<Longrightarrow> traverse f xs = Inr (map g xs)"
  by (induction xs) auto

section \<open>Rows and tables\<close>

type_synonym vrow = "buffer \<times> schema"

definition row_db_name :: "vrow \<Rightarrow> string" where
  "row_db_name r = hd_db_name (sc_header (snd r))"

definition row_tbl_name :: "vrow \<Rightarrow> string" where
  "row_tbl_name r = hd_tbl_name (sc_header (snd r))"

definition row_get :: "vrow \<Rightarrow> string \<Rightarrow> error + string" where
  "row_get r nm = fst (value_of nm r)"

record table =
  tb_schema :: schema
  tb_rows :: "vrow list"

definition tb_db_name :: "table \<Rightarrow> string" where
  "tb_db_name t = hd_db_name (sc_header (tb_schema t))"

definition tb_tbl_name :: "table \<Rightarrow> string" where
  "tb_tbl_name t = hd_tbl_name (sc_header (tb_schema t))"

definition table_find :: "table \<Rightarrow> string \<Rightarrow> string \<Rightarrow> vrow option" where
  "table_find t ndx key = find (\<lambda>r. fst (make_key ndx r) = Inr key) (tb_rows t)"

section \<open>Values of columns\<close>

definition neg_float :: "idata \<Rightarrow> string \<Rightarrow> error + idata" where
  "neg_float d v = attempt (stof_exn v) (\<lambda>f. Inr (d \<lparr> i_value := fixed_str 2 (fneg f) \<rparr>))"

definition neg_int :: "idata \<Rightarrow> string \<Rightarrow> error + idata" where
  "neg_int d v = attempt (stoi_exn v) (\<lambda>i. attempt (int32_exn (- i)) (\<lambda>j. Inr (d \<lparr> i_value := to_string j \<rparr>)))"

text \<open>\<open>item::value\<close>; the first argument looks up the column of an item in the schema of its table.\<close>

definition item_value :: "(idata \<Rightarrow> error + column) \<Rightarrow> idata \<Rightarrow> string \<Rightarrow> error + idata" where
  "item_value col d v =
    (if \<not> i_negate d then Inr (d \<lparr> i_value := v \<rparr>)
     else if i_type d = VT_COLUMN then attempt (col d) (\<lambda>c.
       if co_type c = TYPE_FLOAT then neg_float d v else if co_type c = TYPE_INT then neg_int d v else Inr d)
     else if i_type d = VT_FLOAT then neg_float d v
     else if i_type d = VT_INT then neg_int d v
     else Inr d)"

text \<open>
  The walk of \<open>set_column_value\<close> through an item: a function for the columns,
  the operators below which it goes on. The flag says whether it enters assignments.
\<close>

definition walk_types :: "int list" where
  "walk_types = [VT_ADD, VT_BW_AND, VT_BW_OR, VT_BW_XOR, VT_CMPEQ, VT_CMPGE, VT_CMPGT, VT_CMPLE, VT_CMPLT,
     VT_CMPNE, VT_DIV, VT_MOD, VT_MUL, VT_AND, VT_OR, VT_SUB, VT_XOR]"

fun walk :: "bool \<Rightarrow> (idata \<Rightarrow> error + idata) \<Rightarrow> vitem \<Rightarrow> error + vitem" where
  "walk a f (Item d l r c) =
     (let L = (case l of None \<Rightarrow> Inr None | Some x \<Rightarrow> attempt (walk a f x) (\<lambda>y. Inr (Some y)));
          R = (case r of None \<Rightarrow> Inr None | Some x \<Rightarrow> attempt (walk a f x) (\<lambda>y. Inr (Some y)));
          C = (case c of None \<Rightarrow> Inr None | Some x \<Rightarrow> attempt (walk a f x) (\<lambda>y. Inr (Some y)))
      in if i_type d = VT_ASSIGN then (if a then attempt R (\<lambda>r'. Inr (Item d l r' c)) else Inr (Item d l r c))
         else if i_type d = VT_COLUMN then attempt (f d) (\<lambda>d'. Inr (Item d' l r c))
         else if i_type d = VT_ON \<or> i_type d = VT_WHERE then attempt C (\<lambda>c'. Inr (Item d l r c'))
         else if i_type d \<in> set walk_types then attempt L (\<lambda>l'. attempt R (\<lambda>r'. Inr (Item d l' r' c)))
         else Inr (Item d l r c))"

declare walk.simps [simp del]

definition column_is_of :: "idata \<Rightarrow> vrow \<Rightarrow> bool" where
  "column_is_of d a_row = (row_db_name a_row = i_db_name d \<and> row_tbl_name a_row = i_tbl_name d)"

definition set_column_value :: "(idata \<Rightarrow> error + column) \<Rightarrow> vrow \<Rightarrow> vitem \<Rightarrow> error + vitem" where
  "set_column_value col a_row = walk True (\<lambda>d.
     if column_is_of d a_row then attempt (row_get a_row (i_col_name d)) (item_value col d) else Inr d)"

definition set_column_value2 :: "(idata \<Rightarrow> error + column) \<Rightarrow> vrow \<Rightarrow> vrow \<Rightarrow> vitem \<Rightarrow> error + vitem" where
  "set_column_value2 col l_row r_row = walk True (\<lambda>d.
     if column_is_of d l_row then attempt (row_get l_row (i_col_name d)) (item_value col d)
     else if column_is_of d r_row then attempt (row_get r_row (i_col_name d)) (item_value col d) else Inr d)"

definition set_column_value_null :: "vitem \<Rightarrow> error + vitem" where
  "set_column_value_null = walk False (\<lambda>d. Inr (d \<lparr> i_value := [] \<rparr>))"

section \<open>The machine\<close>

record vnode =
  n_type :: int
  n_action :: int
  n_alias :: string
  n_db_name :: string
  n_tbl_name :: string
  n_ndx_name :: string
  n_fgn_name :: string
  n_row :: "vrow option"
  n_diter :: nat
  n_prev :: "nat option"
  n_next :: "nat option"
  n_opt_prev :: "nat option"
  n_on_cond :: "vitem option"
  n_table :: "table option"
  n_lock :: int      \<comment> \<open>0 none, 1 shared, 2 unique\<close>

definition vnode_new :: vnode where
  "vnode_new = \<lparr> n_type = 0, n_action = 0, n_alias = [], n_db_name = [], n_tbl_name = [], n_ndx_name = [],
     n_fgn_name = [], n_row = None, n_diter = 0, n_prev = None, n_next = None, n_opt_prev = None,
     n_on_cond = None, n_table = None, n_lock = 0 \<rparr>"

record vm =
  vm_code :: buffer
  vm_data :: buffer
  vm_stack :: "vitem list"
  vm_title_stack :: "string list"
  vm_expr_list :: "vitem list"
  vm_key_count :: nat
  vm_nodes :: "vnode list"
  vm_tree_list :: "nat list"
  vm_tbl_index :: int
  vm_head :: "nat option"
  vm_tail :: "nat option"
  vm_where :: "nat option"
  vm_assignment_list :: "(string \<times> vitem) list"
  vm_output :: "(string \<times> string) list"     \<comment> \<open>a multimap, in its order\<close>
  vm_output_type :: int
  vm_outfile :: string
  vm_did_output :: bool
  vm_have_inner_join :: bool
  vm_sent :: string                            \<comment> \<open>what \<open>m_fsm->put\<close> got\<close>
  vm_file :: "(string \<times> string) list"       \<comment> \<open>the files written\<close>
  vm_db_name :: string                         \<comment> \<open>\<open>m_fsm->get_info().db_name()\<close>\<close>
  vm_tables :: "string \<Rightarrow> table option"      \<comment> \<open>\<open>m_dbms->get_block_cache\<close>\<close>
  vm_granted :: "string \<Rightarrow> string \<Rightarrow> string \<Rightarrow> bool"   \<comment> \<open>\<open>verify_privilege\<close>\<close>
  vm_elapsed :: fl32

type_synonym 'a vmm = "(error, vm, 'a) exn"

definition vm_new :: "buffer \<Rightarrow> buffer \<Rightarrow> string \<Rightarrow> (string \<Rightarrow> table option) \<Rightarrow> (string \<Rightarrow> string \<Rightarrow> string \<Rightarrow> bool) \<Rightarrow> fl32 \<Rightarrow> vm" where
  "vm_new data code db tbls granted secs = \<lparr> vm_code = code, vm_data = data, vm_stack = [], vm_title_stack = [],
     vm_expr_list = [], vm_key_count = 0, vm_nodes = [], vm_tree_list = [], vm_tbl_index = -1, vm_head = None,
     vm_tail = None, vm_where = None, vm_assignment_list = [], vm_output = [], vm_output_type = 0, vm_outfile = [],
     vm_did_output = False, vm_have_inner_join = False, vm_sent = [], vm_file = [], vm_db_name = db,
     vm_tables = tbls, vm_granted = granted, vm_elapsed = secs \<rparr>"

definition lift_exn :: "error + 'a \<Rightarrow> 'a vmm" where
  "lift_exn r = (\<lambda>s. (r, s))"

lemma lift_exn_run [simp, exn_simps]: "lift_exn r s = (r, s)"
  by (simp add: lift_exn_def)

definition on_code :: "'a bufm \<Rightarrow> 'a vmm" where
  "on_code m = (\<lambda>s. case m (vm_code s) of (r, b) \<Rightarrow> (r, s \<lparr> vm_code := b \<rparr>))"

definition on_data :: "'a bufm \<Rightarrow> 'a vmm" where
  "on_data m = (\<lambda>s. case m (vm_data s) of (r, b) \<Rightarrow> (r, s \<lparr> vm_data := b \<rparr>))"

text \<open>\<open>m_stack.top()\<close> and \<open>pop()\<close>; on an empty stack they are undefined.\<close>

definition top_item :: "vitem vmm" where
  "top_item = bnd (gets vm_stack) (\<lambda>st. case st of [] \<Rightarrow> throw (Undefined ''m_stack'') | x # _ \<Rightarrow> ret x)"

definition pop_item :: "vitem vmm" where
  "pop_item = bnd (gets vm_stack) (\<lambda>st. case st of [] \<Rightarrow> throw (Undefined ''m_stack'')
     | x # xs \<Rightarrow> sq (modify (\<lambda>s. s \<lparr> vm_stack := xs \<rparr>)) (ret x))"

definition push_item :: "vitem \<Rightarrow> unit vmm" where
  "push_item x = modify (\<lambda>s. s \<lparr> vm_stack := x # vm_stack s \<rparr>)"

text \<open>\<open>item::value()\<close>: the integer of the item on top.\<close>

definition pop_int :: "int vmm" where
  "pop_int = bnd pop_item (\<lambda>e. lift_exn (stoi_exn (i_value (idat e))))"

definition vm_get_varchar :: "int \<Rightarrow> string vmm" where
  "vm_get_varchar offset = bnd (on_data (get_int16_at offset)) (\<lambda>w. on_data (get_varchar (sint w)))"

text \<open>The item on top has the offset of a data item; its text.\<close>

definition pop_text :: "string vmm" where
  "pop_text = bnd pop_int (\<lambda>offset. vm_get_varchar (offset + 1))"

definition deref :: "'a option \<Rightarrow> 'a vmm" where
  "deref p = (case p of None \<Rightarrow> throw (Undefined ''nullptr'') | Some x \<Rightarrow> ret x)"

definition get_node :: "nat \<Rightarrow> vnode vmm" where
  "get_node i = (\<lambda>s. if i < length (vm_nodes s) then (Inr (vm_nodes s ! i), s) else (Inl (Undefined ''node''), s))"

definition upd_node :: "nat \<Rightarrow> (vnode \<Rightarrow> vnode) \<Rightarrow> unit vmm" where
  "upd_node i f = modify (\<lambda>s. s \<lparr> vm_nodes := (vm_nodes s)[i := f (vm_nodes s ! i)] \<rparr>)"

definition new_node :: "vnode \<Rightarrow> nat vmm" where
  "new_node x = (\<lambda>s. (Inr (length (vm_nodes s)), s \<lparr> vm_nodes := vm_nodes s @ [x] \<rparr>))"

definition tree_of :: "nat \<Rightarrow> table vmm" where
  "tree_of i = bnd (get_node i) (\<lambda>x. deref (n_table x))"

text \<open>\<open>m_parent->schema()->get_column(m_col_name)\<close>.\<close>

definition item_column :: "vnode list \<Rightarrow> idata \<Rightarrow> error + column" where
  "item_column ns d = (case i_parent d of None \<Rightarrow> Inl (Undefined ''m_parent'')
     | Some p \<Rightarrow> if length ns \<le> p then Inl (Undefined ''m_parent'') else (case n_table (ns ! p) of
         None \<Rightarrow> Inl (Undefined ''m_tree'') | Some t \<Rightarrow> get_column (tb_schema t) (i_col_name d)))"

text \<open>The last entry of the tree list; on an empty list \<open>back()\<close> is undefined.\<close>

definition last_tree :: "nat vmm" where
  "last_tree = bnd (gets vm_tree_list) (\<lambda>ts. if ts = [] then throw (Undefined ''m_tree_list'') else ret (last ts))"

definition fsm_put :: "string \<Rightarrow> unit vmm" where
  "fsm_put t = modify (\<lambda>s. s \<lparr> vm_sent := vm_sent s @ t \<rparr>)"

end
