(* ===== verification/VmStack.thy ===== *)
theory VmStack
  imports VmState
begin

text \<open>
  The routines of the machine that build a statement on its stack: operands and
  operators, the expressions of SELECT with their titles, columns, the conditions of
  WHERE, ON and USING, the keys of ORDER BY, assignments, the tables and the
  chain into which the joins link them.
\<close>

section \<open>Operands and operators\<close>

definition push :: "unit vmm" where
  "push = bnd (on_code get_int32) (\<lambda>w. push_item (leaf_item VT_INT (to_string (sint w))))"

definition pusho :: "unit vmm" where
  "pusho = bnd (on_code get_int32) (\<lambda>w. push_item (leaf_item VT_OFFSET (to_string (sint w))))"

definition binary :: "int \<Rightarrow> unit vmm" where
  "binary ty = bnd pop_item (\<lambda>l. bnd pop_item (\<lambda>r. push_item (node_item ty l r)))"

definition vm_add :: "unit vmm" where "vm_add = binary VT_ADD"
definition vm_sub :: "unit vmm" where "vm_sub = binary VT_SUB"
definition vm_mul :: "unit vmm" where "vm_mul = binary VT_MUL"
definition vm_div :: "unit vmm" where "vm_div = binary VT_DIV"
definition cmpeq :: "unit vmm" where "cmpeq = binary VT_CMPEQ"
definition cmpge :: "unit vmm" where "cmpge = binary VT_CMPGE"
definition cmpgt :: "unit vmm" where "cmpgt = binary VT_CMPGT"
definition cmple :: "unit vmm" where "cmple = binary VT_CMPLE"
definition cmplt :: "unit vmm" where "cmplt = binary VT_CMPLT"
definition cmpne :: "unit vmm" where "cmpne = binary VT_CMPNE"
definition logic_and :: "unit vmm" where "logic_and = binary VT_AND"
definition logic_or :: "unit vmm" where "logic_or = binary VT_OR"

definition logic_not :: "unit vmm" where
  "logic_not = bnd pop_item (\<lambda>r. push_item (Item (item_new \<lparr> i_type := VT_NOT \<rparr>) None (Some r) None))"

text \<open>What \<open>negate\<close> makes of the item it takes.\<close>

definition negated :: "(idata \<Rightarrow> error + column) \<Rightarrow> vitem \<Rightarrow> error + vitem" where
  "negated col x = (let d = (idat x) \<lparr> i_negate := True \<rparr>
     in if i_type d = VT_COLUMN then attempt (col d) (\<lambda>c.
          if co_type c = TYPE_FLOAT \<or> co_type c = TYPE_INT then Inr (map_data (\<lambda>_. d) x)
          else Inl (Runtime ERRNO_MALFORMED_COLUMN_EXPR))
        else if i_type d = VT_FLOAT \<or> i_type d = VT_INT then
          attempt (item_value col d (i_value d)) (\<lambda>d'. Inr (map_data (\<lambda>_. d') x))
        else Inl (Runtime ERRNO_MALFORMED_EXPR))"

definition negate :: "unit vmm" where
  "negate = bnd pop_item (\<lambda>x. bnd (gets vm_nodes) (\<lambda>ns. bnd (lift_exn (negated (item_column ns) x)) push_item))"

text \<open>A \<open>catch (...)\<close> that throws another exception; what is undefined stays so.\<close>

definition rethrow :: "error \<Rightarrow> 'a vmm \<Rightarrow> 'a vmm" where
  "rethrow e m = (\<lambda>s. case m s of (Inr x, s') \<Rightarrow> (Inr x, s')
     | (Inl (Undefined w), s') \<Rightarrow> (Inl (Undefined w), s') | (Inl _, s') \<Rightarrow> (Inl e, s'))"

definition grow :: "string \<Rightarrow> idata \<Rightarrow> idata" where
  "grow t d = (if i_out_size d < int (length t) then d \<lparr> i_out_size := int (length t) \<rparr> else d)"

text \<open>The item of a data item with its type and text.\<close>

definition literal_item :: "int \<Rightarrow> string \<Rightarrow> error + vitem" where
  "literal_item type v = (let d = grow v (item_new \<lparr> i_value := v \<rparr>) in
     if type = TYPE_INT then attempt (stoi_exn v) (\<lambda>_. Inr (Item (d \<lparr> i_type := VT_INT \<rparr>) None None None))
     else if type = TYPE_FLOAT then attempt (stof_exn v) (\<lambda>_. Inr (Item (d \<lparr> i_type := VT_FLOAT \<rparr>) None None None))
     else if type = TYPE_VARCHAR then Inr (Item (d \<lparr> i_type := VT_VARCHAR, i_quote := True \<rparr>) None None None)
     else Inl (Runtime ERRNO_MALFORMED_EXPR))"

definition make_expression :: "unit vmm" where
  "make_expression = rethrow (Runtime ERRNO_MALFORMED_EXPR) (
     bnd pop_int (\<lambda>offset. bnd (on_data (get_at offset)) (\<lambda>b. bnd (vm_get_varchar (offset + 1)) (\<lambda>v.
     bnd (lift_exn (literal_item (uint b) v)) push_item))))"

section \<open>Titles and the expression list\<close>

fun unescape_loop :: "char \<Rightarrow> string \<Rightarrow> string" where
  "unescape_loop last_ch [] = []"
| "unescape_loop last_ch (ch # cs) =
     (if last_ch = BSL then (if ch = DQ then [ch] else [last_ch, ch])
      else if ch \<noteq> BSL then [ch] else []) @ unescape_loop ch cs"

definition unescape :: "string \<Rightarrow> string" where
  "unescape value = unescape_loop (CHR 0x00) value"

definition make_expression_header :: "unit vmm" where
  "make_expression_header = bnd pop_text (\<lambda>t.
     modify (\<lambda>s. s \<lparr> vm_title_stack := unescape t # vm_title_stack s \<rparr>))"

text \<open>Everything on the stack but the tables, each with the next title.\<close>

fun list_exprs :: "vitem list \<Rightarrow> string list \<Rightarrow> error + vitem list \<times> string list" where
  "list_exprs [] titles = Inr ([], titles)"
| "list_exprs (x # xs) titles =
     (if i_type (idat x) = VT_TREE then list_exprs xs titles
      else attempt (compact_condition x) (\<lambda>y.
        let z = (case titles of [] \<Rightarrow> y | t # _ \<Rightarrow> map_data (\<lambda>d. grow t (d \<lparr> i_title := t \<rparr>)) y)
        in attempt (list_exprs xs (tl titles)) (\<lambda>(zs, ts). Inr (z # zs, ts))))"

definition make_expression_list :: "unit vmm" where
  "make_expression_list =
     bnd (gets vm_stack) (\<lambda>st. bnd (gets vm_title_stack) (\<lambda>titles.
     bnd (lift_exn (list_exprs st titles)) (\<lambda>(xs, ts).
     sq (modify (\<lambda>s. s \<lparr> vm_stack := [], vm_title_stack := ts, vm_expr_list := vm_expr_list s @ xs \<rparr>))
     (bnd (gets vm_expr_list) (\<lambda>es. if es = [] then throw (Runtime ERRNO_MALFORMED_EXPR_LIST) else ret ())))))"

section \<open>Columns\<close>

definition tree_matches :: "string \<Rightarrow> string \<Rightarrow> vnode \<Rightarrow> bool" where
  "tree_matches db tbl x = (n_db_name x = db \<and> (n_tbl_name x = tbl \<or> n_alias x = tbl))"

definition find_tree :: "string \<Rightarrow> string \<Rightarrow> nat vmm" where
  "find_tree db tbl = bnd (gets vm_nodes) (\<lambda>ns. bnd (gets vm_tree_list) (\<lambda>ts.
     case find (\<lambda>i. tree_matches db tbl (ns ! i)) ts of
       None \<Rightarrow> throw (Runtime ERRNO_MALFORMED_COLUMN_EXPR) | Some i \<Rightarrow> ret i))"

definition is_quoted :: "column \<Rightarrow> bool" where
  "is_quoted c = (co_type c = TYPE_CHAR \<or> co_type c = TYPE_VARCHAR)"

text \<open>The item of a column, from the names of its database (or none), its table (or none) and its own.\<close>

definition column_item :: "string \<Rightarrow> string \<Rightarrow> string \<Rightarrow> vitem vmm" where
  "column_item db0 tbl_name col_name = bnd (gets vm_db_name) (\<lambda>use.
     let db_name = (if db0 = [] then use else db0) in
     bnd (if db_name \<noteq> [] \<and> tbl_name \<noteq> [] then find_tree db_name tbl_name else last_tree) (\<lambda>i.
     bnd (tree_of i) (\<lambda>t.
     case find (\<lambda>c. co_name c = col_name) (sc_column (tb_schema t)) of
       None \<Rightarrow> throw (Runtime ERRNO_MALFORMED_COLUMN_EXPR)
     | Some c \<Rightarrow> ret (Item (item_new \<lparr> i_type := VT_COLUMN, i_quote := is_quoted c,
         i_db_name := tb_db_name t, i_tbl_name := tb_tbl_name t, i_col_name := col_name,
         i_parent := Some i \<rparr>) None None None))))"

definition make_column_expression :: "unit vmm" where
  "make_column_expression = bnd pop_text (\<lambda>db. bnd pop_text (\<lambda>tbl_name. bnd pop_text (\<lambda>col_name.
     bnd (column_item db tbl_name col_name) push_item)))"

definition asterisk_item :: "nat \<Rightarrow> vnode \<Rightarrow> table \<Rightarrow> column \<Rightarrow> vitem" where
  "asterisk_item i x t c = Item (item_new \<lparr> i_type := VT_COLUMN, i_quote := is_quoted c, i_alias := n_alias x,
     i_db_name := tb_db_name t, i_tbl_name := tb_tbl_name t, i_col_name := co_name c, i_parent := Some i,
     i_title := (if n_alias x \<noteq> [] then n_alias x @ ''.'' else []) @ co_name c \<rparr>) None None None"

fun asterisk_items :: "nat list \<Rightarrow> vitem list vmm" where
  "asterisk_items [] = ret []"
| "asterisk_items (i # is) = bnd (get_node i) (\<lambda>x. bnd (tree_of i) (\<lambda>t.
     bnd (asterisk_items is) (\<lambda>xs. ret (map (asterisk_item i x t) (sc_column (tb_schema t)) @ xs))))"

definition make_asterisk_expression :: "unit vmm" where
  "make_asterisk_expression =
     bnd pop_text (\<lambda>db_name. bnd pop_text (\<lambda>tbl_name.
     bnd (if db_name \<noteq> [] \<and> tbl_name \<noteq> [] then bnd (find_tree db_name tbl_name) (\<lambda>i. ret [i])
          else if tbl_name \<noteq> [] then bnd (gets vm_db_name) (\<lambda>use. bnd (find_tree use tbl_name) (\<lambda>i. ret [i]))
          else bnd last_tree (\<lambda>_. bnd (gets vm_tree_list) (\<lambda>ts. ret (rev ts)))) (\<lambda>tree_list.
     bnd (gets vm_title_stack) (\<lambda>titles. if titles = [] then throw (Undefined ''m_title_stack'') else
     sq (modify (\<lambda>s. s \<lparr> vm_title_stack := tl titles \<rparr>)) (
     bnd (asterisk_items tree_list) (\<lambda>xs.
     modify (\<lambda>s. s \<lparr> vm_stack := xs @ vm_stack s,
       vm_title_stack := map (\<lambda>x. i_title (idat x)) xs @ vm_title_stack s \<rparr>)))))))"

section \<open>Conditions, keys, assignments\<close>

definition where_cond :: "unit vmm" where
  "where_cond = bnd (new_node (vnode_new \<lparr> n_type := VT_WHERE, n_action := VT_WHERE \<rparr>)) (\<lambda>i.
     sq (modify (\<lambda>s. s \<lparr> vm_where := Some i \<rparr>)) (
     bnd pop_item (\<lambda>x. upd_node i (\<lambda>n. n \<lparr> n_on_cond := Some x \<rparr>))))"

definition on_cond :: "unit vmm" where
  "on_cond = bnd pop_item (\<lambda>oc. sq (push_item (Item (item_new \<lparr> i_type := VT_ON \<rparr>) None None (Some oc)))
     (modify (\<lambda>s. s \<lparr> vm_tbl_index := vm_tbl_index s - 1 \<rparr>)))"

fun pop_columns :: "nat \<Rightarrow> string list vmm" where
  "pop_columns 0 = ret []"
| "pop_columns (Suc n) = sq pop_item (sq pop_item (bnd pop_text (\<lambda>c.
     bnd (pop_columns n) (\<lambda>cs. ret (c # cs)))))"

definition tree_at :: "int \<Rightarrow> nat vmm" where
  "tree_at k = bnd (gets vm_tree_list) (\<lambda>ts.
     if 0 \<le> k \<and> k < int (length ts) then ret (ts ! nat k) else throw (Undefined ''m_tree_list''))"

definition push_column :: "int \<Rightarrow> string \<Rightarrow> unit vmm" where
  "push_column k c = bnd (tree_at k) (\<lambda>i. bnd (tree_of i) (\<lambda>t.
     push_item (Item (item_new \<lparr> i_type := VT_COLUMN, i_db_name := tb_db_name t, i_tbl_name := tb_tbl_name t,
       i_col_name := c, i_parent := Some i \<rparr>) None None None)))"

fun using_columns :: "string list \<Rightarrow> unit vmm" where
  "using_columns [] = ret ()"
| "using_columns (c # cs) = bnd (gets vm_tbl_index) (\<lambda>k. sq (push_column (k - 1) c) (sq (push_column k c)
     (sq cmpeq (using_columns cs))))"

fun repeat_m :: "nat \<Rightarrow> unit vmm \<Rightarrow> unit vmm" where
  "repeat_m 0 m = ret ()"
| "repeat_m (Suc n) m = sq m (repeat_m n m)"

definition using_cond :: "unit vmm" where
  "using_cond = bnd pop_int (\<lambda>n. bnd (pop_columns (nat n)) (\<lambda>cs.
     sq (using_columns cs) (sq (repeat_m (nat (n - 1)) logic_and) on_cond)))"

fun pop_keys :: "nat \<Rightarrow> vitem list vmm" where
  "pop_keys 0 = ret []"
| "pop_keys (Suc n) = bnd pop_item (\<lambda>x. bnd (pop_keys n) (\<lambda>xs.
     ret (map_data (\<lambda>d. d \<lparr> i_action := VT_ORDERBY \<rparr>) x # xs)))"

definition order_by :: "unit vmm" where
  "order_by = bnd pop_int (\<lambda>n. bnd (pop_keys (nat n)) (\<lambda>xs. modify (\<lambda>s. s \<lparr>
     vm_expr_list := take (vm_key_count s) (vm_expr_list s) @ xs @ vm_expr_list s,
     vm_key_count := vm_key_count s + length xs \<rparr>)))"

definition make_assignment :: "unit vmm" where
  "make_assignment = bnd pop_item (\<lambda>l. bnd (gets vm_nodes) (\<lambda>ns.
     bnd (lift_exn (item_column ns (idat l))) (\<lambda>c.
     if has_flag FLAG_AUTO_INC c \<or> has_flag FLAG_PRIMARY c then throw (Runtime ERRNO_UPDATE_ERROR)
     else bnd pop_item (\<lambda>r. modify (\<lambda>s. s \<lparr> vm_assignment_list :=
       (i_col_name (idat l), node_item VT_ASSIGN l r) # vm_assignment_list s \<rparr>)))))"

definition SRC_DIR :: string where "SRC_DIR = ''/tmp/redb''"

fun has_dotdot :: "string \<Rightarrow> bool" where
  "has_dotdot (a # b # cs) = (a = CHR ''.'' \<and> b = CHR ''.'' \<or> has_dotdot (b # cs))"
| "has_dotdot _ = False"

definition set_outfile :: "unit vmm" where
  "set_outfile = bnd pop_text (\<lambda>outfile.
     if outfile = [] \<or> has_dotdot outfile
        \<or> \<not> list_all (\<lambda>ch. isalnum ch \<or> ch = CHR ''_'' \<or> ch = CHR ''.'') outfile
     then throw (Runtime ERRNO_OUTFILE_ERROR)
     else modify (\<lambda>s. s \<lparr> vm_output_type := 1, vm_outfile := SRC_DIR @ ''/'' @ outfile \<rparr>))"

section \<open>Tables and joins\<close>

definition verify_privilege :: "string \<Rightarrow> string \<Rightarrow> string \<Rightarrow> unit vmm" where
  "verify_privilege db tbl priv = bnd (gets vm_granted) (\<lambda>g.
     if g db tbl priv then ret () else throw (Runtime ERRNO_ACCESS_DENIED))"

definition open_table :: "unit vmm" where
  "open_table =
     bnd pop_text (\<lambda>db0. bnd (gets vm_db_name) (\<lambda>use.
     let db_name = (if db0 = [] then use else db0) in
     if db_name = [] then throw (Runtime ERRNO_MALFORMED_TABLE_REF) else
     bnd pop_text (\<lambda>tbl_name. bnd pop_text (\<lambda>alias.
     sq (verify_privilege db_name tbl_name ''select_priv'') (
     bnd (gets vm_tables) (\<lambda>tables. case tables (db_name @ ''.'' @ tbl_name) of
       None \<Rightarrow> throw (Runtime ERRNO_MALFORMED_TABLE_REF)
     | Some t \<Rightarrow> bnd (new_node (vnode_new \<lparr> n_type := VT_TREE, n_alias := alias, n_db_name := db_name,
         n_tbl_name := tbl_name, n_table := Some t \<rparr>)) (\<lambda>i.
       sq (push_item (Item (item_new \<lparr> i_type := VT_TREE, i_alias := alias, i_db_name := db_name,
           i_tbl_name := tbl_name, i_ref := Some i \<rparr>) None None None))
         (modify (\<lambda>s. s \<lparr> vm_tree_list := vm_tree_list s @ [i], vm_tbl_index := vm_tbl_index s + 1 \<rparr>)))))))))"

definition lock_tree :: "int \<Rightarrow> unit vmm" where
  "lock_tree k = bnd last_tree (\<lambda>i. bnd (tree_of i) (\<lambda>_. upd_node i (\<lambda>n. n \<lparr> n_lock := k \<rparr>)))"

text \<open>An item that becomes a link of the chain: a table, or else an item of an expression.\<close>

definition pop_link :: "nat vmm" where
  "pop_link = bnd pop_item (\<lambda>x. case i_ref (idat x) of Some i \<Rightarrow> ret i
     | None \<Rightarrow> new_node (vnode_new \<lparr> n_type := i_type (idat x), n_action := i_action (idat x),
         n_on_cond := m_on_cond x, n_db_name := i_db_name (idat x), n_tbl_name := i_tbl_name (idat x) \<rparr>))"

definition pop_on_cond :: "vitem vmm" where
  "pop_on_cond = bnd top_item (\<lambda>x. if i_type (idat x) \<noteq> VT_ON then throw (Runtime ERRNO_MALFORMED_JOIN)
     else bnd pop_item (\<lambda>oc. lift_exn (compact_condition oc)))"

definition start_chain :: "unit vmm" where
  "start_chain = bnd (gets vm_head) (\<lambda>h. case h of Some _ \<Rightarrow> ret ()
     | None \<Rightarrow> bnd pop_link (\<lambda>i. modify (\<lambda>s. s \<lparr> vm_head := Some i, vm_tail := Some i \<rparr>)))"

definition vm_tail_of :: "nat vmm" where
  "vm_tail_of = bnd (gets vm_tail) deref"

definition append_link :: "nat vmm" where
  "append_link = bnd vm_tail_of (\<lambda>t. bnd pop_link (\<lambda>i.
     sq (upd_node t (\<lambda>n. n \<lparr> n_next := Some i \<rparr>))
     (sq (upd_node i (\<lambda>n. n \<lparr> n_prev := Some t \<rparr>))
     (sq (modify (\<lambda>s. s \<lparr> vm_tail := Some i \<rparr>)) (ret i)))))"

definition cross_join :: "unit vmm" where
  "cross_join = bnd pop_on_cond (\<lambda>oc. sq start_chain (bnd vm_tail_of (\<lambda>t.
     sq (upd_node t (\<lambda>n. n \<lparr> n_action := VT_CRJOIN \<rparr>))
     (bnd append_link (\<lambda>i. upd_node i (\<lambda>n. n \<lparr> n_on_cond := Some oc \<rparr>))))))"

definition join_as :: "int \<Rightarrow> unit vmm" where
  "join_as ty = bnd pop_on_cond (\<lambda>oc. sq start_chain (bnd append_link (\<lambda>i.
     upd_node i (\<lambda>n. n \<lparr> n_action := ty, n_on_cond := Some oc \<rparr>))))"

definition inner_join :: "unit vmm" where "inner_join = join_as VT_INJOIN"
definition left_join :: "unit vmm" where "left_join = join_as VT_LTJOIN"
definition right_join :: "unit vmm" where "right_join = join_as VT_RTJOIN"

end
