(* ===== verification/VmQuery.thy ===== *)
theory VmQuery
  imports VmStack
begin

text \<open>
  SELECT in the virtual machine: \<open>make_query\<close> puts the chain of tables into the order of
  execution, with the WHERE condition and the output stage at its end; the
  routines \<open>exec_*\<close> run nested loops over the rows; \<open>output_expr_list\<close> evaluates the
  expressions of a result row and files it under its sort key; the output
  routines print the table or write the file.

  The chain is followed with fuel, one unit for each stage; the loops
  over rows are recursions over the rows with their positions, and the
  iterator of the table is set in each turn.
\<close>

section \<open>The output stage\<close>

text \<open>
  \<open>istringstream(t) >> value\<close> for a float: decimal only, 0 for what is not a number, the
  largest number on overflow; on an empty stream the value stays uninitialised.
\<close>

definition stream_float :: "string \<Rightarrow> error + fl32" where
  "stream_float t = (let u = dropWhile isspace t; sg = (u \<noteq> [] \<and> hd u \<in> set ''+-'');
       s = (sg \<and> hd u = CHR ''-''); v = (if sg then tl u else u)
     in if u = [] then Inl (Undefined ''float'') else case mantissa 10 v of None \<Rightarrow> Inr (zero_f32 False)
        | Some (m, k, len) \<Rightarrow> let r = drop len v; (x, xl) = exponent_part (CHR ''e'') r; y = x - k
          in if xl = 0 \<and> r \<noteq> [] \<and> tolower (hd r) = CHR ''e'' then Inr (zero_f32 False)
             else case (if 0 \<le> y then round_f32 s (m * 10 ^ nat y) 1 else round_f32 s m (10 ^ nat (- y))) of
               Inf b \<Rightarrow> Inr (Fin b (2 ^ 24 - 1) 104) | w \<Rightarrow> Inr w)"

definition numeric_types :: "int list" where
  "numeric_types = [VT_ADD, VT_DIV, VT_FLOAT, VT_MOD, VT_MUL, VT_SUB]"

definition output_value :: "vitem \<Rightarrow> error + string" where
  "output_value x = attempt (exec_condition x []) (\<lambda>res.
     if i_type (idat x) \<in> set numeric_types
     then attempt (stream_float res) (\<lambda>v. Inr (fixed_str (i_out_prec (idat x)) v)) else Inr res)"

definition sort_key_part :: "column \<Rightarrow> string \<Rightarrow> error + string" where
  "sort_key_part c v =
    (if co_type c = TYPE_FLOAT then attempt (stream_float v) (\<lambda>f.
       Inr (setw_right (CHR ''0'') (co_size c) (fixed_str (co_prec c) f)))
     else if co_type c = TYPE_INT then Inr (setw_right (CHR ''0'') (co_size c) v)
     else Inr (setw_left (CHR '' '') (co_size c) v))"

definition sort_key :: "(idata \<Rightarrow> error + column) \<Rightarrow> vitem list \<Rightarrow> error + string" where
  "sort_key col keys = attempt (traverse (\<lambda>x. attempt (col (idat x)) (\<lambda>c.
     sort_key_part c (i_value (idat x)))) keys) (\<lambda>parts. Inr (concat parts))"

text \<open>A multimap puts an entry behind those with the same key.\<close>

fun multi_insert :: "string \<Rightarrow> string \<Rightarrow> (string \<times> string) list \<Rightarrow> (string \<times> string) list" where
  "multi_insert k v [] = [(k, v)]"
| "multi_insert k v (p # ps) = (if k < fst p then (k, v) # p # ps else p # multi_insert k v ps)"

text \<open>The text of a row: cells with character 174 behind each, or for a file with commas between.\<close>

definition cell_text :: "bool \<Rightarrow> nat \<Rightarrow> vitem \<Rightarrow> string \<Rightarrow> string" where
  "cell_text to_file i x res =
    (if to_file then (if 0 < i then '', '' else []) @ (if i_quote (idat x) then DQ # res @ [DQ] else res)
     else res @ [CHR 0xAE])"

text \<open>Without keys the rows keep their order: the key is the number of the row.\<close>

definition output_key :: "string vmm" where
  "output_key = bnd (gets vm_nodes) (\<lambda>ns. bnd (gets vm_expr_list) (\<lambda>es. bnd (gets vm_key_count) (\<lambda>nk.
     bnd (gets vm_output) (\<lambda>out.
     if nk = 0 then ret (setw_right (CHR ''0'') 20 (nat_str (length out)))
     else lift_exn (sort_key (item_column ns) (take nk es))))))"

definition output_row :: "string vmm" where
  "output_row = bnd (gets vm_expr_list) (\<lambda>es. bnd (gets vm_key_count) (\<lambda>nk. bnd (gets vm_output_type) (\<lambda>ot.
     bnd (lift_exn (traverse output_value (drop nk es))) (\<lambda>rs.
     let cells = zip (drop nk es) rs in
     sq (modify (\<lambda>s. s \<lparr> vm_expr_list := take nk es @ map (\<lambda>(x, res). map_data (grow res) x) cells \<rparr>))
        (ret (concat (map (\<lambda>(i, x, res). cell_text (ot = 1) i x res) (enumerate nk cells))))))))"

definition output_expr_list :: "unit vmm" where
  "output_expr_list = sq (modify (\<lambda>s. s \<lparr> vm_did_output := True \<rparr>)) (
     bnd output_row (\<lambda>row. bnd output_key (\<lambda>key.
     modify (\<lambda>s. s \<lparr> vm_output := multi_insert key row (vm_output s) \<rparr>))))"

section \<open>Rows into the expressions\<close>

definition on_exprs :: "((idata \<Rightarrow> error + column) \<Rightarrow> vitem \<Rightarrow> error + vitem) \<Rightarrow> unit vmm" where
  "on_exprs f = bnd (gets vm_nodes) (\<lambda>ns. bnd (gets vm_expr_list) (\<lambda>es.
     bnd (lift_exn (traverse (f (item_column ns)) es)) (\<lambda>es'. modify (\<lambda>s. s \<lparr> vm_expr_list := es' \<rparr>))))"

definition on_node_cond :: "nat \<Rightarrow> ((idata \<Rightarrow> error + column) \<Rightarrow> vitem \<Rightarrow> error + vitem) \<Rightarrow> unit vmm" where
  "on_node_cond i f = bnd (gets vm_nodes) (\<lambda>ns. bnd (get_node i) (\<lambda>x.
     bnd (lift_exn (on_option (f (item_column ns)) (n_on_cond x))) (\<lambda>c. upd_node i (\<lambda>n. n \<lparr> n_on_cond := c \<rparr>))))"

definition on_where :: "((idata \<Rightarrow> error + column) \<Rightarrow> vitem \<Rightarrow> error + vitem) \<Rightarrow> unit vmm" where
  "on_where f = bnd (gets vm_where) (\<lambda>w. case w of None \<Rightarrow> ret () | Some i \<Rightarrow> on_node_cond i f)"

definition row1 :: "vrow \<Rightarrow> (idata \<Rightarrow> error + column) \<Rightarrow> vitem \<Rightarrow> error + vitem" where
  "row1 r col = set_column_value col r"

definition row2 :: "vrow \<Rightarrow> vrow \<Rightarrow> (idata \<Rightarrow> error + column) \<Rightarrow> vitem \<Rightarrow> error + vitem" where
  "row2 l r col = set_column_value2 col l r"

definition exprs_null :: "unit vmm" where
  "exprs_null = on_exprs (\<lambda>_. set_column_value_null)"

definition row_of :: "nat \<Rightarrow> vrow vmm" where
  "row_of i = bnd (get_node i) (\<lambda>x. case n_row x of None \<Rightarrow> throw (Undefined ''m_row'') | Some r \<Rightarrow> ret r)"

definition set_row :: "nat \<Rightarrow> nat \<Rightarrow> vrow \<Rightarrow> unit vmm" where
  "set_row i j r = upd_node i (\<lambda>n. n \<lparr> n_diter := j, n_row := Some r \<rparr>)"

definition eval_on :: "nat \<Rightarrow> string \<Rightarrow> string vmm" where
  "eval_on i res = bnd (get_node i) (\<lambda>x. case n_on_cond x of None \<Rightarrow> ret res | Some c \<Rightarrow> lift_exn (exec_condition c res))"

fun for_each :: "('a \<Rightarrow> unit vmm) \<Rightarrow> 'a list \<Rightarrow> unit vmm" where
  "for_each f [] = ret ()"
| "for_each f (x # xs) = sq (f x) (for_each f xs)"

text \<open>The rows of a table from its iterator on, and from the beginning.\<close>

definition loop_from :: "nat \<Rightarrow> (nat \<times> vrow \<Rightarrow> unit vmm) \<Rightarrow> unit vmm" where
  "loop_from i f = bnd (tree_of i) (\<lambda>t. bnd (get_node i) (\<lambda>x.
     sq (for_each f (drop (n_diter x) (enumerate 0 (tb_rows t))))
        (upd_node i (\<lambda>n. n \<lparr> n_diter := length (tb_rows t) \<rparr>))))"

definition loop_all :: "nat \<Rightarrow> (nat \<times> vrow \<Rightarrow> unit vmm) \<Rightarrow> unit vmm" where
  "loop_all i f = sq (upd_node i (\<lambda>n. n \<lparr> n_diter := 0 \<rparr>)) (loop_from i f)"

section \<open>Joins\<close>

type_synonym stage = "nat option \<Rightarrow> unit vmm"

definition next_stage :: "stage \<Rightarrow> nat \<Rightarrow> unit vmm" where
  "next_stage k i = bnd (get_node i) (\<lambda>x. k (n_next x))"

definition prev_of :: "nat \<Rightarrow> nat vmm" where
  "prev_of i = bnd (get_node i) (\<lambda>x. deref (n_prev x))"

definition opt_prev_of :: "nat \<Rightarrow> nat vmm" where
  "opt_prev_of i = bnd (get_node i) (\<lambda>x. case n_opt_prev x of None \<Rightarrow> deref (n_prev x) | Some p \<Rightarrow> ret p)"

fun key_from :: "vrow \<Rightarrow> string list \<Rightarrow> error + string" where
  "key_from r [] = Inr []"
| "key_from r (c # cs) = attempt (row_get r c) (\<lambda>v. attempt (key_from r cs) (\<lambda>k. Inr (v @ k)))"

definition foreign_of :: "nat \<Rightarrow> nat \<Rightarrow> foreign vmm" where
  "foreign_of prev this = bnd (tree_of prev) (\<lambda>t. bnd (get_node this) (\<lambda>x.
     lift_exn (get_foreign (tb_schema t) (n_fgn_name x))))"

definition find_row :: "nat \<Rightarrow> string \<Rightarrow> vrow option vmm" where
  "find_row this key = bnd (tree_of this) (\<lambda>t. bnd (get_node this) (\<lambda>x. ret (table_find t (n_ndx_name x) key)))"

definition exec_inner_join_x_0 :: "stage \<Rightarrow> nat \<Rightarrow> unit vmm" where
  "exec_inner_join_x_0 k this = bnd (opt_prev_of this) (\<lambda>prev. loop_all this (\<lambda>(j, r).
     sq (set_row this j r) (bnd (row_of prev) (\<lambda>p. sq (on_node_cond this (row2 p r)) (
     bnd (eval_on this []) (\<lambda>res. if res = VM_TRUE
       then sq (on_exprs (row1 r)) (sq (on_where (row1 r)) (next_stage k this)) else ret ()))))))"

definition exec_inner_join_x_1 :: "stage \<Rightarrow> nat \<Rightarrow> unit vmm" where
  "exec_inner_join_x_1 k this = bnd (opt_prev_of this) (\<lambda>prev. bnd (foreign_of prev this) (\<lambda>fgn.
     bnd (row_of prev) (\<lambda>p. bnd (lift_exn (key_from p (fg_col_name_list fgn))) (\<lambda>key.
     bnd (find_row this key) (\<lambda>found. case found of None \<Rightarrow> ret ()
     | Some r \<Rightarrow> sq (upd_node this (\<lambda>n. n \<lparr> n_row := Some r \<rparr>)) (sq (on_node_cond this (row2 p r)) (
         bnd (eval_on this []) (\<lambda>res. if res = VM_TRUE
           then sq (on_exprs (row1 r)) (sq (on_where (row1 r)) (next_stage k this)) else ret ()))))))))"

definition exec_inner_join_0_0 :: "stage \<Rightarrow> nat \<Rightarrow> unit vmm" where
  "exec_inner_join_0_0 k this = bnd (prev_of this) (\<lambda>prev. loop_from prev (\<lambda>(i, p).
     sq exprs_null (sq (set_row prev i p) (loop_all this (\<lambda>(j, r).
       sq (set_row this j r) (sq (on_node_cond this (row2 p r)) (
       bnd (eval_on this VM_FALSE) (\<lambda>res. if res = VM_TRUE
         then sq (on_exprs (row2 p r)) (sq (on_where (row2 p r)) (next_stage k this)) else ret ()))))))))"

definition exec_inner_join_0_1 :: "stage \<Rightarrow> nat \<Rightarrow> unit vmm" where
  "exec_inner_join_0_1 k this = bnd (prev_of this) (\<lambda>prev. bnd (foreign_of prev this) (\<lambda>fgn. loop_from prev (\<lambda>(i, p).
     sq exprs_null (sq (set_row prev i p) (
     bnd (lift_exn (key_from p (fg_col_name_list fgn))) (\<lambda>key.
     bnd (find_row this key) (\<lambda>found. case found of None \<Rightarrow> ret ()
     | Some r \<Rightarrow> sq (upd_node this (\<lambda>n. n \<lparr> n_row := Some r \<rparr>)) (sq (on_node_cond this (row2 p r)) (
         bnd (eval_on this VM_FALSE) (\<lambda>res. if res = VM_TRUE
           then sq (on_exprs (row2 p r)) (sq (on_where (row2 p r)) (next_stage k this)) else ret ())))))))))) "

text \<open>The rows of a left join that found no partner: straight to the output stage.\<close>

definition exec_unmatched :: "stage \<Rightarrow> vrow \<Rightarrow> unit vmm" where
  "exec_unmatched k p = bnd (gets vm_did_output) (\<lambda>d. bnd (gets vm_have_inner_join) (\<lambda>h.
     if \<not> d \<and> \<not> h then sq (on_exprs (row1 p)) (bnd (gets vm_tail) k) else ret ()))"

definition no_output :: "unit vmm" where
  "no_output = modify (\<lambda>s. s \<lparr> vm_did_output := False \<rparr>)"

definition exec_left_join_x_0 :: "stage \<Rightarrow> nat \<Rightarrow> unit vmm" where
  "exec_left_join_x_0 k this = exec_inner_join_x_0 k this"

definition exec_left_join_x_1 :: "stage \<Rightarrow> nat \<Rightarrow> unit vmm" where
  "exec_left_join_x_1 k this = exec_inner_join_x_1 k this"

definition exec_left_join_0_0 :: "stage \<Rightarrow> nat \<Rightarrow> unit vmm" where
  "exec_left_join_0_0 k this = bnd (prev_of this) (\<lambda>prev. loop_from prev (\<lambda>(i, p).
     sq no_output (sq exprs_null (sq (set_row prev i p) (sq (loop_all this (\<lambda>(j, r).
       sq (set_row this j r) (sq (on_node_cond this (row2 p r)) (
       bnd (eval_on this []) (\<lambda>res. if res = VM_TRUE
         then sq (on_exprs (row2 p r)) (sq (on_where (row2 p r)) (next_stage k this)) else ret ())))))
     (exec_unmatched k p))))))"

definition exec_left_join_0_1 :: "stage \<Rightarrow> nat \<Rightarrow> unit vmm" where
  "exec_left_join_0_1 k this = bnd (prev_of this) (\<lambda>prev. bnd (foreign_of prev this) (\<lambda>fgn. loop_from prev (\<lambda>(i, p).
     sq no_output (sq exprs_null (sq (set_row prev i p) (
     bnd (lift_exn (key_from p (fg_col_name_list fgn))) (\<lambda>key. sq (
     bnd (find_row this key) (\<lambda>found. case found of None \<Rightarrow> ret ()
     | Some r \<Rightarrow> sq (upd_node this (\<lambda>n. n \<lparr> n_row := Some r \<rparr>)) (sq (on_node_cond this (row2 p r)) (
         bnd (eval_on this []) (\<lambda>res. if res = VM_TRUE
           then sq (on_exprs (row2 p r)) (sq (on_where (row2 p r)) (next_stage k this)) else ret ())))))
     (exec_unmatched k p))))))))"

text \<open>The first join of the chain goes through the rows of both tables.\<close>

definition exec_by_kind :: "(nat \<Rightarrow> unit vmm) \<Rightarrow> (nat \<Rightarrow> unit vmm) \<Rightarrow> (nat \<Rightarrow> unit vmm) \<Rightarrow> (nat \<Rightarrow> unit vmm) \<Rightarrow> nat \<Rightarrow> unit vmm" where
  "exec_by_kind x0 x1 j00 j01 this = bnd (prev_of this) (\<lambda>prev. bnd (get_node prev) (\<lambda>p. bnd (get_node this) (\<lambda>c.
     if n_prev p \<noteq> None then (if n_ndx_name c = [] then x0 this else x1 this)
     else (if n_ndx_name c = [] then j00 this else j01 this))))"

definition exec_inner_join :: "stage \<Rightarrow> nat \<Rightarrow> unit vmm" where
  "exec_inner_join k = exec_by_kind (exec_inner_join_x_0 k) (exec_inner_join_x_1 k) (exec_inner_join_0_0 k) (exec_inner_join_0_1 k)"

definition exec_left_join :: "stage \<Rightarrow> nat \<Rightarrow> unit vmm" where
  "exec_left_join k = exec_by_kind (exec_left_join_x_0 k) (exec_left_join_x_1 k) (exec_left_join_0_0 k) (exec_left_join_0_1 k)"

definition exec_where :: "stage \<Rightarrow> nat \<Rightarrow> unit vmm" where
  "exec_where k i = bnd (eval_on i VM_TRUE) (\<lambda>res. if res = VM_TRUE then next_stage k i else ret ())"

fun exec_join :: "nat \<Rightarrow> stage" where
  "exec_join 0 p = throw Fuel"
| "exec_join (Suc n) p = bnd (deref p) (\<lambda>i. bnd (get_node i) (\<lambda>x.
     if n_action x = VT_INJOIN then exec_inner_join (exec_join n) i
     else if n_action x = VT_LTJOIN then exec_left_join (exec_join n) i
     else if n_action x = VT_OUTPUT then output_expr_list
     else if n_action x = VT_WHERE then exec_where (exec_join n) i
     else ret ()))"

definition exec_query :: "nat \<Rightarrow> unit vmm" where
  "exec_query n = bnd (gets vm_head) (\<lambda>p. bnd (deref p) (\<lambda>h. loop_all h (\<lambda>(i, r).
     sq exprs_null (sq (set_row h i r) (sq (on_where (row1 r)) (sq (on_exprs (row1 r)) (next_stage (exec_join n) h)))))))"

section \<open>The order of the chain\<close>

fun links_back :: "nat \<Rightarrow> nat option \<Rightarrow> nat list vmm" where
  "links_back n None = ret []"
| "links_back 0 (Some i) = throw Fuel"
| "links_back (Suc n) (Some i) = bnd (get_node i) (\<lambda>x. bnd (links_back n (n_prev x)) (\<lambda>is. ret (i # is)))"

fun links_forward :: "nat \<Rightarrow> nat option \<Rightarrow> nat list vmm" where
  "links_forward n None = ret []"
| "links_forward 0 (Some i) = throw Fuel"
| "links_forward (Suc n) (Some i) = bnd (get_node i) (\<lambda>x. bnd (links_forward n (n_next x)) (\<lambda>is. ret (i # is)))"

definition chain_fuel :: "nat vmm" where
  "chain_fuel = gets (\<lambda>s. length (vm_nodes s))"

text \<open>A link takes its action and condition from the one that precedes it after the reversal.\<close>

definition moved_action :: "bool \<Rightarrow> int \<Rightarrow> int" where
  "moved_action rt a = (let b = (if a = VT_LTJOIN then VT_INJOIN else a)
     in if rt \<and> b = VT_RTJOIN then VT_LTJOIN else b)"

fun move_right :: "bool \<Rightarrow> nat list \<Rightarrow> unit vmm" where
  "move_right rt (i # j # is) = sq (move_right rt (j # is)) (bnd (get_node i) (\<lambda>x.
     upd_node j (\<lambda>n. n \<lparr> n_action := moved_action rt (n_action x), n_on_cond := n_on_cond x \<rparr>)))"
| "move_right rt _ = ret ()"

fun relink :: "nat list \<Rightarrow> unit vmm" where
  "relink (i # j # is) = sq (upd_node i (\<lambda>n. n \<lparr> n_next := Some j \<rparr>))
     (sq (upd_node j (\<lambda>n. n \<lparr> n_prev := Some i \<rparr>)) (relink (j # is)))"
| "relink _ = ret ()"

text \<open>
  The part of the chain up to \<open>c\<close> is turned around; \<open>rt\<close> says that right joins in it
  become left joins.
\<close>

definition flip :: "bool \<Rightarrow> nat \<Rightarrow> unit vmm" where
  "flip rt c = bnd chain_fuel (\<lambda>fuel. bnd (get_node c) (\<lambda>x. bnd (links_back fuel (Some c)) (\<lambda>items.
     let front = hd items; back = last items; stub = n_next x in
     sq (relink items) (sq (move_right rt items) (
     sq (upd_node front (\<lambda>n. n \<lparr> n_action := VT_NULL, n_on_cond := None, n_prev := None \<rparr>)) (
     sq (upd_node back (\<lambda>n. n \<lparr> n_next := stub \<rparr>)) (
     sq (case stub of None \<Rightarrow> ret () | Some t \<Rightarrow> upd_node t (\<lambda>n. n \<lparr> n_opt_prev := n_prev n, n_prev := Some back \<rparr>)) (
     bnd (links_forward fuel stub) (\<lambda>rest.
     modify (\<lambda>s. s \<lparr> vm_head := Some front, vm_tail := Some (last (items @ rest)) \<rparr>)))))))))) "

text \<open>From both ends to the middle: where the walk ends, and its number of steps.\<close>

fun meet :: "nat \<Rightarrow> nat option \<Rightarrow> nat option \<Rightarrow> nat \<Rightarrow> (nat option \<times> nat option \<times> nat) vmm" where
  "meet 0 nxt prv k = throw Fuel"
| "meet (Suc n) nxt prv k = (case (nxt, prv) of
     (Some i, Some j) \<Rightarrow> if i = j then ret (nxt, prv, k)
       else bnd (get_node j) (\<lambda>y. bnd (get_node i) (\<lambda>x. meet n (n_next x) (n_prev y) (Suc k)))
   | _ \<Rightarrow> ret (nxt, prv, k))"

fun make_column_list :: "nat \<Rightarrow> nat \<Rightarrow> vitem \<Rightarrow> error + (idata \<times> idata) list" where
  "make_column_list li ri (Item d l r c) =
     (if VT_CMPEQ \<le> i_type d \<and> i_type d \<le> VT_CMPNE then
        (case (l, r) of (Some x, Some y) \<Rightarrow>
           let a = idat x; b = idat y in
           if i_type a = VT_COLUMN \<and> i_type b = VT_COLUMN then
             if i_parent a = Some li \<and> i_parent b = Some ri then Inr [(a, b)]
             else if i_parent a = Some ri \<and> i_parent b = Some li then Inr [(b, a)] else Inr []
           else Inr []
         | _ \<Rightarrow> Inl (Undefined ''nullptr''))
      else if i_type d = VT_AND \<or> i_type d = VT_OR then
        (case l of None \<Rightarrow> Inl (Undefined ''nullptr'') | Some x \<Rightarrow> attempt (make_column_list li ri x) (\<lambda>xs.
           case r of None \<Rightarrow> Inl (Undefined ''nullptr'') | Some y \<Rightarrow> attempt (make_column_list li ri y) (\<lambda>ys. Inr (xs @ ys))))
      else if i_type d = VT_ON \<or> i_type d = VT_WHERE then
        (case c of None \<Rightarrow> Inl (Undefined ''nullptr'') | Some x \<Rightarrow> make_column_list li ri x)
      else Inr [])"

declare make_column_list.simps [simp del]

definition foreign_matches :: "table \<Rightarrow> (idata \<times> idata) list \<Rightarrow> foreign \<Rightarrow> bool" where
  "foreign_matches t cols fgn = (fg_db_name fgn = tb_db_name t \<and> fg_tbl_name fgn = tb_tbl_name t
     \<and> list_all (\<lambda>c. list_ex (\<lambda>(_, b). i_db_name b = tb_db_name t \<and> i_tbl_name b = tb_tbl_name t \<and> i_col_name b = c) cols)
         (fg_col_name_list fgn))"

definition get_index_name :: "nat \<Rightarrow> nat \<Rightarrow> vitem option \<Rightarrow> unit vmm" where
  "get_index_name prv nxt oc = bnd (deref oc) (\<lambda>c. bnd (lift_exn (make_column_list prv nxt c)) (\<lambda>cols.
     bnd (tree_of prv) (\<lambda>p. bnd (tree_of nxt) (\<lambda>t.
     case find (foreign_matches t cols) (sc_foreign (tb_schema p)) of None \<Rightarrow> ret ()
     | Some fgn \<Rightarrow> if fg_name fgn = [] then ret ()
         else upd_node nxt (\<lambda>n. n \<lparr> n_ndx_name := PK_NDX, n_fgn_name := fg_name fgn, n_diter := length (tb_rows t) \<rparr>)))))"

fun index_joins :: "nat list \<Rightarrow> unit vmm" where
  "index_joins (i # j # is) = sq (bnd (get_node i) (\<lambda>x. bnd (get_node j) (\<lambda>y.
       if n_on_cond x \<noteq> None then get_index_name i j (n_on_cond y) else ret ()))) (index_joins (j # is))"
| "index_joins _ = ret ()"

fun last_with :: "(vnode \<Rightarrow> bool) \<Rightarrow> nat list \<Rightarrow> nat option vmm" where
  "last_with P [] = ret None"
| "last_with P (i # is) = bnd (get_node i) (\<lambda>x. if P x then ret (Some i) else last_with P is)"

text \<open>The steps of \<open>make_query\<close> in their order.\<close>

definition single_table :: "unit vmm" where
  "single_table = bnd (gets vm_tree_list) (\<lambda>ts. if length ts = 1
     then modify (\<lambda>s. s \<lparr> vm_head := Some (last ts), vm_tail := Some (last ts) \<rparr>) else ret ())"

definition note_inner_join :: "unit vmm" where
  "note_inner_join = bnd (gets vm_head) (\<lambda>h. bnd (deref h) (\<lambda>i. bnd (get_node i) (\<lambda>x.
     bnd chain_fuel (\<lambda>fuel. bnd (links_forward fuel (n_next x)) (\<lambda>fw. bnd (gets vm_nodes) (\<lambda>ns.
     modify (\<lambda>s. s \<lparr> vm_have_inner_join := list_ex (\<lambda>j. n_action (ns ! j) = VT_INJOIN) fw \<rparr>)))))))"

definition reorder :: "unit vmm" where
  "reorder = bnd chain_fuel (\<lambda>fuel. bnd (gets vm_head) (\<lambda>h. bnd (gets vm_tail) (\<lambda>t.
     bnd (links_back fuel t) (\<lambda>bw. bnd (last_with (\<lambda>x. n_action x = VT_RTJOIN) bw) (\<lambda>rt.
     case rt of Some c \<Rightarrow> flip True c
     | None \<Rightarrow> bnd (meet (Suc fuel) h t 0) (\<lambda>(nxt, prv, k). case (nxt, prv) of
         (Some c, Some _) \<Rightarrow> if 1 < k then flip False c else ret () | _ \<Rightarrow> ret ()))))))"

definition append_where :: "unit vmm" where
  "append_where = bnd (gets vm_where) (\<lambda>w. case w of None \<Rightarrow> ret () | Some i \<Rightarrow> bnd vm_tail_of (\<lambda>t.
     sq (upd_node t (\<lambda>n. n \<lparr> n_next := Some i \<rparr>)) (sq (upd_node i (\<lambda>n. n \<lparr> n_prev := Some t \<rparr>))
     (modify (\<lambda>s. s \<lparr> vm_tail := Some i \<rparr>)))))"

definition append_output :: "unit vmm" where
  "append_output = bnd vm_tail_of (\<lambda>t.
     bnd (new_node (vnode_new \<lparr> n_type := VT_OUTPUT, n_action := VT_OUTPUT, n_prev := Some t \<rparr>)) (\<lambda>i.
     sq (upd_node t (\<lambda>n. n \<lparr> n_next := Some i \<rparr>)) (modify (\<lambda>s. s \<lparr> vm_tail := Some i \<rparr>))))"

definition make_query :: "unit vmm" where
  "make_query = sq single_table (sq note_inner_join (sq reorder (
     sq (bnd chain_fuel (\<lambda>fuel. bnd (gets vm_head) (\<lambda>h. bnd (links_forward fuel h) index_joins)))
     (sq append_where append_output))))"

section \<open>The result\<close>

definition left_types :: "int list" where
  "left_types = [TYPE_BOOLEAN, VT_AND, VT_CMPEQ, VT_CMPGE, VT_CMPGT, VT_CMPLE, VT_CMPLT, VT_OR, VT_XOR,
     TYPE_CHAR, TYPE_DATE, TYPE_DATETIME, TYPE_ENUM, TYPE_TIMESTAMP, TYPE_VARCHAR, VT_VARCHAR]"

definition right_types :: "int list" where
  "right_types = [TYPE_FLOAT, TYPE_INT, VT_ADD, VT_DIV, VT_FLOAT, VT_INT, VT_MUL, VT_SUB]"

definition box_cell :: "int \<Rightarrow> int \<Rightarrow> string \<Rightarrow> string" where
  "box_cell ty w v = (if ty \<in> set left_types then setw_left (CHR '' '') w v
     else if ty \<in> set right_types then setw_right (CHR '' '') w v else [])"

fun box_cells :: "(idata \<Rightarrow> error + column) \<Rightarrow> vitem list \<Rightarrow> string \<Rightarrow> error + string" where
  "box_cells col [] row = Inr []"
| "box_cells col (x # xs) row =
     (let v = takeWhile (\<lambda>c. c \<noteq> CHR 0xAE) row; rest = drop (length v) row; value = (if v = [] then ''null'' else v)
      in if rest = [] then Inr []
         else attempt (if i_type (idat x) = VT_COLUMN then attempt (col (idat x)) (\<lambda>c. Inr (co_type c)) else Inr (i_type (idat x)))
           (\<lambda>ty. attempt (box_cells col xs (tl rest)) (\<lambda>r. Inr (box_cell ty (i_out_size (idat x)) value @ '' | '' @ r))))"

definition output_boxed_line :: "string \<Rightarrow> unit vmm" where
  "output_boxed_line row = bnd (gets vm_nodes) (\<lambda>ns. bnd (gets vm_expr_list) (\<lambda>es. bnd (gets vm_key_count) (\<lambda>nk.
     bnd (lift_exn (box_cells (item_column ns) (drop nk es) row)) (\<lambda>cells. fsm_put (butlast (''| '' @ cells) @ [NL])))))"

definition output_boxed_result :: "nat vmm" where
  "output_boxed_result = bnd (gets vm_expr_list) (\<lambda>es. bnd (gets vm_key_count) (\<lambda>nk. bnd (gets vm_output) (\<lambda>out.
     let xs = drop nk es;
         title = ''|'' @ concat (map (\<lambda>x. '' '' @ setw_left (CHR '' '') (i_out_size (idat x)) (i_title (idat x)) @ '' |'') xs) @ [NL];
         barbwire = ''+'' @ concat (map (\<lambda>x. replicate (nat (i_out_size (idat x) + 2)) (CHR ''-'') @ ''+'') xs) @ [NL]
     in sq (fsm_put barbwire) (sq (fsm_put title) (sq (fsm_put barbwire) (
        sq (for_each (\<lambda>p. output_boxed_line (snd p)) out) (sq (fsm_put barbwire) (ret (length out)))))))))"

definition output_result :: "nat vmm" where
  "output_result = bnd (gets vm_output) (\<lambda>out. sq (modify (\<lambda>s. s \<lparr> vm_file :=
     (vm_outfile s, concat (map (\<lambda>p. snd p @ [NL]) out)) # vm_file s \<rparr>)) (ret (length out)))"

definition output_query_result :: "nat vmm" where
  "output_query_result = bnd (gets vm_output) (\<lambda>out. bnd (gets vm_output_type) (\<lambda>ot.
     if out = [] then ret 0 else if ot = 1 then output_result else output_boxed_result))"

text \<open>The number of rows, and the time with two digits behind the point.\<close>

definition rows_message :: "nat \<Rightarrow> fl32 \<Rightarrow> string" where
  "rows_message k secs = nat_str k @ '' rows in set ('' @ setw_right (CHR '' '') 4 (fixed_str 2 secs) @ '' sec)'' @ [NL]"

text \<open>A chain without cycles has at most as many stages as there are links.\<close>

definition vm_select :: "unit vmm" where
  "vm_select = sq make_query (bnd chain_fuel (\<lambda>fuel. bnd (gets vm_tree_list) (\<lambda>ts.
     sq (if length ts = 1 then exec_query fuel
         else bnd (gets vm_head) (\<lambda>h. bnd (deref h) (next_stage (exec_join fuel))))
     (bnd output_query_result (\<lambda>k. bnd (gets vm_elapsed) (\<lambda>secs. fsm_put (rows_message k secs)))))))"

end
