(* ===== verification/VmRun.thy ===== *)
theory VmRun
  imports VmQuery
begin

text \<open>
  The instructions of the machine: \<open>vm::run\<close> fetches bytes from the code buffer until RET,
  \<open>vm::call\<close> branches on the byte behind CALL. The routines that change tables,
  schemas, users and files are outside this model and are an argument, a
  function of the opcode.
\<close>

definition handlers :: "(byte \<times> unit vmm) list" where
  "handlers = [(OP_ADD, vm_add), (OP_AND, logic_and), (OP_CMPEQ, cmpeq), (OP_CMPGE, cmpge), (OP_CMPGT, cmpgt),
     (OP_CMPLE, cmple), (OP_CMPLT, cmplt), (OP_CMPNE, cmpne), (OP_CRJOIN, cross_join), (OP_DIV, vm_div),
     (OP_INJOIN, inner_join), (OP_LTJOIN, left_join), (OP_MKASSIGN, make_assignment),
     (OP_MKASTEXPR, make_asterisk_expression), (OP_MKCLMNEXPR, make_column_expression),
     (OP_MKEXPR, make_expression), (OP_MKEXPRHDR, make_expression_header), (OP_MKEXPRLST, make_expression_list),
     (OP_MUL, vm_mul), (OP_NEGATE, negate), (OP_NOT, logic_not), (OP_ON, on_cond), (OP_OPNTBL, open_table),
     (OP_OR, logic_or), (OP_ORDERBY, order_by), (OP_RTJOIN, right_join), (OP_SELECT, vm_select),
     (OP_SETOUTF, set_outfile), (OP_SLCKTBL, lock_tree 1), (OP_SUB, vm_sub), (OP_ULCKTBL, lock_tree 2),
     (OP_USING, using_cond), (OP_WHERE, where_cond)]"

text \<open>The opcodes of the routines that are an argument; any other byte is an error.\<close>

definition other_ops :: "byte list" where
  "other_ops = [OP_ADDCLMN, OP_ADDFGNKEY, OP_ADDNDX, OP_ALTDB, OP_ALTUSR, OP_CRTDB, OP_CRTTBL, OP_CRTUSR, OP_DELETE,
     OP_DESCRIBE, OP_DROPCLMN, OP_DROPDB, OP_DROPFGNKEY, OP_DROPNDX, OP_DROPTBL, OP_DROPUSR, OP_GRANT, OP_INSERT,
     OP_LOADDATA, OP_MKCLMNDEF, OP_MKFGNKEY, OP_MKPRIKEY, OP_MKUNIKEY, OP_MKUSR, OP_MKWRKSCH, OP_REVOKE,
     OP_SHOWDBS, OP_SHOWTBLS, OP_UPDATE, OP_USE]"

definition vm_call :: "(byte \<Rightarrow> unit vmm) \<Rightarrow> unit vmm" where
  "vm_call other = bnd (on_code get) (\<lambda>b. case map_of handlers b of
     Some h \<Rightarrow> h
   | None \<Rightarrow> if b \<in> set other_ops then other b else throw (Runtime ERRNO_OPCODE_ERROR))"

text \<open>One instruction; the result says whether the machine goes on.\<close>

definition vm_step :: "(byte \<Rightarrow> unit vmm) \<Rightarrow> bool vmm" where
  "vm_step other = bnd (on_code get) (\<lambda>b.
     if b = OP_CALL then sq (vm_call other) (ret True)
     else if b = OP_PUSH then sq push (ret True)
     else if b = OP_PUSHO then sq pusho (ret True)
     else if b = OP_RET then ret False
     else throw (Runtime ERRNO_OPCODE_ERROR))"

fun vm_loop :: "(byte \<Rightarrow> unit vmm) \<Rightarrow> nat \<Rightarrow> unit vmm" where
  "vm_loop other 0 = throw Fuel"
| "vm_loop other (Suc n) = bnd (vm_step other) (\<lambda>more. if more then vm_loop other n else ret ())"

text \<open>Every instruction takes at least one byte of the code.\<close>

definition vm_run :: "(byte \<Rightarrow> unit vmm) \<Rightarrow> unit vmm" where
  "vm_run other = bnd (gets (\<lambda>s. nat (remaining (vm_code s)))) (\<lambda>n. vm_loop other (Suc n))"

end
