(* ===== verification/VmLink.thy ===== *)
theory VmLink
  imports ParserCode AsmCorrect VmRun RowLayout
begin

text \<open>
  The parser, the assembler and the machine together: the bytes of the code of an accepted
  expression make the machine push one item, the item of the expression's
  operator tree, and leave the rest of its state alone.
\<close>

section \<open>Reading code and data\<close>

definition rest_code :: "buffer \<Rightarrow> byte list" where
  "rest_code b = drop (nat (m_index b)) (contents b)"

lemma read_code:
  assumes "buf_inv b" "rest_code b = bs @ r"
  shows "int (length bs) \<le> remaining b" "read_bytes (length bs) b = bs"
    "rest_code (advance (length bs) b) = r" "buf_inv (advance (length bs) b)"
proof -
  let ?i = "nat (m_index b)" and ?n = "nat (m_bound b)"
  have i: "0 \<le> m_index b" "m_index b \<le> m_bound b" "?n \<le> length (m_buffer b)" using assms(1) by (auto simp: buf_inv_def)
  have d: "take (?n - ?i) (drop ?i (m_buffer b)) = bs @ r" using assms(2) by (simp add: rest_code_def contents_def drop_take)
  have "length (bs @ r) = ?n - ?i" using i by (simp flip: d)
  then show rem: "int (length bs) \<le> remaining b" using i by (simp add: remaining_def)
  have le: "length bs \<le> ?n - ?i" using rem i by (simp add: remaining_def)
  have "take (length bs) (take (?n - ?i) (drop ?i (m_buffer b))) = bs" by (simp add: d)
  with le show "read_bytes (length bs) b = bs" by (simp add: read_bytes_def min_def)
  show "rest_code (advance (length bs) b) = r"
  proof -
    have "rest_code (advance (length bs) b) = drop (length bs) (rest_code b)"
      using i by (simp add: rest_code_def contents_def advance_def nat_add_distrib add.commute)
    with assms(2) show ?thesis by simp
  qed
  show "buf_inv (advance (length bs) b)" by (rule advance_inv [OF assms(1) rem])
qed

lemma get_code:
  assumes "buf_inv b" "rest_code b = x # r"
  shows "get b = (Inr x, advance 1 b)"
  using read_code [of b "[x]" r] assms by (simp add: get_ok)

lemma get_code32:
  assumes "buf_inv b" "rest_code b = bytes32 w @ r"
  shows "get_int32 b = (Inr w, advance 4 b)"
  using read_code [of b "bytes32 w" r] assms by (simp add: get_int32_ok)

text \<open>The data buffer holds items whose sizes and types fit their fields.\<close>

definition small_item :: "item \<Rightarrow> bool" where
  "small_item it \<longleftrightarrow> 0 \<le> fst it \<and> fst it < 256 \<and> length (snd it) < 2 ^ 15"

definition items_at :: "item list \<Rightarrow> buffer \<Rightarrow> bool" where
  "items_at items b \<longleftrightarrow> buf_inv b \<and> contents b = data_bytes items \<and> list_all small_item items
     \<and> length (data_bytes items) < 2 ^ 31"

lemma item_split:
  "k < length items \<Longrightarrow> \<exists>pre post. data_bytes items = pre @ item_bytes (items ! k) @ post
    \<and> item_offsets i items ! k = i + int (length pre)"
proof (induction items arbitrary: i k)
  case (Cons it items)
  show ?case
  proof (cases k)
    case 0
    then show ?thesis by (intro exI [of _ "[]"] exI [of _ "data_bytes items"]) (simp add: data_bytes_def)
  next
    case (Suc k')
    have "k' < length items" using Cons.prems Suc by simp
    from Cons.IH [OF this, of "i + int (length (item_bytes it))"] obtain pre post where
      p: "data_bytes items = pre @ item_bytes (items ! k') @ post"
      "item_offsets (i + int (length (item_bytes it))) items ! k' = i + int (length (item_bytes it)) + int (length pre)"
      by blast
    have "data_bytes (it # items) = item_bytes it @ data_bytes items" by (simp add: data_bytes_def)
    then show ?thesis
      using p Suc by (intro exI [of _ "item_bytes it @ pre"] exI [of _ post]) simp
  qed
qed simp

lemma item_fields:
  assumes "items_at items b" "k < length items" "items ! k = (ty, v)" "off = item_offsets 0 items ! k"
  shows "0 \<le> off" "off < 2 ^ 31"
    "get_at off b = (Inr (word_of_int ty), b \<lparr> m_index := off + 1 \<rparr>)" "uint (word_of_int ty :: byte) = ty"
    "get_int16_at (off + 1) b = (Inr (word_of_int (int (length v))), b \<lparr> m_index := off + 3 \<rparr>)"
    "sint (word_of_int (int (length v)) :: 16 word) = int (length v)"
    "get_varchar (int (length v)) (b \<lparr> m_index := off + 3 \<rparr>) = (Inr v, b \<lparr> m_index := off + 3 + int (length v) \<rparr>)"
    "off + 3 + int (length v) \<le> m_bound b"
proof -
  have b: "buf_inv b" "contents b = data_bytes items" "small_item (items ! k)"
    and len: "length (data_bytes items) < 2 ^ 31"
    using assms(1,2) by (auto simp: items_at_def list_all_length)
  obtain pre post where s: "data_bytes items = pre @ item_bytes (items ! k) @ post" and o: "off = int (length pre)"
    using item_split [OF assms(2), of 0] assms(4) by auto
  let ?p = "length pre"
  have sm: "0 \<le> ty" "ty < 256" "length v < 2 ^ 15" using b(3) assms(3) by (auto simp: small_item_def)
  have bound: "0 \<le> m_bound b" "nat (m_bound b) \<le> length (m_buffer b)" using b(1) by (auto simp: buf_inv_def)
  obtain z where mem: "m_buffer b = pre @ word_of_int ty # bytes16 (word_of_int (int (length v))) @ map byte_of_char v @ z"
  proof -
    have "m_buffer b = contents b @ drop (nat (m_bound b)) (m_buffer b)" by (simp add: contents_def)
    also have "contents b = pre @ (word_of_int ty # bytes16 (word_of_int (int (length v))) @ map byte_of_char v) @ post"
      using b(2) s assms(3) by (simp add: item_bytes_def)
    finally show thesis by (intro that [of "post @ drop (nat (m_bound b)) (m_buffer b)"]) simp
  qed
  have total: "?p + 3 + length v \<le> nat (m_bound b)"
    using arg_cong [OF b(2), of length] s assms(3) bound by (simp add: contents_def item_bytes_def)
  then show "off + 3 + int (length v) \<le> m_bound b" using o bound by linarith
  show "0 \<le> off" "off < 2 ^ 31" using o s len by simp_all
  show "uint (word_of_int ty :: byte) = ty" using sm by (simp add: uint_word_of_int)
  show "sint (word_of_int (int (length v)) :: 16 word) = int (length v)"
    using sm by (intro sint_of_nat_16) simp_all
  have at: "bytes_at ?p 1 (m_buffer b) = [word_of_int ty]"
      "bytes_at (?p + 1) 2 (m_buffer b) = bytes16 (word_of_int (int (length v)))"
      "bytes_at (?p + 3) (length v) (m_buffer b) = map byte_of_char v"
    by (simp_all add: bytes_at_def mem)
  show "get_at off b = (Inr (word_of_int ty), b \<lparr> m_index := off + 1 \<rparr>)"
    using field_runs(6) [OF b(1), of ?p] total bound o at(1) by simp
  show "get_int16_at (off + 1) b = (Inr (word_of_int (int (length v))), b \<lparr> m_index := off + 3 \<rparr>)"
    using field_runs(4) [OF b(1), of "?p + 1"] total bound o at(2) by (simp add: add.commute)
  have idx: "sq (set_index (off + 3)) (get_varchar (int (length v))) b
      = get_varchar (int (length v)) (b \<lparr> m_index := off + 3 \<rparr>)"
  proof -
    have "off + 3 \<le> m_bound b" "0 \<le> off" using total bound o by linarith+
    then show ?thesis by (simp add: exn_simps set_index_run)
  qed
  show "get_varchar (int (length v)) (b \<lparr> m_index := off + 3 \<rparr>) = (Inr v, b \<lparr> m_index := off + 3 + int (length v) \<rparr>)"
    using get_varchar_at_run [OF b(1), of "?p + 3" "length v"] total bound o at(3) idx
    by (simp add: get_varchar_at_def add.commute add.left_commute del: map_map)
qed

lemma items_at_index: "items_at items b \<Longrightarrow> 0 \<le> j \<Longrightarrow> j \<le> m_bound b \<Longrightarrow> items_at items (b \<lparr> m_index := j \<rparr>)"
  by (auto simp: items_at_def buf_inv_def contents_def)

section \<open>Lines of code\<close>

lemma loop_step:
  assumes "vm_step other s = (Inr True, s')"
  shows "vm_loop other (Suc n) s = vm_loop other n s'"
  using assms by simp

lemma on_code_run: "on_code m s = (case m (vm_code s) of (r, b) \<Rightarrow> (r, s \<lparr> vm_code := b \<rparr>))"
  by (simp add: on_code_def)

lemma on_data_run: "on_data m s = (case m (vm_data s) of (r, b) \<Rightarrow> (r, s \<lparr> vm_data := b \<rparr>))"
  by (simp add: on_data_def)

text \<open>The data item a line refers to.\<close>

definition data_index :: "string \<Rightarrow> nat" where
  "data_index d = (case stoi (drop 6 d) of Some i \<Rightarrow> nat i | None \<Rightarrow> 0)"

lemma pusho_bytes:
  assumes "is_data d" "line_bytes offs d = Some bs"
  shows "data_index d < length offs" "bs = OP_PUSHO # bytes32 (word_of_int (offs ! data_index d))"
proof -
  have t: "take 5 d = ''PUSHO''"
  proof -
    have "take 5 d = take 5 (take 6 d)" by (simp add: min_def)
    also have "\<dots> = ''PUSHO''" using assms(1) by (simp only: is_data_def) simp
    finally show ?thesis .
  qed
  then have "d \<noteq> ''NOP''" by auto
  with t assms show "data_index d < length offs" "bs = OP_PUSHO # bytes32 (word_of_int (offs ! data_index d))"
    by (auto simp: is_data_def line_bytes_def data_index_def split: Option.bind_splits if_splits)
qed

lemma stoi_to_string: "0 \<le> i \<Longrightarrow> i < 2 ^ 31 \<Longrightarrow> stoi (to_string i) = Some i"
  using stoi_nat_str [of "nat i"] by (simp add: to_string_def)

lemma sint_32: "0 \<le> i \<Longrightarrow> i < 2 ^ 31 \<Longrightarrow> sint (word_of_int i :: 32 word) = i"
  by (simp add: sint_sbintrunc' signed_take_bit_int_eq_self)

lemma loop_pusho:
  assumes "buf_inv (vm_code s)" "rest_code (vm_code s) = bs @ r" "bs = OP_PUSHO # bytes32 (word_of_int off)"
    and "0 \<le> off" "off < 2 ^ 31"
  shows "vm_loop other (Suc n) s = vm_loop other n (s \<lparr> vm_stack := leaf_item VT_OFFSET (to_string off) # vm_stack s,
      vm_code := advance (length bs) (vm_code s) \<rparr>)"
proof (rule loop_step)
  let ?b = "vm_code s"
  have b1: "buf_inv (advance 1 ?b)" "rest_code (advance 1 ?b) = bytes32 (word_of_int off) @ r"
    using read_code [of ?b "[OP_PUSHO]" "bytes32 (word_of_int off) @ r"] assms by auto
  have g: "get ?b = (Inr OP_PUSHO, advance 1 ?b)" by (rule get_code) (use assms in auto)
  have "advance 4 (advance 1 ?b) = advance (length bs) ?b" by (simp add: assms(3) advance_def)
  then show "vm_step other s = (Inr True, s \<lparr> vm_stack := leaf_item VT_OFFSET (to_string off) # vm_stack s,
      vm_code := advance (length bs) (vm_code s) \<rparr>)"
    using get_code32 [OF b1]
    by (simp add: vm_step_def exn_simps on_code_run g pusho_def push_item_def sint_32 [OF assms(4,5)])
qed

lemma call_bytes: "line_bytes offs (''CALL '' @ nm) = map_option (\<lambda>opc. [OP_CALL, opc]) (call_opcode nm)"
  by (simp add: line_bytes_def)

lemma loop_call:
  assumes "buf_inv (vm_code s)" "rest_code (vm_code s) = [OP_CALL, opc] @ r" "map_of handlers opc = Some h"
  shows "vm_loop other (Suc n) s = (case h (s \<lparr> vm_code := advance 2 (vm_code s) \<rparr>) of
     (Inl e, s') \<Rightarrow> (Inl e, s') | (Inr _, s') \<Rightarrow> vm_loop other n s')"
proof -
  let ?b = "vm_code s"
  have b1: "buf_inv (advance 1 ?b)" "rest_code (advance 1 ?b) = opc # r"
    using read_code [of ?b "[OP_CALL]" "opc # r"] assms by auto
  have g: "get ?b = (Inr OP_CALL, advance 1 ?b)" by (rule get_code) (use assms in auto)
  have "advance 1 (advance 1 ?b) = advance 2 ?b" by (simp add: advance_def)
  then show ?thesis
    using get_code [OF b1] assms(3)
    by (auto simp: vm_step_def vm_call_def exn_simps on_code_run g split: prod.splits sum.splits)
qed

lemma pop_text_item:
  assumes "vm_stack s = leaf_item VT_OFFSET (to_string (item_offsets 0 items ! k)) # st"
    and "items_at items (vm_data s)" "k < length items"
  shows "\<exists>j. 0 \<le> j \<and> j \<le> m_bound (vm_data s)
    \<and> pop_text s = (Inr (snd (items ! k)), s \<lparr> vm_stack := st, vm_data := (vm_data s) \<lparr> m_index := j \<rparr> \<rparr>)"
proof -
  obtain ty v where it: "items ! k = (ty, v)" by (cases "items ! k")
  define off where "off = item_offsets 0 items ! k"
  note f = item_fields [OF assms(2,3) it off_def]
  have "stoi_exn (to_string off) = Inr off" using f(1,2) by (simp add: stoi_exn_def stoi_to_string)
  then have "pop_text s = (Inr v, s \<lparr> vm_stack := st, vm_data := (vm_data s) \<lparr> m_index := off + 3 + int (length v) \<rparr> \<rparr>)"
    using f(5-7) assms(1)
    by (simp add: pop_text_def pop_int_def pop_item_def vm_get_varchar_def exn_simps on_data_run leaf_item_def off_def [symmetric])
  with f(1,8) it show ?thesis by (intro exI [of _ "off + 3 + int (length v)"]) simp
qed

lemma make_expression_item:
  assumes "vm_stack s = leaf_item VT_OFFSET (to_string (item_offsets 0 items ! k)) # st"
    and "items_at items (vm_data s)" "k < length items"
  shows "\<exists>j. 0 \<le> j \<and> j \<le> m_bound (vm_data s) \<and> (case literal_item (fst (items ! k)) (snd (items ! k)) of
      Inr x \<Rightarrow> make_expression s = (Inr (), s \<lparr> vm_stack := x # st, vm_data := (vm_data s) \<lparr> m_index := j \<rparr> \<rparr>)
    | Inl e \<Rightarrow> fst (make_expression s) = Inl (Runtime ERRNO_MALFORMED_EXPR))"
proof -
  obtain ty v where it: "items ! k = (ty, v)" by (cases "items ! k")
  define off where "off = item_offsets 0 items ! k"
  note f = item_fields [OF assms(2,3) it off_def]
  let ?j = "off + 3 + int (length v)"
  have i: "items_at items ((vm_data s) \<lparr> m_index := off + 1 \<rparr>)" using f(1,8) assms(2) by (intro items_at_index) auto
  note g = item_fields [OF i assms(3) it off_def]
  have "stoi_exn (to_string off) = Inr off" using f(1,2) by (simp add: stoi_exn_def stoi_to_string)
  then have run: "make_expression s = rethrow (Runtime ERRNO_MALFORMED_EXPR) (bnd (lift_exn (literal_item ty v)) push_item)
      (s \<lparr> vm_stack := st, vm_data := (vm_data s) \<lparr> m_index := ?j \<rparr> \<rparr>)"
    using f(3,4) g(5-7) assms(1)
    by (simp add: make_expression_def rethrow_def pop_int_def pop_item_def vm_get_varchar_def exn_simps on_data_run
        leaf_item_def off_def [symmetric])
  have "fst (rethrow (Runtime ERRNO_MALFORMED_EXPR) (bnd (lift_exn (literal_item ty v)) push_item) t)
      = Inl (Runtime ERRNO_MALFORMED_EXPR)" if "literal_item ty v = Inl e" for t e
    using that by (auto simp: rethrow_def exn_simps literal_item_def stoi_exn_def stof_exn_def Let_def split: if_splits option.splits)
  with run f(1,8) it show ?thesis
    by (intro exI [of _ ?j]) (auto simp: rethrow_def exn_simps push_item_def split: sum.splits)
qed

section \<open>The item of an expression\<close>

definition op_type :: "string \<Rightarrow> int option" where
  "op_type = map_of [(''CALL MUL'', VT_MUL), (''CALL DIV'', VT_DIV), (''CALL SUB'', VT_SUB), (''CALL ADD'', VT_ADD),
     (''CALL CMPGE'', VT_CMPGE), (''CALL CMPGT'', VT_CMPGT), (''CALL CMPLE'', VT_CMPLE), (''CALL CMPLT'', VT_CMPLT),
     (''CALL CMPEQ'', VT_CMPEQ), (''CALL CMPNE'', VT_CMPNE), (''CALL OR'', VT_OR), (''CALL AND'', VT_AND)]"

text \<open>
  The item the machine makes of a tree, or the exception that stops it, from its tables,
  the database in use and the data items; the right operand is made first.
\<close>

fun expr_item :: "vm \<Rightarrow> item list \<Rightarrow> tree \<Rightarrow> error + vitem" where
  "expr_item s items (Leaf mk ds) = (case map (\<lambda>d. items ! data_index d) ds of
       [it] \<Rightarrow> (case literal_item (fst it) (snd it) of Inr x \<Rightarrow> Inr x | Inl _ \<Rightarrow> Inl (Runtime ERRNO_MALFORMED_EXPR))
     | [db, tbl, col] \<Rightarrow> fst (column_item (snd db) (snd tbl) (snd col) s)
     | _ \<Rightarrow> Inl (Undefined ''m_stack''))"
| "expr_item s items (Neg e) = attempt (expr_item s items e) (negated (item_column (vm_nodes s)))"
| "expr_item s items (Paren e) = expr_item s items e"
| "expr_item s items (Bin cl l r) = attempt (expr_item s items r) (\<lambda>y. attempt (expr_item s items l) (\<lambda>x.
     Inr (node_item (the (op_type cl)) x y)))"

fun expr_ok :: "tree \<Rightarrow> bool" where
  "expr_ok (Leaf mk ds) \<longleftrightarrow> list_all is_data ds \<and> (mk = ''CALL MKEXPR'' \<and> length ds = 1 \<or> mk = ''CALL MKCLMNEXPR'' \<and> length ds = 3)"
| "expr_ok (Neg e) \<longleftrightarrow> expr_ok e"
| "expr_ok (Paren e) \<longleftrightarrow> expr_ok e"
| "expr_ok (Bin cl l r) \<longleftrightarrow> op_type cl \<noteq> None \<and> expr_ok l \<and> expr_ok r"

definition after :: "vm \<Rightarrow> vitem \<Rightarrow> nat \<Rightarrow> int \<Rightarrow> vm" where
  "after s x n j = s \<lparr> vm_stack := x # vm_stack s, vm_code := advance n (vm_code s), vm_data := (vm_data s) \<lparr> m_index := j \<rparr> \<rparr>"

text \<open>What the lookups depend on.\<close>

definition same_env :: "vm \<Rightarrow> vm \<Rightarrow> bool" where
  "same_env s t \<longleftrightarrow> vm_nodes s = vm_nodes t \<and> vm_tree_list s = vm_tree_list t \<and> vm_db_name s = vm_db_name t"

definition env_only :: "'a vmm \<Rightarrow> bool" where
  "env_only m \<longleftrightarrow> (\<forall>s t. same_env s t \<longrightarrow> m s = (fst (m t), s))"

lemma env_only_intros:
  "env_only (ret x)" "env_only (throw e)" "env_only m \<Longrightarrow> (\<And>x. env_only (f x)) \<Longrightarrow> env_only (bnd m f)"
  "env_only (gets vm_nodes)" "env_only (gets vm_tree_list)" "env_only (gets vm_db_name)"
proof -
  assume m: "env_only m" and f: "\<And>x. env_only (f x)"
  show "env_only (bnd m f)"
    unfolding env_only_def
  proof (intro allI impI)
    fix s t assume st: "same_env s t"
    have tt: "same_env t t" by (simp add: same_env_def)
    have *: "m s = (fst (m t), s)" "m t = (fst (m t), t)" using m st tt unfolding env_only_def by metis+
    show "bnd m f s = (fst (bnd m f t), s)"
    proof (cases "fst (m t)")
      case (Inl e)
      with * show ?thesis by simp
    next
      case (Inr x)
      have "f x s = (fst (f x t), s)" using f st by (auto simp: env_only_def)
      moreover have "m s = (Inr x, s)" "m t = (Inr x, t)" using * Inr by auto
      ultimately show ?thesis by simp
    qed
  qed
qed (simp_all add: env_only_def same_env_def)

lemma env_only_node: "env_only (get_node i)"
  by (auto simp: env_only_def same_env_def get_node_def)

lemma env_only_column: "env_only (column_item a b c)"
  unfolding column_item_def find_tree_def last_tree_def tree_of_def deref_def Let_def
  by (rule env_only_intros env_only_node | simp only: split: option.split if_split | (intro conjI allI impI))+

lemma column_item_env: "same_env s t \<Longrightarrow> column_item a b c s = (fst (column_item a b c t), s)"
  using env_only_column unfolding env_only_def by blast

lemma expr_item_env: "same_env s t \<Longrightarrow> expr_item s items e = expr_item t items e"
proof (induction e)
  case (Leaf mk ds)
  have "fst (column_item a b c s) = fst (column_item a b c t)" for a b c
    using column_item_env [OF Leaf, of a b c] by simp
  then show ?case by (simp split: list.split)
next
  case (Neg e)
  then show ?case by (simp add: same_env_def)
qed simp_all

lemma call_opcodes:
  "call_opcode ''MUL'' = Some OP_MUL" "call_opcode ''DIV'' = Some OP_DIV" "call_opcode ''SUB'' = Some OP_SUB"
  "call_opcode ''ADD'' = Some OP_ADD" "call_opcode ''CMPGE'' = Some OP_CMPGE" "call_opcode ''CMPGT'' = Some OP_CMPGT"
  "call_opcode ''CMPLE'' = Some OP_CMPLE" "call_opcode ''CMPLT'' = Some OP_CMPLT" "call_opcode ''CMPEQ'' = Some OP_CMPEQ"
  "call_opcode ''CMPNE'' = Some OP_CMPNE" "call_opcode ''OR'' = Some OP_OR" "call_opcode ''AND'' = Some OP_AND"
  "call_opcode ''MKEXPR'' = Some OP_MKEXPR" "call_opcode ''MKCLMNEXPR'' = Some OP_MKCLMNEXPR"
  "call_opcode ''NEGATE'' = Some OP_NEGATE"
  by code_simp+

lemma op_handlers:
  "map_of handlers OP_MUL = Some (binary VT_MUL)" "map_of handlers OP_DIV = Some (binary VT_DIV)"
  "map_of handlers OP_SUB = Some (binary VT_SUB)" "map_of handlers OP_ADD = Some (binary VT_ADD)"
  "map_of handlers OP_CMPGE = Some (binary VT_CMPGE)" "map_of handlers OP_CMPGT = Some (binary VT_CMPGT)"
  "map_of handlers OP_CMPLE = Some (binary VT_CMPLE)" "map_of handlers OP_CMPLT = Some (binary VT_CMPLT)"
  "map_of handlers OP_CMPEQ = Some (binary VT_CMPEQ)" "map_of handlers OP_CMPNE = Some (binary VT_CMPNE)"
  "map_of handlers OP_OR = Some (binary VT_OR)" "map_of handlers OP_AND = Some (binary VT_AND)"
  by (simp_all add: handlers_def vm_mul_def vm_div_def vm_sub_def vm_add_def cmpge_def cmpgt_def
      cmple_def cmplt_def cmpeq_def cmpne_def logic_or_def logic_and_def)

lemma op_handler:
  assumes "op_type cl = Some ty" "line_bytes offs cl = Some bs"
  shows "\<exists>opc. bs = [OP_CALL, opc] \<and> map_of handlers opc = Some (binary ty)"
proof -
  have "(cl, ty) \<in> set [(''CALL MUL'', VT_MUL), (''CALL DIV'', VT_DIV), (''CALL SUB'', VT_SUB), (''CALL ADD'', VT_ADD),
     (''CALL CMPGE'', VT_CMPGE), (''CALL CMPGT'', VT_CMPGT), (''CALL CMPLE'', VT_CMPLE), (''CALL CMPLT'', VT_CMPLT),
     (''CALL CMPEQ'', VT_CMPEQ), (''CALL CMPNE'', VT_CMPNE), (''CALL OR'', VT_OR), (''CALL AND'', VT_AND)]"
    by (rule map_of_SomeD) (use assms(1) in \<open>simp only: op_type_def\<close>)
  then obtain nm opc where c: "cl = ''CALL '' @ nm" "call_opcode nm = Some opc" "map_of handlers opc = Some (binary ty)"
    unfolding list.set
    by (elim insertE emptyE) (erule prod.inject [THEN iffD1, THEN conjE],
      simp only: append_Cons append_Nil list.inject simp_thms, metis call_opcodes op_handlers append_Cons append_Nil)+
  with assms(2) show ?thesis by (auto simp only: call_bytes option.map option.inject)
qed

lemma leaf_handlers:
  "line_bytes offs ''CALL MKEXPR'' = Some [OP_CALL, OP_MKEXPR]" "map_of handlers OP_MKEXPR = Some make_expression"
  "line_bytes offs ''CALL MKCLMNEXPR'' = Some [OP_CALL, OP_MKCLMNEXPR]" "map_of handlers OP_MKCLMNEXPR = Some make_column_expression"
  "line_bytes offs ''CALL NEGATE'' = Some [OP_CALL, OP_NEGATE]" "map_of handlers OP_NEGATE = Some negate"
  by (simp_all add: line_bytes_def call_opcodes handlers_def)

section \<open>Expressions run as their trees\<close>

definition ref_item :: "item list \<Rightarrow> string \<Rightarrow> vitem" where
  "ref_item items d = leaf_item VT_OFFSET (to_string (item_offsets 0 items ! data_index d))"

lemma length_item_offsets [simp]: "length (item_offsets i items) = length items"
  by (induction items arbitrary: i) auto

lemma advance_add [simp]: "advance m (advance n b) = advance (n + m) b" "advance 0 b = b"
  by (simp_all add: advance_def)

lemma loop_pushos:
  assumes "items_at items (vm_data s)" "list_all is_data ds"
    and "map (line_bytes (item_offsets 0 items)) ds = map Some bss"
    and "buf_inv (vm_code s)" "rest_code (vm_code s) = concat bss @ r"
  shows "list_all (\<lambda>d. data_index d < length items) ds
    \<and> vm_loop other (length ds + n) s = vm_loop other n (s \<lparr> vm_stack := rev (map (ref_item items) ds) @ vm_stack s,
        vm_code := advance (length (concat bss)) (vm_code s) \<rparr>)"
  using assms
proof (induction ds arbitrary: s bss)
  case (Cons d ds)
  then obtain bs bss' where b: "bss = bs # bss'" "line_bytes (item_offsets 0 items) d = Some bs"
    "map (line_bytes (item_offsets 0 items)) ds = map Some bss'" by (cases bss) auto
  let ?off = "item_offsets 0 items ! data_index d"
  have d: "is_data d" using Cons.prems by simp
  note p = pusho_bytes [OF d b(2)]
  have k: "data_index d < length items" using p(1) by simp
  obtain ty v where it: "items ! data_index d = (ty, v)" by (cases "items ! data_index d")
  note f = item_fields [OF Cons.prems(1) k it refl]
  have rc: "rest_code (vm_code s) = bs @ concat bss' @ r" using Cons.prems b by simp
  let ?s = "s \<lparr> vm_stack := ref_item items d # vm_stack s, vm_code := advance (length bs) (vm_code s) \<rparr>"
  have "vm_loop other (Suc (length ds + n)) s = vm_loop other (length ds + n) ?s"
    using loop_pusho [OF Cons.prems(4) rc p(2) f(1,2)] by (simp add: ref_item_def)
  moreover have "buf_inv (vm_code ?s)" "rest_code (vm_code ?s) = concat bss' @ r"
    using read_code [OF Cons.prems(4) rc] by simp_all
  moreover have "items_at items (vm_data ?s)" "list_all is_data ds" using Cons.prems by simp_all
  ultimately show ?case using Cons.IH [OF _ _ b(3), of ?s] k b by simp
qed simp

definition runs_as :: "tree \<Rightarrow> bool" where
  "runs_as e \<longleftrightarrow> (\<forall>other items s bss r n. items_at items (vm_data s) \<longrightarrow> buf_inv (vm_code s)
     \<longrightarrow> map (line_bytes (item_offsets 0 items)) (rev (prefix_code e)) = map Some bss
     \<longrightarrow> rest_code (vm_code s) = concat bss @ r
     \<longrightarrow> (case expr_item s items e of
          Inr x \<Rightarrow> \<exists>j. 0 \<le> j \<and> j \<le> m_bound (vm_data s)
            \<and> vm_loop other (length (prefix_code e) + n) s = vm_loop other n (after s x (length (concat bss)) j)
        | Inl er \<Rightarrow> fst (vm_loop other (length (prefix_code e) + n) s) = Inl er))"

lemma make_column_item:
  assumes "vm_stack s = map (ref_item items) [d1, d2, d3] @ st" "items_at items (vm_data s)"
    and "list_all (\<lambda>d. data_index d < length items) [d1, d2, d3]"
  shows "\<exists>j. 0 \<le> j \<and> j \<le> m_bound (vm_data s) \<and> (case fst (column_item (snd (items ! data_index d1)) (snd (items ! data_index d2)) (snd (items ! data_index d3)) s) of
      Inr x \<Rightarrow> make_column_expression s = (Inr (), s \<lparr> vm_stack := x # st, vm_data := (vm_data s) \<lparr> m_index := j \<rparr> \<rparr>)
    | Inl e \<Rightarrow> fst (make_column_expression s) = Inl e)"
proof -
  have pop: "\<exists>j. 0 \<le> j \<and> j \<le> m_bound (vm_data s)
      \<and> pop_text (s \<lparr> vm_stack := ref_item items d # st', vm_data := (vm_data s) \<lparr> m_index := i \<rparr> \<rparr>)
        = (Inr (snd (items ! data_index d)), s \<lparr> vm_stack := st', vm_data := (vm_data s) \<lparr> m_index := j \<rparr> \<rparr>)"
    if "0 \<le> i" "i \<le> m_bound (vm_data s)" "data_index d < length items" for d i st'
    using pop_text_item [of "s \<lparr> vm_stack := ref_item items d # st', vm_data := (vm_data s) \<lparr> m_index := i \<rparr> \<rparr>" items "data_index d" st']
      items_at_index [OF assms(2) that(1,2)] that(3) by (simp add: ref_item_def)
  let ?st = "\<lambda>st' i. s \<lparr> vm_stack := st', vm_data := (vm_data s) \<lparr> m_index := i \<rparr> \<rparr>"
  have i0: "0 \<le> m_index (vm_data s)" "m_index (vm_data s) \<le> m_bound (vm_data s)" using assms(2) by (auto simp: items_at_def buf_inv_def)
  obtain j1 where j1: "0 \<le> j1" "j1 \<le> m_bound (vm_data s)" "pop_text s = (Inr (snd (items ! data_index d1)), ?st (ref_item items d2 # ref_item items d3 # st) j1)"
    using pop_text_item [of s items "data_index d1" "map (ref_item items) [d2, d3] @ st"] assms
    by (auto simp: ref_item_def)
  obtain j2 where j2: "0 \<le> j2" "j2 \<le> m_bound (vm_data s)" "pop_text (?st (ref_item items d2 # ref_item items d3 # st) j1) = (Inr (snd (items ! data_index d2)), ?st (ref_item items d3 # st) j2)"
    using pop [OF j1(1,2), of d2 "map (ref_item items) [d3] @ st"] assms(3) by auto
  obtain j3 where j3: "0 \<le> j3" "j3 \<le> m_bound (vm_data s)" "pop_text (?st (ref_item items d3 # st) j2) = (Inr (snd (items ! data_index d3)), ?st st j3)"
    using pop [OF j2(1,2), of d3 st] assms(3) by auto
  have "same_env (?st st j3) s" by (simp add: same_env_def)
  from column_item_env [OF this] have col: "column_item a b c (?st st j3) = (fst (column_item a b c s), ?st st j3)" for a b c .
  show ?thesis
    using j3(1,2) col by (intro exI [of _ j3]) (auto simp: make_column_expression_def exn_simps j1(3) j2(3) j3(3) push_item_def split: sum.splits)
qed

text \<open>The last line of a tree is a call, behind lines that pushed its operands.\<close>

lemma split_lines:
  assumes "map f (xs @ [y]) = map Some bss"
  obtains bs1 b where "bss = bs1 @ [b]" "map f xs = map Some bs1" "f y = Some b"
proof -
  have "length bss = length (xs @ [y])" using assms by (metis length_map)
  then obtain bs1 b where "bss = bs1 @ [b]" by (cases bss rule: rev_cases) auto
  with assms that show thesis by auto
qed

lemma leaf_runs:
  assumes "expr_ok (Leaf mk ds)"
  shows "runs_as (Leaf mk ds)"
  unfolding runs_as_def
proof (intro allI impI)
  fix other items and s :: vm and bss r n
  assume a: "items_at items (vm_data s)" "buf_inv (vm_code s)"
    and m: "map (line_bytes (item_offsets 0 items)) (rev (prefix_code (Leaf mk ds))) = map Some bss"
    and rc: "rest_code (vm_code s) = concat bss @ r"
  obtain bs1 b where b: "bss = bs1 @ [b]" "map (line_bytes (item_offsets 0 items)) (rev ds) = map Some bs1"
    "line_bytes (item_offsets 0 items) mk = Some b"
    by (rule split_lines [of "line_bytes (item_offsets 0 items)" "rev ds" mk bss]) (use m in auto)
  let ?m = "length (concat bs1)"
  let ?s = "s \<lparr> vm_stack := map (ref_item items) ds @ vm_stack s, vm_code := advance ?m (vm_code s) \<rparr>"
  have push: "list_all (\<lambda>d. data_index d < length items) ds"
    "vm_loop other (Suc (length ds + n)) s = vm_loop other (Suc n) ?s"
    using loop_pushos [OF a(1) _ b(2) a(2), of "b @ r" other "Suc n"] assms rc b(1)
    by (auto simp: rev_map)
  have c: "buf_inv (vm_code ?s)" "rest_code (vm_code ?s) = b @ r"
    using read_code [OF a(2), of "concat bs1" "b @ r"] rc b(1) by simp_all
  have s_items: "items_at items (vm_data ?s)" using a(1) by simp
  consider (lit) d where "mk = ''CALL MKEXPR''" "ds = [d]"
    | (col) d1 d2 d3 where "mk = ''CALL MKCLMNEXPR''" "ds = [d1, d2, d3]"
    using assms by (auto simp: length_Suc_conv numeral_3_eq_3)
  then show "case expr_item s items (Leaf mk ds) of
          Inr x \<Rightarrow> \<exists>j. 0 \<le> j \<and> j \<le> m_bound (vm_data s)
            \<and> vm_loop other (length (prefix_code (Leaf mk ds)) + n) s = vm_loop other n (after s x (length (concat bss)) j)
        | Inl er \<Rightarrow> fst (vm_loop other (length (prefix_code (Leaf mk ds)) + n) s) = Inl er"
  proof cases
    case lit
    let ?t = "?s \<lparr> vm_code := advance 2 (vm_code ?s) \<rparr>"
    have call: "b = [OP_CALL, OP_MKEXPR]" using b(3) lit leaf_handlers(1) by simp
    have run: "vm_loop other (Suc n) ?s = (case make_expression ?t of (Inl e, s') \<Rightarrow> (Inl e, s') | (Inr _, s') \<Rightarrow> vm_loop other n s')"
      using loop_call [OF c(1) _ leaf_handlers(2), of r] c(2) call by simp
    have st: "vm_stack ?t = leaf_item VT_OFFSET (to_string (item_offsets 0 items ! data_index d)) # vm_stack s"
      and it: "items_at items (vm_data ?t)" and k: "data_index d < length items"
      using lit push(1) s_items by (simp_all add: ref_item_def)
    from make_expression_item [OF st it k] obtain j where j: "0 \<le> j" "j \<le> m_bound (vm_data ?t)"
      "case literal_item (fst (items ! data_index d)) (snd (items ! data_index d)) of
        Inr x \<Rightarrow> make_expression ?t = (Inr (), ?t \<lparr> vm_stack := x # vm_stack s, vm_data := (vm_data ?t) \<lparr> m_index := j \<rparr> \<rparr>)
      | Inl e \<Rightarrow> fst (make_expression ?t) = Inl (Runtime ERRNO_MALFORMED_EXPR)" by blast
    have item: "expr_item s items (Leaf mk ds) = (case literal_item (fst (items ! data_index d)) (snd (items ! data_index d)) of
        Inr x \<Rightarrow> Inr x | Inl _ \<Rightarrow> Inl (Runtime ERRNO_MALFORMED_EXPR))" using lit by simp
    show ?thesis
    proof (cases "literal_item (fst (items ! data_index d)) (snd (items ! data_index d))")
      case (Inl e)
      then show ?thesis using j(3) run push(2) lit item by (auto split: sum.splits prod.splits)
    next
      case (Inr x)
      then have "make_expression ?t = (Inr (), ?t \<lparr> vm_stack := x # vm_stack s, vm_data := (vm_data ?t) \<lparr> m_index := j \<rparr> \<rparr>)"
        using j(3) by simp
      moreover have "?t \<lparr> vm_stack := x # vm_stack s, vm_data := (vm_data ?t) \<lparr> m_index := j \<rparr> \<rparr>
          = after s x (length (concat bss)) j"
        by (rule vm.equality) (simp_all add: after_def call b(1))
      ultimately have "vm_loop other (Suc n) ?s = vm_loop other n (after s x (length (concat bss)) j)"
        unfolding run by simp
      then show ?thesis using j(1,2) push(2) lit item Inr by (auto intro!: exI [of _ j])
    qed
  next
    case col
    let ?t = "?s \<lparr> vm_code := advance 2 (vm_code ?s) \<rparr>"
    let ?f = "\<lambda>d. snd (items ! data_index d)"
    have call: "b = [OP_CALL, OP_MKCLMNEXPR]" using b(3) col leaf_handlers(3) by simp
    have run: "vm_loop other (Suc n) ?s = (case make_column_expression ?t of (Inl e, s') \<Rightarrow> (Inl e, s') | (Inr _, s') \<Rightarrow> vm_loop other n s')"
      using loop_call [OF c(1) _ leaf_handlers(4), of r] c(2) call by simp
    have "same_env ?t s" by (simp add: same_env_def)
    from column_item_env [OF this, of "?f d1" "?f d2" "?f d3"]
    have env: "fst (column_item (?f d1) (?f d2) (?f d3) ?t) = fst (column_item (?f d1) (?f d2) (?f d3) s)" by simp
    have st: "vm_stack ?t = map (ref_item items) [d1, d2, d3] @ vm_stack s" and it: "items_at items (vm_data ?t)"
      and k: "list_all (\<lambda>d. data_index d < length items) [d1, d2, d3]"
      using col push(1) s_items by simp_all
    from make_column_item [OF st it k] obtain j where j: "0 \<le> j" "j \<le> m_bound (vm_data ?t)"
      "case fst (column_item (?f d1) (?f d2) (?f d3) s) of
        Inr x \<Rightarrow> make_column_expression ?t = (Inr (), ?t \<lparr> vm_stack := x # vm_stack s, vm_data := (vm_data ?t) \<lparr> m_index := j \<rparr> \<rparr>)
      | Inl e \<Rightarrow> fst (make_column_expression ?t) = Inl e" unfolding env by blast
    have item: "expr_item s items (Leaf mk ds) = fst (column_item (?f d1) (?f d2) (?f d3) s)" using col by simp
    show ?thesis
    proof (cases "fst (column_item (?f d1) (?f d2) (?f d3) s)")
      case (Inl e)
      then show ?thesis using j(3) run push(2) col item by (auto split: sum.splits prod.splits)
    next
      case (Inr x)
      then have "make_column_expression ?t = (Inr (), ?t \<lparr> vm_stack := x # vm_stack s, vm_data := (vm_data ?t) \<lparr> m_index := j \<rparr> \<rparr>)"
        using j(3) by simp
      moreover have "?t \<lparr> vm_stack := x # vm_stack s, vm_data := (vm_data ?t) \<lparr> m_index := j \<rparr> \<rparr>
          = after s x (length (concat bss)) j"
        by (rule vm.equality) (simp_all add: after_def call b(1))
      ultimately have "vm_loop other (Suc n) ?s = vm_loop other n (after s x (length (concat bss)) j)"
        unfolding run by simp
      then show ?thesis using j(1,2) push(2) col item Inr by (auto intro!: exI [of _ j])
    qed
  qed
qed

lemma runs_asD:
  assumes "runs_as e" "items_at items (vm_data s)" "buf_inv (vm_code s)"
    and "map (line_bytes (item_offsets 0 items)) (rev (prefix_code e)) = map Some bss"
    and "rest_code (vm_code s) = concat bss @ r"
  shows "case expr_item s items e of
      Inr x \<Rightarrow> \<exists>j. 0 \<le> j \<and> j \<le> m_bound (vm_data s)
        \<and> vm_loop other (length (prefix_code e) + n) s = vm_loop other n (after s x (length (concat bss)) j)
    | Inl er \<Rightarrow> fst (vm_loop other (length (prefix_code e) + n) s) = Inl er"
  using assms unfolding runs_as_def by blast

lemma after_ok:
  assumes "items_at items (vm_data s)" "buf_inv (vm_code s)" "rest_code (vm_code s) = bs @ r"
    and "0 \<le> j" "j \<le> m_bound (vm_data s)" "k = length bs"
  shows "items_at items (vm_data (after s x k j))" "buf_inv (vm_code (after s x k j))"
    "rest_code (vm_code (after s x k j)) = r" "same_env (after s x k j) s" "same_env s (after s x k j)"
  using items_at_index [OF assms(1,4,5)] read_code [OF assms(2,3)] assms(6) by (simp_all add: after_def same_env_def)

lemma neg_runs:
  assumes "runs_as e"
  shows "runs_as (Neg e)"
  unfolding runs_as_def
proof (intro allI impI)
  fix other items and s :: vm and bss r n
  assume a: "items_at items (vm_data s)" "buf_inv (vm_code s)"
    and m: "map (line_bytes (item_offsets 0 items)) (rev (prefix_code (Neg e))) = map Some bss"
    and rc: "rest_code (vm_code s) = concat bss @ r"
  let ?f = "line_bytes (item_offsets 0 items)"
  obtain bs1 where b: "bss = bs1 @ [[OP_CALL, OP_NEGATE]]" "map ?f (rev (prefix_code e)) = map Some bs1"
  proof -
    obtain bs1 b where "bss = bs1 @ [b]" "map ?f (rev (prefix_code e)) = map Some bs1" "?f ''CALL NEGATE'' = Some b"
      by (rule split_lines [of ?f "rev (prefix_code e)" "''CALL NEGATE''" bss]) (use m in auto)
    then show thesis using that leaf_handlers(5) by auto
  qed
  have rc1: "rest_code (vm_code s) = concat bs1 @ [OP_CALL, OP_NEGATE] @ r" using rc b(1) by simp
  note run = runs_asD [OF assms a b(2) rc1, of other "Suc n"]
  show "case expr_item s items (Neg e) of
      Inr x \<Rightarrow> \<exists>j. 0 \<le> j \<and> j \<le> m_bound (vm_data s)
        \<and> vm_loop other (length (prefix_code (Neg e)) + n) s = vm_loop other n (after s x (length (concat bss)) j)
    | Inl er \<Rightarrow> fst (vm_loop other (length (prefix_code (Neg e)) + n) s) = Inl er"
  proof (cases "expr_item s items e")
    case (Inl er)
    then show ?thesis using run by simp
  next
    case (Inr x)
    then obtain j where j: "0 \<le> j" "j \<le> m_bound (vm_data s)"
      "vm_loop other (length (prefix_code (Neg e)) + n) s = vm_loop other (Suc n) (after s x (length (concat bs1)) j)"
      using run by auto
    let ?s = "after s x (length (concat bs1)) j"
    note ok = after_ok [OF a rc1 j(1,2) refl, of x]
    let ?t = "?s \<lparr> vm_code := advance 2 (vm_code ?s) \<rparr>"
    note call = loop_call [OF ok(2,3) leaf_handlers(6), of other n]
    show ?thesis
    proof (cases "negated (item_column (vm_nodes s)) x")
      case (Inl er)
      then show ?thesis
        using j(3) Inr unfolding call by (simp add: negate_def pop_item_def exn_simps after_def)
    next
      case neg: (Inr y)
      have "negate ?t = (Inr (), ?t \<lparr> vm_stack := y # vm_stack s \<rparr>)"
        using neg by (simp add: negate_def pop_item_def push_item_def exn_simps after_def)
      moreover have "?t \<lparr> vm_stack := y # vm_stack s \<rparr> = after s y (length (concat bss)) j"
        by (rule vm.equality) (simp_all add: after_def b(1))
      ultimately have "vm_loop other (length (prefix_code (Neg e)) + n) s = vm_loop other n (after s y (length (concat bss)) j)"
        using j(3) unfolding call by simp
      then show ?thesis using Inr neg j(1,2) by auto
    qed
  qed
qed

lemma bin_runs:
  assumes "runs_as l" "runs_as rt" "op_type cl = Some ty"
  shows "runs_as (Bin cl l rt)"
  unfolding runs_as_def
proof (intro allI impI)
  fix other items and s :: vm and bss r n
  assume a: "items_at items (vm_data s)" "buf_inv (vm_code s)"
    and m: "map (line_bytes (item_offsets 0 items)) (rev (prefix_code (Bin cl l rt))) = map Some bss"
    and rc: "rest_code (vm_code s) = concat bss @ r"
  let ?f = "line_bytes (item_offsets 0 items)"
  obtain bs0 b where b0: "bss = bs0 @ [b]" "map ?f (rev (prefix_code rt) @ rev (prefix_code l)) = map Some bs0" "?f cl = Some b"
    by (rule split_lines [of ?f "rev (prefix_code rt) @ rev (prefix_code l)" cl bss]) (use m in auto)
  obtain bsr bsl where bs: "bs0 = bsr @ bsl" "map ?f (rev (prefix_code rt)) = map Some bsr" "map ?f (rev (prefix_code l)) = map Some bsl"
    using b0(2) [unfolded map_append append_eq_map_conv] by metis
  obtain opc where opc: "b = [OP_CALL, opc]" "map_of handlers opc = Some (binary ty)"
    using op_handler [OF assms(3) b0(3)] by blast
  have rc1: "rest_code (vm_code s) = concat bsr @ (concat bsl @ [OP_CALL, opc] @ r)" using rc b0(1) bs(1) opc(1) by simp
  let ?k = "length (prefix_code (Bin cl l rt)) + n"
  have k: "?k = length (prefix_code rt) + (length (prefix_code l) + Suc n)" by simp
  note run = runs_asD [OF assms(2) a bs(2) rc1, of other "length (prefix_code l) + Suc n", folded k]
  show "case expr_item s items (Bin cl l rt) of
      Inr x \<Rightarrow> \<exists>j. 0 \<le> j \<and> j \<le> m_bound (vm_data s)
        \<and> vm_loop other ?k s = vm_loop other n (after s x (length (concat bss)) j)
    | Inl er \<Rightarrow> fst (vm_loop other ?k s) = Inl er"
  proof (cases "expr_item s items rt")
    case (Inl er)
    then show ?thesis using run by simp
  next
    case y: (Inr y)
    then obtain j where j: "0 \<le> j" "j \<le> m_bound (vm_data s)"
      "vm_loop other ?k s = vm_loop other (length (prefix_code l) + Suc n) (after s y (length (concat bsr)) j)"
      using run by auto
    let ?s = "after s y (length (concat bsr)) j"
    note ok = after_ok [OF a rc1 j(1,2) refl, of y]
    note run2 = runs_asD [OF assms(1) ok(1,2) bs(3) ok(3), of other "Suc n", folded j(3), unfolded expr_item_env [OF ok(4)]]
    show ?thesis
    proof (cases "expr_item s items l")
      case (Inl er)
      then show ?thesis using run2 y by simp
    next
      case x: (Inr x)
      then obtain i where i: "0 \<le> i" "i \<le> m_bound (vm_data ?s)"
        "vm_loop other ?k s = vm_loop other (Suc n) (after ?s x (length (concat bsl)) i)"
        using run2 by auto
      let ?u = "after ?s x (length (concat bsl)) i"
      note ok2 = after_ok [OF ok(1-3) i(1,2) refl, of x]
      let ?t = "?u \<lparr> vm_code := advance 2 (vm_code ?u) \<rparr>"
      note call = loop_call [OF ok2(2,3) opc(2), of other n]
      let ?z = "node_item ty x y"
      have "binary ty ?t = (Inr (), ?t \<lparr> vm_stack := ?z # vm_stack s \<rparr>)"
        by (simp add: binary_def pop_item_def push_item_def exn_simps after_def)
      moreover have "?t \<lparr> vm_stack := ?z # vm_stack s \<rparr> = after s ?z (length (concat bss)) i"
        by (rule vm.equality) (simp_all add: after_def b0(1) bs(1) opc(1))
      ultimately have "vm_loop other ?k s = vm_loop other n (after s ?z (length (concat bss)) i)"
        using i(3) unfolding call by simp
      then show ?thesis using x y i(1,2) assms(3) by (auto simp: after_def)
    qed
  qed
qed

lemma expr_runs: "expr_ok e \<Longrightarrow> runs_as e"
proof (induction e)
  case (Leaf mk ds)
  then show ?case by (rule leaf_runs)
next
  case (Paren e)
  have "runs_as (Paren e) = runs_as e" by (simp only: runs_as_def prefix_code.simps expr_item.simps)
  with Paren show ?case by simp
qed (auto intro: neg_runs bin_runs)

text \<open>The trees of the grammar without an asterisk.\<close>

lemma chain_tree_ok:
  assumes "chain_tree tbl P e" "''CALL MKASTEXPR'' \<notin> set (prefix_code e)"
    and "\<And>e. P e \<Longrightarrow> ''CALL MKASTEXPR'' \<notin> set (prefix_code e) \<Longrightarrow> expr_ok e"
    and "\<And>c. c \<in> snd ` set tbl \<Longrightarrow> op_type c \<noteq> None"
  shows "expr_ok e"
  using assms(1,2) by induction (auto simp: assms(3,4) simp del: not_None_eq)

lemma op_tables_typed:
  "list_all (\<lambda>tbl. list_all (\<lambda>p. op_type (snd p) \<noteq> None) tbl) [math_term_ops, math_expr_ops, comparison_term_ops,
     comparison_expr_ops, logic_term_ops, logic_expr_ops]"
  by code_simp

lemma logic_tree_ok:
  assumes "logic_tree P e" "''CALL MKASTEXPR'' \<notin> set (prefix_code e)"
    and "\<And>e. P e \<Longrightarrow> ''CALL MKASTEXPR'' \<notin> set (prefix_code e) \<Longrightarrow> expr_ok e"
  shows "expr_ok e"
proof -
  have t: "c \<in> snd ` set tbl \<Longrightarrow> op_type c \<noteq> None" if "tbl \<in> {math_term_ops, math_expr_ops, comparison_term_ops,
      comparison_expr_ops, logic_term_ops, logic_expr_ops}" for tbl c
    using op_tables_typed that by (auto simp: list_all_iff)
  have *: "expr_ok e" if "chain_tree tbl Q e" "''CALL MKASTEXPR'' \<notin> set (prefix_code e)"
    "\<And>e. Q e \<Longrightarrow> ''CALL MKASTEXPR'' \<notin> set (prefix_code e) \<Longrightarrow> expr_ok e"
    "tbl \<in> {math_term_ops, math_expr_ops, comparison_term_ops, comparison_expr_ops, logic_term_ops, logic_expr_ops}" for tbl Q e
    using that(1-3) t [OF that(4)] by (rule chain_tree_ok)
  show ?thesis
    using assms(1,2) unfolding logic_tree_def
    by (elim *) (auto elim!: * intro: assms(3))
qed

lemma prim_tree_ok: "prim_tree e \<Longrightarrow> ''CALL MKASTEXPR'' \<notin> set (prefix_code e) \<Longrightarrow> expr_ok e"
proof (induction rule: prim_tree.induct)
  case (paren e)
  from paren show ?case by (auto elim!: logic_tree_ok)
qed auto

section \<open>Properties\<close>


text \<open>The data and the code of \<open>7-2\<close>, and a machine in front of them.\<close>

definition sample_items :: "item list" where
  "sample_items = [(13, []), (9, ''7''), (9, ''2'')]"

definition sample_lines :: "string list" where
  "sample_lines = [''CALL SUB'', ''CALL MKEXPR'', ''PUSHO 1'', ''CALL MKEXPR'', ''PUSHO 2'']"

definition sample_bytes :: "byte list list" where
  "sample_bytes = [[OP_PUSHO, 0, 0, 0, 7], [OP_CALL, OP_MKEXPR], [OP_PUSHO, 0, 0, 0, 3], [OP_CALL, OP_MKEXPR], [OP_CALL, OP_SUB]]"

definition sample_vm :: vm where
  "sample_vm = vm_new (new_buffer 11 [13, 0, 0, 9, 0, 1, 55, 9, 0, 1, 50]) (new_buffer 16 (concat sample_bytes))
     [] (\<lambda>_. None) (\<lambda>_ _ _. True) (zero_f32 False)"

definition no_other :: "byte \<Rightarrow> unit vmm" where
  "no_other = (\<lambda>_. throw (Undefined ''other''))"


end
