(* ===== verification/VmRows.thy ===== *)
theory VmRows
  imports VmRun RowKeys
begin

text \<open>
  What SELECT on one table computes: the machine's loop, with its chain of stages and the
  values it leaves in its items from row to row, gives the rows that a plain
  function on the list of rows gives, errors included; with ORDER BY they are sorted.
\<close>

section \<open>Items without the values of their columns\<close>

lemma attempt_Inr_iff: "attempt m f = Inr y \<longleftrightarrow> (\<exists>x. m = Inr x \<and> f x = Inr y)"
  by (cases m) auto

lemma on_option_simps [simp]:
  "on_option f None = Inr None" "on_option f (Some x) = attempt (f x) (\<lambda>y. Inr (Some y))"
  by (simp_all add: on_option_def)

text \<open>The walk by the kind of the item.\<close>

datatype kind = Assign | Column | Condition | Operator | Other

definition kind_of :: "idata \<Rightarrow> kind" where
  "kind_of d = (if i_type d = VT_ASSIGN then Assign else if i_type d = VT_COLUMN then Column
     else if i_type d = VT_ON \<or> i_type d = VT_WHERE then Condition
     else if i_type d \<in> set walk_types then Operator else Other)"

lemma kind_of_value [simp]: "kind_of (d \<lparr> i_value := v \<rparr>) = kind_of d" "kind_of (d \<lparr> i_out_size := k \<rparr>) = kind_of d"
  by (simp_all add: kind_of_def)

lemma walk_item:
  "walk a f (Item d l r c) = (case kind_of d of
     Assign \<Rightarrow> (if a then attempt (on_option (walk a f) r) (\<lambda>r'. Inr (Item d l r' c)) else Inr (Item d l r c))
   | Column \<Rightarrow> attempt (f d) (\<lambda>d'. Inr (Item d' l r c))
   | Condition \<Rightarrow> attempt (on_option (walk a f) c) (\<lambda>c'. Inr (Item d l r c'))
   | Operator \<Rightarrow> attempt (on_option (walk a f) l) (\<lambda>l'. attempt (on_option (walk a f) r) (\<lambda>r'. Inr (Item d l' r' c)))
   | Other \<Rightarrow> Inr (Item d l r c))"
  by (cases a) (simp_all add: walk.simps kind_of_def on_option_def Let_def)

text \<open>The columns \<open>set_column_value\<close> reaches, and an item whose columns have lost their values.\<close>

fun columns :: "vitem \<Rightarrow> idata list" where
  "columns (Item d l r c) =
     (let L = (case l of None \<Rightarrow> [] | Some x \<Rightarrow> columns x);
          R = (case r of None \<Rightarrow> [] | Some x \<Rightarrow> columns x);
          C = (case c of None \<Rightarrow> [] | Some x \<Rightarrow> columns x)
      in case kind_of d of Assign \<Rightarrow> R | Column \<Rightarrow> [d] | Condition \<Rightarrow> C | Operator \<Rightarrow> L @ R | Other \<Rightarrow> [])"

declare columns.simps [simp del]

fun blank_item :: "vitem \<Rightarrow> vitem" where
  "blank_item (Item d l r c) =
     (let L = (case l of None \<Rightarrow> None | Some x \<Rightarrow> Some (blank_item x));
          R = (case r of None \<Rightarrow> None | Some x \<Rightarrow> Some (blank_item x));
          C = (case c of None \<Rightarrow> None | Some x \<Rightarrow> Some (blank_item x))
      in case kind_of d of Assign \<Rightarrow> Item d l R c | Column \<Rightarrow> Item (d \<lparr> i_value := [] \<rparr>) l r c
         | Condition \<Rightarrow> Item d l r C | Operator \<Rightarrow> Item d L R c | Other \<Rightarrow> Item d l r c)"

declare blank_item.simps [simp del]

lemma blank_item: "blank_item (Item d l r c) = (case kind_of d of
     Assign \<Rightarrow> Item d l (map_option blank_item r) c | Column \<Rightarrow> Item (d \<lparr> i_value := [] \<rparr>) l r c
   | Condition \<Rightarrow> Item d l r (map_option blank_item c)
   | Operator \<Rightarrow> Item d (map_option blank_item l) (map_option blank_item r) c | Other \<Rightarrow> Item d l r c)"
  by (cases "kind_of d") (simp_all add: blank_item.simps map_option_case Let_def)

definition keeps_shape :: "(idata \<Rightarrow> error + idata) \<Rightarrow> bool" where
  "keeps_shape f \<longleftrightarrow> (\<forall>d d'. f d = Inr d' \<longrightarrow> (\<exists>v. d' = d \<lparr> i_value := v \<rparr>))"

lemma on_option_blank:
  "on_option g p = Inr p' \<Longrightarrow> (\<And>x y. x \<in> set_option p \<Longrightarrow> g x = Inr y \<Longrightarrow> h y = h x)
    \<Longrightarrow> map_option h p' = map_option h p"
  by (cases p) (auto simp: attempt_Inr_iff)

lemma walk_keeps_blank:
  "keeps_shape f \<Longrightarrow> walk a f x = Inr y \<Longrightarrow> blank_item y = blank_item x"
proof (induction x arbitrary: y)
  case (Item d l r c)
  note ih = Item.IH [OF _ Item.prems(1)]
  have opt: "map_option blank_item p' = map_option blank_item p" if "p \<in> {l, r, c}" "on_option (walk a f) p = Inr p'" for p p'
    by (rule on_option_blank [OF that(2)]) (use that(1) ih in auto)
  show ?case
  proof (cases "kind_of d")
    case Column
    then obtain d' where d': "f d = Inr d'" "y = Item d' l r c" using Item.prems(2) by (auto simp: walk_item attempt_Inr_iff)
    then obtain v where "d' = d \<lparr> i_value := v \<rparr>" using Item.prems(1) unfolding keeps_shape_def by blast
    with d' Column show ?thesis by (simp add: blank_item)
  next
    case Assign
    then show ?thesis
      using Item.prems(2) opt [of r] by (cases a) (auto simp: walk_item blank_item attempt_Inr_iff)
  qed (use Item.prems(2) in \<open>auto simp: walk_item blank_item attempt_Inr_iff split: if_splits intro: opt [rotated]\<close>)
qed

text \<open>
  A function on columns that does not look at the old value: the walk gives the
  same for an item and for its blank.
\<close>

lemma on_option_same:
  "(\<And>x. x \<in> set_option p \<Longrightarrow> g (h x) = g x) \<Longrightarrow> on_option g (map_option h p) = on_option g p"
  by (cases p) auto

lemma walk_blank:
  "(\<And>d v. d \<in> set (columns x) \<Longrightarrow> f (d \<lparr> i_value := v \<rparr>) = f d) \<Longrightarrow> walk True f (blank_item x) = walk True f x"
proof (induction x)
  case (Item d l r c)
  show ?case
  proof (cases "kind_of d")
    case Assign
    with Item show ?thesis by (cases r) (auto simp: walk_item blank_item columns.simps)
  next
    case Column
    with Item.prems show ?thesis by (simp add: walk_item blank_item columns.simps)
  next
    case Condition
    with Item show ?thesis by (cases c) (auto simp: walk_item blank_item columns.simps)
  next
    case Operator
    with Item show ?thesis by (cases l; cases r) (auto simp: walk_item blank_item columns.simps)
  next
    case Other
    then show ?thesis by (simp add: blank_item)
  qed
qed

section \<open>What a row shows\<close>

definition col_of :: "table \<Rightarrow> idata \<Rightarrow> error + column" where
  "col_of t d = get_column (tb_schema t) (i_col_name d)"

lemma col_of_value [simp]: "col_of t (d \<lparr> i_value := v \<rparr>) = col_of t d" "col_of t (d \<lparr> i_out_size := k \<rparr>) = col_of t d"
  by (simp_all add: col_of_def)

text \<open>
  The columns of an expression are those of the table, and only numeric ones
  are negated, as \<open>negate\<close> takes care of.
\<close>

definition own_column :: "table \<Rightarrow> nat \<Rightarrow> idata \<Rightarrow> bool" where
  "own_column t h d \<longleftrightarrow> i_parent d = Some h \<and> i_db_name d = tb_db_name t \<and> i_tbl_name d = tb_tbl_name t
     \<and> (i_negate d \<longrightarrow> (case col_of t d of Inl _ \<Rightarrow> False | Inr c \<Rightarrow> co_type c = TYPE_FLOAT \<or> co_type c = TYPE_INT))"

definition own_columns :: "table \<Rightarrow> nat \<Rightarrow> vitem \<Rightarrow> bool" where
  "own_columns t h x = list_all (own_column t h) (columns x)"

definition row_is :: "table \<Rightarrow> vrow \<Rightarrow> bool" where
  "row_is t r \<longleftrightarrow> row_db_name r = tb_db_name t \<and> row_tbl_name r = tb_tbl_name t"

lemma columns_type: "d \<in> set (columns x) \<Longrightarrow> i_type d = VT_COLUMN"
proof (induction x)
  case (Item e l r c)
  then show ?case
    by (cases "kind_of e"; cases l; cases r; cases c)
       (auto simp: columns.simps kind_of_def split: if_splits)
qed

lemma own_column_fields [simp]: "own_column t h (d \<lparr> i_value := v \<rparr>) = own_column t h d"
  "own_column t h (d \<lparr> i_out_size := k \<rparr>) = own_column t h d"
  by (simp_all add: own_column_def)

lemma own_columns_blank [simp]: "own_columns t h (blank_item x) = own_columns t h x"
  unfolding own_columns_def
proof (induction x)
  case (Item e l r c)
  then show ?case
    by (cases "kind_of e"; cases l; cases r; cases c) (auto simp: blank_item columns.simps)
qed

abbreviation set_row_value :: "table \<Rightarrow> vrow \<Rightarrow> vitem \<Rightarrow> error + vitem" where
  "set_row_value t r \<equiv> set_column_value (col_of t) r"

lemma item_value_shape: "item_value col d v = Inr d' \<Longrightarrow> \<exists>w. d' = d \<lparr> i_value := w \<rparr>"
proof -
  have "\<exists>w. d = d \<lparr> i_value := w \<rparr>" by (intro exI [of _ "i_value d"]) simp
  moreover assume "item_value col d v = Inr d'"
  ultimately show ?thesis
    by (auto simp: item_value_def neg_float_def neg_int_def attempt_Inr_iff split: if_splits)
qed

lemma set_shape: "keeps_shape (\<lambda>d. if column_is_of d r then attempt (row_get r (i_col_name d)) (item_value col d) else Inr d)"
proof -
  have "\<exists>w. d = d \<lparr> i_value := w \<rparr>" for d :: idata by (intro exI [of _ "i_value d"]) simp
  then show ?thesis by (auto simp: keeps_shape_def attempt_Inr_iff dest: item_value_shape)
qed

lemma null_shape: "keeps_shape (\<lambda>d. Inr (d \<lparr> i_value := [] \<rparr>))"
  by (auto simp: keeps_shape_def)

lemma set_keeps_blank: "set_column_value col r x = Inr y \<Longrightarrow> blank_item y = blank_item x"
  unfolding set_column_value_def by (rule walk_keeps_blank [OF set_shape])

lemma null_keeps_blank: "set_column_value_null x = Inr y \<Longrightarrow> blank_item y = blank_item x"
  unfolding set_column_value_null_def by (rule walk_keeps_blank [OF null_shape])

lemma set_blank:
  assumes "own_columns t h x" "row_is t r"
  shows "set_row_value t r (blank_item x) = set_row_value t r x"
  unfolding set_column_value_def
proof (rule walk_blank)
  fix d v assume d: "d \<in> set (columns x)"
  then have own: "own_column t h d" using assms by (auto simp: own_columns_def list_all_iff)
  then have "item_value (col_of t) (d \<lparr> i_value := v \<rparr>) = item_value (col_of t) d"
    using columns_type [OF d]
    by (auto simp: item_value_def own_column_def neg_float_def neg_int_def fun_eq_iff split: sum.splits)
  then show "(if column_is_of (d \<lparr> i_value := v \<rparr>) r then attempt (row_get r (i_col_name (d \<lparr> i_value := v \<rparr>)))
        (item_value (col_of t) (d \<lparr> i_value := v \<rparr>)) else Inr (d \<lparr> i_value := v \<rparr>))
    = (if column_is_of d r then attempt (row_get r (i_col_name d)) (item_value (col_of t) d) else Inr d)"
    using own assms(2) by (auto simp: column_is_of_def own_column_def row_is_def)
qed

lemma walk_cong: "(\<And>d. d \<in> set (columns x) \<Longrightarrow> f d = g d) \<Longrightarrow> walk True f x = walk True g x"
proof (induction x)
  case (Item d l r c)
  then show ?case
    by (cases "kind_of d"; cases l; cases r; cases c) (auto simp: walk_item columns.simps)
qed

lemma set_item_column:
  assumes "own_columns t h x" "h < length ns" "n_table (ns ! h) = Some t"
  shows "set_column_value (item_column ns) r x = set_row_value t r x"
  unfolding set_column_value_def
proof (rule walk_cong)
  fix d assume "d \<in> set (columns x)"
  then have "item_column ns d = col_of t d"
    using assms by (auto simp: own_columns_def list_all_iff own_column_def item_column_def col_of_def)
  then have "item_value (item_column ns) d = item_value (col_of t) d"
    by (auto simp: item_value_def fun_eq_iff)
  then show "(if column_is_of d r then attempt (row_get r (i_col_name d)) (item_value (item_column ns) d) else Inr d)
    = (if column_is_of d r then attempt (row_get r (i_col_name d)) (item_value (col_of t) d) else Inr d)"
    by simp
qed

lemma null_runs: "\<exists>y. set_column_value_null x = Inr y"
  unfolding set_column_value_null_def
proof (induction x)
  case (Item d l r c)
  have "\<exists>p'. on_option (walk False (\<lambda>d. Inr (d \<lparr> i_value := [] \<rparr>))) p = Inr p'" if "p \<in> {l, r, c}" for p
    using Item.IH that by (cases p) auto
  from this [of l] this [of r] this [of c] show ?case
    by (auto simp: walk_item split: kind.split)
qed

text \<open>The width of the printed column, which grows from row to row, has no part in the values.\<close>

definition no_width :: "vitem \<Rightarrow> vitem" where
  "no_width x = map_data (\<lambda>d. d \<lparr> i_out_size := 0 \<rparr>) x"

lemma no_width_item: "no_width (Item d l r c) = Item (d \<lparr> i_out_size := 0 \<rparr>) l r c"
  by (simp add: no_width_def map_data_def)

lemma no_width_grow [simp]: "no_width (map_data (grow t) x) = no_width x"
  by (simp add: no_width_def map_data_def grow_def)

lemma blank_no_width: "blank_item (no_width x) = no_width (blank_item x)"
  by (cases x; cases "kind_of (idat x)") (simp_all add: no_width_item blank_item)

lemma attempt_map_sum: "attempt m (\<lambda>x. Inr (f x)) = map_sum id f m"
  by (cases m) auto

lemma item_value_width: "item_value (col_of t) (d \<lparr> i_out_size := k \<rparr>) v
    = map_sum id (\<lambda>d. d \<lparr> i_out_size := k \<rparr>) (item_value (col_of t) d v)"
proof -
  have f: "neg_float (d \<lparr> i_out_size := k \<rparr>) v = map_sum id (\<lambda>d. d \<lparr> i_out_size := k \<rparr>) (neg_float d v)"
    by (cases "stof_exn v") (simp_all add: neg_float_def)
  have i: "neg_int (d \<lparr> i_out_size := k \<rparr>) v = map_sum id (\<lambda>d. d \<lparr> i_out_size := k \<rparr>) (neg_int d v)"
  proof (cases "stoi_exn v")
    case (Inr i)
    then show ?thesis by (cases "int32_exn (- i)") (simp_all add: neg_int_def)
  qed (simp add: neg_int_def)
  show ?thesis
    by (cases "col_of t d") (simp_all add: item_value_def f i)
qed

lemma set_no_width: "set_row_value t r (no_width x) = map_sum id no_width (set_row_value t r x)"
proof -
  define F where "F = (\<lambda>d. if column_is_of d r then attempt (row_get r (i_col_name d)) (item_value (col_of t) d) else Inr d)"
  obtain d l rt c where x: "x = Item d l rt c" by (cases x)
  have F: "F (d \<lparr> i_out_size := 0 \<rparr>) = map_sum id (\<lambda>d. d \<lparr> i_out_size := 0 \<rparr>) (F d)"
    unfolding F_def by (cases "row_get r (i_col_name d)") (auto simp: column_is_of_def item_value_width)
  have "walk True F (no_width x) = map_sum id no_width (walk True F x)"
    unfolding x no_width_item walk_item
    by (cases "kind_of d"; cases "F d"; cases "on_option (walk True F) l"; cases "on_option (walk True F) rt";
        cases "on_option (walk True F) c") (simp_all add: F no_width_item)
  then show ?thesis by (simp add: set_column_value_def F_def)
qed

text \<open>An item up to the values of its columns and its width.\<close>

definition base :: "vitem \<Rightarrow> vitem" where
  "base x = no_width (blank_item x)"

lemma base_grow [simp]: "base (map_data (grow v) x) = base x"
  by (simp add: base_def flip: blank_no_width)

lemma base_set: "set_column_value col r x = Inr y \<Longrightarrow> base y = base x"
  by (simp add: base_def set_keeps_blank)

lemma base_null: "set_column_value_null x = Inr y \<Longrightarrow> base y = base x"
  by (simp add: base_def null_keeps_blank)

lemma own_columns_width: "own_columns t h (no_width x) = own_columns t h x"
  by (cases x; cases "kind_of (idat x)") (simp_all add: no_width_item own_columns_def columns.simps)

lemma own_columns_base: "own_columns t h (base x) = own_columns t h x"
  by (simp add: base_def own_columns_width)

lemma set_base:
  "own_columns t h x \<Longrightarrow> row_is t r \<Longrightarrow> map_sum id no_width (set_row_value t r x) = set_row_value t r (base x)"
  by (simp add: base_def set_no_width set_blank)

lemma map_base_own: "map base xs = map base ys \<Longrightarrow> list_all (own_columns t h) xs = list_all (own_columns t h) ys"
  by (metis (no_types, lifting) list.pred_map list_all_cong own_columns_base comp_apply)

lemma traverse_map_sum: "map_sum id (map h) (traverse f xs) = traverse (\<lambda>x. map_sum id h (f x)) xs"
proof (induction xs)
  case (Cons x xs)
  have "map_sum id (map h) (traverse f (x # xs))
      = attempt (map_sum id h (f x)) (\<lambda>y. attempt (map_sum id (map h) (traverse f xs)) (\<lambda>ys. Inr (y # ys)))"
    by (cases "f x"; cases "traverse f xs") simp_all
  then show ?case by (simp only: traverse.simps Cons.IH)
qed simp

lemma traverse_map_arg: "traverse f (map g xs) = traverse (\<lambda>x. f (g x)) xs"
  by (induction xs) simp_all

lemma traverse_cong: "(\<And>x. x \<in> set xs \<Longrightarrow> f x = g x) \<Longrightarrow> traverse f xs = traverse g xs"
  by (induction xs) simp_all

lemma traverse_base:
  "list_all (own_columns t h) xs \<Longrightarrow> row_is t r
    \<Longrightarrow> map_sum id (map no_width) (traverse (set_row_value t r) xs) = traverse (set_row_value t r) (map base xs)"
  by (auto simp: traverse_map_sum traverse_map_arg list_all_iff set_base intro!: traverse_cong)

lemma on_option_base:
  "pred_option (own_columns t h) p \<Longrightarrow> row_is t r
    \<Longrightarrow> map_sum id (map_option no_width) (on_option (set_row_value t r) p) = on_option (set_row_value t r) (map_option base p)"
  by (cases p) (auto simp: attempt_map_sum set_base [symmetric] sum.map_comp comp_def)

lemma attempt_via: "(\<And>x. F (g x) = F x) \<Longrightarrow> attempt (map_sum id g m) F = attempt m F"
  by (cases m) simp_all

section \<open>The query as a function on the rows\<close>

definition row_number :: "nat \<Rightarrow> string" where
  "row_number k = setw_right (CHR ''0'') 20 (nat_str k)"

definition row_shown :: "table \<Rightarrow> nat \<Rightarrow> int \<Rightarrow> nat \<Rightarrow> vitem list \<Rightarrow> error + string \<times> string" where
  "row_shown t nk ot k es =
     attempt (traverse output_value (drop nk es)) (\<lambda>vs.
     attempt (if nk = 0 then Inr (row_number k) else sort_key (col_of t) (take nk es)) (\<lambda>key.
     Inr (key, concat (map (\<lambda>(i, x, v). cell_text (ot = 1) i x v) (enumerate nk (zip (drop nk es) vs))))))"

definition row_kept :: "vitem option \<Rightarrow> error + bool" where
  "row_kept c = (case c of None \<Rightarrow> Inr True | Some x \<Rightarrow> attempt (exec_condition x VM_TRUE) (\<lambda>res. Inr (res = VM_TRUE)))"

definition row_result :: "table \<Rightarrow> nat \<Rightarrow> int \<Rightarrow> vitem option \<Rightarrow> vitem list \<Rightarrow> nat \<Rightarrow> vrow \<Rightarrow> error + (string \<times> string) option" where
  "row_result t nk ot c es k r =
     attempt (on_option (set_row_value t r) c) (\<lambda>c'.
     attempt (traverse (set_row_value t r) es) (\<lambda>es'.
     attempt (row_kept c') (\<lambda>ok.
     if ok then attempt (row_shown t nk ot k es') (\<lambda>p. Inr (Some p)) else Inr None)))"

fun query_rows :: "(nat \<Rightarrow> vrow \<Rightarrow> error + (string \<times> string) option) \<Rightarrow> vrow list \<Rightarrow> (string \<times> string) list \<Rightarrow> error + (string \<times> string) list" where
  "query_rows f [] out = Inr out"
| "query_rows f (r # rs) out = attempt (f (length out) r) (\<lambda>p. query_rows f rs
     (case p of None \<Rightarrow> out | Some (key, row) \<Rightarrow> multi_insert key row out))"

lemma condition_width [simp]: "exec_condition (no_width x) res = exec_condition x res"
proof (cases x)
  case (Item d l r c)
  have d: "i_type (d \<lparr> i_out_size := 0 \<rparr>) = i_type d" "i_value (d \<lparr> i_out_size := 0 \<rparr>) = i_value d"
    by simp_all
  show ?thesis unfolding Item no_width_item exec_condition.simps d ..
qed

lemma idat_width [simp]: "idat (no_width x) = idat x \<lparr> i_out_size := 0 \<rparr>"
  by (cases x) (simp add: no_width_item)

lemma output_width [simp]: "output_value (no_width x) = output_value x"
proof -
  have d: "i_type (idat (no_width x)) = i_type (idat x)" "i_out_prec (idat (no_width x)) = i_out_prec (idat x)"
    by simp_all
  show ?thesis unfolding output_value_def condition_width d ..
qed

lemma shown_width: "row_shown t nk ot k (map no_width es) = row_shown t nk ot k es"
proof -
  have out: "traverse output_value (drop nk (map no_width es)) = traverse output_value (drop nk es)"
    by (simp add: drop_map traverse_map_arg)
  have key: "sort_key (col_of t) (take nk (map no_width es)) = sort_key (col_of t) (take nk es)"
    by (simp add: sort_key_def take_map traverse_map_arg)
  have cells: "map (\<lambda>(i, x, v). cell_text b i x v) (enumerate nk (zip (map no_width xs) vs))
      = map (\<lambda>(i, x, v). cell_text b i x v) (enumerate nk (zip xs vs))" for b xs vs
    by (simp add: enumerate_eq_zip zip_map1 zip_map2 cell_text_def case_prod_unfold)
  show ?thesis unfolding row_shown_def out key by (simp add: cells drop_map)
qed

lemma kept_width: "row_kept (map_option no_width c) = row_kept c"
  by (cases c) (simp_all add: row_kept_def)

lemma result_base:
  assumes "list_all (own_columns t h) es" "pred_option (own_columns t h) c" "row_is t r"
  shows "row_result t nk ot (map_option base c) (map base es) k r = row_result t nk ot c es k r"
proof -
  define H where "H c' = (\<lambda>es'. attempt (row_kept c') (\<lambda>ok. if ok then attempt (row_shown t nk ot k es') (\<lambda>p. Inr (Some p)) else Inr None))" for c'
  define G where "G c' = attempt (traverse (set_row_value t r) es) (H c')" for c'
  have "attempt (traverse (set_row_value t r) (map base es)) (H c') = G c'" for c'
    unfolding G_def traverse_base [OF assms(1,3), symmetric] by (rule attempt_via) (unfold H_def shown_width, rule refl)
  then have "row_result t nk ot (map_option base c) (map base es) k r = attempt (on_option (set_row_value t r) (map_option base c)) G"
    by (simp add: row_result_def flip: H_def)
  also have "\<dots> = attempt (on_option (set_row_value t r) c) G"
    unfolding on_option_base [OF assms(2,3), symmetric] by (rule attempt_via) (unfold G_def H_def kept_width, rule refl)
  also have "\<dots> = row_result t nk ot c es k r"
    unfolding row_result_def by (rule arg_cong [where f = "attempt _"], rule ext) (unfold G_def H_def, rule refl)
  finally show ?thesis .
qed

end
