(* ===== verification/VmSelect.thy ===== *)
theory VmSelect
  imports VmRows
begin

text \<open>
  SELECT on one table: the machine's loop over the rows, with its chain of stages,
  computes the function \<open>query_rows\<close> of the theory \<open>VmRows\<close>, errors included.
\<close>

section \<open>A run that follows a fallible computation\<close>

definition yields :: "'a vmm \<Rightarrow> vm \<Rightarrow> error + 'b \<Rightarrow> ('b \<Rightarrow> vm \<Rightarrow> bool) \<Rightarrow> bool" where
  "yields m s v P \<longleftrightarrow> (\<exists>s'. case v of Inl e \<Rightarrow> m s = (Inl e, s') | Inr y \<Rightarrow> (\<exists>x. m s = (Inr x, s')) \<and> P y s')"

lemma yields_Inr [simp]: "yields m s (Inr y) P \<longleftrightarrow> (\<exists>x s'. m s = (Inr x, s') \<and> P y s')"
  by (auto simp: yields_def)

lemma yields_Inl [simp]: "yields m s (Inl e) P \<longleftrightarrow> (\<exists>s'. m s = (Inl e, s'))"
  by (auto simp: yields_def)

lemma yields_sq:
  "yields m s v P \<Longrightarrow> (\<And>y s'. P y s' \<Longrightarrow> yields k s' (f y) Q) \<Longrightarrow> yields (sq m k) s (attempt v f) Q"
proof (cases v)
  case (Inr y)
  assume m: "yields m s v P" and k: "\<And>y s'. P y s' \<Longrightarrow> yields k s' (f y) Q"
  from m Inr obtain x s' where s': "m s = (Inr x, s')" "P y s'" by auto
  from k [OF s'(2)] show ?thesis by (cases "f y") (simp_all add: Inr s'(1))
qed (auto simp: yields_def)

lemma yields_sq0:
  "yields m s (Inr ()) (\<lambda>_. P) \<Longrightarrow> (\<And>s'. P s' \<Longrightarrow> yields k s' v Q) \<Longrightarrow> yields (sq m k) s v Q"
  using yields_sq [of m s "Inr ()" "\<lambda>_. P" k "\<lambda>_. v"] by simp

lemma yields_run: "m s = m' s \<Longrightarrow> yields m s v P \<longleftrightarrow> yields m' s v P"
  by (cases v) simp_all

lemma yields_mono: "yields m s v P \<Longrightarrow> (\<And>y s'. P y s' \<Longrightarrow> Q y s') \<Longrightarrow> yields m s v Q"
  by (cases v) auto

section \<open>The state during the query\<close>

definition skel :: "vnode \<Rightarrow> vnode" where
  "skel x = x \<lparr> n_row := None, n_diter := 0, n_on_cond := map_option base (n_on_cond x) \<rparr>"

lemma skel_eqD:
  assumes "skel x = skel y"
  shows "n_table x = n_table y" "n_next x = n_next y" "n_action x = n_action y"
    "map_option base (n_on_cond x) = map_option base (n_on_cond y)"
  using arg_cong [OF assms, of n_table] arg_cong [OF assms, of n_next] arg_cong [OF assms, of n_action]
    arg_cong [OF assms, of n_on_cond]
  by (simp_all add: skel_def)

definition same_query :: "vm \<Rightarrow> vm \<Rightarrow> bool" where
  "same_query q s \<longleftrightarrow> map base (vm_expr_list s) = map base (vm_expr_list q) \<and> vm_key_count s = vm_key_count q
     \<and> vm_output_type s = vm_output_type q \<and> vm_sent s = vm_sent q \<and> vm_file s = vm_file q
     \<and> vm_outfile s = vm_outfile q \<and> vm_elapsed s = vm_elapsed q \<and> vm_where s = vm_where q \<and> vm_head s = vm_head q
     \<and> map skel (vm_nodes s) = map skel (vm_nodes q)"

definition where_of :: "vm \<Rightarrow> vitem option" where
  "where_of s = (case vm_where s of None \<Rightarrow> None | Some i \<Rightarrow> n_on_cond (vm_nodes s ! i))"

text \<open>The chain of a query on the table \<open>t\<close>: its link \<open>h\<close>, the condition if there is one, the output \<open>o'\<close>.\<close>

definition one_table :: "table \<Rightarrow> nat \<Rightarrow> nat \<Rightarrow> vm \<Rightarrow> bool" where
  "one_table t h o' s \<longleftrightarrow> (let ns = vm_nodes s in
     vm_head s = Some h \<and> h < length ns \<and> n_table (ns ! h) = Some t
     \<and> o' < length ns \<and> n_action (ns ! o') = VT_OUTPUT
     \<and> (case vm_where s of None \<Rightarrow> n_next (ns ! h) = Some o'
        | Some w \<Rightarrow> n_next (ns ! h) = Some w \<and> w < length ns \<and> n_action (ns ! w) = VT_WHERE \<and> n_next (ns ! w) = Some o')
     \<and> list_all (own_columns t h) (vm_expr_list s) \<and> pred_option (own_columns t h) (where_of s)
     \<and> list_all (\<lambda>x. i_type (idat x) = VT_COLUMN) (take (vm_key_count s) (vm_expr_list s)))"

lemma one_table_own:
  "one_table t h o' s \<Longrightarrow> list_all (own_columns t h) (vm_expr_list s)"
  "one_table t h o' s \<Longrightarrow> pred_option (own_columns t h) (where_of s)"
  by (simp_all add: one_table_def Let_def)

lemma same_query_refl [simp]: "same_query q q"
  by (simp add: same_query_def)

lemma same_nodes:
  assumes "same_query q s" "i < length (vm_nodes q)"
  shows "i < length (vm_nodes s)" "skel (vm_nodes s ! i) = skel (vm_nodes q ! i)"
  using assms by (metis same_query_def length_map, metis same_query_def length_map nth_map)

lemma idat_base: "i_type (idat (base x)) = i_type (idat x)"
  by (cases x; cases "kind_of (idat x)") (simp_all add: base_def blank_item)

lemma pred_option_base: "pred_option (own_columns t h) (map_option base p) = pred_option (own_columns t h) p"
  by (cases p) (simp_all add: own_columns_base)

lemma same_where:
  assumes "same_query q s" "pred_option (\<lambda>w. w < length (vm_nodes q)) (vm_where q)"
  shows "map_option base (where_of s) = map_option base (where_of q)"
proof -
  have s: "vm_where s = vm_where q" using assms(1) by (simp add: same_query_def)
  show ?thesis
  proof (cases "vm_where q")
    case (Some i)
    with assms have "skel (vm_nodes s ! i) = skel (vm_nodes q ! i)" by (intro same_nodes(2)) auto
    from skel_eqD(4) [OF this] Some s show ?thesis by (simp add: where_of_def)
  qed (simp add: where_of_def s)
qed

lemma one_table_same:
  assumes "one_table t h o' q" "same_query q s"
  shows "one_table t h o' s"
proof -
  note q = assms(1) [unfolded one_table_def Let_def]
  have node: "i < length (vm_nodes s)" "n_table (vm_nodes s ! i) = n_table (vm_nodes q ! i)"
      "n_next (vm_nodes s ! i) = n_next (vm_nodes q ! i)" "n_action (vm_nodes s ! i) = n_action (vm_nodes q ! i)"
    if "i < length (vm_nodes q)" for i
    using same_nodes [OF assms(2) that] skel_eqD by blast+
  have s: "vm_where s = vm_where q" "vm_head s = vm_head q" "vm_key_count s = vm_key_count q"
    and es: "map base (vm_expr_list s) = map base (vm_expr_list q)"
    using assms(2) by (simp_all add: same_query_def)
  have w: "pred_option (\<lambda>w. w < length (vm_nodes q)) (vm_where q)"
    using q by (auto split: option.splits)
  have own: "pred_option (own_columns t h) (where_of s)"
    using same_where [OF assms(2) w] q pred_option_base by metis
  have keys: "list_all (\<lambda>x. i_type (idat x) = VT_COLUMN) (take k xs)"
    if "map base xs = map base ys" "list_all (\<lambda>x. i_type (idat x) = VT_COLUMN) (take k ys)" for k xs ys
  proof -
    have "list_all (\<lambda>x. i_type (idat x) = VT_COLUMN) (map base (take k zs))
        = list_all (\<lambda>x. i_type (idat x) = VT_COLUMN) (take k zs)" for zs
      by (simp add: list.pred_map comp_def idat_base)
    moreover have "map base (take k xs) = map base (take k ys)" using that(1) by (metis take_map)
    ultimately show ?thesis using that(2) by metis
  qed
  show ?thesis
    unfolding one_table_def Let_def s
    using q node own keys [OF es] map_base_own [OF es, of t h] by (auto split: option.splits)
qed

section \<open>The steps for a row\<close>

lemma on_exprs_run: "on_exprs f s = (case traverse (f (item_column (vm_nodes s))) (vm_expr_list s) of
    Inl e \<Rightarrow> (Inl e, s) | Inr es \<Rightarrow> (Inr (), s \<lparr> vm_expr_list := es \<rparr>))"
  by (simp add: on_exprs_def exn_simps split: sum.split)

lemma same_exprs:
  "same_query q s \<Longrightarrow> map base es = map base (vm_expr_list s) \<Longrightarrow> same_query q (s \<lparr> vm_expr_list := es \<rparr>)"
  by (simp add: same_query_def)

lemma where_of_exprs [simp]: "where_of (s \<lparr> vm_expr_list := es \<rparr>) = where_of s"
  by (cases "vm_where s") (simp_all add: where_of_def)

lemma exprs_null_step:
  assumes "same_query q s"
  shows "yields exprs_null s (Inr ()) (\<lambda>_ s'. same_query q s' \<and> vm_output s' = vm_output s)"
proof -
  obtain g where g: "\<And>x. set_column_value_null x = Inr (g x)"
    using null_runs by metis
  have "map base (map g (vm_expr_list s)) = map base (vm_expr_list s)"
    using base_null [OF g] by simp
  moreover have "traverse set_column_value_null (vm_expr_list s) = Inr (map g (vm_expr_list s))"
    by (rule traverse_map) (rule g)
  ultimately show ?thesis
    using same_exprs [OF assms] by (simp add: exprs_null_def on_exprs_run del: map_map)
qed

lemma same_upd_node:
  assumes "same_query q s" "i < length (vm_nodes s)" "skel (f (vm_nodes s ! i)) = skel (vm_nodes s ! i)"
  shows "same_query q (s \<lparr> vm_nodes := (vm_nodes s)[i := f (vm_nodes s ! i)] \<rparr>)"
proof -
  have "map skel ((vm_nodes s)[i := f (vm_nodes s ! i)]) = map skel (vm_nodes s)"
    using assms(2,3) by (metis list_update_id list_update_beyond map_update nth_map)
  with assms(1) show ?thesis by (simp add: same_query_def)
qed

lemma upd_node_step:
  assumes "same_query q s" "i < length (vm_nodes s)" "skel (f (vm_nodes s ! i)) = skel (vm_nodes s ! i)"
  shows "yields (upd_node i f) s (Inr ()) (\<lambda>_ s'. same_query q s' \<and> vm_output s' = vm_output s)"
  using same_upd_node [where f = f, OF assms] by (simp add: upd_node_def)

lemma set_row_step:
  "same_query q s \<Longrightarrow> i < length (vm_nodes s)
    \<Longrightarrow> yields (set_row i j r) s (Inr ()) (\<lambda>_ s'. same_query q s' \<and> vm_output s' = vm_output s)"
  unfolding set_row_def by (rule upd_node_step) (simp_all add: skel_def)

lemma traverse_base_set: "traverse (set_row_value t r) xs = Inr ys \<Longrightarrow> map base ys = map base xs"
  by (auto simp: traverse_Inr_iff list_all2_conv_all_nth base_set intro!: nth_equalityI)

lemma set_traverse:
  assumes "list_all (own_columns t h) xs" "h < length ns" "n_table (ns ! h) = Some t"
  shows "traverse (set_column_value (item_column ns) r) xs = traverse (set_row_value t r) xs"
  using assms by (auto simp: list_all_iff set_item_column intro!: traverse_cong)

lemma on_exprs_step:
  assumes "one_table t h o' q" "same_query q s"
  shows "yields (on_exprs (row1 r)) s (traverse (set_row_value t r) (vm_expr_list s))
     (\<lambda>es s'. same_query q s' \<and> vm_output s' = vm_output s \<and> vm_expr_list s' = es \<and> where_of s' = where_of s)"
proof -
  have s: "one_table t h o' s" by (rule one_table_same [OF assms])
  then have "traverse (set_column_value (item_column (vm_nodes s)) r) (vm_expr_list s) = traverse (set_row_value t r) (vm_expr_list s)"
    by (intro set_traverse) (auto simp: one_table_def Let_def)
  then show ?thesis
    using same_exprs [OF assms(2) traverse_base_set [of t r "vm_expr_list s"]]
    by (cases "traverse (set_row_value t r) (vm_expr_list s)") (simp_all add: on_exprs_run row1_def [abs_def])
qed

lemma on_where_step:
  assumes "one_table t h o' q" "same_query q s"
  shows "yields (on_where (row1 r)) s (on_option (set_row_value t r) (where_of s))
     (\<lambda>c s'. same_query q s' \<and> vm_output s' = vm_output s \<and> vm_expr_list s' = vm_expr_list s \<and> where_of s' = c)"
proof (cases "vm_where s")
  case None
  then show ?thesis using assms(2) by (simp add: on_where_def where_of_def exn_simps)
next
  case (Some w)
  have s: "one_table t h o' s" by (rule one_table_same [OF assms])
  let ?x = "vm_nodes s ! w"
  have w: "w < length (vm_nodes s)" "where_of s = n_on_cond ?x" and own: "pred_option (own_columns t h) (n_on_cond ?x)"
    using s Some by (auto simp: one_table_def Let_def where_of_def)
  have set: "on_option (set_column_value (item_column (vm_nodes s)) r) (n_on_cond ?x) = on_option (set_row_value t r) (n_on_cond ?x)"
    using own s by (cases "n_on_cond ?x") (auto simp: one_table_def Let_def set_item_column)
  have base: "map_option base c = map_option base (n_on_cond ?x)" if "on_option (set_row_value t r) (n_on_cond ?x) = Inr c" for c
    using that by (cases "n_on_cond ?x") (auto simp: attempt_Inr_iff base_set)
  have "same_query q (s \<lparr> vm_nodes := (vm_nodes s)[w := ?x \<lparr> n_on_cond := c \<rparr>] \<rparr>)"
    if "on_option (set_row_value t r) (n_on_cond ?x) = Inr c" for c
    using same_upd_node [OF assms(2) w(1), of "\<lambda>n. n \<lparr> n_on_cond := c \<rparr>"] base [OF that] by (simp add: skel_def)
  then show ?thesis
    using Some w
    by (cases "on_option (set_row_value t r) (n_on_cond ?x)")
       (auto simp: on_where_def on_node_cond_def get_node_def upd_node_def row1_def [abs_def] exn_simps set where_of_def)
qed

section \<open>The output stage\<close>

lemma traverse_length: "traverse f xs = Inr ys \<Longrightarrow> length ys = length xs"
  by (auto simp: traverse_Inr_iff dest: list_all2_lengthD)

definition grown :: "nat \<Rightarrow> vitem list \<Rightarrow> string list \<Rightarrow> vitem list" where
  "grown nk es vs = take nk es @ map (\<lambda>(x, res). map_data (grow res) x) (zip (drop nk es) vs)"

lemma grown_base: "length vs = length (drop nk es) \<Longrightarrow> map base (grown nk es vs) = map base es"
proof -
  assume len: "length vs = length (drop nk es)"
  have "map base (grown nk es vs) = map base (take nk es) @ map base (map fst (zip (drop nk es) vs))"
    by (simp add: grown_def case_prod_unfold comp_def)
  also have "\<dots> = map base (take nk es @ drop nk es)"
    unfolding map_fst_zip [OF len [symmetric]] by (simp only: map_append)
  finally show ?thesis by simp
qed

lemma grown_take: "length vs = length (drop nk es) \<Longrightarrow> take nk (grown nk es vs) = take nk es"
  by (simp add: grown_def min_def)

lemma sort_key_own:
  assumes "one_table t h o' s"
  shows "sort_key (item_column (vm_nodes s)) (take (vm_key_count s) (vm_expr_list s))
       = sort_key (col_of t) (take (vm_key_count s) (vm_expr_list s))"
proof -
  note s = assms [unfolded one_table_def Let_def]
  have "item_column (vm_nodes s) (idat x) = col_of t (idat x)" if "x \<in> set (take (vm_key_count s) (vm_expr_list s))" for x
  proof -
    obtain d l r c where x: "x = Item d l r c" by (cases x)
    from that s have "i_type d = VT_COLUMN" "own_columns t h x"
      unfolding list_all_iff x using in_set_takeD by fastforce+
    then have "own_column t h d" by (simp add: x own_columns_def columns.simps kind_of_def)
    with s show ?thesis by (simp add: x own_column_def item_column_def col_of_def)
  qed
  then show ?thesis by (auto simp: sort_key_def intro!: arg_cong [where f = "\<lambda>m. attempt m _"] traverse_cong)
qed

lemma output_step:
  assumes "one_table t h o' q" "same_query q s"
  shows "yields output_expr_list s
     (row_shown t (vm_key_count q) (vm_output_type q) (length (vm_output s)) (vm_expr_list s))
     (\<lambda>(key, row) s'. same_query q s' \<and> vm_output s' = multi_insert key row (vm_output s))"
proof -
  define nk where "nk = vm_key_count s"
  define s1 where "s1 = s \<lparr> vm_did_output := True \<rparr>"
  have q: "vm_key_count q = nk" "vm_output_type q = vm_output_type s"
    using assms(2) by (simp_all add: same_query_def nk_def)
  show ?thesis
  proof (cases "traverse output_value (drop nk (vm_expr_list s))")
    case (Inl e)
    then show ?thesis unfolding q by (simp add: output_expr_list_def output_row_def row_shown_def exn_simps nk_def)
  next
    case (Inr vs)
    note len = traverse_length [OF Inr]
    define s2 where "s2 = s1 \<lparr> vm_expr_list := grown nk (vm_expr_list s) vs \<rparr>"
    have s1: "same_query q s1" using assms(2) by (simp add: s1_def same_query_def)
    have s2: "same_query q s2"
      unfolding s2_def by (rule same_exprs [OF s1]) (simp add: grown_base [OF len] s1_def)
    then have own2: "one_table t h o' s2" by (rule one_table_same [OF assms(1)])
    have keys: "take nk (vm_expr_list s2) = take nk (vm_expr_list s)" "vm_key_count s2 = nk"
      by (simp_all add: s2_def grown_take [OF len]) (simp add: s1_def nk_def)
    have row: "output_row s1 = (Inr (concat (map (\<lambda>(i, x, res). cell_text (vm_output_type s = 1) i x res)
        (enumerate nk (zip (drop nk (vm_expr_list s)) vs)))), s2)"
      using Inr by (simp add: output_row_def exn_simps s1_def s2_def grown_def nk_def Let_def)
    have key: "output_key s2 = (if nk = 0 then Inr (row_number (length (vm_output s)))
        else sort_key (col_of t) (take nk (vm_expr_list s)), s2)"
      using sort_key_own [OF own2] by (simp add: output_key_def exn_simps keys row_number_def) (simp add: s2_def s1_def)
    have run: "output_expr_list s = (case (if nk = 0 then Inr (row_number (length (vm_output s)))
        else sort_key (col_of t) (take nk (vm_expr_list s))) of Inl e \<Rightarrow> (Inl e, s2)
        | Inr k \<Rightarrow> (Inr (), s2 \<lparr> vm_output := multi_insert k (concat (map (\<lambda>(i, x, res). cell_text (vm_output_type s = 1) i x res)
        (enumerate nk (zip (drop nk (vm_expr_list s)) vs)))) (vm_output s) \<rparr>))"
      by (simp add: output_expr_list_def exn_simps row key flip: s1_def split: sum.split) (simp add: s2_def s1_def)
    have out: "same_query q (s2 \<lparr> vm_output := x \<rparr>)" for x
      using s2 by (simp add: same_query_def)
    show ?thesis
      unfolding q row_shown_def Inr attempt_simps
      by (cases "if nk = 0 then Inr (row_number (length (vm_output s))) else sort_key (col_of t) (take nk (vm_expr_list s))")
         (simp_all add: run out)
  qed
qed

section \<open>The chain and the loop\<close>

text \<open>What the chain does behind the first table, with the values of a row in place.\<close>

definition chain_result :: "table \<Rightarrow> nat \<Rightarrow> int \<Rightarrow> nat \<Rightarrow> vitem option \<Rightarrow> vitem list \<Rightarrow> error + (string \<times> string) option" where
  "chain_result t nk ot k c es = attempt (row_kept c) (\<lambda>ok.
     if ok then attempt (row_shown t nk ot k es) (\<lambda>p. Inr (Some p)) else Inr None)"

definition with_row :: "(string \<times> string) list \<Rightarrow> (string \<times> string) option \<Rightarrow> (string \<times> string) list" where
  "with_row out p = (case p of None \<Rightarrow> out | Some (key, row) \<Rightarrow> multi_insert key row out)"

lemma chain_step:
  assumes "one_table t h o' q" "same_query q s" "2 \<le> n"
  shows "yields (next_stage (exec_join n) h) s
     (chain_result t (vm_key_count q) (vm_output_type q) (length (vm_output s)) (where_of s) (vm_expr_list s))
     (\<lambda>p s'. same_query q s' \<and> vm_output s' = with_row (vm_output s) p)"
proof -
  note s = one_table_same [OF assms(1,2), unfolded one_table_def Let_def]
  obtain m where n: "n = Suc (Suc m)" using assms(3) by (metis add_2_eq_Suc le_Suc_ex)
  let ?R = "row_shown t (vm_key_count q) (vm_output_type q) (length (vm_output s)) (vm_expr_list s)"
  have shown: "yields (exec_join (Suc k) (Some o')) s (attempt ?R (\<lambda>p. Inr (Some p)))
      (\<lambda>p s'. same_query q s' \<and> vm_output s' = with_row (vm_output s) p)" for k
  proof -
    have "exec_join (Suc k) (Some o') s = output_expr_list s"
      using s by (simp add: deref_def get_node_def exn_simps)
    with output_step [OF assms(1,2)] show ?thesis
      by (cases ?R) (auto simp: with_row_def)
  qed
  show ?thesis
  proof (cases "vm_where s")
    case None
    then have "next_stage (exec_join n) h s = exec_join n (Some o') s"
      using s by (simp add: next_stage_def get_node_def exn_simps)
    moreover have "chain_result t (vm_key_count q) (vm_output_type q) (length (vm_output s)) (where_of s) (vm_expr_list s)
        = attempt ?R (\<lambda>p. Inr (Some p))"
      using None by (simp add: chain_result_def row_kept_def where_of_def)
    ultimately show ?thesis using shown [of "Suc m"] unfolding yields_def n by (simp only:)
  next
    case (Some w)
    then have w: "w < length (vm_nodes s)" "n_action (vm_nodes s ! w) = VT_WHERE" "n_next (vm_nodes s ! w) = Some o'"
      "n_next (vm_nodes s ! h) = Some w" "h < length (vm_nodes s)"
      using s by auto
    have c: "where_of s = n_on_cond (vm_nodes s ! w)" using Some by (simp add: where_of_def)
    have run: "next_stage (exec_join n) h s = exec_where (exec_join (Suc m)) w s"
      using w by (simp add: n next_stage_def deref_def get_node_def exn_simps)
    have eval: "eval_on w VM_TRUE s = (case where_of s of None \<Rightarrow> Inr VM_TRUE | Some c \<Rightarrow> exec_condition c VM_TRUE, s)"
      using w by (simp add: eval_on_def get_node_def exn_simps c split: option.split)
    show ?thesis
    proof (cases "case where_of s of None \<Rightarrow> Inr VM_TRUE | Some c \<Rightarrow> exec_condition c VM_TRUE")
      case (Inl e)
      then have "exec_where (exec_join (Suc m)) w s = (Inl e, s)" using eval by (simp add: exec_where_def)
      moreover from Inl have "row_kept (where_of s) = Inl e" by (cases "where_of s") (simp_all add: row_kept_def)
      ultimately show ?thesis by (simp add: chain_result_def yields_def run)
    next
      case (Inr res)
      then have "next_stage (exec_join n) h s = (if res = VM_TRUE then exec_join (Suc m) (Some o') s else (Inr (), s))"
        unfolding run using eval w
        by (simp add: exec_where_def next_stage_def get_node_def exn_simps del: exec_join.simps)
      moreover from Inr have "row_kept (where_of s) = Inr (res = VM_TRUE)" by (cases "where_of s") (auto simp: row_kept_def)
      ultimately show ?thesis
        using shown [of m] assms(2)
        by (cases "res = VM_TRUE")
           (simp_all add: chain_result_def with_row_def yields_run [of "next_stage (exec_join n) h" s "exec_join (Suc m) (Some o')"] del: exec_join.simps)
    qed
  qed
qed

lemma row_result_chain:
  "row_result t nk ot c es k r = attempt (on_option (set_row_value t r) c) (\<lambda>c'.
     attempt (traverse (set_row_value t r) es) (\<lambda>es'. chain_result t nk ot k c' es'))"
  by (simp add: row_result_def chain_result_def)

lemma row_step:
  assumes "one_table t h o' q" "same_query q s" "2 \<le> n" "row_is t r"
  shows "yields (sq exprs_null (sq (set_row h i r) (sq (on_where (row1 r)) (sq (on_exprs (row1 r)) (next_stage (exec_join n) h))))) s
     (row_result t (vm_key_count q) (vm_output_type q) (where_of q) (vm_expr_list q) (length (vm_output s)) r)
     (\<lambda>p s'. same_query q s' \<and> vm_output s' = with_row (vm_output s) p)"
proof (rule yields_sq0 [OF exprs_null_step [OF assms(2)]], elim conjE)
  fix s1 assume s1: "same_query q s1" "vm_output s1 = vm_output s"
  have h: "h < length (vm_nodes s1)" using one_table_same [OF assms(1) s1(1)] by (simp add: one_table_def Let_def)
  show "yields (sq (set_row h i r) (sq (on_where (row1 r)) (sq (on_exprs (row1 r)) (next_stage (exec_join n) h)))) s1
     (row_result t (vm_key_count q) (vm_output_type q) (where_of q) (vm_expr_list q) (length (vm_output s)) r)
     (\<lambda>p s'. same_query q s' \<and> vm_output s' = with_row (vm_output s) p)"
  proof (rule yields_sq0 [OF set_row_step [OF s1(1) h]], elim conjE)
    fix s2 assume s2: "same_query q s2" "vm_output s2 = vm_output s1"
    let ?k = "length (vm_output s)"
    have own: "one_table t h o' s2" by (rule one_table_same [OF assms(1) s2(1)])
    have "map base (vm_expr_list s2) = map base (vm_expr_list q)" using s2(1) by (simp add: same_query_def)
    moreover have "map_option base (where_of s2) = map_option base (where_of q)"
      using assms(1) by (intro same_where [OF s2(1)]) (auto simp: one_table_def Let_def split: option.splits)
    ultimately have "row_result t nk ot (where_of q) (vm_expr_list q) ?k r = row_result t nk ot (where_of s2) (vm_expr_list s2) ?k r" for nk ot
      using result_base [OF one_table_own [OF assms(1)] assms(4)] result_base [OF one_table_own [OF own] assms(4)]
      by metis
    moreover have "yields (sq (on_where (row1 r)) (sq (on_exprs (row1 r)) (next_stage (exec_join n) h))) s2
        (row_result t (vm_key_count q) (vm_output_type q) (where_of s2) (vm_expr_list s2) ?k r)
        (\<lambda>p s'. same_query q s' \<and> vm_output s' = with_row (vm_output s) p)"
      unfolding row_result_chain
    proof (rule yields_sq [OF on_where_step [OF assms(1) s2(1)]], elim conjE)
      fix c s3 assume s3: "same_query q s3" "vm_output s3 = vm_output s2"
        "vm_expr_list s3 = vm_expr_list s2" "where_of s3 = c"
      show "yields (sq (on_exprs (row1 r)) (next_stage (exec_join n) h)) s3
          (attempt (traverse (set_row_value t r) (vm_expr_list s2)) (chain_result t (vm_key_count q) (vm_output_type q) ?k c))
          (\<lambda>p s'. same_query q s' \<and> vm_output s' = with_row (vm_output s) p)"
        unfolding s3(3) [symmetric]
      proof (rule yields_sq [OF on_exprs_step [OF assms(1) s3(1)]], elim conjE)
        fix es s4 assume s4: "same_query q s4" "vm_output s4 = vm_output s3" "vm_expr_list s4 = es" "where_of s4 = where_of s3"
        have out: "vm_output s4 = vm_output s" using s1 s2 s3 s4 by simp
        show "yields (next_stage (exec_join n) h) s4 (chain_result t (vm_key_count q) (vm_output_type q) ?k c es)
            (\<lambda>p s'. same_query q s' \<and> vm_output s' = with_row (vm_output s) p)"
          using chain_step [OF assms(1) s4(1) assms(3)] by (simp add: out s4(3,4) s3(4))
      qed
    qed
    ultimately show "yields (sq (on_where (row1 r)) (sq (on_exprs (row1 r)) (next_stage (exec_join n) h))) s2
     (row_result t (vm_key_count q) (vm_output_type q) (where_of q) (vm_expr_list q) ?k r)
     (\<lambda>p s'. same_query q s' \<and> vm_output s' = with_row (vm_output s) p)" by simp
  qed
qed

lemma rows_loop:
  assumes "one_table t h o' q" "2 \<le> n" "\<And>r. r \<in> set rs \<Longrightarrow> row_is t r" "same_query q s"
  shows "yields (for_each (\<lambda>(i, r). sq exprs_null (sq (set_row h i r) (sq (on_where (row1 r))
       (sq (on_exprs (row1 r)) (next_stage (exec_join n) h))))) (enumerate j rs)) s
     (query_rows (row_result t (vm_key_count q) (vm_output_type q) (where_of q) (vm_expr_list q)) rs (vm_output s))
     (\<lambda>out s'. same_query q s' \<and> vm_output s' = out)"
  using assms(3,4)
proof (induction rs arbitrary: j s)
  case (Cons r rs)
  have "row_is t r" using Cons.prems(1) by simp
  show ?case
    unfolding enumerate_simps for_each.simps query_rows.simps with_row_def [symmetric] prod.case
  proof (rule yields_sq [OF row_step [OF assms(1) Cons.prems(2) assms(2) \<open>row_is t r\<close>]], elim conjE)
    fix p s' assume "same_query q s'" "vm_output s' = with_row (vm_output s) p"
    then show "yields (for_each (\<lambda>(i, r). sq exprs_null (sq (set_row h i r) (sq (on_where (row1 r))
       (sq (on_exprs (row1 r)) (next_stage (exec_join n) h))))) (enumerate (Suc j) rs)) s'
     (query_rows (row_result t (vm_key_count q) (vm_output_type q) (where_of q) (vm_expr_list q)) rs (with_row (vm_output s) p))
     (\<lambda>out s'. same_query q s' \<and> vm_output s' = out)"
      using Cons.IH [of s' "Suc j"] Cons.prems(1) by simp
  qed
qed simp

lemma exec_query_rows:
  assumes "one_table t h o' s" "2 \<le> n" "\<And>r. r \<in> set (tb_rows t) \<Longrightarrow> row_is t r" "vm_output s = []"
  shows "yields (exec_query n) s
     (query_rows (row_result t (vm_key_count s) (vm_output_type s) (where_of s) (vm_expr_list s)) (tb_rows t) [])
     (\<lambda>out s'. same_query s s' \<and> vm_output s' = out)"
proof -
  define F where "F = (\<lambda>(i, r). sq exprs_null (sq (set_row h i r) (sq (on_where (row1 r))
       (sq (on_exprs (row1 r)) (next_stage (exec_join n) h)))))"
  define s1 where "s1 = s \<lparr> vm_nodes := (vm_nodes s)[h := (vm_nodes s ! h) \<lparr> n_diter := 0 \<rparr>] \<rparr>"
  note s = assms(1) [unfolded one_table_def Let_def]
  have h: "h < length (vm_nodes s)" using s by simp
  have s1: "same_query s s1"
    unfolding s1_def using same_upd_node [OF same_query_refl h, of "\<lambda>x. x \<lparr> n_diter := 0 \<rparr>"] by (simp add: skel_def)
  have node: "vm_nodes s1 ! h = (vm_nodes s ! h) \<lparr> n_diter := 0 \<rparr>" "length (vm_nodes s1) = length (vm_nodes s)"
    using h by (simp_all add: s1_def)
  have run: "exec_query n s = sq (for_each F (enumerate 0 (tb_rows t))) (upd_node h (\<lambda>x. x \<lparr> n_diter := length (tb_rows t) \<rparr>)) s1"
  proof -
    have "exec_query n s = loop_all h F s"
      using s by (simp add: exec_query_def deref_def exn_simps F_def)
    also have "\<dots> = loop_from h F s1"
      by (simp add: loop_all_def upd_node_def s1_def)
    also have "\<dots> = sq (for_each F (enumerate 0 (tb_rows t))) (upd_node h (\<lambda>x. x \<lparr> n_diter := length (tb_rows t) \<rparr>)) s1"
      using s node by (simp add: loop_from_def tree_of_def deref_def get_node_def bnd_def)
    finally show ?thesis .
  qed
  have "yields (for_each F (enumerate 0 (tb_rows t))) s1
     (query_rows (row_result t (vm_key_count s) (vm_output_type s) (where_of s) (vm_expr_list s)) (tb_rows t) [])
     (\<lambda>out s'. same_query s s' \<and> vm_output s' = out)"
    using rows_loop [OF assms(1,2,3) s1, of "tb_rows t" 0] assms(4) by (simp add: F_def s1_def)
  moreover have "same_query s (s' \<lparr> vm_nodes := (vm_nodes s')[h := (vm_nodes s' ! h) \<lparr> n_diter := k \<rparr>] \<rparr>)"
    if "same_query s s'" for s' k
    using same_upd_node [OF that same_nodes(1) [OF that h], of "\<lambda>x. x \<lparr> n_diter := k \<rparr>"] by (simp add: skel_def)
  ultimately show ?thesis
    by (cases "query_rows (row_result t (vm_key_count s) (vm_output_type s) (where_of s) (vm_expr_list s)) (tb_rows t) []")
       (auto simp: run exn_simps upd_node_def)
qed

end
