(* ===== verification/SelectCorrect.thy ===== *)
theory SelectCorrect
  imports VmSelect "HOL-Library.Multiset"
begin

text \<open>
  The result of SELECT on one table: \<open>vm_select\<close> computes \<open>query_rows\<close>, and the list of rows is
  the list of the texts of the rows that fulfil the condition, in the order of
  the table or, with ORDER BY, sorted by the key in a stable way.
\<close>

section \<open>The chain that make_query builds\<close>

definition single_query :: "table \<Rightarrow> nat \<Rightarrow> vm \<Rightarrow> bool" where
  "single_query t h s \<longleftrightarrow> (let ns = vm_nodes s in
     vm_tree_list s = [h] \<and> h < length ns \<and> n_table (ns ! h) = Some t \<and> n_prev (ns ! h) = None \<and> n_next (ns ! h) = None
     \<and> n_action (ns ! h) \<noteq> VT_RTJOIN
     \<and> (case vm_where s of None \<Rightarrow> True | Some w \<Rightarrow> w \<noteq> h \<and> w < length ns \<and> n_action (ns ! w) = VT_WHERE)
     \<and> list_all (own_columns t h) (vm_expr_list s) \<and> pred_option (own_columns t h) (where_of s)
     \<and> list_all (\<lambda>x. i_type (idat x) = VT_COLUMN) (take (vm_key_count s) (vm_expr_list s))
     \<and> vm_output s = [])"

lemma make_query_single:
  assumes "single_query t h s"
  shows "\<exists>s'. make_query s = (Inr (), s') \<and> one_table t h (length (vm_nodes s)) s' \<and> vm_tree_list s' = [h]
     \<and> vm_expr_list s' = vm_expr_list s \<and> vm_key_count s' = vm_key_count s \<and> vm_output_type s' = vm_output_type s
     \<and> where_of s' = where_of s \<and> vm_sent s' = vm_sent s \<and> vm_file s' = vm_file s
     \<and> vm_outfile s' = vm_outfile s \<and> vm_elapsed s' = vm_elapsed s \<and> vm_output s' = [] \<and> length (vm_nodes s') = Suc (length (vm_nodes s))"
proof -
  note s = assms [unfolded single_query_def Let_def]
  let ?ns = "vm_nodes s"
  have h: "h < length ?ns" "vm_tree_list s = [h]" "n_prev (?ns ! h) = None" "n_next (?ns ! h) = None" "n_action (?ns ! h) \<noteq> VT_RTJOIN"
    using s by simp_all
  obtain m where m: "length ?ns = Suc m" using h(1) by (cases "length ?ns") auto
  define s1 where "s1 = s \<lparr> vm_head := Some h, vm_tail := Some h, vm_have_inner_join := False \<rparr>"
  have run: "make_query s = sq append_where append_output s1"
    using h by (simp add: make_query_def single_table_def note_inner_join_def reorder_def chain_fuel_def m
      get_node_def deref_def exn_simps s1_def)
  let ?n = "length ?ns"
  let ?out = "vnode_new \<lparr> n_type := VT_OUTPUT, n_action := VT_OUTPUT, n_prev := Some h \<rparr>"
  show ?thesis
  proof (cases "vm_where s")
    case None
    define s2 where "s2 = s1 \<lparr> vm_nodes := (?ns @ [?out]) [h := (?ns ! h) \<lparr> n_next := Some ?n \<rparr>], vm_tail := Some ?n \<rparr>"
    have "make_query s = (Inr (), s2)"
      unfolding run using None h
      by (simp add: append_where_def append_output_def vm_tail_of_def deref_def new_node_def upd_node_def exn_simps
        s1_def s2_def nth_append)
    then show ?thesis
      using s None h by (simp add: one_table_def Let_def s2_def s1_def where_of_def nth_append nth_list_update)
  next
    case (Some w)
    let ?out = "vnode_new \<lparr> n_type := VT_OUTPUT, n_action := VT_OUTPUT, n_prev := Some w \<rparr>"
    have w: "w \<noteq> h" "w < ?n" "n_action (?ns ! w) = VT_WHERE" using s Some by auto
    define ns where "ns = (?ns [h := (?ns ! h) \<lparr> n_next := Some w \<rparr>]) [w := (?ns ! w) \<lparr> n_prev := Some h \<rparr>]"
    define s2 where "s2 = s1 \<lparr> vm_nodes := (ns @ [?out]) [w := (ns ! w) \<lparr> n_next := Some ?n \<rparr>], vm_tail := Some ?n \<rparr>"
    have ns: "length ns = ?n" "ns ! w = (?ns ! w) \<lparr> n_prev := Some h \<rparr>" "ns ! h = (?ns ! h) \<lparr> n_next := Some w \<rparr>"
      using w h by (auto simp: ns_def)
    have "append_where s1 = (Inr (), s1 \<lparr> vm_nodes := ns, vm_tail := Some w \<rparr>)"
      using Some w h by (simp add: append_where_def vm_tail_of_def deref_def upd_node_def exn_simps s1_def ns_def)
    moreover have "append_output (s1 \<lparr> vm_nodes := ns, vm_tail := Some w \<rparr>) = (Inr (), s2)"
      using w by (simp add: append_output_def vm_tail_of_def deref_def new_node_def upd_node_def exn_simps s2_def ns nth_append)
    ultimately have "make_query s = (Inr (), s2)" unfolding run by simp
    then show ?thesis
      using s Some h w by (simp add: one_table_def Let_def s2_def s1_def where_of_def nth_append nth_list_update ns)
  qed
qed

section \<open>The whole statement\<close>

abbreviation select_function :: "table \<Rightarrow> vm \<Rightarrow> error + (string \<times> string) list" where
  "select_function t s \<equiv> query_rows (row_result t (vm_key_count s) (vm_output_type s) (where_of s) (vm_expr_list s)) (tb_rows t) []"

definition same_output :: "vm \<Rightarrow> vm \<Rightarrow> bool" where
  "same_output s s' \<longleftrightarrow> map base (vm_expr_list s') = map base (vm_expr_list s) \<and> vm_key_count s' = vm_key_count s
     \<and> vm_output_type s' = vm_output_type s \<and> vm_sent s' = vm_sent s \<and> vm_file s' = vm_file s
     \<and> vm_outfile s' = vm_outfile s \<and> vm_elapsed s' = vm_elapsed s"

definition print_result :: "unit vmm" where
  "print_result = bnd output_query_result (\<lambda>k. bnd (gets vm_elapsed) (\<lambda>secs. fsm_put (rows_message k secs)))"

text \<open>
  C9. SELECT on one table. When the machine has one opened table, conditions and expressions over
  its columns, and no joins, running the statement gives what the function
  \<open>query_rows\<close> gives on the list of the rows: the same exception, or a state whose output is that
  list of keys and texts, which is then printed. The values that the
  machine leaves in its items from row to row, its chain of stages and its iterators have no part in the result.
\<close>

theorem select_one_table:
  assumes "single_query t h s" "list_all (row_is t) (tb_rows t)"
  shows "case select_function t s of
      Inl e \<Rightarrow> \<exists>s'. vm_select s = (Inl e, s')
    | Inr out \<Rightarrow> \<exists>s'. vm_select s = print_result s' \<and> vm_output s' = out \<and> same_output s s'"
proof -
  obtain s1 where s1: "make_query s = (Inr (), s1)" "one_table t h (length (vm_nodes s)) s1" "vm_tree_list s1 = [h]"
      "vm_expr_list s1 = vm_expr_list s" "vm_key_count s1 = vm_key_count s" "vm_output_type s1 = vm_output_type s"
      "where_of s1 = where_of s" "vm_sent s1 = vm_sent s" "vm_file s1 = vm_file s" "vm_outfile s1 = vm_outfile s"
      "vm_elapsed s1 = vm_elapsed s" "vm_output s1 = []" "length (vm_nodes s1) = Suc (length (vm_nodes s))"
    using make_query_single [OF assms(1)] by blast
  have "2 \<le> length (vm_nodes s1)" using s1(13) assms(1) by (auto simp: single_query_def Let_def)
  then have "yields (exec_query (length (vm_nodes s1))) s1 (select_function t s) (\<lambda>out s'. same_query s1 s' \<and> vm_output s' = out)"
    using exec_query_rows [OF s1(2) _ _ s1(12)] assms(2) by (simp add: s1 list_all_iff)
  moreover have "vm_select s = sq (exec_query (length (vm_nodes s1))) print_result s1"
    using s1 by (simp add: vm_select_def chain_fuel_def print_result_def exn_simps)
  moreover have "same_output s s'" if "same_query s1 s'" for s'
    using that by (simp add: same_query_def same_output_def s1)
  ultimately show ?thesis
    by (cases "select_function t s") (auto simp: exn_simps)
qed

section \<open>The order of the rows\<close>

lemma multi_insert_set: "set (multi_insert k v ps) = insert (k, v) (set ps)"
  by (induction ps) auto

lemma multi_insert_mset: "mset (multi_insert k v ps) = add_mset (k, v) (mset ps)"
  by (induction ps) auto

lemma multi_insert_sorted: "sorted (map fst ps) \<Longrightarrow> sorted (map fst (multi_insert k v ps))"
  by (induction ps) (auto simp: multi_insert_set)

lemma multi_insert_stable:
  "sorted (map fst ps) \<Longrightarrow> filter (\<lambda>p. a = fst p) (multi_insert k v ps) = filter (\<lambda>p. a = fst p) (ps @ [(k, v)])"
proof (induction ps)
  case (Cons p ps)
  have "filter (\<lambda>p. k = fst p) ps = []" if "k < fst p"
    using that Cons.prems by (auto simp: filter_empty_conv)
  with Cons show ?case by auto
qed simp

lemma multi_insert_last: "\<forall>p \<in> set ps. fst p \<le> k \<Longrightarrow> multi_insert k v ps = ps @ [(k, v)]"
  by (induction ps) (auto simp: not_less [symmetric])

definition all_inserted :: "(string \<times> string) list \<Rightarrow> (string \<times> string) list" where
  "all_inserted ps = fold (\<lambda>(k, v). multi_insert k v) ps []"

lemma all_inserted_snoc: "all_inserted (ps @ [(k, v)]) = multi_insert k v (all_inserted ps)"
  by (simp add: all_inserted_def)

lemma all_inserted_facts:
  "sorted (map fst (all_inserted ps)) \<and> mset (all_inserted ps) = mset ps
    \<and> (\<forall>a. filter (\<lambda>p. a = fst p) (all_inserted ps) = filter (\<lambda>p. a = fst p) ps)"
proof (induction ps rule: rev_induct)
  case Nil
  then show ?case by (simp add: all_inserted_def)
next
  case (snoc p ps)
  obtain k v where p: "p = (k, v)" by (cases p)
  from snoc show ?case
    unfolding p all_inserted_snoc
    by (simp add: multi_insert_sorted multi_insert_mset multi_insert_stable)
qed

lemma all_inserted_sort: "all_inserted ps = linorder_class.sort_key fst ps"
  using all_inserted_facts by (intro properties_for_sort_key [symmetric]) auto

definition kept :: "'a option list \<Rightarrow> 'a list" where
  "kept ps = List.map_filter id ps"

lemma kept_simps [simp]: "kept [] = []" "kept (None # ps) = kept ps" "kept (Some p # ps) = p # kept ps"
  by (simp_all add: kept_def List.map_filter_def)

lemma query_rows_const:
  "query_rows (\<lambda>k. f) rs out = map_sum id (\<lambda>ps. fold (\<lambda>(k, v). multi_insert k v) (kept ps) out) (traverse f rs)"
proof (induction rs arbitrary: out)
  case (Cons r rs)
  then show ?case
    by (cases "f r"; cases "traverse f rs") (auto split: option.split)
qed simp

text \<open>With keys of ORDER BY the number of the rows already there plays no part; without, it is the key.\<close>

lemma row_result_keys: "0 < nk \<Longrightarrow> row_result t nk ot c es k = row_result t nk ot c es 0"
proof -
  assume "0 < nk"
  then have shown: "row_shown t nk ot k = row_shown t nk ot 0" by (intro ext) (simp add: row_shown_def)
  show ?thesis unfolding row_result_def shown ..
qed

lemma row_result_number:
  "row_result t 0 ot c es k r = map_sum id (map_option (\<lambda>p. (row_number k, snd p))) (row_result t 0 ot c es 0 r)"
proof -
  define F where "F k es' = row_shown t 0 ot k es'" for k es'
  have F: "F k es' = map_sum id (\<lambda>p. (row_number k, snd p)) (F 0 es')" for es'
    by (cases "traverse output_value es'") (simp_all add: F_def row_shown_def)
  define C where "C k c' es' = attempt (row_kept c') (\<lambda>ok. if ok then attempt (F k es') (\<lambda>p. Inr (Some p)) else Inr None)" for k c' es'
  have C: "C k c' es' = map_sum id (map_option (\<lambda>p. (row_number k, snd p))) (C 0 c' es')" for c' es'
    unfolding C_def F [of es'] by (cases "row_kept c'"; cases "F 0 es'") (simp_all add: F)
  have r: "row_result t 0 ot c es j r = attempt (on_option (set_row_value t r) c) (\<lambda>c'.
      attempt (traverse (set_row_value t r) es) (C j c'))" for j
    unfolding row_result_def C_def F_def ..
  show ?thesis
    unfolding r by (cases "on_option (set_row_value t r) c"; cases "traverse (set_row_value t r) es") (simp_all add: C [symmetric])
qed

lemma row_number_less: "i < 10 ^ 20 \<Longrightarrow> j < 10 ^ 20 \<Longrightarrow> row_number i < row_number j \<longleftrightarrow> i < j"
  using padded_less [of 20 i j] setw_padded [of 20 i] setw_padded [of 20 j] by (simp add: row_number_def)

definition numbered :: "(string \<times> string) list \<Rightarrow> bool" where
  "numbered out \<longleftrightarrow> map fst out = map row_number [0..<length out]"

lemma numbered_insert:
  assumes "numbered out" "length out < 10 ^ 20"
  shows "multi_insert (row_number (length out)) v out = out @ [(row_number (length out), v)]"
    "numbered (out @ [(row_number (length out), v)])"
proof -
  have "\<forall>p \<in> set out. fst p \<le> row_number (length out)"
  proof
    fix p assume "p \<in> set out"
    then have "fst p \<in> row_number ` {0..<length out}"
      using assms(1) by (metis image_eqI list.set_map numbered_def set_upt)
    then obtain i where "i < length out" "fst p = row_number i" by auto
    with row_number_less [of i "length out"] assms(2) show "fst p \<le> row_number (length out)"
      by (simp add: order.strict_implies_order)
  qed
  then show "multi_insert (row_number (length out)) v out = out @ [(row_number (length out), v)]"
    by (rule multi_insert_last)
  show "numbered (out @ [(row_number (length out), v)])"
    using assms(1) by (simp add: numbered_def)
qed

lemma query_rows_numbered:
  assumes "\<And>k r. f k r = map_sum id (map_option (\<lambda>p. (row_number k, snd p))) (g r)"
  shows "numbered out \<Longrightarrow> length out + length rs \<le> 10 ^ 20
    \<Longrightarrow> map_sum id (map snd) (query_rows f rs out) = map_sum id (\<lambda>ps. map snd out @ map snd (kept ps)) (traverse g rs)"
proof (induction rs arbitrary: out)
  case (Cons r rs)
  show ?case
  proof (cases "g r")
    case (Inl e)
    then show ?thesis by (simp add: assms)
  next
    case (Inr p)
    show ?thesis
    proof (cases p)
      case None
      then have "query_rows f (r # rs) out = query_rows f rs out" using Inr by (simp add: assms [of _ r])
      then show ?thesis using None Cons Inr by (cases "traverse g rs") simp_all
    next
      case (Some q)
      let ?out = "out @ [(row_number (length out), snd q)]"
      have "length out < 10 ^ 20" using Cons.prems(2) by simp
      note num = numbered_insert [OF Cons.prems(1) this, of "snd q"]
      have IH: "map_sum id (map snd) (query_rows f rs ?out) = map_sum id (\<lambda>ps. map snd ?out @ map snd (kept ps)) (traverse g rs)"
        using num(2) Cons.prems(2) by (intro Cons.IH) simp_all
      have step: "query_rows f (r # rs) out = query_rows f rs ?out" using Some Inr num(1) by (simp add: assms [of _ r])
      show ?thesis unfolding step IH by (cases "traverse g rs") (simp_all add: Some Inr)
    qed
  qed
qed simp


section \<open>A table for the examples\<close>

definition id_item :: vitem where
  "id_item = Item (item_new \<lparr> i_type := VT_COLUMN, i_db_name := ''d'', i_tbl_name := ''t'', i_col_name := ''id'',
     i_parent := Some 0 \<rparr>) None None None"

definition id_above :: vitem where
  "id_above = node_item VT_CMPGT id_item (leaf_item VT_INT ''8'')"

definition id_table :: "buffer list \<Rightarrow> table" where
  "id_table bs = \<lparr> tb_schema = sample_schema, tb_rows = map (\<lambda>b. (b, sample_schema)) bs \<rparr>"

definition id_query :: "buffer list \<Rightarrow> vm" where
  "id_query bs = (vm_new (new_buffer 0 []) (new_buffer 0 []) ''d'' (\<lambda>_. None) (\<lambda>_ _ _. True) (zero_f32 False))
     \<lparr> vm_expr_list := [id_item, id_item], vm_key_count := 1, vm_tree_list := [0], vm_where := Some 1,
       vm_nodes := [vnode_new \<lparr> n_type := VT_TREE, n_table := Some (id_table bs) \<rparr>,
         vnode_new \<lparr> n_type := VT_WHERE, n_action := VT_WHERE, n_on_cond := Some id_above \<rparr>] \<rparr>"

lemma id_kinds: "kind_of (item_new \<lparr> i_type := VT_COLUMN, i_db_name := a, i_tbl_name := b, i_col_name := c, i_parent := p \<rparr>) = Column"
    "kind_of (item_new \<lparr> i_type := VT_CMPGT \<rparr>) = Operator"
    "kind_of (item_new \<lparr> i_type := VT_INT \<rparr>) = Other"
  by (simp_all add: kind_of_def walk_types_def)

lemma id_single: "single_query (id_table bs) 0 (id_query bs)" "list_all (row_is (id_table bs)) (tb_rows (id_table bs))"
proof -
  have names: "tb_db_name (id_table bs) = ''d''" "tb_tbl_name (id_table bs) = ''t''"
    by (simp_all add: tb_db_name_def tb_tbl_name_def id_table_def sample_schema_def header_new_def)
  then show "single_query (id_table bs) 0 (id_query bs)"
    by (simp add: single_query_def Let_def id_query_def vm_new_def vnode_new_def where_of_def own_columns_def columns.simps
      id_item_def id_above_def node_item_def leaf_item_def id_kinds own_column_def) (simp add: item_new_def)
  show "list_all (row_is (id_table bs)) (tb_rows (id_table bs))"
    unfolding row_is_def names
    by (simp add: id_table_def list_all_iff row_db_name_def row_tbl_name_def sample_schema_def header_new_def)
qed

abbreviation id_value :: "string \<Rightarrow> vitem" where
  "id_value k \<equiv> map_data (\<lambda>d. d \<lparr> i_value := k \<rparr>) id_item"

lemma id_set:
  assumes "row_rep 2 [k, ''ab''] b" "length k = 4"
  shows "set_row_value (id_table bs) (b, sample_schema) id_item = Inr (id_value k)"
    "set_row_value (id_table bs) (b, sample_schema) id_above = Inr (node_item VT_CMPGT (id_value k) (leaf_item VT_INT ''8''))"
proof -
  have "\<exists>b'. value_of ''id'' (b, sample_schema) = (Inr ([k, ''ab''] ! 0), (b', sample_schema)) \<and> row_rep 2 [k, ''ab''] b'"
    using assms by (intro value_of_rep) (simp_all add: sample_facts)
  then have "row_get (b, sample_schema) ''id'' = Inr k" by (auto simp: row_get_def)
  moreover have "column_is_of (idat id_item) (b, sample_schema)"
    by (simp add: column_is_of_def id_item_def row_db_name_def row_tbl_name_def sample_schema_def header_new_def)
  ultimately show "set_row_value (id_table bs) (b, sample_schema) id_item = Inr (id_value k)"
      "set_row_value (id_table bs) (b, sample_schema) id_above = Inr (node_item VT_CMPGT (id_value k) (leaf_item VT_INT ''8''))"
    by (simp_all add: set_column_value_def walk_item id_item_def id_above_def id_kinds node_item_def leaf_item_def
      item_value_def map_data_def) (simp_all add: item_new_def)
qed

lemma id_row:
  assumes "row_rep 2 [k, ''ab''] b" "length k = 4"
  shows "row_result (id_table bs) 1 0 None [id_item, id_item] j (b, sample_schema) = Inr (Some (k, k @ [CHR 0xAE]))"
    "exec_cmpgt (Inr k) (Inr ''8'') = Inr v
      \<Longrightarrow> row_result (id_table bs) 1 0 (Some id_above) [id_item, id_item] j (b, sample_schema)
        = Inr (if v = VM_TRUE then Some (k, k @ [CHR 0xAE]) else None)"
proof -
  have type: "i_type (idat (id_value v)) = VT_COLUMN" "i_value (idat (id_value v)) = v" "i_col_name (idat (id_value v)) = ''id''" for v
    by (simp_all add: map_data_def id_item_def)
  have cond: "exec_condition (id_value k) [] = Inr k" for k
    by (simp add: map_data_def id_item_def exec_condition.simps)
  have out: "output_value (id_value k) = Inr k"
    unfolding output_value_def cond type by (simp add: numeric_types_def)
  have key: "sort_key_part (column_sized FLAG_PRIMARY 4 TYPE_INT ''id'') k = Inr k"
    using assms(2) setw_again [of k 4] by (simp add: sort_key_part_def column_sized_def)
  have col: "col_of (id_table bs) (idat (id_value k)) = Inr (column_sized FLAG_PRIMARY 4 TYPE_INT ''id'')"
    by (simp add: col_of_def type id_table_def get_column_def sample_facts(3)) (simp add: column_sized_def)
  have shown: "row_shown (id_table bs) 1 0 j [id_value k, id_value k] = Inr (k, k @ [CHR 0xAE])"
    using key by (simp add: row_shown_def out sort_key_def col type cell_text_def)
  show "row_result (id_table bs) 1 0 None [id_item, id_item] j (b, sample_schema) = Inr (Some (k, k @ [CHR 0xAE]))"
    using shown by (simp add: row_result_def id_set [OF assms] row_kept_def)
  show "exec_cmpgt (Inr k) (Inr ''8'') = Inr v
      \<Longrightarrow> row_result (id_table bs) 1 0 (Some id_above) [id_item, id_item] j (b, sample_schema)
        = Inr (if v = VM_TRUE then Some (k, k @ [CHR 0xAE]) else None)"
    using shown cond
    by (simp add: row_result_def id_set [OF assms] row_kept_def exec_condition.simps node_item_def leaf_item_def)
qed

lemma id_compare: "exec_cmpgt (Inr ''0007'') (Inr ''8'') = Inr VM_FALSE" "exec_cmpgt (Inr ''0012'') (Inr ''8'') = Inr VM_TRUE"
  by code_simp+


lemma id_rows: "\<exists>ba bb. row_rep 2 [''0007'', ''ab''] ba \<and> row_rep 2 [''0012'', ''ab''] bb"
  using sample_row [OF sample_stores(1)] sample_row [OF sample_stores(2)] by auto

theorem select_one_table_witness:
  "\<exists>ba bb s'. row_rep 2 [''0007'', ''ab''] ba \<and> row_rep 2 [''0012'', ''ab''] bb
     \<and> vm_select (id_query [bb, ba]) = print_result s' \<and> vm_output s' = [(''0012'', ''0012'' @ [CHR 0xAE])]"
proof -
  obtain ba bb where r: "row_rep 2 [''0007'', ''ab''] ba" "row_rep 2 [''0012'', ''ab''] bb" using id_rows by auto
  have q: "vm_key_count (id_query bs) = 1" "vm_output_type (id_query bs) = 0" "where_of (id_query bs) = Some id_above"
    "vm_expr_list (id_query bs) = [id_item, id_item]" for bs
    by (simp_all add: id_query_def where_of_def vm_new_def)
  have rows: "tb_rows (id_table [bb, ba]) = [(bb, sample_schema), (ba, sample_schema)]" by (simp add: id_table_def)
  have "select_function (id_table [bb, ba]) (id_query [bb, ba]) = Inr [(''0012'', ''0012'' @ [CHR 0xAE])]"
    unfolding rows q using id_row(2) [OF r(1) _ id_compare(1)] id_row(2) [OF r(2) _ id_compare(2)]
    by (simp add: VM_TRUE_def VM_FALSE_def)
  with select_one_table [OF id_single [of "[bb, ba]"]] r show ?thesis by auto
qed

end
