(* ===== verification/Comm.thy ===== *)
theory Comm
  imports Buffer
begin

text \<open>
  The protocol between client and server (\<open>src/comm\<close>, \<open>src/srv/main.cpp\<close>, \<open>src/cli/main.cpp\<close>).
  Each side has one buffer for messages, the opcode it sent last, and a table that
  says for this opcode and the received one whether the message is handled or
  ends the loop. A result longer than a message goes out in pieces, each of which waits for the
  acknowledgement of the client.

  The two programs and the network between them are a step relation. The
  state has the two machines, the messages on their way, and the calls the server thread has still
  to make; a statement, a key and a login are answered by functions that are arguments. The model
  assumes a network that delivers each message whole, in order and without delay
  beyond a step; time limits and errors of the sockets are not modelled.
\<close>

section \<open>Constants\<close>

definition TYPE_CLIENT :: int where "TYPE_CLIENT = 15"
definition TYPE_SERVER :: int where "TYPE_SERVER = 127"

abbreviation (input) COMM_BUFFER_SZ :: nat where "COMM_BUFFER_SZ \<equiv> 1460"
abbreviation (input) PAD :: nat where "PAD \<equiv> 8"
abbreviation (input) OPCODE_SZ :: nat where "OPCODE_SZ \<equiv> 2"
abbreviation (input) OPCODE_POS :: nat where "OPCODE_POS \<equiv> 0"
abbreviation (input) TYPE_POS :: nat where "TYPE_POS \<equiv> 1"

abbreviation (input) OP_NULL :: int where "OP_NULL \<equiv> 0"
abbreviation (input) OP_TERM_SYN :: int where "OP_TERM_SYN \<equiv> 1"
abbreviation (input) OP_TERM_ACK :: int where "OP_TERM_ACK \<equiv> 2"
abbreviation (input) OP_RSLT_ACK :: int where "OP_RSLT_ACK \<equiv> 3"
abbreviation (input) OP_CONN_SYN :: int where "OP_CONN_SYN \<equiv> 4"
abbreviation (input) OP_AUTH_SYN :: int where "OP_AUTH_SYN \<equiv> 5"
abbreviation (input) OP_STMT_SYN :: int where "OP_STMT_SYN \<equiv> 6"

abbreviation (input) OP_RSLT_SYN :: int where "OP_RSLT_SYN \<equiv> 3"
abbreviation (input) OP_RSLT_FIN :: int where "OP_RSLT_FIN \<equiv> 4"
abbreviation (input) OP_CONN_ACK :: int where "OP_CONN_ACK \<equiv> 5"
abbreviation (input) OP_CONN_ERR :: int where "OP_CONN_ERR \<equiv> 6"
abbreviation (input) OP_AUTH_ACK :: int where "OP_AUTH_ACK \<equiv> 7"
abbreviation (input) OP_AUTH_ERR :: int where "OP_AUTH_ERR \<equiv> 8"
abbreviation (input) OP_STMT_ERR :: int where "OP_STMT_ERR \<equiv> 9"

abbreviation (input) TYPE_TXT :: int where "TYPE_TXT \<equiv> 0"
abbreviation (input) TYPE_ENC :: int where "TYPE_ENC \<equiv> 1"

section \<open>One side of the connection\<close>

record fsm =
  f_type :: int
  f_buffer :: "byte list"
  f_size :: nat
  f_opsent :: int
  f_loop :: bool

definition fsm_new :: "int \<Rightarrow> byte list \<Rightarrow> fsm" where
  "fsm_new ty mem = \<lparr> f_type = ty, f_buffer = mem, f_size = 0, f_opsent = OP_NULL, f_loop = True \<rparr>"

definition is_server :: "fsm \<Rightarrow> bool" where
  "is_server f = (f_type f = TYPE_SERVER)"

definition get_opcode :: "fsm \<Rightarrow> int" where
  "get_opcode f = uint (f_buffer f ! OPCODE_POS)"

definition get_type :: "fsm \<Rightarrow> int" where
  "get_type f = uint (f_buffer f ! TYPE_POS)"

definition set_opcode :: "int \<Rightarrow> fsm \<Rightarrow> fsm" where
  "set_opcode c f = f \<lparr> f_buffer := (f_buffer f)[OPCODE_POS := word_of_int c] \<rparr>"

definition set_type :: "int \<Rightarrow> fsm \<Rightarrow> fsm" where
  "set_type c f = f \<lparr> f_buffer := (f_buffer f)[TYPE_POS := word_of_int c] \<rparr>"

definition fsm_reset :: "fsm \<Rightarrow> fsm" where
  "fsm_reset f = f \<lparr> f_size := OPCODE_SZ \<rparr>"

definition reset_to :: "int \<Rightarrow> fsm \<Rightarrow> fsm" where
  "reset_to c f = set_opcode c (fsm_reset f)"

definition reset_as :: "int \<Rightarrow> int \<Rightarrow> fsm \<Rightarrow> fsm" where
  "reset_as c ty f = set_type ty (reset_to c f)"

definition cont :: "fsm \<Rightarrow> fsm" where
  "cont f = f \<lparr> f_loop := True \<rparr>"

definition fsm_term :: "fsm \<Rightarrow> fsm" where
  "fsm_term f = f \<lparr> f_loop := False \<rparr>"

text \<open>The data between \<open>begin()\<close> and \<open>end()\<close>, and the text a client prints of it.\<close>

definition payload :: "fsm \<Rightarrow> byte list" where
  "payload f = drop OPCODE_SZ (take (f_size f) (f_buffer f))"

definition c_text :: "fsm \<Rightarrow> byte list" where
  "c_text f = takeWhile (\<lambda>b. b \<noteq> 0) (payload f)"

definition conn_send :: "fsm \<Rightarrow> byte list \<times> fsm" where
  "conn_send f = (take (f_size f) (f_buffer f), f \<lparr> f_opsent := get_opcode f \<rparr>)"

definition conn_recv :: "byte list \<Rightarrow> fsm \<Rightarrow> fsm" where
  "conn_recv m f = f \<lparr> f_buffer := m @ drop (length m) (f_buffer f), f_size := length m \<rparr>"

definition store :: "byte \<Rightarrow> fsm \<Rightarrow> fsm" where
  "store b f = f \<lparr> f_buffer := (f_buffer f)[f_size f := b], f_size := Suc (f_size f) \<rparr>"

text \<open>What a client puts, without waiting in between, and the messages this makes.\<close>

fun cli_put :: "byte list \<Rightarrow> fsm \<Rightarrow> byte list list \<times> fsm" where
  "cli_put [] f = ([], f)"
| "cli_put (b # bs) f =
     (let (ms, g) = (if f_size f = COMM_BUFFER_SZ then (let (m, g) = conn_send f in ([m], fsm_reset g)) else ([], f));
          (ns, h) = cli_put bs (store b g)
      in (ms @ ns, h))"

definition cli_flush :: "fsm \<Rightarrow> byte list \<times> fsm" where
  "cli_flush f = (let (m, g) = conn_send f in (m, fsm_reset g))"

definition send_stmt :: "byte list \<Rightarrow> fsm \<Rightarrow> byte list list \<times> fsm" where
  "send_stmt stmt f = (let (ms, g) = cli_put stmt (reset_as OP_STMT_SYN TYPE_TXT f); (m, h) = cli_flush g in (ms @ [m], h))"

section \<open>The tables\<close>

datatype action = Nop | Rcvd

definition cli_fsm :: "action list list" where
  "cli_fsm =
    [[Nop, Rcvd, Nop, Nop, Nop, Nop, Nop, Nop, Nop, Nop],
     [Nop, Nop, Rcvd, Nop, Nop, Nop, Nop, Nop, Nop, Nop],
     [Nop, Nop, Nop, Nop, Nop, Nop, Nop, Nop, Nop, Nop],
     [Nop, Rcvd, Nop, Rcvd, Rcvd, Nop, Nop, Nop, Nop, Nop],
     [Nop, Rcvd, Nop, Nop, Nop, Rcvd, Nop, Nop, Nop, Nop],
     [Nop, Rcvd, Nop, Nop, Nop, Nop, Nop, Rcvd, Nop, Nop],
     [Nop, Rcvd, Nop, Rcvd, Rcvd, Nop, Nop, Nop, Nop, Rcvd]]"

definition srv_fsm :: "action list list" where
  "srv_fsm =
    [[Nop, Nop, Nop, Nop, Rcvd, Nop, Nop],
     [Nop, Nop, Rcvd, Nop, Nop, Nop, Nop],
     [Nop, Nop, Nop, Nop, Nop, Nop, Nop],
     [Nop, Rcvd, Nop, Rcvd, Nop, Nop, Nop],
     [Nop, Rcvd, Nop, Nop, Nop, Nop, Rcvd],
     [Nop, Rcvd, Nop, Nop, Nop, Rcvd, Nop],
     [Nop, Rcvd, Nop, Nop, Nop, Nop, Nop],
     [Nop, Rcvd, Nop, Nop, Nop, Nop, Rcvd],
     [Nop, Rcvd, Nop, Nop, Nop, Nop, Nop],
     [Nop, Rcvd, Nop, Nop, Nop, Nop, Rcvd]]"

definition oprcvd_max :: "action list list \<Rightarrow> int" where
  "oprcvd_max tbl = int (length (tbl ! 0)) - 1"

text \<open>The reaction to the message in the buffer.\<close>

definition reaction :: "action list list \<Rightarrow> fsm \<Rightarrow> action" where
  "reaction tbl f = (let oprcvd = get_opcode f in
     if oprcvd < OP_NULL \<or> oprcvd_max tbl < oprcvd then Nop else tbl ! nat (f_opsent f) ! nat oprcvd)"

section \<open>Both sides\<close>

text \<open>The calls a server thread makes on its machine.\<close>

datatype call = Reset_as int int | Reset_to int | Reset | Put byte | Set_opcode int | Flush | Term | Cont

text \<open>
  What the surroundings give to the server: the text of its public key, the decryption, the hash of
  a password, the test of the host of the client, the rows of the table of credentials (host, user,
  hashed password) or the text of the exception on the way to them, and the answer to a statement.
\<close>

record services =
  sv_pubkey :: "byte list"
  sv_decrypt :: "byte list \<Rightarrow> byte list"
  sv_hash :: "byte list \<Rightarrow> byte list option"
  sv_in_subnet :: "byte list \<Rightarrow> bool option"
  sv_creds :: "byte list + (byte list \<times> byte list \<times> byte list) list"
  sv_answer :: "byte list \<Rightarrow> call list"

record net =
  n_srv :: fsm
  n_cli :: fsm
  n_to_cli :: "byte list list"
  n_to_srv :: "byte list list"
  n_todo :: "call list"
  n_waiting :: bool      \<comment> \<open>the server is in the callback of \<open>flush\<close>\<close>
  n_out :: "byte list"    \<comment> \<open>what the client printed\<close>
  n_done :: bool
  n_go :: bool
  n_conn_ok :: bool
  n_auth_ok :: bool

definition srv_flush :: "net \<Rightarrow> net" where
  "srv_flush s = (let (m, f) = conn_send (n_srv s); g = fsm_reset f; w = (is_server g \<and> f_opsent g = OP_RSLT_SYN)
     in s \<lparr> n_srv := (if w then cont g else g), n_to_cli := n_to_cli s @ [m], n_waiting := w \<rparr>)"

text \<open>A call, with the calls behind it; a full buffer is flushed before the byte is stored.\<close>

fun srv_call :: "call \<Rightarrow> call list \<Rightarrow> net \<Rightarrow> net" where
  "srv_call (Reset_as c ty) cs s = s \<lparr> n_srv := reset_as c ty (n_srv s), n_todo := cs \<rparr>"
| "srv_call (Reset_to c) cs s = s \<lparr> n_srv := reset_to c (n_srv s), n_todo := cs \<rparr>"
| "srv_call Reset cs s = s \<lparr> n_srv := fsm_reset (n_srv s), n_todo := cs \<rparr>"
| "srv_call (Put b) cs s = (if f_size (n_srv s) = COMM_BUFFER_SZ then srv_flush s
     else s \<lparr> n_srv := store b (n_srv s), n_todo := cs \<rparr>)"
| "srv_call (Set_opcode c) cs s = s \<lparr> n_srv := set_opcode c (n_srv s), n_todo := cs \<rparr>"
| "srv_call Flush cs s = srv_flush (s \<lparr> n_todo := cs \<rparr>)"
| "srv_call Term cs s = s \<lparr> n_srv := fsm_term (n_srv s), n_todo := cs \<rparr>"
| "srv_call Cont cs s = s \<lparr> n_srv := cont (n_srv s), n_todo := cs \<rparr>"

text \<open>The search for a row of the credentials; an exception of the test of the host, None, ends it.\<close>

fun cred_loop :: "(byte list \<Rightarrow> bool option) \<Rightarrow> byte list \<Rightarrow> byte list \<Rightarrow> (byte list \<times> byte list \<times> byte list) list \<Rightarrow> bool" where
  "cred_loop in_subnet username hashcode [] = False"
| "cred_loop in_subnet username hashcode ((host, user, pwrd) # rows) =
     (case in_subnet host of None \<Rightarrow> False
      | Some b \<Rightarrow> if b \<and> username = user \<and> hashcode = pwrd then True else cred_loop in_subnet username hashcode rows)"

text \<open>The calls \<open>authenticate\<close> makes on the machine, and its result.\<close>

definition authenticate :: "services \<Rightarrow> byte list \<Rightarrow> byte list \<Rightarrow> call list \<times> bool" where
  "authenticate sv username password = (case sv_creds sv of
     Inl e \<Rightarrow> (Reset_to OP_AUTH_ERR # map Put (e @ [10]) @ [Flush], False)
   | Inr rows \<Rightarrow> (case sv_hash sv password of
       None \<Rightarrow> ([], False)
     | Some hashcode \<Rightarrow> ([], cred_loop (sv_in_subnet sv) username hashcode rows)))"

text \<open>User and password stand before and behind the first space.\<close>

definition cred_user :: "byte list \<Rightarrow> byte list" where
  "cred_user cred = takeWhile (\<lambda>b. b \<noteq> 32) cred"

definition cred_password :: "byte list \<Rightarrow> byte list" where
  "cred_password cred = takeWhile (\<lambda>b. b \<noteq> 32) (drop (Suc (length (cred_user cred))) cred)"

text \<open>An encrypted statement is cut behind its first semicolon, which the source takes for granted.\<close>

definition get_encrypted_stmt :: "services \<Rightarrow> byte list \<Rightarrow> byte list" where
  "get_encrypted_stmt sv p = (let stmt = sv_decrypt sv p in take (Suc (length (takeWhile (\<lambda>b. b \<noteq> 59) stmt))) stmt)"

text \<open>The routine \<open>rcvd\<close> of the server: the calls it makes for the message in the buffer.\<close>

definition srv_rcvd :: "services \<Rightarrow> fsm \<Rightarrow> call list" where
  "srv_rcvd sv f = (let opcode = get_opcode f in
     if opcode = OP_TERM_SYN then [Reset_to OP_TERM_ACK, Flush, Term]
     else if opcode = OP_TERM_ACK \<or> opcode = OP_RSLT_ACK then [Term]
     else if opcode = OP_CONN_SYN then 
       Reset_as OP_CONN_ACK TYPE_TXT # (if OPCODE_SZ < length (sv_pubkey sv) then map Put (sv_pubkey sv) else []) @ [Flush]
     else if opcode = OP_AUTH_SYN then
       (let cred = sv_decrypt sv (payload f); (calls, ok) = authenticate sv (cred_user cred) (cred_password cred)
        in calls @ (if ok then [Reset_to OP_AUTH_ACK, Flush] else [Reset_to OP_AUTH_ERR, Flush, Term]))
     else if opcode = OP_STMT_SYN then
       sv_answer sv (if get_type f = TYPE_ENC then get_encrypted_stmt sv (payload f) else payload f)
     else [])"

definition srv_handle :: "services \<Rightarrow> byte list \<Rightarrow> net \<Rightarrow> net" where
  "srv_handle sv m s = (let f = conn_recv m (n_srv s) in case reaction srv_fsm f of
       Nop \<Rightarrow> s \<lparr> n_srv := fsm_term f \<rparr>
     | Rcvd \<Rightarrow> s \<lparr> n_srv := f, n_todo := srv_rcvd sv f @ n_todo s \<rparr>)"

definition cli_print :: "byte list \<Rightarrow> net \<Rightarrow> net" where
  "cli_print t s = s \<lparr> n_out := n_out s @ t \<rparr>"

definition cli_send :: "net \<Rightarrow> net" where
  "cli_send s = (let (m, f) = cli_flush (n_cli s) in s \<lparr> n_cli := f, n_to_srv := n_to_srv s @ [m] \<rparr>)"

definition cli_term :: "net \<Rightarrow> net" where
  "cli_term s = s \<lparr> n_cli := fsm_term (n_cli s) \<rparr>"

text \<open>The routine \<open>rcvd\<close> of the client.\<close>

definition cli_rcvd :: "net \<Rightarrow> net" where
  "cli_rcvd s = (let opcode = get_opcode (n_cli s); t = c_text (n_cli s) in
     if opcode = OP_TERM_SYN then
       (cli_term (cli_send (s \<lparr> n_cli := reset_to OP_TERM_ACK (n_cli s) \<rparr>))) \<lparr> n_go := False, n_done := True \<rparr>
     else if opcode = OP_TERM_ACK then (cli_term s) \<lparr> n_go := False, n_done := True \<rparr>
     else if opcode = OP_RSLT_SYN then
       cli_send ((cli_print t s) \<lparr> n_cli := reset_as OP_RSLT_ACK TYPE_TXT (n_cli s) \<rparr>)
     else if opcode = OP_RSLT_FIN then (cli_print (t @ [10]) s) \<lparr> n_done := True \<rparr>
     else if opcode = OP_CONN_ACK then (cli_term s) \<lparr> n_conn_ok := True \<rparr>
     else if opcode = OP_CONN_ERR then (cli_term s) \<lparr> n_conn_ok := False \<rparr>
     else if opcode = OP_AUTH_ACK then (cli_term s) \<lparr> n_auth_ok := True \<rparr>
     else if opcode = OP_AUTH_ERR then (cli_term s) \<lparr> n_auth_ok := False \<rparr>
     else if opcode = OP_STMT_ERR then (cli_print t s) \<lparr> n_done := True \<rparr>
     else s)"

definition cli_handle :: "byte list \<Rightarrow> net \<Rightarrow> net" where
  "cli_handle m s = (let s' = s \<lparr> n_cli := conn_recv m (n_cli s) \<rparr> in
     case reaction cli_fsm (n_cli s') of Nop \<Rightarrow> cli_term s' | Rcvd \<Rightarrow> cli_rcvd s')"

text \<open>
  A step: the server makes its next call; it takes a message in its loop, or in the
  callback, whose loop every handled message ends; the client takes a message.
\<close>

inductive step :: "services \<Rightarrow> net \<Rightarrow> net \<Rightarrow> bool" for sv where
  step_call: "n_todo s = c # cs \<Longrightarrow> \<not> n_waiting s \<Longrightarrow> step sv s (srv_call c cs s)"
| step_srv: "n_to_srv s = m # ms \<Longrightarrow> n_waiting s \<or> n_todo s = [] \<Longrightarrow> f_loop (n_srv s)
    \<Longrightarrow> step sv s (srv_handle sv m (s \<lparr> n_to_srv := ms, n_waiting := False \<rparr>))"
| step_cli: "n_to_cli s = m # ms \<Longrightarrow> f_loop (n_cli s) \<Longrightarrow> step sv s (cli_handle m (s \<lparr> n_to_cli := ms \<rparr>))"

inductive_cases stepE: "step sv s s'"

end
