(* ===== verification/Session.thy ===== *)
theory Session
  imports Comm
begin

text \<open>
  A statement of a client is always answered: whatever the server has to
  say, in one message or in many, arrives completely and in order,
  and both programs are ready for the next statement afterwards.
\<close>

section \<open>Operations of one side\<close>

definition buf_ok :: "fsm \<Rightarrow> bool" where
  "buf_ok f \<longleftrightarrow> length (f_buffer f) = COMM_BUFFER_SZ + PAD \<and> OPCODE_SZ \<le> f_size f \<and> f_size f \<le> COMM_BUFFER_SZ"

lemma message_split:
  assumes "buf_ok f"
  obtains ty where "take (f_size f) (f_buffer f) = word_of_int (get_opcode f) # ty # payload f"
proof -
  have "2 \<le> length (f_buffer f)" using assms by (simp add: buf_ok_def)
  then obtain a b xs where b: "f_buffer f = a # b # xs"
    by (cases "f_buffer f"; cases "tl (f_buffer f)") auto
  obtain n where n: "f_size f = Suc (Suc n)"
    using assms by (cases "f_size f"; cases "f_size f - 1") (auto simp: buf_ok_def)
  show ?thesis by (rule that [of b]) (simp add: b n get_opcode_def payload_def)
qed

lemma store_facts:
  assumes "buf_ok f" "f_size f \<noteq> COMM_BUFFER_SZ"
  shows "buf_ok (store b f)" "get_opcode (store b f) = get_opcode f" "payload (store b f) = payload f @ [b]"
    "f_opsent (store b f) = f_opsent f" "f_loop (store b f) = f_loop f" "is_server (store b f) = is_server f"
  using assms
  by (auto simp: store_def buf_ok_def get_opcode_def payload_def is_server_def take_Suc_conv_app_nth)

lemma set_opcode_facts:
  "buf_ok f \<Longrightarrow> buf_ok (set_opcode c f)" "payload (set_opcode c f) = payload f" "f_opsent (set_opcode c f) = f_opsent f"
  "f_loop (set_opcode c f) = f_loop f" "is_server (set_opcode c f) = is_server f" "f_size (set_opcode c f) = f_size f"
  "buf_ok f \<Longrightarrow> 0 \<le> c \<Longrightarrow> c < 256 \<Longrightarrow> get_opcode (set_opcode c f) = c"
  by (simp_all add: set_opcode_def buf_ok_def payload_def is_server_def get_opcode_def take_update_swap drop_update_cancel
      uint_word_of_int nth_list_update)

lemma conn_recv_facts:
  assumes "length (f_buffer f) = COMM_BUFFER_SZ + PAD" "OPCODE_SZ \<le> length m" "length m \<le> COMM_BUFFER_SZ"
  shows "buf_ok (conn_recv m f)" "get_opcode (conn_recv m f) = uint (m ! 0)" "payload (conn_recv m f) = drop 2 m"
    "f_opsent (conn_recv m f) = f_opsent f" "f_loop (conn_recv m f) = f_loop f" "is_server (conn_recv m f) = is_server f"
    "f_size (conn_recv m f) = length m"
  using assms by (auto simp: conn_recv_def buf_ok_def get_opcode_def payload_def is_server_def nth_append)

section \<open>The phases of an answer\<close>

fun puts :: "call list \<Rightarrow> byte list" where
  "puts [] = []"
| "puts (Put b # cs) = b # puts cs"
| "puts (c # cs) = puts cs"

definition in_body :: "call \<Rightarrow> bool" where
  "in_body c \<longleftrightarrow> c = Flush \<or> c = Term \<or> (\<exists>b. c = Put b \<and> b \<noteq> 0)"

abbreviation finish :: "call list" where
  "finish \<equiv> [Set_opcode OP_RSLT_FIN, Flush, Cont]"

definition client_ok :: "net \<Rightarrow> bool" where
  "client_ok s \<longleftrightarrow> length (f_buffer (n_cli s)) = COMM_BUFFER_SZ + PAD \<and> f_loop (n_cli s)
     \<and> (f_opsent (n_cli s) = OP_RSLT_ACK \<or> f_opsent (n_cli s) = OP_STMT_SYN)"

definition both_ok :: "net \<Rightarrow> bool" where
  "both_ok s \<longleftrightarrow> client_ok s \<and> buf_ok (n_srv s) \<and> is_server (n_srv s)"

text \<open>The server builds a message; a message is under way; its acknowledgement is.\<close>

definition building :: "byte list \<Rightarrow> net \<Rightarrow> bool" where
  "building t s \<longleftrightarrow> both_ok s \<and> \<not> n_done s \<and> \<not> n_waiting s \<and> n_to_cli s = [] \<and> n_to_srv s = []
     \<and> get_opcode (n_srv s) = OP_RSLT_SYN \<and> 0 \<notin> set (payload (n_srv s))
     \<and> (\<exists>cs. n_todo s = cs @ finish \<and> list_all in_body cs \<and> n_out s @ payload (n_srv s) @ puts cs = t)"

definition sent :: "byte list \<Rightarrow> net \<Rightarrow> bool" where
  "sent t s \<longleftrightarrow> both_ok s \<and> \<not> n_done s \<and> n_waiting s \<and> n_to_srv s = [] \<and> f_loop (n_srv s) \<and> f_opsent (n_srv s) = OP_RSLT_SYN
     \<and> (\<exists>cs ty p. n_todo s = cs @ finish \<and> list_all in_body cs \<and> n_to_cli s = [3 # ty # p] \<and> length p \<le> 1458
          \<and> 0 \<notin> set p \<and> n_out s @ p @ puts cs = t)"

definition acked :: "byte list \<Rightarrow> net \<Rightarrow> bool" where
  "acked t s \<longleftrightarrow> both_ok s \<and> \<not> n_done s \<and> n_waiting s \<and> n_to_cli s = [] \<and> f_loop (n_srv s) \<and> f_opsent (n_srv s) = OP_RSLT_SYN
     \<and> n_to_srv s = [[3, 0]]
     \<and> (\<exists>cs. n_todo s = cs @ finish \<and> list_all in_body cs \<and> n_out s @ puts cs = t)"

text \<open>The last message is ready; it is under way; it is printed.\<close>

definition ending :: "byte list \<Rightarrow> net \<Rightarrow> bool" where
  "ending t s \<longleftrightarrow> both_ok s \<and> \<not> n_done s \<and> \<not> n_waiting s \<and> n_to_cli s = [] \<and> n_to_srv s = []
     \<and> get_opcode (n_srv s) = OP_RSLT_FIN \<and> 0 \<notin> set (payload (n_srv s)) \<and> n_todo s = [Flush, Cont]
     \<and> n_out s @ payload (n_srv s) = t"

definition last_sent :: "byte list \<Rightarrow> net \<Rightarrow> bool" where
  "last_sent t s \<longleftrightarrow> both_ok s \<and> f_size (n_srv s) \<noteq> COMM_BUFFER_SZ \<and> \<not> n_done s \<and> \<not> n_waiting s \<and> n_to_srv s = [] \<and> f_opsent (n_srv s) = OP_RSLT_FIN
     \<and> (n_todo s = [Cont] \<or> n_todo s = [] \<and> f_loop (n_srv s))
     \<and> (\<exists>ty p. n_to_cli s = [4 # ty # p] \<and> length p \<le> 1458 \<and> 0 \<notin> set p \<and> n_out s @ p = t)"

definition printed :: "byte list \<Rightarrow> net \<Rightarrow> bool" where
  "printed t s \<longleftrightarrow> both_ok s \<and> n_done s \<and> \<not> n_waiting s \<and> n_to_cli s = [] \<and> n_to_srv s = [] \<and> f_opsent (n_srv s) = OP_RSLT_FIN
     \<and> (n_todo s = [Cont] \<or> n_todo s = [] \<and> f_loop (n_srv s)) \<and> n_out s = t @ [10]"

definition answering :: "byte list \<Rightarrow> net \<Rightarrow> bool" where
  "answering t s \<longleftrightarrow> building t s \<or> sent t s \<or> acked t s \<or> ending t s \<or> last_sent t s \<or> printed t s"

text \<open>What is left to do, in a measure that every step decreases.\<close>

definition weight :: "call \<Rightarrow> nat" where
  "weight c = (if c = Term then 1 else 10)"

definition left_to_do :: "net \<Rightarrow> nat" where
  "left_to_do s = sum_list (map weight (n_todo s)) + (if n_waiting s then (if n_to_cli s \<noteq> [] then 3 else 2)
     else if n_to_cli s \<noteq> [] then 1 else if f_size (n_srv s) = COMM_BUFFER_SZ then 4 else 0)"

lemma srv_flush_facts:
  assumes "both_ok s" "n_to_cli s = []"
  obtains ty where "n_to_cli (srv_flush s) = [word_of_int (get_opcode (n_srv s)) # ty # payload (n_srv s)]"
    "both_ok (srv_flush s)" "n_waiting (srv_flush s) \<longleftrightarrow> get_opcode (n_srv s) = OP_RSLT_SYN"
    "f_opsent (n_srv (srv_flush s)) = get_opcode (n_srv s)"
    "get_opcode (n_srv s) = OP_RSLT_SYN \<Longrightarrow> f_loop (n_srv (srv_flush s))" "length (payload (n_srv s)) \<le> 1458"
    "f_size (n_srv (srv_flush s)) = 2"
proof -
  obtain ty where "take (f_size (n_srv s)) (f_buffer (n_srv s)) = word_of_int (get_opcode (n_srv s)) # ty # payload (n_srv s)"
    using assms(1) message_split unfolding both_ok_def by blast
  with assms show ?thesis
    by (intro that [of ty])
       (auto simp: srv_flush_def conn_send_def Let_def fsm_reset_def cont_def both_ok_def client_ok_def buf_ok_def
         is_server_def payload_def)
qed

lemma srv_flush_same [simp]: "n_todo (srv_flush s) = n_todo s" "n_done (srv_flush s) = n_done s"
  "n_out (srv_flush s) = n_out s" "n_to_srv (srv_flush s) = n_to_srv s" "n_cli (srv_flush s) = n_cli s"
  by (simp_all add: srv_flush_def conn_send_def Let_def)

lemma building_step:
  assumes "building t s" "step sv s s'"
  shows "(building t s' \<or> sent t s' \<or> ending t s') \<and> left_to_do s' < left_to_do s"
proof -
  note b = assms(1) [unfolded building_def]
  obtain cs where cs: "n_todo s = cs @ finish" "list_all in_body cs" "n_out s @ payload (n_srv s) @ puts cs = t"
    using b by blast
  have s': "s' = srv_call c ds s" if "n_todo s = c # ds" for c ds
    using assms(2)
  proof cases
    case (step_call e es)
    with that show ?thesis by simp
  qed (use b in auto)
  have flush: "sent t s'" if "s' = srv_flush u" "both_ok u" "n_srv u = n_srv s" "n_to_cli u = []" "n_to_srv u = []" "\<not> n_done u"
      "n_out u = n_out s" "n_todo u = ds @ finish" "list_all in_body ds" "puts ds = puts cs" for u ds
  proof -
    note u = that
    obtain ty where ty: "n_to_cli s' = [word_of_int 3 # ty # payload (n_srv s)]" "both_ok s'" "n_waiting s'" "f_opsent (n_srv s') = 3"
        "f_loop (n_srv s')" "length (payload (n_srv s)) \<le> 1458"
      using srv_flush_facts [OF u(2,4)] u(1,3) b by metis
    then show ?thesis
      using u b cs(3) unfolding sent_def by (auto intro!: exI [of _ ds])
  qed
  show ?thesis
  proof (cases cs)
    case Nil
    then have "s' = s \<lparr> n_srv := set_opcode OP_RSLT_FIN (n_srv s), n_todo := [Flush, Cont] \<rparr>"
      using s' cs(1) by simp
    then show ?thesis
      using b cs Nil by (auto simp: ending_def both_ok_def client_ok_def set_opcode_facts left_to_do_def weight_def)
  next
    case (Cons c ds)
    then have call: "s' = srv_call c (ds @ finish) s" using s' cs(1) by simp
    from Cons cs(2) consider "c = Flush" | "c = Term" | x where "c = Put x" "x \<noteq> 0" by (auto simp: in_body_def)
    then show ?thesis
    proof cases
      case 1
      have "sent t s'" by (rule flush [of "s \<lparr> n_todo := ds @ finish \<rparr>" ds])
        (use call 1 b cs Cons in \<open>auto simp: both_ok_def client_ok_def\<close>)
      then show ?thesis using call 1 Cons cs(1) by (auto simp: left_to_do_def weight_def sent_def)
    next
      case 2
      then show ?thesis
        using call b cs Cons
        by (auto simp: building_def both_ok_def client_ok_def left_to_do_def weight_def fsm_term_def buf_ok_def is_server_def get_opcode_def payload_def)
    next
      case 3
      show ?thesis
      proof (cases "f_size (n_srv s) = COMM_BUFFER_SZ")
        case True
        have "sent t s'" by (rule flush [of s cs]) (use call 3 True b cs in auto)
        then show ?thesis using call 3 True cs(1) b by (auto simp: left_to_do_def weight_def sent_def)
      next
        case False
        have "buf_ok (n_srv s)" using b by (simp add: both_ok_def)
        note st = store_facts [OF this False]
        show ?thesis
          using call 3 False b cs Cons st
          by (auto simp: building_def both_ok_def client_ok_def left_to_do_def weight_def)
      qed
    qed
  qed
qed

lemma client_recv:
  assumes "client_ok s" "length p \<le> 1458" "0 \<notin> set p" "c = 3 \<or> c = 4"
  shows "cli_handle (c # ty # p) s = (let u = s \<lparr> n_cli := conn_recv (c # ty # p) (n_cli s) \<rparr> in
     if c = 3 then cli_send ((cli_print p u) \<lparr> n_cli := reset_as OP_RSLT_ACK TYPE_TXT (n_cli u) \<rparr>)
     else (cli_print (p @ [10]) u) \<lparr> n_done := True \<rparr>)"
proof -
  let ?m = "c # ty # p" and ?f = "conn_recv (c # ty # p) (n_cli s)"
  have "length (f_buffer (n_cli s)) = COMM_BUFFER_SZ + PAD" "OPCODE_SZ \<le> length ?m" "length ?m \<le> COMM_BUFFER_SZ"
    using assms(1,2) by (simp_all add: client_ok_def)
  note r = conn_recv_facts [OF this]
  have op: "get_opcode ?f = (if c = 3 then 3 else 4)" using r(2) assms(4) by auto
  have "reaction cli_fsm ?f = Rcvd"
    using r(4) assms(1) op by (auto simp: reaction_def oprcvd_max_def cli_fsm_def client_ok_def)
  moreover have "c_text ?f = p"
    using r(3) assms(3) by (auto simp: c_text_def takeWhile_eq_all_conv)
  ultimately show ?thesis
    using op assms(4) by (auto simp: cli_handle_def cli_rcvd_def Let_def)
qed

lemma ack_sent:
  assumes "client_ok s"
  shows "n_to_srv (cli_send (s \<lparr> n_cli := reset_as OP_RSLT_ACK TYPE_TXT (n_cli s) \<rparr>)) = n_to_srv s @ [[3, 0]]"
    "client_ok (cli_send (s \<lparr> n_cli := reset_as OP_RSLT_ACK TYPE_TXT (n_cli s) \<rparr>))"
proof -
  have "2 \<le> length (f_buffer (n_cli s))" using assms by (simp add: client_ok_def)
  then obtain a b xs where b: "f_buffer (n_cli s) = a # b # xs"
    by (cases "f_buffer (n_cli s)"; cases "tl (f_buffer (n_cli s))") auto
  then show "n_to_srv (cli_send (s \<lparr> n_cli := reset_as OP_RSLT_ACK TYPE_TXT (n_cli s) \<rparr>)) = n_to_srv s @ [[3, 0]]"
    "client_ok (cli_send (s \<lparr> n_cli := reset_as OP_RSLT_ACK TYPE_TXT (n_cli s) \<rparr>))"
    using assms
    by (simp_all add: cli_send_def cli_flush_def conn_send_def reset_as_def reset_to_def set_type_def set_opcode_def
      fsm_reset_def client_ok_def get_opcode_def)
qed

lemma cli_send_same [simp]: "n_todo (cli_send s) = n_todo s" "n_done (cli_send s) = n_done s" "n_out (cli_send s) = n_out s"
  "n_to_cli (cli_send s) = n_to_cli s" "n_srv (cli_send s) = n_srv s" "n_waiting (cli_send s) = n_waiting s"
  by (simp_all add: cli_send_def cli_flush_def conn_send_def Let_def)

lemma recv_client_ok:
  "client_ok s \<Longrightarrow> 2 \<le> length m \<Longrightarrow> length m \<le> COMM_BUFFER_SZ
    \<Longrightarrow> length (f_buffer (conn_recv m (n_cli s))) = COMM_BUFFER_SZ + PAD \<and> f_loop (conn_recv m (n_cli s))
      \<and> f_opsent (conn_recv m (n_cli s)) = f_opsent (n_cli s)"
  by (auto simp: client_ok_def conn_recv_def)

lemma sent_step:
  assumes "sent t s" "step sv s s'"
  shows "acked t s' \<and> left_to_do s' < left_to_do s"
proof -
  note b = assms(1) [unfolded sent_def]
  obtain cs ty p where cs: "n_todo s = cs @ finish" "list_all in_body cs" "n_to_cli s = [3 # ty # p]" "length p \<le> 1458"
      "0 \<notin> set p" "n_out s @ p @ puts cs = t"
    using b by blast
  have ok: "client_ok (s \<lparr> n_to_cli := [] \<rparr>)" using b by (simp add: both_ok_def client_ok_def)
  have s': "s' = cli_handle (3 # ty # p) (s \<lparr> n_to_cli := [] \<rparr>)"
    using assms(2)
  proof cases
    case (step_cli m ms)
    with cs(3) show ?thesis by simp
  qed (use b in auto)
  define u where "u = cli_print p (s \<lparr> n_to_cli := [], n_cli := conn_recv (3 # ty # p) (n_cli s) \<rparr>)"
  have u: "client_ok u"
    using recv_client_ok [OF ok, of "3 # ty # p"] cs(4) ok by (simp add: client_ok_def u_def cli_print_def)
  have "s' = cli_send (u \<lparr> n_cli := reset_as OP_RSLT_ACK TYPE_TXT (n_cli u) \<rparr>)"
    unfolding s' using client_recv [OF ok cs(4,5), of 3 ty] by (simp add: u_def cli_print_def Let_def)
  then show ?thesis
    using ack_sent [OF u] b cs by (auto simp: acked_def both_ok_def left_to_do_def weight_def u_def cli_print_def)
qed

lemma acked_step:
  assumes "acked t s" "step sv s s'"
  shows "building t s' \<and> left_to_do s' < left_to_do s"
proof -
  note b = assms(1) [unfolded acked_def]
  obtain cs where cs: "n_todo s = cs @ finish" "list_all in_body cs" "n_out s @ puts cs = t"
    using b by blast
  let ?f = "conn_recv [3, 0] (n_srv s)"
  have s': "s' = srv_handle sv [3, 0] (s \<lparr> n_to_srv := [], n_waiting := False \<rparr>)"
    using assms(2)
  proof cases
    case (step_srv m ms)
    with b show ?thesis by simp
  qed (use b in auto)
  have "length (f_buffer (n_srv s)) = COMM_BUFFER_SZ + PAD" "OPCODE_SZ \<le> length [3, 0 :: byte]" "length [3, 0 :: byte] \<le> COMM_BUFFER_SZ"
    using b by (simp_all add: both_ok_def buf_ok_def)
  note r = conn_recv_facts [OF this]
  have op: "get_opcode ?f = 3" using r(2) by simp
  have "reaction srv_fsm ?f = Rcvd"
    using r(4) b op by (simp add: reaction_def oprcvd_max_def srv_fsm_def)
  then have "s' = s \<lparr> n_to_srv := [], n_waiting := False, n_srv := ?f, n_todo := Term # n_todo s \<rparr>"
    unfolding s' using op by (simp add: srv_handle_def srv_rcvd_def)
  then show ?thesis
    using b cs r op by (auto simp: building_def both_ok_def client_ok_def left_to_do_def weight_def in_body_def intro!: exI [of _ "Term # cs"])
qed

lemma ending_step:
  assumes "ending t s" "step sv s s'"
  shows "last_sent t s' \<and> left_to_do s' < left_to_do s"
proof -
  note b = assms(1) [unfolded ending_def]
  have s': "s' = srv_flush (s \<lparr> n_todo := [Cont] \<rparr>)"
    using assms(2)
  proof cases
    case (step_call e es)
    with b show ?thesis by simp
  qed (use b in auto)
  have "both_ok (s \<lparr> n_todo := [Cont] \<rparr>)" "n_to_cli (s \<lparr> n_todo := [Cont] \<rparr>) = []"
    using b by (simp_all add: both_ok_def client_ok_def)
  from srv_flush_facts [OF this] s' b obtain ty where "n_to_cli s' = [4 # ty # payload (n_srv s)]" "both_ok s'" "\<not> n_waiting s'"
      "f_opsent (n_srv s') = 4" "length (payload (n_srv s)) \<le> 1458" "f_size (n_srv s') = 2"
    by auto
  then show ?thesis
    using b s' by (auto simp: last_sent_def left_to_do_def weight_def)
qed

lemma last_sent_step:
  assumes "last_sent t s" "step sv s s'"
  shows "(last_sent t s' \<or> printed t s') \<and> left_to_do s' < left_to_do s"
proof -
  note b = assms(1) [unfolded last_sent_def]
  obtain ty p where p: "n_to_cli s = [4 # ty # p]" "length p \<le> 1458" "0 \<notin> set p" "n_out s @ p = t"
    using b by blast
  from assms(2) show ?thesis
  proof cases
    case (step_call c cs)
    then have "s' = s \<lparr> n_srv := cont (n_srv s), n_todo := [] \<rparr>" "n_todo s = [Cont]" using b by auto
    then show ?thesis
      using b p by (auto simp: last_sent_def both_ok_def client_ok_def left_to_do_def weight_def cont_def buf_ok_def is_server_def)
  next
    case (step_srv m ms)
    with b show ?thesis by simp
  next
    case (step_cli m ms)
    have ok: "client_ok (s \<lparr> n_to_cli := [] \<rparr>)" using b by (simp add: both_ok_def client_ok_def)
    have "s' = (cli_print (p @ [10]) (s \<lparr> n_to_cli := [], n_cli := conn_recv (4 # ty # p) (n_cli s) \<rparr>)) \<lparr> n_done := True \<rparr>"
      using step_cli p client_recv [OF ok p(2,3), of 4 ty] by simp
    then show ?thesis
      using b p recv_client_ok [OF ok, of "4 # ty # p"] ok
      by (auto simp: printed_def both_ok_def client_ok_def left_to_do_def weight_def cli_print_def)
  qed
qed

lemma printed_step:
  assumes "printed t s" "step sv s s'"
  shows "printed t s' \<and> left_to_do s' < left_to_do s"
proof -
  note b = assms(1) [unfolded printed_def]
  from assms(2) have "s' = s \<lparr> n_srv := cont (n_srv s), n_todo := [] \<rparr> \<and> n_todo s = [Cont]"
  proof cases
    case (step_call e es)
    with b show ?thesis by auto
  qed (use b in auto)
  then show ?thesis
    using b by (auto simp: printed_def both_ok_def client_ok_def left_to_do_def weight_def cont_def buf_ok_def is_server_def)
qed

lemma answering_step: "answering t s \<Longrightarrow> step sv s s' \<Longrightarrow> answering t s' \<and> left_to_do s' < left_to_do s"
  unfolding answering_def
  using building_step sent_step acked_step ending_step last_sent_step printed_step by metis

text \<open>No step is left only when the answer is printed.\<close>

lemma answering_goes_on: "answering t s \<Longrightarrow> \<nexists>s'. step sv s s' \<Longrightarrow> printed t s \<and> n_todo s = []"
proof -
  assume a: "answering t s" and stuck: "\<nexists>s'. step sv s s'"
  have call: "n_todo s = []" if "\<not> n_waiting s"
    using stuck that step_call by (cases "n_todo s") blast+
  have cli: "n_to_cli s = []" if "client_ok s"
    using stuck that step_cli [of s] by (cases "n_to_cli s") (auto simp: client_ok_def)
  from a show ?thesis
    unfolding answering_def
  proof (elim disjE)
    assume "acked t s"
    then have "step sv s (srv_handle sv [3, 0] (s \<lparr> n_to_srv := [], n_waiting := False \<rparr>))"
      by (intro step_srv) (auto simp: acked_def)
    with stuck show ?thesis by blast
  qed (use call cli in \<open>auto simp: building_def sent_def ending_def last_sent_def printed_def both_ok_def\<close>)
qed

section \<open>A statement and its answer\<close>

lemma weights: "sum_list (map weight cs) \<le> 10 * length cs"
  by (induction cs) (simp_all add: weight_def)

text \<open>Both programs wait for the next statement.\<close>

definition idle :: "net \<Rightarrow> bool" where
  "idle s \<longleftrightarrow> length (f_buffer (n_cli s)) = COMM_BUFFER_SZ + PAD \<and> f_loop (n_cli s)
     \<and> length (f_buffer (n_srv s)) = COMM_BUFFER_SZ + PAD \<and> is_server (n_srv s) \<and> f_loop (n_srv s)
     \<and> f_opsent (n_srv s) \<in> {OP_RSLT_FIN, OP_AUTH_ACK, OP_STMT_ERR}
     \<and> n_done s \<and> \<not> n_waiting s \<and> n_todo s = [] \<and> n_to_cli s = [] \<and> n_to_srv s = []"

definition submit :: "byte list \<Rightarrow> net \<Rightarrow> net" where
  "submit stmt s = (let (ms, f) = send_stmt stmt (n_cli s) in s \<lparr> n_cli := f, n_to_srv := n_to_srv s @ ms, n_done := False \<rparr>)"

definition asked :: "byte list \<Rightarrow> net \<Rightarrow> bool" where
  "asked stmt s \<longleftrightarrow> client_ok s \<and> length (f_buffer (n_srv s)) = COMM_BUFFER_SZ + PAD \<and> is_server (n_srv s) \<and> f_loop (n_srv s)
     \<and> f_opsent (n_srv s) \<in> {OP_RSLT_FIN, OP_AUTH_ACK, OP_STMT_ERR}
     \<and> f_opsent (n_cli s) = OP_STMT_SYN
     \<and> \<not> n_done s \<and> \<not> n_waiting s \<and> n_todo s = [] \<and> n_to_cli s = [] \<and> n_to_srv s = [6 # 0 # stmt]"

text \<open>A statement that fits the buffer goes out in one message.\<close>

lemma cli_put_fits:
  "f_size f + length bs \<le> COMM_BUFFER_SZ \<Longrightarrow> f_size f + length bs \<le> length (f_buffer f) \<Longrightarrow>
    cli_put bs f = ([], f \<lparr> f_buffer := take (f_size f) (f_buffer f) @ bs @ drop (f_size f + length bs) (f_buffer f),
      f_size := f_size f + length bs \<rparr>)"
proof (induction bs arbitrary: f)
  case (Cons b bs)
  have "(f_buffer f)[f_size f := b] = take (f_size f) (f_buffer f) @ b # drop (Suc (f_size f)) (f_buffer f)"
    using Cons.prems by (intro upd_conv_take_nth_drop) simp
  then show ?case
    using Cons.prems Cons.IH [of "store b f"] by (simp add: store_def min_def add.commute [of "length bs"])
qed simp

lemma send_stmt_fits:
  assumes "length (f_buffer f) = COMM_BUFFER_SZ + PAD" "length stmt \<le> 1458"
  shows "\<exists>g. send_stmt stmt f = ([6 # 0 # stmt], g) \<and> length (f_buffer g) = COMM_BUFFER_SZ + PAD \<and> f_loop g = f_loop f
     \<and> f_opsent g = OP_STMT_SYN"
proof -
  have "2 \<le> length (f_buffer f)" using assms by simp
  then obtain a b xs where b: "f_buffer f = a # b # xs"
    by (cases "f_buffer f"; cases "tl (f_buffer f)") auto
  define r where "r = reset_as OP_STMT_SYN TYPE_TXT f"
  have r: "f_size r = 2" "f_buffer r = 6 # 0 # xs" "f_loop r = f_loop f" "length (f_buffer r) = 1468"
    using assms b by (auto simp: r_def reset_as_def reset_to_def set_type_def set_opcode_def fsm_reset_def)
  have "cli_put stmt r = ([], r \<lparr> f_buffer := 6 # 0 # stmt @ drop (length stmt) xs, f_size := 2 + length stmt \<rparr>)"
    using cli_put_fits [of r stmt] r assms(2) by (simp add: eval_nat_numeral)
  then show ?thesis
    using r(3,4) assms(2) r(2)
    by (simp add: send_stmt_def r_def [symmetric] cli_flush_def conn_send_def fsm_reset_def get_opcode_def)
qed

lemma submit_asked: "idle s \<Longrightarrow> length stmt \<le> 1458 \<Longrightarrow> asked stmt (submit stmt s) \<and> n_out (submit stmt s) = n_out s"
  using send_stmt_fits [of "n_cli s" stmt]
  by (auto simp: idle_def asked_def submit_def client_ok_def)

lemma asked_step:
  assumes "asked stmt s" "length stmt \<le> 1458" "step sv s s'"
  shows "both_ok s' \<and> n_todo s' = sv_answer sv stmt \<and> n_to_cli s' = [] \<and> n_to_srv s' = [] \<and> n_out s' = n_out s
     \<and> \<not> n_done s' \<and> \<not> n_waiting s' \<and> f_loop (n_srv s') \<and> f_opsent (n_cli s') = OP_STMT_SYN"
proof -
  note a = assms(1) [unfolded asked_def]
  let ?f = "conn_recv (6 # 0 # stmt) (n_srv s)"
  have s': "s' = srv_handle sv (6 # 0 # stmt) (s \<lparr> n_to_srv := [], n_waiting := False \<rparr>)"
    using assms(3)
  proof cases
    case (step_srv m ms)
    with a show ?thesis by simp
  qed (use a in auto)
  have "length (f_buffer (n_srv s)) = COMM_BUFFER_SZ + PAD" "OPCODE_SZ \<le> length (6 # 0 # stmt)" "length (6 # 0 # stmt) \<le> COMM_BUFFER_SZ"
    using a assms(2) by simp_all
  note r = conn_recv_facts [OF this]
  have op: "get_opcode ?f = 6" using r(2) by simp
  have ty: "get_type ?f = 0" by (simp add: get_type_def conn_recv_def)
  have "reaction srv_fsm ?f = Rcvd"
    using r(4) a op by (auto simp: reaction_def oprcvd_max_def srv_fsm_def)
  then have "s' = s \<lparr> n_to_srv := [], n_waiting := False, n_srv := ?f, n_todo := sv_answer sv stmt \<rparr>"
    unfolding s' using op ty r(3) a by (simp add: srv_handle_def srv_rcvd_def)
  then show ?thesis using a r by (simp add: both_ok_def client_ok_def)
qed

definition result_calls :: "call list \<Rightarrow> call list" where
  "result_calls body = Reset_as OP_RSLT_SYN TYPE_TXT # body @ finish"

definition opened :: "byte list \<Rightarrow> net \<Rightarrow> bool" where
  "opened t s \<longleftrightarrow> both_ok s \<and> \<not> n_done s \<and> \<not> n_waiting s \<and> n_to_cli s = [] \<and> n_to_srv s = []
     \<and> (\<exists>body. n_todo s = result_calls body \<and> list_all in_body body \<and> n_out s @ puts body = t)"

lemma opened_step:
  assumes "opened t s" "step sv s s'"
  shows "building t s' \<and> left_to_do s' < left_to_do s"
proof -
  note b = assms(1) [unfolded opened_def]
  obtain body where body: "n_todo s = result_calls body" "list_all in_body body" "n_out s @ puts body = t" using b by blast
  have s': "s' = s \<lparr> n_srv := reset_as OP_RSLT_SYN TYPE_TXT (n_srv s), n_todo := body @ finish \<rparr>"
    using assms(2)
  proof cases
    case (step_call c cs)
    with body(1) show ?thesis by (simp add: result_calls_def)
  qed (use b in auto)
  have "2 \<le> length (f_buffer (n_srv s))" using b by (simp add: both_ok_def buf_ok_def)
  then obtain x y xs where x: "f_buffer (n_srv s) = x # y # xs"
    by (cases "f_buffer (n_srv s)"; cases "tl (f_buffer (n_srv s))") auto
  then show ?thesis
    using s' b body
    by (auto simp: building_def both_ok_def client_ok_def reset_as_def reset_to_def set_type_def set_opcode_def fsm_reset_def
      buf_ok_def is_server_def get_opcode_def payload_def left_to_do_def weight_def result_calls_def)
qed

lemma opened_goes_on: "opened t s \<Longrightarrow> \<exists>s'. step sv s s'"
  using step_call [of s] by (auto simp: opened_def result_calls_def)

text \<open>The phases of an answer, its beginning included, are left only towards its end.\<close>

definition under_way :: "byte list \<Rightarrow> net \<Rightarrow> bool" where
  "under_way t s \<longleftrightarrow> opened t s \<or> answering t s"

lemma under_way_step: "under_way t s \<Longrightarrow> step sv s s' \<Longrightarrow> under_way t s' \<and> left_to_do s' < left_to_do s"
  unfolding under_way_def using opened_step answering_step unfolding answering_def by metis

lemma under_way_run: "(step sv ^^ k) s s' \<Longrightarrow> under_way t s \<Longrightarrow> under_way t s' \<and> k + left_to_do s' \<le> left_to_do s"
proof (induction k arbitrary: s')
  case (Suc k)
  then obtain u where "(step sv ^^ k) s u" "step sv u s'" by auto
  with Suc under_way_step [of t u sv s'] show ?case by fastforce
qed simp

lemma under_way_ends:
  assumes "under_way t s"
  shows "\<exists>s'. (step sv)\<^sup>*\<^sup>* s s' \<and> printed t s' \<and> n_todo s' = []"
  using assms
proof (induction "left_to_do s" arbitrary: s rule: less_induct)
  case less
  show ?case
  proof (cases "\<exists>s'. step sv s s'")
    case True
    then obtain u where "step sv s u" by blast
    with less under_way_step [OF less.prems this] show ?thesis
      by (meson converse_rtranclp_into_rtranclp)
  next
    case False
    with less.prems answering_goes_on opened_goes_on show ?thesis unfolding under_way_def by blast
  qed
qed

lemma printed_idle: "printed t s \<Longrightarrow> n_todo s = [] \<Longrightarrow> idle s \<and> n_out s = t @ [10]"
  by (auto simp: printed_def idle_def both_ok_def client_ok_def buf_ok_def)

lemma answer_runs:
  assumes "idle s" "length stmt \<le> 1458" "sv_answer sv stmt = result_calls body" "list_all in_body body"
  shows "\<forall>k s'. (step sv ^^ k) (submit stmt s) s' \<longrightarrow> k \<le> 10 * length body + 45
    \<and> (\<exists>s''. (step sv)\<^sup>*\<^sup>* s' s'' \<and> idle s'' \<and> n_out s'' = n_out s @ puts body @ [10])"
proof (intro allI impI)
  fix k s' assume run: "(step sv ^^ k) (submit stmt s) s'"
  let ?t = "n_out s @ puts body" and ?s0 = "submit stmt s"
  have asked: "asked stmt ?s0" "n_out ?s0 = n_out s" using submit_asked [OF assms(1,2)] by auto
  have first: "under_way ?t u \<and> left_to_do u \<le> 10 * length body + 44" if "step sv ?s0 u" for u
  proof -
    note u = asked_step [OF asked(1) assms(2) that]
    have "sum_list (map weight body) \<le> 10 * length body" by (rule weights)
    with u assms(3,4) asked(2) show ?thesis
      by (auto simp: under_way_def opened_def left_to_do_def result_calls_def) (simp_all add: weight_def)
  qed
  have ends: "\<exists>s''. (step sv)\<^sup>*\<^sup>* u s'' \<and> idle s'' \<and> n_out s'' = ?t @ [10]" if "under_way ?t u" for u
    using under_way_ends [OF that, of sv] printed_idle by blast
  show "k \<le> 10 * length body + 45 \<and> (\<exists>s''. (step sv)\<^sup>*\<^sup>* s' s'' \<and> idle s'' \<and> n_out s'' = n_out s @ puts body @ [10])"
  proof (cases k)
    case 0
    let ?u = "srv_handle sv (6 # 0 # stmt) (?s0 \<lparr> n_to_srv := [], n_waiting := False \<rparr>)"
    have "step sv ?s0 ?u" by (rule step_srv) (use asked(1) in \<open>auto simp: asked_def\<close>)
    with first ends obtain s'' where "(step sv)\<^sup>*\<^sup>* ?s0 s''" "idle s''" "n_out s'' = ?t @ [10]"
      by (meson converse_rtranclp_into_rtranclp)
    then show ?thesis using run 0 by auto
  next
    case (Suc n)
    then obtain u where u: "step sv ?s0 u" "(step sv ^^ n) u s'" using run relpowp_Suc_D2 by metis
    from under_way_run [OF u(2)] first [OF u(1)] have "under_way ?t s' \<and> n + left_to_do s' \<le> 10 * length body + 44"
      by fastforce
    with ends [of s'] Suc show ?thesis by auto
  qed
qed



section \<open>Long statements\<close>

lemma cli_put_messages:
  "buf_ok f \<Longrightarrow> cli_put bs f = (ms, g) \<Longrightarrow> buf_ok g \<and> take 2 (f_buffer g) = take 2 (f_buffer f)
    \<and> concat (map (drop 2) ms) @ payload g = payload f @ bs
    \<and> (\<forall>m \<in> set ms. take 2 m = take 2 (f_buffer f) \<and> length m \<le> COMM_BUFFER_SZ)"
proof (induction bs arbitrary: f ms g)
  case (Cons b bs)
  define p where "p = (if f_size f = COMM_BUFFER_SZ then (let (m, g) = conn_send f in ([m], fsm_reset g)) else ([], f))"
  obtain ps f' where p: "p = (ps, f')" by (cases p)
  have f': "buf_ok f' \<and> f_size f' \<noteq> COMM_BUFFER_SZ \<and> take 2 (f_buffer f') = take 2 (f_buffer f)
      \<and> concat (map (drop 2) ps) @ payload f' = payload f
      \<and> (\<forall>m \<in> set ps. take 2 m = take 2 (f_buffer f) \<and> length m \<le> COMM_BUFFER_SZ)"
    using p Cons.prems(1)
    by (auto simp: p_def conn_send_def fsm_reset_def buf_ok_def payload_def min_def split: if_splits)
  obtain ns h where h: "cli_put bs (store b f') = (ns, h)" by (cases "cli_put bs (store b f')")
  have eq: "ms = ps @ ns" "g = h" using Cons.prems(2) h p by (simp_all add: p_def)
  note st = store_facts [OF _ _, of f' b]
  have hd: "take 2 (f_buffer (store b f')) = take 2 (f_buffer f')"
    using f' by (simp add: store_def buf_ok_def)
  show ?case
    using Cons.IH [OF _ h] st f' hd eq by auto
qed simp

text \<open>
  C32. A statement that does not fit one message reaches the server as several
  statements: the messages have all the opcode of a statement, no one waits between them,
  and put together they are the statement.
\<close>

theorem long_statement_split:
  assumes "length (f_buffer f) = COMM_BUFFER_SZ + PAD" "1458 < length stmt"
  shows "case send_stmt stmt f of (ms, g) \<Rightarrow> 1 < length ms \<and> concat (map (drop 2) ms) = stmt
    \<and> (\<forall>m \<in> set ms. take 2 m = [6, 0] \<and> length m \<le> COMM_BUFFER_SZ)"
proof -
  define r where "r = reset_as OP_STMT_SYN TYPE_TXT f"
  have "2 \<le> length (f_buffer f)" using assms by simp
  then obtain a b xs where b: "f_buffer f = a # b # xs"
    by (cases "f_buffer f"; cases "tl (f_buffer f)") auto
  have r: "buf_ok r" "take 2 (f_buffer r) = [6, 0]" "payload r = []"
    using assms b by (auto simp: r_def reset_as_def reset_to_def set_type_def set_opcode_def fsm_reset_def buf_ok_def payload_def)
  obtain ms g where p: "cli_put stmt r = (ms, g)" by (cases "cli_put stmt r")
  note m = cli_put_messages [OF r(1) p]
  let ?last = "take (f_size g) (f_buffer g)"
  have last: "take 2 ?last = [6, 0]" "drop 2 ?last = payload g" "length ?last \<le> COMM_BUFFER_SZ"
    using m r(2) by (auto simp: payload_def buf_ok_def min_def)
  have "ms \<noteq> []"
  proof
    assume "ms = []"
    then have "payload g = stmt" using m r(3) by simp
    with last(2,3) assms(2) show False by (auto simp: payload_def)
  qed
  moreover have "send_stmt stmt f = (ms @ [?last], fsm_reset (g \<lparr> f_opsent := get_opcode g \<rparr>))"
    using p by (simp add: send_stmt_def r_def [symmetric] cli_flush_def conn_send_def)
  ultimately show ?thesis
    using m r last by (cases ms) auto
qed

section \<open>Examples\<close>

definition idle_net :: net where
  "idle_net = \<lparr> n_srv = \<lparr> f_type = TYPE_SERVER, f_buffer = replicate 1468 0, f_size = 2, f_opsent = OP_AUTH_ACK, f_loop = True \<rparr>,
     n_cli = \<lparr> f_type = TYPE_CLIENT, f_buffer = replicate 1468 0, f_size = 2, f_opsent = OP_AUTH_SYN, f_loop = True \<rparr>,
     n_to_cli = [], n_to_srv = [], n_todo = [], n_waiting = False, n_out = [], n_done = True, n_go = True,
     n_conn_ok = True, n_auth_ok = True \<rparr>"

lemma idle_net: "idle idle_net"
  by (simp add: idle_def idle_net_def is_server_def)

definition hello :: "call list" where
  "hello = [Put 72, Put 101, Flush, Put 108, Put 108, Put 111]"

definition hello_services :: services where
  "hello_services = \<lparr> sv_pubkey = [], sv_decrypt = (\<lambda>p. p), sv_hash = Some, sv_in_subnet = (\<lambda>_. Some True),
     sv_creds = Inr [([], [97], [98])], sv_answer = (\<lambda>m. if m = [59] then result_calls hello else []) \<rparr>"



theorem long_statement_split_witness:
  "case send_stmt (replicate 1459 65) (n_cli idle_net) of (ms, g) \<Rightarrow> 1 < length ms \<and> concat (map (drop 2) ms) = replicate 1459 65
    \<and> (\<forall>m \<in> set ms. take 2 m = [6, 0] \<and> length m \<le> COMM_BUFFER_SZ)"
  by (rule long_statement_split) (simp_all add: idle_net_def)

end
