(* ===== verification/CompSafety.thy ===== *)
theory CompSafety
  imports CompParser
begin

text \<open>
  The assembler ends on every text, whatever it holds, and fails only in the
  ways the code provides for: the token error, a full buffer, a number that
  \<open>stoi\<close> refuses, or an index of PUSHO that no item has (which the code does not
  check). Progress is measured by what the lexer can still consume plus the
  token in the window, unless that token has an empty text.
\<close>

definition weight :: "token \<Rightarrow> nat" where
  "weight tok = (if m_type tok = EOI \<or> m_text tok = [] then 0 else 1)"

definition comp_step :: "lexer \<Rightarrow> (error + token) \<times> lexer \<Rightarrow> bool" where
  "comp_step l p = (case p of
     (Inl e, l') \<Rightarrow> \<exists>rem. e = Runtime_rem ERRNO_TOKEN_ERROR rem
   | (Inr tok, l') \<Rightarrow> pot l' + weight tok \<le> pot l
       \<and> (m_text tok = [] \<longrightarrow> m_type tok = C_INT \<or> m_type tok = C_VARCHAR)
       \<and> (m_type tok = EOI \<longrightarrow> m_text tok = ''<EOI>''))"

lemma comp_varchar_loop_pot: "comp_varchar_loop tx l = (t, l') \<Longrightarrow> pot l' \<le> pot l"
proof (induction tx l rule: comp_varchar_loop.induct)
  case (1 tx l)
  have "pot (lexer_consume l) \<le> pot l" "pot (lexer_consume (lexer_consume l)) \<le> pot l"
    using pot_consume order_trans by blast+
  with 1 show ?case
    by (cases "lx_ch l = EOI_CH \<or> lx_ch l = DQ"; cases "lx_ch l = BSL")
       (auto simp: comp_varchar_loop.simps [of tx l] intro: order_trans)
qed

lemma comp_varchar_step:
  assumes "lx_ch l \<noteq> EOI_CH"
  shows "comp_step l (case comp_varchar l of (tok, l') \<Rightarrow> (Inr tok, l'))"
proof -
  obtain t l' where v: "comp_varchar_loop [] (lexer_consume l) = (t, l')" by fastforce
  have "pot (lexer_consume l') < pot l"
    using comp_varchar_loop_pot [OF v] pot_consume [of l'] pot_consume_less [OF assms] by simp
  with v show ?thesis by (simp add: comp_step_def comp_varchar_def weight_def)
qed

lemma comp_name_step:
  assumes "isalpha (lx_ch l) \<or> lx_ch l = CHR ''_''"
  shows "comp_step l (case comp_name l of (tok, l') \<Rightarrow> (Inr tok, l'))"
proof -
  let ?P = "\<lambda>c. isalnum c \<or> c = CHR ''_''"
  obtain t l' where sc: "scan_while ?P [] l = (t, l')" by fastforce
  have c: "lx_ch l \<noteq> EOI_CH" "?P (lx_ch l)" using assms by (auto simp: char_defs Let_def)
  have "pot l' < pot l" by (rule scan_while_pot_less [OF c(1) c(2) sc])
  moreover have "t \<noteq> []" using scan_while_all [OF sc] c by auto
  ultimately show ?thesis
    using sc by (auto simp: comp_step_def comp_name_def weight_def Let_def)
qed

lemma comp_number_step: "comp_step l (case comp_number l of (tok, l') \<Rightarrow> (Inr tok, l'))"
proof -
  obtain v l1 where sc: "scan_while isdigit [] l = (v, l1)" by fastforce
  have le: "pot l1 \<le> pot l" by (rule scan_while_pot [OF sc])
  have lt: "pot l1 < pot l" if "v \<noteq> []"
  proof -
    have "lx_ch l \<noteq> EOI_CH \<and> isdigit (lx_ch l)"
      using that sc by (auto simp: scan_while.simps [of isdigit "[]" l] split: if_splits)
    then show ?thesis using scan_while_pot_less [OF _ _ sc] by blast
  qed
  obtain v' l2 where sc2: "scan_while isdigit (v @ [lx_ch l1]) (lexer_consume l1) = (v', l2)" by fastforce
  show ?thesis
  proof (cases "lx_ch l1 = CHR ''.''")
    case True
    have "pot (lexer_consume l1) < pot l1" using True by (intro pot_consume_less) simp
    then have "pot l2 < pot l" using scan_while_pot [OF sc2] le by simp
    moreover have "v' \<noteq> []" using scan_while_all [OF sc2] by auto
    ultimately show ?thesis using sc sc2 True by (simp add: comp_step_def comp_number_def weight_def)
  next
    case False
    with sc le lt show ?thesis by (auto simp: comp_step_def comp_number_def weight_def)
  qed
qed

lemma comp_single_step:
  assumes "comp_single_char (lx_ch l) = Some (ty, tx)" "lx_ch l \<noteq> EOI_CH"
  shows "comp_step l (Inr (token_new ty tx), lexer_consume l)"
proof -
  have "tx \<noteq> []" "ty \<noteq> EOI" using assms(1) by (auto simp: comp_single_char_def split: if_splits)
  then show ?thesis using pot_consume_less [OF assms(2)] by (simp add: comp_step_def weight_def)
qed

lemma comp_compound_step: "comp_step l (comp_compound l)"
  using comp_number_step [of l] pot_consume_less [of l]
  by (cases "lx_ch l = CHR ''.''")
     (simp_all add: comp_compound_def comp_step_def comp_token_error_def weight_def)

lemma comp_step_le: "pot l1 \<le> pot l \<Longrightarrow> comp_step l1 p \<Longrightarrow> comp_step l p"
  by (auto simp: comp_step_def split: prod.splits sum.splits)

lemma comp_loop_step: "comp_step l (comp_next_token_loop l)"
proof (induction l rule: comp_next_token_loop.induct)
  case (1 l)
  let ?c = "lx_ch l"
  consider "?c = EOI_CH" | "?c \<noteq> EOI_CH" "?c = CHR '' '' \<or> ?c = TAB \<or> ?c = NL"
    | "?c \<noteq> EOI_CH" "\<not> (?c = CHR '' '' \<or> ?c = TAB \<or> ?c = NL)" by blast
  then show ?case
  proof cases
    case 1
    then show ?thesis
      by (subst comp_next_token_loop.simps) (simp add: comp_step_def weight_def)
  next
    case 2
    have "isspace ?c" using 2 by (auto simp: char_defs)
    then have "pot (comp_ws l) \<le> pot l" using pot_comp_ws [of l] by simp
    with 2 "1.IH" [OF refl] show ?thesis
      by (subst comp_next_token_loop.simps) (auto simp: Let_def intro: comp_step_le)
  next
    case 3
    then show ?thesis
      using comp_varchar_step [of l] comp_name_step [of l] comp_number_step [of l] comp_compound_step [of l]
        comp_single_step [of l]
      by (subst comp_next_token_loop.simps)
         (auto simp: Let_def comp_token_error_def comp_step_def [of l "(Inl _, _)"] split: option.splits)
  qed
qed

section \<open>The parser\<close>

definition tok_ok :: "token \<Rightarrow> bool" where
  "tok_ok tok \<longleftrightarrow> (m_text tok = [] \<longrightarrow> m_type tok = C_INT \<or> m_type tok = C_VARCHAR)
     \<and> (m_type tok = EOI \<longrightarrow> m_text tok = ''<EOI>'')"

definition ctok :: "comp_parser \<Rightarrow> token" where
  "ctok s = hd (cp_lookahead s)"

definition cp_ok :: "comp_parser \<Rightarrow> bool" where
  "cp_ok s \<longleftrightarrow> cp_index s = 0 \<and> cp_lookahead s = [ctok s] \<and> tok_ok (ctok s)
     \<and> buf_inv (cp_code s) \<and> buf_inv (cp_data s)"

definition cleft :: "comp_parser \<Rightarrow> nat" where
  "cleft s = pot (cp_lexer s) + weight (ctok s)"

definition crel :: "nat \<Rightarrow> comp_parser \<Rightarrow> comp_parser \<Rightarrow> bool" where
  "crel e s0 s \<longleftrightarrow> cp_ok s \<and> cleft s + e \<le> cleft s0"

definition comp_expected :: "error \<Rightarrow> bool" where
  "comp_expected e \<longleftrightarrow> (\<exists>rem. e = Runtime_rem ERRNO_TOKEN_ERROR rem) \<or> e = Runtime ERRNO_BUF_REMAINING_ERROR
     \<or> e = Logic_error ''stoi'' \<or> e = Undefined ''offset''"

definition cwp :: "'a cpm \<Rightarrow> ('a \<Rightarrow> comp_parser \<Rightarrow> bool) \<Rightarrow> comp_parser \<Rightarrow> bool" where
  "cwp m Q s = (case m s of (Inl e, s') \<Rightarrow> comp_expected e | (Inr x, s') \<Rightarrow> Q x s')"

named_theorems cwp_rules \<open>rules for the assembler\<close>

lemma cwp_ret [cwp_rules]: "Q x s \<Longrightarrow> cwp (ret x) Q s"
  by (simp add: cwp_def)

lemma cwp_bnd [cwp_rules]: "cwp m (\<lambda>x. cwp (f x) Q) s \<Longrightarrow> cwp (bnd m f) Q s"
  by (auto simp: cwp_def bnd_run split: prod.splits sum.splits)

lemma cwp_sq [cwp_rules]: "cwp m (\<lambda>_. cwp k Q) s \<Longrightarrow> cwp (sq m k) Q s"
  by (auto simp: cwp_def sq_run split: prod.splits sum.splits)

lemma cwp_if [cwp_rules]: "(b \<Longrightarrow> cwp m Q s) \<Longrightarrow> (\<not> b \<Longrightarrow> cwp n Q s) \<Longrightarrow> cwp (if b then m else n) Q s"
  by simp

lemma cwp_option [cwp_rules]:
  "(\<And>y. x = Some y \<Longrightarrow> cwp (f y) Q s) \<Longrightarrow> (x = None \<Longrightarrow> cwp m Q s)
    \<Longrightarrow> cwp (case x of Some y \<Rightarrow> f y | None \<Rightarrow> m) Q s"
  by (cases x) auto

lemma cwp_error [cwp_rules]: "cwp comp_error Q s" "cwp (throw (Undefined ''offset'')) Q s"
  by (simp_all add: cwp_def comp_error_def comp_expected_def)

lemma cwp_gets [cwp_rules]: "Q (f s) s \<Longrightarrow> cwp (gets f) Q s"
  by (simp add: cwp_def)

lemma cwp_token: "crel e s0 s \<Longrightarrow> Q (ctok s) s \<Longrightarrow> cwp (comp_get_lookahead_token 0) Q s"
  unfolding crel_def cp_ok_def
  by (elim conjE) (simp add: cwp_def comp_get_lookahead_token_def comp_load_lookahead_def exn_simps)

lemma cwp_type: "crel e s0 s \<Longrightarrow> Q (m_type (ctok s)) s \<Longrightarrow> cwp (comp_get_lookahead_type 0) Q s"
  unfolding comp_get_lookahead_type_def by (intro cwp_bnd cwp_token cwp_ret)

lemma cwp_load:
  assumes "cp_index s = 0" "cp_lookahead s = []" "buf_inv (cp_code s)" "buf_inv (cp_data s)"
    "\<And>s'. cp_ok s' \<Longrightarrow> cleft s' \<le> pot (cp_lexer s) \<Longrightarrow> Q () s'"
  shows "cwp (comp_load_lookahead 1) Q s"
proof -
  obtain r l where n: "comp_next_token (cp_lexer s) = (r, l)" by fastforce
  have "pot (cp_lexer s \<lparr> lx_mark := lx_index (cp_lexer s) \<rparr>) = pot (cp_lexer s)" by (simp add: pot_def)
  then have st: "comp_step (cp_lexer s) (r, l)"
    using comp_loop_step [of "cp_lexer s \<lparr> lx_mark := lx_index (cp_lexer s) \<rparr>"] n
    by (auto simp: comp_next_token_def dest: comp_step_le [rotated, of _ _ "cp_lexer s"])
  show ?thesis
  proof (cases r)
    case (Inl err)
    with st n assms show ?thesis
      by (simp add: cwp_def comp_load_lookahead_def comp_lexer_next_def exn_simps comp_step_def comp_expected_def)
  next
    case (Inr tok)
    with st n assms assms(5) [of "s \<lparr> cp_lexer := l, cp_lookahead := [tok] \<rparr>"] show ?thesis
      by (simp add: cwp_def comp_load_lookahead_def comp_lexer_next_def exn_simps comp_step_def cp_ok_def
          ctok_def tok_ok_def cleft_def)
  qed
qed

lemma cwp_consume:
  assumes "crel e s0 s" "\<And>s'. crel (e + weight (ctok s)) s0 s' \<Longrightarrow> Q () s'"
  shows "cwp comp_consume Q s"
proof -
  let ?s = "s \<lparr> cp_index := 0, cp_lookahead := [] \<rparr>"
  have s: "cp_index s = 0" "length (cp_lookahead s) = 1" "buf_inv (cp_code s)" "buf_inv (cp_data s)"
    using assms(1) by (auto simp: crel_def cp_ok_def)
  have "cwp (comp_load_lookahead 1) Q ?s"
    using s assms by (intro cwp_load) (auto simp: crel_def cleft_def)
  moreover have "comp_consume s = comp_load_lookahead 1 ?s"
    using s by (simp add: comp_consume_def exn_simps)
  ultimately show ?thesis by (simp add: cwp_def)
qed

lemma cwp_match:
  assumes "crel e s0 s" "\<And>s'. m_type (ctok s) = ty \<Longrightarrow> crel (e + weight (ctok s)) s0 s' \<Longrightarrow> Q () s'"
  shows "cwp (comp_match ty) Q s"
  unfolding comp_match_def
  by (rule cwp_bnd, rule cwp_type [OF assms(1)], rule cwp_if, rule cwp_error, rule cwp_consume [OF assms(1)])
     (use assms(2) in auto)

lemma weight_typed: "crel e s0 s \<Longrightarrow> m_type (ctok s) \<noteq> EOI \<Longrightarrow> m_type (ctok s) \<noteq> C_INT
    \<Longrightarrow> m_type (ctok s) \<noteq> C_VARCHAR \<Longrightarrow> weight (ctok s) = 1"
  by (auto simp: crel_def cp_ok_def tok_ok_def weight_def)

lemma weight_number: "crel e s0 s \<Longrightarrow> stoi (m_text (ctok s)) = Some v \<Longrightarrow> weight (ctok s) = 1"
  by (auto simp: crel_def cp_ok_def tok_ok_def weight_def stoi_def Let_def char_defs split: if_splits)

lemma cwp_stoi:
  assumes "crel e s0 s" "\<And>v. stoi (m_text (ctok s)) = Some v \<Longrightarrow> Q v s"
  shows "cwp token_stoi Q s"
  unfolding token_stoi_def
  by (rule cwp_bnd, rule cwp_token [OF assms(1)], rule cwp_option)
     (auto intro: cwp_ret assms(2) simp: cwp_def comp_expected_def)

lemma cwp_put:
  assumes "crel e s0 s" "\<And>s'. crel e s0 s' \<Longrightarrow> ctok s' = ctok s \<Longrightarrow> Q () s'"
  shows "cwp (on_code_buf (put_bytes bs)) Q s" "cwp (on_data_buf (put_bytes bs)) Q s"
proof -
  have "crel e s0 (s \<lparr> cp_code := b \<rparr>)" "crel e s0 (s \<lparr> cp_data := b \<rparr>)" if "buf_inv b" for b
    using assms(1) that by (auto simp: crel_def cp_ok_def cleft_def ctok_def)
  then show "cwp (on_code_buf (put_bytes bs)) Q s" "cwp (on_data_buf (put_bytes bs)) Q s"
    using assms put_bytes_inv [of "cp_code s" bs] put_bytes_inv [of "cp_data s" bs]
    by (auto simp: cwp_def on_code_buf_def on_data_buf_def comp_expected_def put_bytes_run ctok_def
        crel_def cp_ok_def split: if_splits)
qed

lemma crel_drop: "crel (e + k) s0 s \<Longrightarrow> crel e s0 s"
  by (simp add: crel_def)

lemma crel_less: "crel e s0 s \<Longrightarrow> cleft s0 < k + e \<Longrightarrow> cleft s < k"
  by (simp add: crel_def)

lemma crel_refl: "cp_ok s \<Longrightarrow> crel 0 s s"
  by (simp add: crel_def)

lemma put_as_bytes:
  "put v = put_bytes [v]" "put_int16 v16 = put_bytes (bytes16 v16)" "put_int32 v32 = put_bytes (bytes32 v32)"
  "put_varchar x = put_bytes (map byte_of_char x)"
  using u8.put_v_eq i16.put_v_eq i32.put_v_eq put_varchar_eq by blast+

text \<open>The rules for a routine that has consumed something.\<close>

lemma call_safe: "crel e s0 s \<Longrightarrow> (\<And>s'. crel e s0 s' \<Longrightarrow> Q () s') \<Longrightarrow> cwp call Q s"
  unfolding call_def put_as_bytes
  apply (rule cwp_sq, rule cwp_put(1), assumption, rule cwp_bnd, rule cwp_type, assumption)
  apply (rule cwp_option)
   apply (rule cwp_sq, rule cwp_consume, assumption, rule cwp_put(1), assumption)
   apply (auto intro: cwp_error dest: crel_drop)
  done

lemma push_safe: "crel e s0 s \<Longrightarrow> (\<And>s'. crel e s0 s' \<Longrightarrow> Q () s') \<Longrightarrow> cwp comp_push Q s"
  unfolding comp_push_def put_as_bytes
  apply (rule cwp_sq, rule cwp_put(1), assumption, rule cwp_bnd, rule cwp_stoi, assumption)
  apply (rule cwp_sq, rule cwp_match, assumption, rule cwp_put(1), assumption)
  apply (auto dest: crel_drop)
  done

lemma pusho_safe: "crel e s0 s \<Longrightarrow> (\<And>s'. crel e s0 s' \<Longrightarrow> Q () s') \<Longrightarrow> cwp (comp_pusho offset) Q s"
  unfolding comp_pusho_def put_as_bytes
  apply (rule cwp_sq, rule cwp_put(1), assumption, rule cwp_bnd, rule cwp_stoi, assumption)
  apply (rule cwp_sq, rule cwp_match, assumption, rule cwp_if)
   apply (rule cwp_put(1), assumption)
   apply (auto intro: cwp_error dest: crel_drop)
  done

lemma text_safe:
  "crel e s0 s \<Longrightarrow> cleft s < n \<Longrightarrow> (\<And>s'. crel e s0 s' \<Longrightarrow> Q () s') \<Longrightarrow> cwp (comp_text n offset) Q s"
proof (induction n arbitrary: e s)
  case (Suc n)
  let ?t = "m_type (ctok s)"
  have step: "cwp (sq comp_consume k) Q s"
    if "\<And>s'. crel e s0 s' \<Longrightarrow> cleft s' < n \<Longrightarrow> cwp k Q s'" "?t \<in> {C_CALL, C_NOP, C_PUSH, C_PUSHO}" for k
  proof (rule cwp_sq, rule cwp_consume [OF crel_refl])
    show "cp_ok s" using Suc.prems(1) by (simp add: crel_def)
    fix s' assume s': "crel (0 + weight (ctok s)) s s'"
    have "weight (ctok s) = 1" using weight_typed [OF Suc.prems(1)] that(2) by auto
    with s' Suc.prems show "cwp k Q s'" by (intro that(1)) (auto simp: crel_def)
  qed
  have again: "cwp (comp_text n offset) Q s'" if "crel e s0 s'" "cleft s' < n" for s'
    using Suc.IH [OF that] Suc.prems(3) by blast
  have then_again: "cwp (sq k (comp_text n offset)) Q s'"
    if "\<And>e s0 s Q. crel e s0 s \<Longrightarrow> (\<And>s'. crel e s0 s' \<Longrightarrow> Q () s') \<Longrightarrow> cwp k Q s"
      "crel e s0 s'" "cleft s' < n" for k s'
  proof (rule cwp_sq, rule that(1) [OF crel_refl])
    show "cp_ok s'" using that(2) by (simp add: crel_def)
    fix s'' assume "crel 0 s' s''"
    with that show "cwp (comp_text n offset) Q s''" by (intro again) (auto simp: crel_def)
  qed
  have last: "cwp (sq comp_consume (on_code_buf (put OP_RET))) Q s"
    unfolding put_as_bytes
    using Suc.prems by (intro cwp_sq cwp_consume [OF Suc.prems(1)] cwp_put(1)) (auto dest: crel_drop)
  show ?case
    unfolding comp_text.simps
    apply (rule cwp_bnd, rule cwp_type [OF Suc.prems(1)])
    apply (intro cwp_if last step then_again)
    using again last cwp_error call_safe push_safe pusho_safe by auto
qed simp

lemma data_safe:
  "crel e s0 s \<Longrightarrow> cleft s < n \<Longrightarrow> (\<And>x s'. crel e s0 s' \<Longrightarrow> Q x s') \<Longrightarrow> cwp (comp_data n offset) Q s"
proof (induction n arbitrary: e s offset)
  case (Suc n)
  have s: "crel 0 s s" using Suc.prems(1) by (simp add: crel_def)
  have again: "cwp (comp_data n offset') Q s'" if "stoi (m_text (ctok s)) = Some v" "crel (weight (ctok s) + k) s s'"
    for v k s' offset'
  proof -
    have "weight (ctok s) = 1" using weight_number [OF Suc.prems(1) that(1)] .
    then show ?thesis using that(2) Suc.prems Suc.IH [of e s'] by (auto simp: crel_def)
  qed
  show ?case
    unfolding comp_data.simps put_as_bytes
    apply (rule cwp_bnd, rule cwp_type [OF s], rule cwp_if)
     apply (use Suc.prems in \<open>auto intro: cwp_ret\<close>)[1]
    apply (rule cwp_bnd, rule cwp_gets, rule cwp_bnd, rule cwp_stoi [OF s], rule cwp_sq, rule cwp_put(2) [OF s])
    apply (rule cwp_sq, rule cwp_consume, assumption)
    apply (rule cwp_bnd, rule cwp_token, assumption, rule cwp_sq, rule cwp_put(2), assumption)
    apply (rule cwp_bnd, rule cwp_token, assumption, rule cwp_sq, rule cwp_put(2), assumption)
    apply (rule cwp_sq, rule cwp_consume, assumption)
    by (simp add: again add.assoc)
qed simp

lemma segments_safe:
  assumes "cp_ok s" "cleft s < n"
  shows "cwp (compile n) (\<lambda>_ _. True) s"
proof -
  have s: "crel 0 s s" using assms(1) by (rule crel_refl)
  have lt: "cleft s' < n" if "crel e s s'" for e s' using that assms(2) by (simp add: crel_def)
  show ?thesis
    unfolding compile_def data_segment_def text_segment_def
    apply (rule cwp_bnd, rule cwp_sq, rule cwp_match [OF s], rule cwp_sq, rule cwp_match, assumption)
    apply (rule cwp_bnd, rule data_safe, assumption, erule lt)
    apply (rule cwp_sq, rule cwp_match, assumption, rule cwp_sq, rule cwp_match, assumption)
    apply (rule cwp_ret, rule cwp_sq, rule cwp_match, assumption, rule cwp_sq, rule cwp_match, assumption)
    apply (rule cwp_sq, rule text_safe, assumption, erule lt)
    by (rule cwp_sq, rule cwp_match, assumption, rule cwp_match, assumption, rule TrueI)
qed

lemma comp_parse_safe:
  assumes "length mc = 8192" "length md = 8192" "comp_parse mc md input = (Inl e, s)"
  shows "comp_expected e"
proof -
  let ?s = "\<lparr> cp_lexer = lexer_new input, cp_lookahead = [], cp_code = new_buffer CODE_CAPACITY mc,
       cp_data = new_buffer DATA_CAPACITY md, cp_index = 0 \<rparr>"
  have pot: "pot (lexer_new input) < comp_fuel input"
    by (simp add: pot_def lexer_new_def comp_fuel_def)
  have "cwp (comp_load_lookahead 1) (\<lambda>_. cwp (compile (comp_fuel input)) (\<lambda>_ _. True)) ?s"
    using assms pot
    by (intro cwp_load segments_safe) (auto simp: buf_inv_def new_buffer_def)
  then show ?thesis
    using assms(3) by (auto simp: comp_parse_def comp_parser_new_def cwp_def split: prod.splits sum.splits)
qed

end
