(* ===== verification/Sql.thy ===== *)
theory Sql
  imports ParserSafety AsmCorrect CompSafety
begin

text \<open>
  The statement compiler (\<open>src/sql\<close>, class \<open>sql\<close>): the SQL parser, the dump of its
  assembly text and the assembler, one behind the other. The two byte lists
  are the contents of the freshly allocated arrays of the assembler's code and
  data buffers.
\<close>

section \<open>The statement compiler\<close>

definition compile_stmt :: "byte list \<Rightarrow> byte list \<Rightarrow> string \<Rightarrow> error + (buffer \<times> buffer)" where
  "compile_stmt mem_code mem_data m_stmt = (case parse m_stmt of
     (Inl e, s) \<Rightarrow> Inl e
   | (Inr _, s) \<Rightarrow> (case comp_parse mem_code mem_data (tran_dump s) of
       (Inl e, c) \<Rightarrow> Inl e
     | (Inr _, c) \<Rightarrow> Inr (comp_dump c)))"

section \<open>What the two programs hand over\<close>

text \<open>
  C3. If the parser accepts a statement and every item of its data section and
  every line of its code has an encoding, and both fit the buffers, then the
  compiler returns exactly these encodings: the data buffer holds the items one
  behind the other and the code buffer the instructions in order, each PUSHO
  with the offset at which its item starts, and RET last.
\<close>

theorem compile_stmt_code:
  assumes "parse inp = (Inr (), s)" "list_all is_item (ps_data s)" "EOI_CH \<notin> set (tran_dump s)"
    and "map (line_bytes (item_offsets 0 (map item_of (ps_data s)))) (rev (tl (ps_code s))) = map Some bss"
    and "length mc = 8192" "length md = 8192"
    and "length (data_bytes (map item_of (ps_data s))) \<le> 8192" "length (concat bss) < 8192"
  shows "\<exists>d c. compile_stmt mc md inp = Inr (d, c)
    \<and> contents d = data_bytes (map item_of (ps_data s))
    \<and> contents c = concat bss @ [OP_RET]"
proof -
  from parse_outcome [of inp] assms(1) obtain cs where
    cs: "ps_code s = ''RET'' # cs" "wf_lines (length (ps_data s)) cs" by auto
  from assemble [OF assms(2) cs _ assms(3,5,6,7,8)] assms(4) cs obtain c where
    "comp_parse mc md (tran_dump s) = (Inr (), c)"
    "contents (fst (comp_dump c)) = data_bytes (map item_of (ps_data s))"
    "contents (snd (comp_dump c)) = concat bss @ [OP_RET]" by auto
  then show ?thesis
    using assms(1) by (cases "comp_dump c") (simp add: compile_stmt_def)
qed

theorem compile_stmt_code_witness:
  "\<exists>d c. compile_stmt (replicate 8192 0) (replicate 8192 0) ''USE d'' = Inr (d, c)
     \<and> contents d = [13, 0, 0, 16, 0, 1, 100]
     \<and> contents c = [OP_PUSHO, 0, 0, 0, 3, OP_CALL, OP_USE, OP_RET]"
proof -
  let ?s = "snd (parse ''USE d'')"
  let ?items = "map item_of (ps_data ?s)"
  let ?bss = "[[OP_PUSHO, 0, 0, 0, 3], [OP_CALL, OP_USE]]"
  have run: "parse ''USE d'' = (Inr (), ?s)"
    by (rule prod_eqI) (simp_all, code_simp)
  have data: "ps_data ?s = [token_new 13 [DQ, DQ], token_new 57 ''d'']" by code_simp
  have "is_item (token_new 13 [DQ, DQ])"
    using lexeme.string [of "[]"] by (simp add: is_item_def content_def to_schema_type_def token_new_def)
  moreover have "is_item (token_new 57 ''d'')"
    using lexeme.word [of "''d''"] by (simp add: is_item_def content_def to_schema_type_def token_new_def word_char_def char_defs)
  ultimately have items: "list_all is_item (ps_data ?s)" by (simp add: data)
  have clean: "EOI_CH \<notin> set (tran_dump ?s)" by code_simp
  have bytes: "map (line_bytes (item_offsets 0 ?items)) (rev (tl (ps_code ?s))) = map Some ?bss" by code_simp
  have bs: "data_bytes ?items = [13, 0, 0, 16, 0, 1, 100]" by code_simp
  from compile_stmt_code [OF run items clean bytes, of "replicate 8192 0" "replicate 8192 0"] bs
  show ?thesis by simp
qed

text \<open>
  C12. The compiler ends on every statement, with the two buffers or with an
  error the code provides for: the token error 1900, a full buffer, a number
  that \<open>stoi\<close> refuses, or one of three accesses the code does not check (the
  header scan of the parser and the index of a data item in the assembler).
\<close>

theorem compile_stmt_safe:
  assumes "length mc = 8192" "length md = 8192"
  shows "case compile_stmt mc md inp of
     Inl e \<Rightarrow> e \<in> range (Runtime_rem ERRNO_TOKEN_ERROR)
       \<union> {Runtime ERRNO_BUF_REMAINING_ERROR, Logic_error ''stoi'',
           Undefined ''header'', Undefined ''m_token_list'', Undefined ''offset''}
   | Inr _ \<Rightarrow> True"
  using parse_outcome [of inp] comp_parse_safe [OF assms]
  by (fastforce simp: compile_stmt_def comp_expected_def split: prod.splits sum.splits)

theorem compile_stmt_safe_witness:
  "case compile_stmt (replicate 8192 0) (replicate 8192 0) ''USE'' of
     Inl e \<Rightarrow> e \<in> range (Runtime_rem ERRNO_TOKEN_ERROR)
       \<union> {Runtime ERRNO_BUF_REMAINING_ERROR, Logic_error ''stoi'',
           Undefined ''header'', Undefined ''m_token_list'', Undefined ''offset''}
   | Inr _ \<Rightarrow> True"
  by (rule compile_stmt_safe) simp_all


end
