(* ===== verification/Server.thy ===== *)
theory Server
  imports Session Sql VmRun
begin

text \<open>
  The whole way of a statement: the client sends it, the server compiles it and runs
  the machine, and the client prints what the machine put, or the message of
  the error (\<open>rcvd\<close>, \<open>exec_source\<close> and \<open>report_error\<close> of \<open>src/srv/main.cpp\<close>). A message
  holds one statement, as the client sends them. The text the machine puts is one string; that \<open>vm::select\<close> may
  flush once more in front of its last line, which moves the boundary of the last pieces only, is left out.
\<close>

section \<open>The answer of the server\<close>

definition to_bytes :: "string \<Rightarrow> byte list" where
  "to_bytes t = map byte_of_char t"

definition report_error :: "string \<Rightarrow> call list" where
  "report_error msg = Reset_to OP_STMT_ERR # map Put (to_bytes (msg @ [NL])) @ [Flush]"

text \<open>What the surroundings give to a machine, and the statements of the files a SOURCE names.\<close>

record environment =
  en_code :: "byte list"     \<comment> \<open>the memory of the two buffers\<close>
  en_data :: "byte list"
  en_db_name :: string
  en_tables :: "string \<Rightarrow> table option"
  en_granted :: "string \<Rightarrow> string \<Rightarrow> string \<Rightarrow> bool"
  en_elapsed :: fl32
  en_other :: "byte \<Rightarrow> unit vmm"
  en_source :: "string \<Rightarrow> string list option option"

text \<open>Compiling and running a statement: the exception, if one ends it, and the text put until then.\<close>

definition run_stmt :: "environment \<Rightarrow> string \<Rightarrow> (error + unit) \<times> string" where
  "run_stmt en m_stmt = (case compile_stmt (en_code en) (en_data en) m_stmt of
     Inl e \<Rightarrow> (Inl e, [])
   | Inr (data, code) \<Rightarrow>
       (case vm_run (en_other en) (vm_new data code (en_db_name en) (en_tables en) (en_granted en) (en_elapsed en)) of
          (r, s) \<Rightarrow> (r, vm_sent s)))"

text \<open>The message is reset before the machine puts anything; an exception that is no \<open>runtime_error\<close> is logged only.\<close>

definition put_calls :: "string \<Rightarrow> call list" where
  "put_calls out = (if out = [] then [] else Reset_as OP_RSLT_SYN TYPE_TXT # map Put (to_bytes out))"

definition error_calls :: "error \<Rightarrow> call list" where
  "error_calls e = (if is_runtime_error e then report_error (what e) else [])"

text \<open>The statements of a file: all but the last leave the result open.\<close>

fun source_calls :: "environment \<Rightarrow> string list \<Rightarrow> call list" where
  "source_calls en [] = []"
| "source_calls en (m_stmt # stmts) = (case run_stmt en m_stmt of
     (Inl e, out) \<Rightarrow> put_calls out @ error_calls e
   | (Inr _, out) \<Rightarrow> put_calls out @ [Set_opcode (if stmts = [] then OP_RSLT_FIN else OP_RSLT_SYN), Flush, Cont]
       @ source_calls en stmts)"

definition exec_source :: "environment \<Rightarrow> string \<Rightarrow> call list option" where
  "exec_source en src_stmt = (case en_source en src_stmt of
     None \<Rightarrow> None
   | Some None \<Rightarrow> Some (error_calls (Runtime ERRNO_SOURCE_ERROR))
   | Some (Some stmts) \<Rightarrow> Some (source_calls en stmts))"

definition answer_stmt :: "environment \<Rightarrow> byte list \<Rightarrow> call list" where
  "answer_stmt en m = (let m_stmt = map char_of_byte m in case exec_source en m_stmt of
     Some calls \<Rightarrow> calls
   | None \<Rightarrow> (case run_stmt en m_stmt of
       (Inr _, out) \<Rightarrow> put_calls out @ [Set_opcode OP_RSLT_FIN, Flush, Cont]
     | (Inl e, out) \<Rightarrow> put_calls out @ error_calls e))"

section \<open>An error on its way\<close>

definition err_building :: "byte list \<Rightarrow> net \<Rightarrow> bool" where
  "err_building t s \<longleftrightarrow> both_ok s \<and> f_opsent (n_cli s) = OP_STMT_SYN \<and> \<not> n_done s \<and> \<not> n_waiting s \<and> n_to_cli s = []
     \<and> n_to_srv s = [] \<and> f_loop (n_srv s) \<and> get_opcode (n_srv s) = OP_STMT_ERR
     \<and> (\<exists>bs. n_todo s = map Put bs @ [Flush] \<and> f_size (n_srv s) + length bs \<le> COMM_BUFFER_SZ
          \<and> 0 \<notin> set (payload (n_srv s) @ bs) \<and> n_out s @ payload (n_srv s) @ bs = t)"

definition err_sent :: "byte list \<Rightarrow> net \<Rightarrow> bool" where
  "err_sent t s \<longleftrightarrow> both_ok s \<and> f_opsent (n_cli s) = OP_STMT_SYN \<and> \<not> n_done s \<and> \<not> n_waiting s \<and> n_to_srv s = []
     \<and> f_loop (n_srv s) \<and> f_opsent (n_srv s) = OP_STMT_ERR \<and> n_todo s = []
     \<and> (\<exists>ty p. n_to_cli s = [9 # ty # p] \<and> length p \<le> 1458 \<and> 0 \<notin> set p \<and> n_out s @ p = t)"

lemma err_building_step:
  assumes "err_building t s" "step sv s s'"
  shows "(err_building t s' \<or> err_sent t s') \<and> length (n_todo s') < length (n_todo s)"
proof -
  note b = assms(1) [unfolded err_building_def]
  obtain bs where bs: "n_todo s = map Put bs @ [Flush]" "f_size (n_srv s) + length bs \<le> COMM_BUFFER_SZ"
      "0 \<notin> set (payload (n_srv s) @ bs)" "n_out s @ payload (n_srv s) @ bs = t"
    using b by blast
  have s': "s' = srv_call c ds s" if "n_todo s = c # ds" for c ds
    using assms(2)
  proof cases
    case (step_call e es)
    with that show ?thesis by simp
  qed (use b in auto)
  show ?thesis
  proof (cases bs)
    case Nil
    have flush: "s' = srv_flush (s \<lparr> n_todo := [] \<rparr>)" using s' bs(1) Nil by simp
    have "both_ok (s \<lparr> n_todo := [] \<rparr>)" "n_to_cli (s \<lparr> n_todo := [] \<rparr>) = []" using b by (simp_all add: both_ok_def client_ok_def)
    from srv_flush_facts [OF this] flush b obtain ty where "n_to_cli s' = [9 # ty # payload (n_srv s)]" "both_ok s'"
        "\<not> n_waiting s'" "f_opsent (n_srv s') = 9" "length (payload (n_srv s)) \<le> 1458"
      by auto
    moreover have "f_loop (n_srv s')"
      using b flush by (simp add: srv_flush_def conn_send_def Let_def fsm_reset_def)
    ultimately show ?thesis using b bs Nil flush by (auto simp: err_sent_def)
  next
    case (Cons x xs)
    have call: "s' = srv_call (Put x) (map Put xs @ [Flush]) s" using s' bs(1) Cons by simp
    have ok: "buf_ok (n_srv s)" "f_size (n_srv s) \<noteq> COMM_BUFFER_SZ" using b bs(2) Cons by (auto simp: both_ok_def)
    have "f_size (store x (n_srv s)) = Suc (f_size (n_srv s))" by (simp add: store_def)
    then show ?thesis
      using call ok b bs Cons store_facts [OF ok, of x]
      by (auto simp: err_building_def both_ok_def client_ok_def)
  qed
qed

lemma err_sent_step:
  assumes "err_sent t s" "step sv s s'"
  shows "idle s' \<and> n_out s' = t"
proof -
  note b = assms(1) [unfolded err_sent_def]
  obtain ty p where p: "n_to_cli s = [9 # ty # p]" "length p \<le> 1458" "0 \<notin> set p" "n_out s @ p = t"
    using b by blast
  let ?m = "9 # ty # p" and ?f = "conn_recv (9 # ty # p) (n_cli s)"
  have s': "s' = cli_handle ?m (s \<lparr> n_to_cli := [] \<rparr>)"
    using assms(2)
  proof cases
    case (step_cli m ms)
    with p(1) show ?thesis by simp
  qed (use b in auto)
  have "length (f_buffer (n_cli s)) = COMM_BUFFER_SZ + PAD" "OPCODE_SZ \<le> length ?m" "length ?m \<le> COMM_BUFFER_SZ"
    using b p(2) by (simp_all add: both_ok_def client_ok_def)
  note r = conn_recv_facts [OF this]
  have op: "get_opcode ?f = 9" using r(2) by simp
  have "reaction cli_fsm ?f = Rcvd" using r(4) b op by (simp add: reaction_def oprcvd_max_def cli_fsm_def)
  moreover have "c_text ?f = p" using r(3) p(3) by (auto simp: c_text_def takeWhile_eq_all_conv)
  ultimately have "s' = (cli_print p (s \<lparr> n_to_cli := [], n_cli := ?f \<rparr>)) \<lparr> n_done := True \<rparr>"
    unfolding s' using op by (simp add: cli_handle_def cli_rcvd_def Let_def)
  then show ?thesis
    using b p r by (auto simp: idle_def both_ok_def client_ok_def cli_print_def buf_ok_def)
qed

lemma err_ends: "err_building t s \<or> err_sent t s \<Longrightarrow> \<exists>s'. (step sv)\<^sup>*\<^sup>* s s' \<and> idle s' \<and> n_out s' = t"
proof (induction "length (n_todo s)" arbitrary: s rule: less_induct)
  case less
  from less.prems show ?case
  proof
    assume e: "err_building t s"
    then obtain c cs where "n_todo s = c # cs" "\<not> n_waiting s" by (cases "n_todo s") (auto simp: err_building_def)
    then have st: "step sv s (srv_call c cs s)" by (rule step_call)
    from less.hyps [OF _ _] err_building_step [OF e st] obtain s' where
      s': "(step sv)\<^sup>*\<^sup>* (srv_call c cs s) s'" "idle s'" "n_out s' = t" by metis
    from converse_rtranclp_into_rtranclp [of "step sv", OF st s'(1)] s'(2,3) show ?thesis by blast
  next
    assume e: "err_sent t s"
    then obtain m where "n_to_cli s = m # []" "f_loop (n_cli s)" by (auto simp: err_sent_def both_ok_def client_ok_def)
    then have st: "step sv s (cli_handle m (s \<lparr> n_to_cli := [] \<rparr>))" by (rule step_cli)
    from err_sent_step [OF e st] st show ?thesis by blast
  qed
qed

section \<open>The outcome of a statement\<close>

lemma zero_char: "byte_of_char (CHR 0x00) = 0"
  by code_simp

lemma NL_byte: "byte_of_char NL = 10"
  by code_simp

lemma zero_byte: "0 \<in> set (to_bytes t) \<longleftrightarrow> CHR 0x00 \<in> set t"
proof -
  have "byte_of_char c = 0 \<longleftrightarrow> c = CHR 0x00" for c
    by (metis char_of_byte_of_char zero_char)
  then show ?thesis by (auto simp: to_bytes_def image_iff)
qed

text \<open>The server at work on a statement, with nothing on the way.\<close>

definition at_work :: "net \<Rightarrow> bool" where
  "at_work s \<longleftrightarrow> both_ok s \<and> f_opsent (n_cli s) = OP_STMT_SYN \<and> \<not> n_done s \<and> \<not> n_waiting s \<and> n_to_cli s = []
     \<and> n_to_srv s = [] \<and> f_loop (n_srv s)"

lemma buffer_start:
  assumes "at_work s"
  obtains x y xs where "f_buffer (n_srv s) = x # y # xs" "length xs = 1466"
proof -
  have "length (f_buffer (n_srv s)) = 1468" using assms by (simp add: at_work_def both_ok_def buf_ok_def)
  then show ?thesis
    using that by (cases "f_buffer (n_srv s)"; cases "tl (f_buffer (n_srv s))") auto
qed

lemma puts_run:
  "at_work s \<Longrightarrow> n_todo s = map Put bs @ cs \<Longrightarrow> f_size (n_srv s) + length bs \<le> COMM_BUFFER_SZ
    \<Longrightarrow> \<exists>s'. (step sv)\<^sup>*\<^sup>* s s' \<and> at_work s' \<and> n_todo s' = cs \<and> n_out s' = n_out s"
proof (induction bs arbitrary: s)
  case (Cons b bs)
  let ?s = "s \<lparr> n_srv := store b (n_srv s), n_todo := map Put bs @ cs \<rparr>"
  have ok: "buf_ok (n_srv s)" "f_size (n_srv s) \<noteq> COMM_BUFFER_SZ" using Cons.prems by (auto simp: at_work_def both_ok_def)
  have "step sv s (srv_call (Put b) (map Put bs @ cs) s)"
    by (rule step_call) (use Cons.prems in \<open>simp_all add: at_work_def\<close>)
  then have st: "step sv s ?s" using ok(2) by simp
  have "at_work ?s" using Cons.prems(1) store_facts [OF ok, of b] by (simp add: at_work_def both_ok_def client_ok_def)
  moreover have "f_size (n_srv ?s) = Suc (f_size (n_srv s))" by (simp add: store_def)
  ultimately have "\<exists>s'. (step sv)\<^sup>*\<^sup>* ?s s' \<and> at_work s' \<and> n_todo s' = cs \<and> n_out s' = n_out ?s"
    using Cons.prems(3) by (intro Cons.IH) simp_all
  then show ?case using converse_rtranclp_into_rtranclp [of "step sv", OF st] by auto
qed auto

text \<open>What was put before the error is discarded as long as none of it was sent.\<close>

lemma put_calls_run:
  assumes "at_work s" "n_todo s = put_calls out @ cs" "length out \<le> 1458"
  shows "\<exists>s'. (step sv)\<^sup>*\<^sup>* s s' \<and> at_work s' \<and> n_todo s' = cs \<and> n_out s' = n_out s"
proof (cases "out = []")
  case False
  let ?s = "s \<lparr> n_srv := reset_as OP_RSLT_SYN TYPE_TXT (n_srv s), n_todo := map Put (to_bytes out) @ cs \<rparr>"
  obtain x y xs where x: "f_buffer (n_srv s) = x # y # xs" "length xs = 1466" using buffer_start [OF assms(1)] .
  have "step sv s (srv_call (Reset_as OP_RSLT_SYN TYPE_TXT) (map Put (to_bytes out) @ cs) s)"
    by (rule step_call) (use assms False in \<open>simp_all add: at_work_def put_calls_def\<close>)
  then have st: "step sv s ?s" by simp
  have "at_work ?s" "f_size (n_srv ?s) = 2"
    using assms(1) x by (auto simp: at_work_def both_ok_def client_ok_def reset_as_def reset_to_def set_type_def set_opcode_def
        fsm_reset_def buf_ok_def is_server_def)
  moreover have "length (to_bytes out) \<le> 1458" using assms(3) by (simp add: to_bytes_def)
  ultimately have "\<exists>s'. (step sv)\<^sup>*\<^sup>* ?s s' \<and> at_work s' \<and> n_todo s' = cs \<and> n_out s' = n_out ?s"
    by (intro puts_run) simp_all
  then show ?thesis using converse_rtranclp_into_rtranclp [of "step sv", OF st] by auto
qed (use assms in \<open>auto simp: put_calls_def\<close>)

lemma error_runs:
  assumes "asked m s" "length m \<le> 1458" "sv_answer sv m = put_calls out @ report_error msg" "length out \<le> 1458"
    "length msg \<le> 1457" "CHR 0x00 \<notin> set msg"
  shows "\<exists>s'. (step sv)\<^sup>*\<^sup>* s s' \<and> idle s' \<and> n_out s' = n_out s @ to_bytes (msg @ [NL])"
proof -
  let ?t = "n_out s @ to_bytes (msg @ [NL])" and ?u = "srv_handle sv (6 # 0 # m) (s \<lparr> n_to_srv := [], n_waiting := False \<rparr>)"
  have u: "step sv s ?u" by (rule step_srv) (use assms(1) in \<open>auto simp: asked_def\<close>)
  note au = asked_step [OF assms(1,2) u]
  have "at_work ?u" "n_todo ?u = put_calls out @ report_error msg" using au assms(3) by (simp_all add: at_work_def)
  from put_calls_run [OF this assms(4), of sv] au obtain w where
    w: "(step sv)\<^sup>*\<^sup>* ?u w" "at_work w" "n_todo w = report_error msg" "n_out w = n_out s" by auto
  let ?v = "srv_call (Reset_to OP_STMT_ERR) (map Put (to_bytes (msg @ [NL])) @ [Flush]) w"
  have v: "step sv w ?v" by (rule step_call) (use w in \<open>simp_all add: report_error_def at_work_def\<close>)
  obtain x y xs where x: "f_buffer (n_srv w) = x # y # xs" "length xs = 1466" using buffer_start [OF w(2)] .
  have "0 \<notin> set (to_bytes (msg @ [NL]))" "length (to_bytes (msg @ [NL])) \<le> 1458"
    using assms(5,6) zero_byte [of "msg @ [NL]"] by (simp_all add: to_bytes_def)
  then have "err_building ?t ?v"
    unfolding err_building_def using w x
    by (auto simp: at_work_def both_ok_def client_ok_def reset_to_def set_opcode_def fsm_reset_def buf_ok_def is_server_def
      get_opcode_def payload_def)
  with err_ends [of ?t ?v sv] obtain s' where "(step sv)\<^sup>*\<^sup>* ?v s'" "idle s'" "n_out s' = ?t" by blast
  with u v w(1) show ?thesis by (meson converse_rtranclp_into_rtranclp rtranclp_trans)
qed

lemma put_calls_result: "out \<noteq> [] \<Longrightarrow> put_calls out @ finish = result_calls (map Put (to_bytes out))"
  by (simp add: put_calls_def result_calls_def)

lemma puts_map_Put [simp]: "puts (map Put bs) = bs"
  by (induction bs) simp_all


text \<open>A statement that is none, and what the client prints.\<close>

definition bare_env :: environment where
  "bare_env = \<lparr> en_code = [], en_data = [], en_db_name = [], en_tables = (\<lambda>_. None), en_granted = (\<lambda>_ _ _. True),
     en_elapsed = zero_f32 False, en_other = (\<lambda>_. throw (Undefined ''other'')), en_source = (\<lambda>_. None) \<rparr>"

definition bare_services :: services where
  "bare_services = \<lparr> sv_pubkey = [], sv_decrypt = (\<lambda>p. p), sv_hash = Some, sv_in_subnet = (\<lambda>_. Some True), sv_creds = Inr [],
     sv_answer = answer_stmt bare_env \<rparr>"

lemma bare_parse: "fst (parse ''x;'') = Inl (Runtime_rem ERRNO_TOKEN_ERROR ''x;'')"
  by code_simp

lemma bare_what: "what (Runtime_rem ERRNO_TOKEN_ERROR ''x;'') = ''ERROR<1900> Unexpected token: x;''"
  by code_simp


end
