(* ===== verification/Login.thy ===== *)
theory Login
  imports Session
begin

text \<open>
  The server against any peer at all, well behaved or not: no statement
  is taken before a login, because the table of the machine has no entry for a statement
  behind an opcode the server sends before one.
\<close>

section \<open>Any peer\<close>

text \<open>The server makes its calls; whenever it waits for a message, any message may come. The list has the messages so far.\<close>

inductive any_peer :: "services \<Rightarrow> net \<Rightarrow> byte list list \<Rightarrow> net \<Rightarrow> bool" for sv s0 where
  peer_start: "any_peer sv s0 [] s0"
| peer_call: "any_peer sv s0 ms s \<Longrightarrow> n_todo s = c # cs \<Longrightarrow> \<not> n_waiting s \<Longrightarrow> any_peer sv s0 ms (srv_call c cs s)"
| peer_message: "any_peer sv s0 ms s \<Longrightarrow> OPCODE_SZ \<le> length m \<Longrightarrow> length m \<le> COMM_BUFFER_SZ
    \<Longrightarrow> n_waiting s \<or> n_todo s = [] \<Longrightarrow> f_loop (n_srv s)
    \<Longrightarrow> any_peer sv s0 (m # ms) (srv_handle sv m (s \<lparr> n_waiting := False \<rparr>))"

text \<open>A new connection, and a message with the credentials of a user.\<close>

definition connected :: "byte list \<Rightarrow> net \<Rightarrow> bool" where
  "connected mem s \<longleftrightarrow> length mem = COMM_BUFFER_SZ + PAD \<and> n_srv s = fsm_new TYPE_SERVER mem \<and> n_todo s = [] \<and> \<not> n_waiting s"

definition credentials :: "services \<Rightarrow> byte list \<Rightarrow> bool" where
  "credentials sv p \<longleftrightarrow> (\<exists>rows host user pwrd. sv_creds sv = Inr rows \<and> (host, user, pwrd) \<in> set rows
     \<and> sv_in_subnet sv host = Some True \<and> user = cred_user (sv_decrypt sv p)
     \<and> sv_hash sv (cred_password (sv_decrypt sv p)) = Some pwrd)"

lemma cred_loop_row:
  "cred_loop in_subnet username hashcode rows
    \<Longrightarrow> \<exists>host. (host, username, hashcode) \<in> set rows \<and> in_subnet host = Some True"
  by (induction in_subnet username hashcode rows rule: cred_loop.induct) (auto split: option.splits if_splits)

lemma authenticate_credentials:
  "snd (authenticate sv (cred_user (sv_decrypt sv p)) (cred_password (sv_decrypt sv p))) \<Longrightarrow> credentials sv p"
  by (auto simp: authenticate_def credentials_def split: sum.splits option.splits dest!: cred_loop_row)

section \<open>Before the login\<close>

abbreviation early :: "int set" where
  "early \<equiv> {OP_TERM_ACK, OP_CONN_ACK, OP_AUTH_ERR}"

text \<open>Calls that send early opcodes only; the flag says that the opcode in the buffer is one.\<close>

fun early_calls :: "bool \<Rightarrow> call list \<Rightarrow> bool" where
  "early_calls g [] = True"
| "early_calls g (Reset_as c ty # cs) = (c \<in> early \<and> early_calls True cs)"
| "early_calls g (Reset_to c # cs) = (c \<in> early \<and> early_calls True cs)"
| "early_calls g (Set_opcode c # cs) = (c \<in> early \<and> early_calls True cs)"
| "early_calls g (Put b # cs) = (g \<and> early_calls g cs)"
| "early_calls g (Flush # cs) = (g \<and> early_calls g cs)"
| "early_calls g (c # cs) = early_calls g cs"

definition before_login :: "net \<Rightarrow> bool" where
  "before_login s \<longleftrightarrow> \<not> n_waiting s \<and> f_opsent (n_srv s) \<in> insert OP_NULL early
     \<and> length (f_buffer (n_srv s)) = COMM_BUFFER_SZ + PAD
     \<and> (n_todo s = [] \<or> OPCODE_SZ \<le> f_size (n_srv s)) \<and> early_calls (get_opcode (n_srv s) \<in> early) (n_todo s)"

lemma early_calls_puts: "early_calls g (map Put bs @ cs) \<longleftrightarrow> (bs = [] \<or> g) \<and> early_calls g cs"
  by (induction bs) auto

lemma get_opcode_resets:
  assumes "2 \<le> length (f_buffer f)" "c \<in> early"
  shows "get_opcode (reset_to c f) = c" "get_opcode (reset_as c ty f) = c" "get_opcode (set_opcode c f) = c"
proof -
  have "0 < length (f_buffer f)" "0 \<le> c" "c < 256" using assms by auto
  then show "get_opcode (reset_to c f) = c" "get_opcode (reset_as c ty f) = c" "get_opcode (set_opcode c f) = c"
    by (simp_all add: get_opcode_def reset_to_def reset_as_def set_opcode_def set_type_def fsm_reset_def uint_word_of_int)
qed

lemma buffer_length [simp]:
  "length (f_buffer (reset_to c f)) = length (f_buffer f)" "length (f_buffer (reset_as c ty f)) = length (f_buffer f)"
  "length (f_buffer (set_opcode c f)) = length (f_buffer f)" "length (f_buffer (fsm_reset f)) = length (f_buffer f)"
  "length (f_buffer (store b f)) = length (f_buffer f)"
  by (simp_all add: reset_to_def reset_as_def set_opcode_def set_type_def fsm_reset_def store_def)

lemma size_opsent [simp]:
  "f_size (reset_to c f) = 2" "f_size (reset_as c ty f) = 2" "f_size (set_opcode c f) = f_size f" "f_size (fsm_reset f) = 2"
  "f_opsent (reset_to c f) = f_opsent f" "f_opsent (reset_as c ty f) = f_opsent f" "f_opsent (set_opcode c f) = f_opsent f"
  "f_opsent (fsm_reset f) = f_opsent f" "f_opsent (store b f) = f_opsent f" "f_size (store b f) = Suc (f_size f)"
  by (simp_all add: reset_to_def reset_as_def set_opcode_def set_type_def fsm_reset_def store_def)

lemma get_opcode_same [simp]:
  "get_opcode (fsm_reset f) = get_opcode f" "get_opcode (f \<lparr> f_opsent := c \<rparr>) = get_opcode f"
  "get_opcode (f \<lparr> f_loop := l \<rparr>) = get_opcode f"
  "0 < f_size f \<Longrightarrow> get_opcode (store b f) = get_opcode f"
  by (simp_all add: get_opcode_def fsm_reset_def cont_def fsm_term_def store_def)

lemma flush_before_login:
  assumes "before_login s" "get_opcode (n_srv s) \<in> early" "early_calls True (n_todo s)"
  shows "before_login (srv_flush s)"
  using assms by (auto simp: before_login_def srv_flush_def conn_send_def Let_def)

lemma call_before_login:
  assumes "before_login s" "n_todo s = c # cs"
  shows "before_login (srv_call c cs s)"
proof (cases c)
  case (Put b)
  then show ?thesis
    using assms flush_before_login [OF assms(1)]
    by (auto simp: before_login_def)
next
  case Flush
  have "before_login (s \<lparr> n_todo := cs \<rparr>)" "get_opcode (n_srv s) \<in> early" "early_calls True cs"
    using assms Flush by (auto simp: before_login_def)
  then show ?thesis using Flush flush_before_login by simp
qed (use assms in \<open>auto simp: before_login_def get_opcode_resets cont_def fsm_term_def\<close>)

text \<open>A message before the login: at most the login itself ends that state.\<close>

lemma opcode_received: "get_opcode (conn_recv m f) = uint (m ! 0)" if "2 \<le> length m"
  using that by (cases m) (simp_all add: get_opcode_def conn_recv_def)

lemma reaction_before_login:
  assumes "f_opsent f \<in> insert OP_NULL early" "reaction srv_fsm f = Rcvd"
  shows "get_opcode f \<in> {OP_TERM_SYN, OP_CONN_SYN, OP_AUTH_SYN}"
proof -
  have "get_opcode f \<in> {0..6}"
    using assms(2) by (simp add: reaction_def Let_def oprcvd_max_def srv_fsm_def split: if_splits)
  then have "get_opcode f \<in> {0, 1, 2, 3, 4, 5, 6}" by auto
  then show ?thesis using assms by (auto simp: reaction_def Let_def oprcvd_max_def srv_fsm_def)
qed

lemma message_before_login:
  assumes "before_login s" "n_todo s = []" "2 \<le> length m" "length m \<le> COMM_BUFFER_SZ"
  shows "before_login (srv_handle sv m (s \<lparr> n_waiting := False \<rparr>)) \<or> uint (m ! 0) = OP_AUTH_SYN \<and> credentials sv (drop 2 m)"
proof -
  let ?f = "conn_recv m (n_srv s)"
  have f: "length (f_buffer ?f) = COMM_BUFFER_SZ + PAD" "f_opsent ?f = f_opsent (n_srv s)" "f_size ?f = length m"
      "payload ?f = drop 2 m"
    using assms(1,4) by (auto simp: before_login_def conn_recv_def payload_def)
  show ?thesis
  proof (cases "reaction srv_fsm ?f")
    case Nop
    then show ?thesis using assms f by (auto simp: srv_handle_def Let_def before_login_def fsm_term_def)
  next
    case Rcvd
    have "get_opcode ?f \<in> {OP_TERM_SYN, OP_CONN_SYN, OP_AUTH_SYN}"
      using reaction_before_login [OF _ Rcvd] assms(1) f(2) by (auto simp: before_login_def)
    moreover have "early_calls g (srv_rcvd sv ?f)" if "get_opcode ?f \<noteq> OP_AUTH_SYN \<or> \<not> credentials sv (drop 2 m)" for g
      using calculation that authenticate_credentials [of sv "drop 2 m"]
      by (auto simp: srv_rcvd_def Let_def early_calls_puts f authenticate_def split: sum.splits option.splits)
    moreover have "srv_handle sv m (s \<lparr> n_waiting := False \<rparr>) = s \<lparr> n_waiting := False, n_srv := ?f, n_todo := srv_rcvd sv ?f \<rparr>"
      using assms(2) Rcvd by (simp add: srv_handle_def Let_def)
    ultimately show ?thesis
      using assms f opcode_received [OF assms(3)] by (auto simp: before_login_def)
  qed
qed

lemma peer_before_login:
  assumes "any_peer sv s0 ms s" "connected mem s0"
  shows "before_login s \<or> (\<exists>a \<in> set ms. uint (a ! 0) = OP_AUTH_SYN \<and> credentials sv (drop 2 a))"
  using assms(1)
proof induction
  case peer_start
  then show ?case using assms(2) by (simp add: connected_def before_login_def fsm_new_def)
next
  case (peer_call ms s c cs)
  then show ?case using call_before_login by blast
next
  case (peer_message ms s m)
  then show ?case using message_before_login [of s m sv] by (auto simp: before_login_def)
qed


text \<open>A login of the user a with the password b.\<close>

fun serve :: "nat \<Rightarrow> net \<Rightarrow> net" where
  "serve 0 s = s"
| "serve (Suc n) s = (case n_todo s of [] \<Rightarrow> s | c # cs \<Rightarrow> if n_waiting s then s else serve n (srv_call c cs s))"

lemma any_peer_serve: "any_peer sv s0 ms s \<Longrightarrow> any_peer sv s0 ms (serve n s)"
  by (induction n s rule: serve.induct) (auto split: list.splits intro: peer_call)

definition login_net :: "nat \<Rightarrow> net" where
  "login_net k = (let s = idle_net \<lparr> n_srv := fsm_new TYPE_SERVER (replicate 1468 0) \<rparr>;
       t = serve 2 (srv_handle hello_services [4, 0] (s \<lparr> n_waiting := False \<rparr>))
     in if k = 0 then s else if k = 1 then t
        else serve 2 (srv_handle hello_services [5, 1, 97, 32, 98] (t \<lparr> n_waiting := False \<rparr>)))"

lemma login_net_eqs:
  "login_net 1 = serve 2 (srv_handle hello_services [4, 0] (login_net 0 \<lparr> n_waiting := False \<rparr>))"
  "login_net 2 = serve 2 (srv_handle hello_services [5, 1, 97, 32, 98] (login_net 1 \<lparr> n_waiting := False \<rparr>))"
  by (simp_all add: login_net_def Let_def)

lemma login_net_facts:
  "n_todo (login_net 0) = [] \<and> f_loop (n_srv (login_net 0))"
  "n_todo (login_net 1) = [] \<and> f_loop (n_srv (login_net 1))"
  "n_todo (login_net 2) = []"
  "reaction srv_fsm (conn_recv [6, 0, 59] (n_srv (login_net 2))) = Rcvd"
  by code_simp+


end
